(* ===== verification/Prelude.thy ===== *)
theory Prelude
  imports Main "HOL-Library.Word" "HOL-Library.Signed_Division" "HOL-Library.Monad_Syntax"
begin

text \<open>
  The vocabulary every component shares. Machine integers keep their C++ width
  (\<open>std::uint8_t\<close> is \<open>8 word\<close> and so on), a byte buffer or a
  \<open>std::array<std::uint8_t, N>\<close> is a byte list, \<open>std::optional\<close> is \<open>option\<close> and a
  \<open>chrono\<close> time point or duration is an \<open>int\<close> of nanoseconds. The two buffer
  primitives are \<open>memcpy\<close> out of a buffer (\<open>read_at\<close>) and into one (\<open>write_at\<close>); the
  collection \<open>buf_simps\<close> says how they commute.
\<close>

unbundle bit_operations_syntax

named_theorems buf_simps \<open>reading back what was written into a byte buffer\<close>
named_theorems len_simps \<open>lengths of the buffers the operations build\<close>

type_synonym byte = "8 word"
type_synonym u16 = "16 word"
type_synonym u32 = "32 word"
type_synonym u64 = "64 word"
type_synonym bytes = "8 word list"
type_synonym duration = int
type_synonym time_point = int

section \<open>Buffers\<close>

definition zeros :: "nat \<Rightarrow> bytes" where
  "zeros n = replicate n 0"

definition all_zero :: "bytes \<Rightarrow> bool" where
  "all_zero xs = list_all (\<lambda>b. b = 0) xs"

definition read_at :: "nat \<Rightarrow> nat \<Rightarrow> 'a list \<Rightarrow> 'a list" where
  "read_at off n xs = take n (drop off xs)"

definition write_at :: "nat \<Rightarrow> 'a list \<Rightarrow> 'a list \<Rightarrow> 'a list" where
  "write_at off src dst = take off dst @ src @ drop (off + length src) dst"

text \<open>\<open>std::copy\<close> of a container to the start of a fixed array.\<close>

definition copy_into :: "'a list \<Rightarrow> 'a list \<Rightarrow> 'a list" where
  "copy_into dst src = write_at 0 src dst"

lemma length_zeros [simp, len_simps]: "length (zeros n) = n"
  by (simp add: zeros_def)

lemma all_zero_zeros [simp]: "all_zero (zeros n)"
  by (simp add: all_zero_def zeros_def list_all_iff)

lemma all_zero_iff: "all_zero xs \<longleftrightarrow> xs = zeros (length xs)"
  by (induction xs) (auto simp: all_zero_def zeros_def)

lemma length_read_at [simp, len_simps]:
  "off + n \<le> length xs \<Longrightarrow> length (read_at off n xs) = n"
  by (simp add: read_at_def)

lemma length_write_at [simp, len_simps]:
  "off + length src \<le> length dst \<Longrightarrow> length (write_at off src dst) = length dst"
  by (simp add: write_at_def)

lemma read_at_write_at_same [buf_simps]:
  "off + length src \<le> length dst \<Longrightarrow> n = length src \<Longrightarrow> read_at off n (write_at off src dst) = src"
  by (simp add: read_at_def write_at_def)

lemma read_at_write_at_below [buf_simps]:
  "off + n \<le> off' \<Longrightarrow> off' + length src \<le> length dst \<Longrightarrow>
   read_at off n (write_at off' src dst) = read_at off n dst"
  by (simp add: read_at_def write_at_def drop_take)

lemma read_at_write_at_above [buf_simps]:
  assumes "off' + length src \<le> off" and "off' + length src \<le> length dst"
  shows "read_at off n (write_at off' src dst) = read_at off n dst"
proof -
  have "drop off (write_at off' src dst) = drop off dst"
    using assms by (simp add: write_at_def)
  then show ?thesis by (simp add: read_at_def)
qed

lemma copy_into_full [simp]: "length src = length dst \<Longrightarrow> copy_into dst src = src"
  by (simp add: copy_into_def write_at_def)

lemma write_at_nth_below [buf_simps]:
  "i < off \<Longrightarrow> off \<le> length dst \<Longrightarrow> write_at off src dst ! i = dst ! i"
  by (simp add: write_at_def nth_append)

lemma read_at_split:
  "off + n + m \<le> length xs \<Longrightarrow> read_at off n xs @ read_at (off + n) m xs = read_at off (n + m) xs"
  by (simp add: read_at_def take_add add.commute [of off n])

lemma read_at_all: "n = length xs \<Longrightarrow> read_at 0 n xs = xs"
  by (simp add: read_at_def)

lemma nth_read_at: "i < n \<Longrightarrow> off + n \<le> length xs \<Longrightarrow> read_at off n xs ! i = xs ! (off + i)"
  by (simp add: read_at_def)

text \<open>Filling a zeroed buffer from the front, and reading a concatenation back.\<close>

lemma write_at_zeros [buf_simps]:
  "off = length pre \<Longrightarrow> write_at off src (pre @ zeros n) = pre @ src @ zeros (n - length src)"
  by (simp add: write_at_def zeros_def)

lemma write_at_zeros_0 [buf_simps]: "write_at 0 src (zeros n) = src @ zeros (n - length src)"
  by (simp add: write_at_def zeros_def)

lemma zeros_0 [simp]: "zeros 0 = []"
  by (simp add: zeros_def)

lemma read_at_append_skip [buf_simps]:
  "length as \<le> off \<Longrightarrow> read_at off n (as @ bs) = read_at (off - length as) n bs"
  by (simp add: read_at_def)

lemma read_at_append_here [buf_simps]:
  "n = length as \<Longrightarrow> read_at 0 n (as @ bs) = as"
  by (simp add: read_at_def)

lemma read_at_self [buf_simps]: "n = length as \<Longrightarrow> read_at 0 n as = as"
  by (simp add: read_at_def)

lemma read_at_join:
  "off' = off + n \<Longrightarrow> off + n + m \<le> length xs \<Longrightarrow>
   read_at off n xs @ read_at off' m xs @ rest = read_at off (n + m) xs @ rest"
  "off' = off + n \<Longrightarrow> off + n + m \<le> length xs \<Longrightarrow>
   read_at off n xs @ read_at off' m xs = read_at off (n + m) xs"
  using read_at_split [of off n m xs] by (simp_all flip: append_assoc)

section \<open>Options\<close>

text \<open>An early \<open>return std::nullopt\<close> on a failed condition.\<close>

definition require :: "bool \<Rightarrow> unit option" where
  "require b = (if b then Some () else None)"

lemma require_simps [simp]: "require True = Some ()" "require False = None"
  by (simp_all add: require_def)

lemma require_eq_Some [simp]: "require b = Some u \<longleftrightarrow> b"
  by (simp add: require_def)

lemma require_eq_None [simp]: "require b = None \<longleftrightarrow> \<not> b"
  by (simp add: require_def)

section \<open>Time\<close>

text \<open>
  \<open>std::chrono\<close> durations in nanoseconds; \<open>duration_cast\<close> to seconds truncates towards
  zero, as C++ integer division does.
\<close>

definition chrono_seconds :: "int \<Rightarrow> duration" where
  "chrono_seconds n = n * 1000000000"

definition chrono_milliseconds :: "int \<Rightarrow> duration" where
  "chrono_milliseconds n = n * 1000000"

definition cast_seconds :: "duration \<Rightarrow> int" where
  "cast_seconds d = d sdiv 1000000000"

section \<open>Words\<close>

lemma unat_less_2p64: "unat (w :: u64) < 18446744073709551616"
  using unsigned_less [of w] by simp

lemma unat_less_2p32: "unat (w :: u32) < 4294967296"
  using unsigned_less [of w] by simp

lemma byte_cases_nat: "unat (b :: byte) < 256"
  using unsigned_less [of b] by simp

end
