(* ===== verification/BitUtils.thy ===== *)
theory BitUtils
  imports Prelude
begin

text \<open>
  \<open>core/utils/bit_utils.hpp\<close>, \<open>bit_utils.cpp\<close>, \<open>hex_helpers.tpp\<close> and
  \<open>core/os/linux/secure_memory.cpp\<close>: the FNV-1a hash, bits to bytes and back, the
  little-endian 64-bit accessors, hexadecimal text and the constant-time comparison.
\<close>

section \<open>FNV-1a\<close>

fun fnv1a_loop :: "u64 \<Rightarrow> bytes \<Rightarrow> u64" where
  "fnv1a_loop hash [] = hash"
| "fnv1a_loop hash (b # bs) = fnv1a_loop ((hash XOR ucast b) * 1099511628211) bs"

definition Fnv1a :: "bytes \<Rightarrow> u64" where
  "Fnv1a data = fnv1a_loop 14695981039346656037 data"

section \<open>Bits and bytes\<close>

text \<open>One output byte of \<open>BitsToBytes\<close>: bit \<open>j\<close> of the byte is the low bit of \<open>bits[base + j]\<close>.\<close>

fun bits_to_byte :: "nat \<Rightarrow> bytes \<Rightarrow> byte" where
  "bits_to_byte j [] = 0"
| "bits_to_byte j (b # bs) = push_bit j (b AND 1) OR bits_to_byte (Suc j) bs"

definition BitsToBytes :: "bytes \<Rightarrow> bytes" where
  "BitsToBytes bits = map (\<lambda>i. bits_to_byte 0 (read_at (i * 8) 8 bits)) [0..<length bits div 8]"

fun byte_to_bits :: "nat \<Rightarrow> byte \<Rightarrow> bytes" where
  "byte_to_bits 0 c = []"
| "byte_to_bits (Suc n) c = (c AND 1) # byte_to_bits n (drop_bit 1 c)"

definition BytesToBits :: "bytes \<Rightarrow> bytes" where
  "BytesToBits bs = concat (map (byte_to_bits 8) bs)"

lemma length_byte_to_bits [simp]: "length (byte_to_bits n c) = n"
  by (induction n arbitrary: c) simp_all

lemma length_BytesToBits [simp, len_simps]: "length (BytesToBits bs) = 8 * length bs"
  by (induction bs) (simp_all add: BytesToBits_def)

lemma BytesToBits_Cons: "BytesToBits (b # bs) = byte_to_bits 8 b @ BytesToBits bs"
  by (simp add: BytesToBits_def)

lemma bit_bits_to_byte_byte_to_bits:
  "bit (bits_to_byte j (byte_to_bits n c)) k \<longleftrightarrow> j \<le> k \<and> k < j + n \<and> k < 8 \<and> bit c (k - j)"
proof (induction n arbitrary: j c)
  case 0
  then show ?case by simp
next
  case (Suc n)
  then show ?case
    by (auto simp: bit_simps bit_1_iff Suc_le_eq Suc_diff_le Suc_diff_Suc not_less le_Suc_eq le_less)
qed

lemma bits_to_byte_inverse: "bits_to_byte 0 (byte_to_bits 8 c) = c"
  by (rule bit_word_eqI) (simp add: bit_bits_to_byte_byte_to_bits)


lemma read_at_BytesToBits_Suc:
  "read_at (Suc i * 8) 8 (BytesToBits (b # bs)) = read_at (i * 8) 8 (BytesToBits bs)"
  by (simp add: BytesToBits_Cons read_at_def)

lemma read_at_BytesToBits_0: "read_at 0 8 (BytesToBits (b # bs)) = byte_to_bits 8 b"
  by (simp add: BytesToBits_Cons read_at_def)

lemma read_at_BytesToBits:
  "i < length bs \<Longrightarrow> read_at (i * 8) 8 (BytesToBits bs) = byte_to_bits 8 (bs ! i)"
proof (induction bs arbitrary: i)
  case Nil
  then show ?case by simp
next
  case (Cons b bs)
  then show ?case
    by (cases i) (simp_all add: read_at_BytesToBits_0 read_at_BytesToBits_Suc del: mult_Suc)
qed

text \<open>Unpacking a byte string into one bit per byte and packing it again gives it back.\<close>

theorem BitsToBytes_BytesToBits: "BitsToBytes (BytesToBits bs) = bs"
  by (rule nth_equalityI)
    (simp_all add: BitsToBytes_def read_at_BytesToBits bits_to_byte_inverse)

section \<open>Little-endian 64-bit accessors\<close>

text \<open>
  \<open>load64_le\<close> and \<open>store64_le\<close> copy eight bytes and swap them on a big-endian host, so
  on every host byte \<open>i\<close> of the buffer is bits \<open>8 * i\<close> to \<open>8 * i + 7\<close> of the value.
\<close>

fun le_word :: "bytes \<Rightarrow> 'a::len word" where
  "le_word [] = 0"
| "le_word (b # bs) = ucast b OR push_bit 8 (le_word bs)"

fun le_bytes :: "nat \<Rightarrow> 'a::len word \<Rightarrow> bytes" where
  "le_bytes 0 w = []"
| "le_bytes (Suc n) w = ucast w # le_bytes n (drop_bit 8 w)"

definition load64_le :: "nat \<Rightarrow> bytes \<Rightarrow> u64" where
  "load64_le off src = le_word (read_at off 8 src)"

definition store64_le :: "nat \<Rightarrow> u64 \<Rightarrow> bytes \<Rightarrow> bytes" where
  "store64_le off val dst = write_at off (le_bytes 8 val) dst"

lemma length_le_bytes [simp, len_simps]: "length (le_bytes n w) = n"
  by (induction n arbitrary: w) simp_all

lemma length_store64_le [simp, len_simps]:
  "off + 8 \<le> length dst \<Longrightarrow> length (store64_le off v dst) = length dst"
  by (simp add: store64_le_def)

lemma bit_le_word_le_bytes:
  fixes w :: "'a::len word"
  shows "bit (le_word (le_bytes n w) :: 'a word) k \<longleftrightarrow> k < 8 * n \<and> bit w k"
proof (induction n arbitrary: w k)
  case 0
  then show ?case by simp
next
  case (Suc n)
  show ?case
    by (auto simp: bit_simps Suc.IH not_less dest: bit_imp_le_length)
qed

lemma le_word_le_bytes:
  fixes w :: "'a::len word"
  assumes "LENGTH('a) \<le> 8 * n"
  shows "le_word (le_bytes n w) = w"
  by (rule bit_word_eqI) (use assms in \<open>auto simp: bit_le_word_le_bytes\<close>)

lemma le_bytes_inject:
  fixes v w :: "'a::len word"
  assumes "LENGTH('a) \<le> 8 * n" and "le_bytes n v = le_bytes n w"
  shows "v = w"
proof -
  have "le_word (le_bytes n v) = (le_word (le_bytes n w) :: 'a word)"
    using assms(2) by simp
  then show ?thesis using assms(1) by (simp add: le_word_le_bytes)
qed

lemma bit_le_word_bound: "bit (le_word bs :: 'a::len word) k \<Longrightarrow> k < 8 * length bs"
proof (induction bs arbitrary: k)
  case Nil
  then show ?case by simp
next
  case (Cons b bs)
  then have "k < 8 \<or> 8 \<le> k \<and> bit (le_word bs :: 'a word) (k - 8)"
    by (auto simp: bit_simps dest: bit_imp_le_length)
  then show ?case using Cons.IH [of "k - 8"] by auto
qed

lemma le_bytes_le_word:
  "8 * length bs \<le> LENGTH('a) \<Longrightarrow> n = length bs \<Longrightarrow> le_bytes n (le_word bs :: 'a::len word) = bs"
proof (induction bs arbitrary: n)
  case Nil
  then show ?case by simp
next
  case (Cons b bs)
  let ?w = "le_word bs :: 'a word"
  have "ucast (ucast b OR push_bit 8 ?w) = b"
    by (rule bit_word_eqI) (use Cons.prems in \<open>auto simp: bit_simps\<close>)
  moreover have "drop_bit 8 (ucast b OR push_bit 8 ?w) = ?w"
    by (rule bit_word_eqI)
      (use Cons.prems in \<open>auto simp: bit_simps dest: bit_imp_le_length bit_le_word_bound\<close>)
  ultimately show ?case using Cons by simp
qed

lemma load_store64_le [buf_simps]:
  "off + 8 \<le> length dst \<Longrightarrow> load64_le off (store64_le off v dst) = v"
  by (simp add: load64_le_def store64_le_def read_at_write_at_same le_word_le_bytes)

section \<open>Hexadecimal text\<close>

definition HexNibble :: "char \<Rightarrow> int" where
  "HexNibble c =
     (let n = of_char c :: int in
      if 48 \<le> n \<and> n \<le> 57 then n - 48
      else if 97 \<le> n \<and> n \<le> 102 then n - 97 + 10
      else if 65 \<le> n \<and> n \<le> 70 then n - 65 + 10
      else - 1)"

definition kHex_lower :: string where
  "kHex_lower = ''0123456789abcdef''"

fun ToHex :: "bytes \<Rightarrow> string" where
  "ToHex [] = []"
| "ToHex (b # bs) =
     kHex_lower ! unat (drop_bit 4 b) # kHex_lower ! unat (b AND 15) # ToHex bs"

text \<open>
  The decoding loop runs over the output indices. It stops at the first bad pair with the
  bytes before it already written, so the output buffer is part of the result.
\<close>

fun from_hex_loop :: "nat \<Rightarrow> nat \<Rightarrow> string \<Rightarrow> bytes \<Rightarrow> bool \<times> bytes" where
  "from_hex_loop 0 i s out = (True, out)"
| "from_hex_loop (Suc n) i s out =
     (let hi = HexNibble (s ! (i * 2)); lo = HexNibble (s ! (i * 2 + 1)) in
      if hi < 0 \<or> lo < 0 then (False, out)
      else from_hex_loop n (Suc i) s (out[i := word_of_int (push_bit 4 hi OR lo)]))"

definition FromHex :: "string \<Rightarrow> bytes \<Rightarrow> bool \<times> bytes" where
  "FromHex s out =
     (if length s \<noteq> length out * 2 then (False, out)
      else from_hex_loop (length out) 0 s out)"

text \<open>Upper-case variants with a \<open>0x\<close> prefix (\<open>hex_helpers.tpp\<close>).\<close>

definition kHex_upper :: string where
  "kHex_upper = ''0123456789ABCDEF''"

fun hex_upper_loop :: "bytes \<Rightarrow> string" where
  "hex_upper_loop [] = []"
| "hex_upper_loop (b # bs) =
     kHex_upper ! unat (drop_bit 4 b) # kHex_upper ! unat (b AND 15) # hex_upper_loop bs"

definition ToHexString_bytes :: "bytes \<Rightarrow> string" where
  "ToHexString_bytes data = (if data = [] then [] else ''0x'' @ hex_upper_loop data)"

fun hex_digits :: "nat \<Rightarrow> 'a::len word \<Rightarrow> string" where
  "hex_digits 0 value = []"
| "hex_digits (Suc i) value =
     kHex_upper ! unat (drop_bit (i * 4) value AND 15) # hex_digits i value"

definition ToHexString_uint :: "'a::len word \<Rightarrow> string" where
  "ToHexString_uint value = ''0x'' @ hex_digits (LENGTH('a) div 8 * 2) value"

section \<open>Constant-time comparison and zeroing\<close>

fun ct_memcmp_loop :: "u32 \<Rightarrow> bytes \<Rightarrow> bytes \<Rightarrow> bool" where
  "ct_memcmp_loop diff (a # as) (b # bs) = ct_memcmp_loop (diff OR (ucast a XOR ucast b)) as bs"
| "ct_memcmp_loop diff _ _ = (diff = 0)"

text \<open>The span overload: the lengths are compared first.\<close>

definition ct_memcmp :: "bytes \<Rightarrow> bytes \<Rightarrow> bool" where
  "ct_memcmp a b = (if length a \<noteq> length b then False else ct_memcmp_loop 0 a b)"

definition secure_zero :: "bytes \<Rightarrow> bytes" where
  "secure_zero arr = zeros (length arr)"


lemma hex_digit_nibble:
  assumes "n < 16"
  shows "HexNibble (kHex_lower ! n) = int n" and "HexNibble (kHex_upper ! n) = int n"
proof -
  have "n \<in> set [0..<16]" using assms by simp
  then show "HexNibble (kHex_lower ! n) = int n" and "HexNibble (kHex_upper ! n) = int n"
    by (auto simp: HexNibble_def kHex_lower_def kHex_upper_def upt_rec numeral_eq_Suc)
qed

lemma unat_high_nibble: "unat (drop_bit 4 (b :: byte)) < 16"
  using byte_cases_nat [of b] by (simp add: unat_drop_bit_eq drop_bit_eq_div unat_div)

lemma unat_low_nibble: "unat (b AND 15 :: byte) < 16"
proof -
  have "unat (b AND 15) \<le> unat (15 :: byte)"
    by (rule word_and_le1 [THEN word_le_nat_alt [THEN iffD1]])
  then show ?thesis by simp
qed

lemma nibbles_join:
  "word_of_int (push_bit 4 (uint (drop_bit 4 b)) OR uint (b AND 15)) = (b :: byte)"
proof -
  have low: "bit (15 :: byte) k \<longleftrightarrow> k < 4" for k
    using bit_mask_iff [of 4 k, where ?'a = byte] by (auto simp: mask_eq_exp_minus_1)
  have low_int: "bit (15 :: int) k \<longleftrightarrow> k < 4" for k
    using bit_mask_iff [of 4 k, where ?'a = int] by (auto simp: mask_eq_exp_minus_1)
  show ?thesis
    by (intro bit_word_eqI) (auto simp: bit_simps low low_int not_less)
qed

lemma length_ToHex [simp, len_simps]: "length (ToHex bs) = 2 * length bs"
  by (induction bs) simp_all

lemma nth_ToHex:
  "i < length bs \<Longrightarrow>
   ToHex bs ! (i * 2) = kHex_lower ! unat (drop_bit 4 (bs ! i)) \<and>
   ToHex bs ! (i * 2 + 1) = kHex_lower ! unat (bs ! i AND 15)"
proof (induction bs arbitrary: i)
  case Nil
  then show ?case by simp
next
  case (Cons b bs)
  then show ?case by (cases i) simp_all
qed

lemma from_hex_loop_ToHex:
  "i + n = length bs \<Longrightarrow> length out = length bs \<Longrightarrow> take i out = take i bs \<Longrightarrow>
   from_hex_loop n i (ToHex bs) out = (True, bs)"
proof (induction n arbitrary: i out)
  case 0
  then show ?case by simp
next
  case (Suc n)
  have i: "i < length bs" using Suc.prems(1) by simp
  let ?out = "out[i := bs ! i]"
  have "take (Suc i) ?out = take (Suc i) bs"
    using Suc.prems i by (simp add: take_Suc_conv_app_nth)
  then have IH: "from_hex_loop n (Suc i) (ToHex bs) ?out = (True, bs)"
    using Suc.prems by (intro Suc.IH) simp_all
  show ?case
    using IH nth_ToHex [OF i]
    by (simp add: hex_digit_nibble unat_high_nibble unat_low_nibble nibbles_join)
qed

text \<open>Decoding the hexadecimal text of a byte string gives the byte string back.\<close>

theorem FromHex_ToHex: "length out = length bs \<Longrightarrow> FromHex (ToHex bs) out = (True, bs)"
  by (simp add: FromHex_def from_hex_loop_ToHex)

theorem FromHex_ToHex_witness: "FromHex (ToHex [0, 171, 255]) (zeros 3) = (True, [0, 171, 255])"
  using FromHex_ToHex [of "zeros 3" "[0, 171, 255]"] by simp

lemma word_xor_eq_0: "x XOR y = 0 \<longleftrightarrow> x = y" for x y :: "'a::len word"
  by (metis xor.assoc xor.right_neutral xor_self_eq)

lemma word_or_eq_0: "x OR y = 0 \<longleftrightarrow> x = 0 \<and> y = 0" for x y :: "'a::len word"
  by (metis or.left_neutral or_eq_0_iff)

lemma ucast_byte_inject: "(ucast a :: u32) = ucast b \<longleftrightarrow> a = b" for a b :: byte
proof
  assume "(ucast a :: u32) = ucast b"
  then have eq: "bit (ucast a :: u32) k = bit (ucast b :: u32) k" for k by simp
  have "k < 8 \<Longrightarrow> bit a k = bit b k" for k using eq [of k] by (auto simp: bit_simps)
  then show "a = b" by (intro bit_word_eqI) simp
qed simp

lemma ct_memcmp_loop_eq:
  "length as = length bs \<Longrightarrow> ct_memcmp_loop diff as bs \<longleftrightarrow> diff = 0 \<and> as = bs"
proof (induction as bs arbitrary: diff rule: list_induct2)
  case Nil
  then show ?case by simp
next
  case (Cons a as b bs)
  have "(ucast a XOR ucast b :: u32) = 0 \<longleftrightarrow> a = b"
    by (simp add: word_xor_eq_0 ucast_byte_inject)
  then show ?case using Cons.IH by (auto simp: word_or_eq_0)
qed

text \<open>The constant-time comparison answers exactly equality of the two byte strings.\<close>

lemma ct_memcmp_iff [simp]: "ct_memcmp a b \<longleftrightarrow> a = b"
  by (auto simp: ct_memcmp_def ct_memcmp_loop_eq)

lemma secure_zero_all_zero [simp]: "all_zero (secure_zero a)"
  by (simp add: secure_zero_def)

lemma length_secure_zero [simp, len_simps]: "length (secure_zero a) = length a"
  by (simp add: secure_zero_def)

end
