(* ===== verification/CryptoLib.thy ===== *)
theory CryptoLib
  imports BitUtils
begin

text \<open>
  \<open>core/cryptography/\<close>: the wrappers \<open>blake3.cpp\<close>, \<open>chacha20_poly1305.cpp\<close>, \<open>x25519.cpp\<close>,
  \<open>ml_kem.cpp\<close> and \<open>hkdf.cpp\<close> around the BLAKE3 C library and OpenSSL's EVP interface. The
  libraries are a parameter: a record of functions, one per library call or group of calls
  whose effect the wrapper observes, with the calls' failures as \<open>False\<close> or \<open>None\<close>. The
  wrappers themselves (which calls, in which order, with which early return) are the code's.
  An \<open>EVP_PKEY\<close> is an opaque value of type \<open>'k\<close>.
\<close>

section \<open>The libraries\<close>

text \<open>
  The calls on a cipher context that return only success or failure, with the arguments the
  code passes.
\<close>

datatype cipher_call =
    CIPHER_CTX_new
  | CipherInit_cipher
  | CTRL_SET_IVLEN nat
  | CipherInit_key bytes bytes
  | Update_aad bytes
  | Update_data bytes
  | EncryptFinal
  | CTRL_GET_TAG nat
  | CTRL_SET_TAG bytes

text \<open>Likewise on a public-key context.\<close>

datatype pkey_call =
    PKEY_CTX_new string
  | Keygen_init
  | Derive_init
  | Derive_set_peer
  | Fromdata_init
  | Encapsulate_init
  | Decapsulate_init
  | Hkdf_derive_init

record 'k crypto =
  \<comment> \<open>BLAKE3: initialise (keyed with 32 bytes or not), update, finalise to \<open>n\<close> bytes\<close>
  blake3_out :: "bytes \<Rightarrow> nat \<Rightarrow> bytes"
  blake3_keyed_out :: "bytes \<Rightarrow> bytes \<Rightarrow> nat \<Rightarrow> bytes"
  \<comment> \<open>ChaCha20-Poly1305: key, nonce, additional data, plaintext or ciphertext (and tag)\<close>
  cipher_ok :: "cipher_call \<Rightarrow> bool"
  chacha_seal :: "bytes \<Rightarrow> bytes \<Rightarrow> bytes \<Rightarrow> bytes \<Rightarrow> bytes \<times> bytes"
  chacha_open :: "bytes \<Rightarrow> bytes \<Rightarrow> bytes \<Rightarrow> bytes \<Rightarrow> bytes \<Rightarrow> bytes option"
  \<comment> \<open>contexts, keys and key exchange\<close>
  pkey_ok :: "pkey_call \<Rightarrow> bool"
  raw_private_key :: "bytes \<Rightarrow> 'k option"
  raw_public_key :: "bytes \<Rightarrow> 'k option"
  get_raw_private :: "'k \<Rightarrow> bytes option"
  get_raw_public :: "'k \<Rightarrow> bytes option"
  x25519_keygen :: "bytes \<Rightarrow> 'k option"
  derive_len :: "'k \<Rightarrow> 'k \<Rightarrow> nat option"
  derive_secret :: "'k \<Rightarrow> 'k \<Rightarrow> bytes option"
  \<comment> \<open>ML-KEM: generation by algorithm name and entropy, import and export of octet strings\<close>
  mlkem_keygen :: "string \<Rightarrow> bytes \<Rightarrow> 'k option"
  fromdata_public :: "string \<Rightarrow> bytes \<Rightarrow> 'k option"
  fromdata_private :: "string \<Rightarrow> bytes \<Rightarrow> 'k option"
  octet_len :: "string \<Rightarrow> 'k \<Rightarrow> nat option"
  octet_get :: "string \<Rightarrow> 'k \<Rightarrow> nat \<Rightarrow> bytes option"
  encap_lens :: "'k \<Rightarrow> (nat \<times> nat) option"
  encap :: "'k \<Rightarrow> bytes \<Rightarrow> (bytes \<times> bytes) option"
  decap_len :: "'k \<Rightarrow> bytes \<Rightarrow> nat option"
  decap :: "'k \<Rightarrow> bytes \<Rightarrow> bytes option"
  \<comment> \<open>HKDF-SHA256 by mode: salt, key, info, output length\<close>
  hkdf_derive :: "string \<Rightarrow> bytes \<Rightarrow> bytes \<Rightarrow> bytes \<Rightarrow> nat \<Rightarrow> bytes option"

section \<open>BLAKE3\<close>

definition kDefaultHashBytes :: nat where
  "kDefaultHashBytes = 32"

definition Hash256 :: "'k crypto \<Rightarrow> bytes \<Rightarrow> bytes option" where
  "Hash256 lib input =
     (if input = [] then None else Some (blake3_out lib input kDefaultHashBytes))"

definition KeyedHash256 :: "'k crypto \<Rightarrow> bytes \<Rightarrow> bytes \<Rightarrow> bytes option" where
  "KeyedHash256 lib key input = Some (blake3_keyed_out lib key input kDefaultHashBytes)"

definition HashXof :: "'k crypto \<Rightarrow> bytes \<Rightarrow> nat \<Rightarrow> bytes option" where
  "HashXof lib input output_len =
     (if input = [] then None
      else if output_len = 0 then None
      else Some (blake3_out lib input output_len))"

section \<open>ChaCha20-Poly1305\<close>

definition kKeyBytes :: nat where "kKeyBytes = 32"
definition kNonceBytes :: nat where "kNonceBytes = 12"
definition kTagBytes :: nat where "kTagBytes = 16"

record EncryptResult =
  ciphertext :: bytes
  tag :: bytes

definition Encrypt :: "'k crypto \<Rightarrow> bytes \<Rightarrow> bytes \<Rightarrow> bytes \<Rightarrow> bytes \<Rightarrow> EncryptResult option" where
  "Encrypt lib plaintext key nonce aad = do {
     require (cipher_ok lib CIPHER_CTX_new);
     require (cipher_ok lib CipherInit_cipher);
     require (cipher_ok lib (CTRL_SET_IVLEN kNonceBytes));
     require (cipher_ok lib (CipherInit_key key nonce));
     require (aad = [] \<or> cipher_ok lib (Update_aad aad));
     require (cipher_ok lib (Update_data plaintext));
     require (cipher_ok lib EncryptFinal);
     require (cipher_ok lib (CTRL_GET_TAG kTagBytes));
     let (ct, t) = chacha_seal lib key nonce aad plaintext;
     Some \<lparr>ciphertext = ct, tag = t\<rparr>
   }"

definition Decrypt :: "'k crypto \<Rightarrow> bytes \<Rightarrow> bytes \<Rightarrow> bytes \<Rightarrow> bytes \<Rightarrow> bytes \<Rightarrow> bytes option" where
  "Decrypt lib ct t key nonce aad = do {
     require (cipher_ok lib CIPHER_CTX_new);
     require (cipher_ok lib CipherInit_cipher);
     require (cipher_ok lib (CTRL_SET_IVLEN kNonceBytes));
     require (cipher_ok lib (CipherInit_key key nonce));
     require (aad = [] \<or> cipher_ok lib (Update_aad aad));
     require (cipher_ok lib (Update_data ct));
     require (cipher_ok lib (CTRL_SET_TAG t));
     chacha_open lib key nonce aad ct t
   }"

text \<open>\<open>GenerateKey\<close> and \<open>GenerateNonce\<close>: the argument is what \<open>RAND_bytes\<close> filled in, or its failure.\<close>

definition GenerateKey :: "bytes option \<Rightarrow> bytes option" where
  "GenerateKey rand = do { r \<leftarrow> rand; Some (copy_into (zeros kKeyBytes) r) }"

definition GenerateNonce :: "bytes option \<Rightarrow> bytes option" where
  "GenerateNonce rand = do { r \<leftarrow> rand; Some (copy_into (zeros kNonceBytes) r) }"

section \<open>X25519\<close>

definition kSharedSecretBytes :: nat where "kSharedSecretBytes = 32"

definition PkeyFromPrivateBytes :: "'k crypto \<Rightarrow> bytes \<Rightarrow> 'k option" where
  "PkeyFromPrivateBytes lib private_key = raw_private_key lib private_key"

definition PkeyFromPublicBytes :: "'k crypto \<Rightarrow> bytes \<Rightarrow> 'k option" where
  "PkeyFromPublicBytes lib public_key = raw_public_key lib public_key"

text \<open>\<open>seed\<close> is the entropy OpenSSL draws for the new key; the result is private and public key.\<close>

definition x25519_GenerateKeyPair :: "'k crypto \<Rightarrow> bytes \<Rightarrow> (bytes \<times> bytes) option" where
  "x25519_GenerateKeyPair lib seed = do {
     require (pkey_ok lib (PKEY_CTX_new ''X25519''));
     require (pkey_ok lib Keygen_init);
     pkey \<leftarrow> x25519_keygen lib seed;
     priv \<leftarrow> get_raw_private lib pkey;
     pub \<leftarrow> get_raw_public lib pkey;
     Some (priv, pub)
   }"

definition DeriveSharedSecret :: "'k crypto \<Rightarrow> bytes \<Rightarrow> bytes \<Rightarrow> bytes option" where
  "DeriveSharedSecret lib private_key peer_public_key = do {
     our_pkey \<leftarrow> PkeyFromPrivateBytes lib private_key;
     peer_pkey \<leftarrow> PkeyFromPublicBytes lib peer_public_key;
     require (pkey_ok lib (PKEY_CTX_new ''our_pkey''));
     require (pkey_ok lib Derive_init);
     require (pkey_ok lib Derive_set_peer);
     secret_len \<leftarrow> derive_len lib our_pkey peer_pkey;
     require (secret_len = kSharedSecretBytes);
     derive_secret lib our_pkey peer_pkey
   }"

definition PublicKeyFromPrivate :: "'k crypto \<Rightarrow> bytes \<Rightarrow> bytes option" where
  "PublicKeyFromPrivate lib private_key = do {
     pkey \<leftarrow> PkeyFromPrivateBytes lib private_key;
     get_raw_public lib pkey
   }"

section \<open>ML-KEM\<close>

datatype ParameterSet = ML_KEM_512 | ML_KEM_768 | ML_KEM_1024

fun ParameterSetName :: "ParameterSet \<Rightarrow> string" where
  "ParameterSetName ML_KEM_512 = ''ML-KEM-512''"
| "ParameterSetName ML_KEM_768 = ''ML-KEM-768''"
| "ParameterSetName ML_KEM_1024 = ''ML-KEM-1024''"

record 'k mlkem_KeyPair =
  pkey :: 'k
  public_key :: bytes

record EncapsulationResult =
  encaps_ciphertext :: bytes
  shared_secret :: bytes

definition mlkem_PkeyFromPublicBytes :: "'k crypto \<Rightarrow> bytes \<Rightarrow> ParameterSet \<Rightarrow> 'k option" where
  "mlkem_PkeyFromPublicBytes lib data ps = do {
     let name = ParameterSetName ps;
     require (pkey_ok lib (PKEY_CTX_new name));
     require (pkey_ok lib Fromdata_init);
     fromdata_public lib name data
   }"

text \<open>
  The pointer argument may be null. A failing second call (the one that reads the bytes) is
  logged but not returned: the zero-filled buffer is returned instead.
\<close>

definition ExtractPublicKey :: "'k crypto \<Rightarrow> 'k option \<Rightarrow> bytes option" where
  "ExtractPublicKey lib pk = do {
     k \<leftarrow> pk;
     len \<leftarrow> octet_len lib ''pub'' k;
     let buf = zeros len;
     Some (case octet_get lib ''pub'' k len of None \<Rightarrow> buf | Some data \<Rightarrow> data)
   }"

definition mlkem_GenerateKeyPair ::
  "'k crypto \<Rightarrow> ParameterSet \<Rightarrow> bytes \<Rightarrow> 'k mlkem_KeyPair option" where
  "mlkem_GenerateKeyPair lib ps seed = do {
     k \<leftarrow> mlkem_keygen lib (ParameterSetName ps) seed;
     pub \<leftarrow> ExtractPublicKey lib (Some k);
     Some \<lparr>pkey = k, public_key = pub\<rparr>
   }"

definition Encapsulate ::
  "'k crypto \<Rightarrow> bytes \<Rightarrow> ParameterSet \<Rightarrow> bytes \<Rightarrow> EncapsulationResult option" where
  "Encapsulate lib pub ps seed = do {
     require (pub \<noteq> []);
     peer \<leftarrow> mlkem_PkeyFromPublicBytes lib pub ps;
     require (pkey_ok lib (PKEY_CTX_new ''peer''));
     require (pkey_ok lib Encapsulate_init);
     lens \<leftarrow> encap_lens lib peer;
     (ct, ss) \<leftarrow> encap lib peer seed;
     Some \<lparr>encaps_ciphertext = ct, shared_secret = ss\<rparr>
   }"

definition Decapsulate :: "'k crypto \<Rightarrow> 'k option \<Rightarrow> bytes \<Rightarrow> bytes option" where
  "Decapsulate lib private_key ct = do {
     k \<leftarrow> private_key;
     require (ct \<noteq> []);
     require (pkey_ok lib (PKEY_CTX_new ''private_key''));
     require (pkey_ok lib Decapsulate_init);
     ss_len \<leftarrow> decap_len lib k ct;
     decap lib k ct
   }"

section \<open>HKDF\<close>

text \<open>
  The parameter-setting calls between \<open>derive_init\<close> and \<open>derive\<close> are made without looking at
  their result, so only these two can fail; every path frees the context.
\<close>

definition hkdf_Extract :: "'k crypto \<Rightarrow> bytes \<Rightarrow> bytes \<Rightarrow> bytes option" where
  "hkdf_Extract lib salt ikm = do {
     require (pkey_ok lib (PKEY_CTX_new ''HKDF''));
     require (pkey_ok lib Hkdf_derive_init);
     hkdf_derive lib ''EXTRACT_ONLY'' salt ikm [] 32
   }"

definition hkdf_Expand :: "'k crypto \<Rightarrow> bytes \<Rightarrow> bytes \<Rightarrow> nat \<Rightarrow> bytes option" where
  "hkdf_Expand lib prk info outputLen = do {
     require (pkey_ok lib (PKEY_CTX_new ''HKDF''));
     require (pkey_ok lib Hkdf_derive_init);
     hkdf_derive lib ''EXPAND_ONLY'' [] prk info outputLen
   }"

definition hkdf_DeriveKey :: "'k crypto \<Rightarrow> bytes \<Rightarrow> bytes \<Rightarrow> bytes \<Rightarrow> nat \<Rightarrow> bytes option" where
  "hkdf_DeriveKey lib salt ikm info outputLen = do {
     require (pkey_ok lib (PKEY_CTX_new ''HKDF''));
     require (pkey_ok lib Hkdf_derive_init);
     hkdf_derive lib ''EXTRACT_AND_EXPAND'' salt ikm info outputLen
   }"

section \<open>What the code relies on\<close>

text \<open>
  The documented behaviour of the libraries, as predicates on the parameter. \<open>x25519_pair\<close>
  and \<open>mlkem_pair\<close> say that a private and a public key belong together.
\<close>

definition blake3_laws :: "'k crypto \<Rightarrow> bool" where
  "blake3_laws lib \<longleftrightarrow>
     (\<forall>x n. length (blake3_out lib x n) = n) \<and>
     (\<forall>k x n. length (blake3_keyed_out lib k x n) = n)"

definition aead_laws :: "'k crypto \<Rightarrow> bool" where
  "aead_laws lib \<longleftrightarrow>
     (\<forall>c. cipher_ok lib c) \<and>
     (\<forall>k n a p. let (c, t) = chacha_seal lib k n a p in
        length c = length p \<and> length t = 16 \<and> chacha_open lib k n a c t = Some p)"

definition x25519_pair :: "'k crypto \<Rightarrow> bytes \<Rightarrow> bytes \<Rightarrow> bool" where
  "x25519_pair lib a A \<longleftrightarrow>
     length a = 32 \<and> length A = 32 \<and> PublicKeyFromPrivate lib a = Some A"

definition x25519_laws :: "'k crypto \<Rightarrow> bool" where
  "x25519_laws lib \<longleftrightarrow>
     (\<forall>c. pkey_ok lib c) \<and>
     (\<forall>seed. \<exists>k a A. x25519_keygen lib seed = Some k \<and> get_raw_private lib k = Some a \<and>
        get_raw_public lib k = Some A \<and> x25519_pair lib a A) \<and>
     (\<forall>a A b B. x25519_pair lib a A \<longrightarrow> x25519_pair lib b B \<longrightarrow>
        (\<exists>ka kA kb kB s. raw_private_key lib a = Some ka \<and> raw_private_key lib b = Some kb \<and>
           raw_public_key lib A = Some kA \<and> raw_public_key lib B = Some kB \<and>
           derive_len lib ka kB = Some 32 \<and> derive_len lib kb kA = Some 32 \<and>
           derive_secret lib ka kB = Some s \<and> derive_secret lib kb kA = Some s \<and>
           length s = 32))"

text \<open>The import of a decapsulation key as the handshake does it (\<open>RebuildMlKemKey\<close>).\<close>

definition RebuildMlKemKey :: "'k crypto \<Rightarrow> bytes \<Rightarrow> 'k option" where
  "RebuildMlKemKey lib dk = do {
     require (pkey_ok lib (PKEY_CTX_new ''ML-KEM-768''));
     require (pkey_ok lib Fromdata_init);
     fromdata_private lib ''ML-KEM-768'' dk
   }"

definition mlkem_pair :: "'k crypto \<Rightarrow> bytes \<Rightarrow> bytes \<Rightarrow> bool" where
  "mlkem_pair lib dk ek \<longleftrightarrow>
     length dk = 2400 \<and> length ek = 1184 \<and>
     (\<exists>k K. fromdata_private lib ''ML-KEM-768'' dk = Some k \<and>
        fromdata_public lib ''ML-KEM-768'' ek = Some K \<and> encap_lens lib K \<noteq> None \<and>
        (\<forall>seed. \<exists>ct ss. encap lib K seed = Some (ct, ss) \<and> length ct = 1088 \<and>
           length ss = 32 \<and> decap_len lib k ct \<noteq> None \<and> decap lib k ct = Some ss))"

definition mlkem_laws :: "'k crypto \<Rightarrow> bool" where
  "mlkem_laws lib \<longleftrightarrow>
     (\<forall>c. pkey_ok lib c) \<and>
     (\<forall>seed. \<exists>k dk ek. mlkem_keygen lib ''ML-KEM-768'' seed = Some k \<and>
        octet_len lib ''pub'' k = Some 1184 \<and> octet_get lib ''pub'' k 1184 = Some ek \<and>
        octet_len lib ''priv'' k = Some 2400 \<and>
        octet_get lib ''priv'' k 2400 = Some dk \<and> mlkem_pair lib dk ek)"

definition crypto_laws :: "'k crypto \<Rightarrow> bool" where
  "crypto_laws lib \<longleftrightarrow>
     blake3_laws lib \<and> aead_laws lib \<and> x25519_laws lib \<and> mlkem_laws lib"

section \<open>The wrappers under these laws\<close>

lemma length_blake3 [len_simps]:
  "crypto_laws lib \<Longrightarrow> length (blake3_out lib x n) = n"
  "crypto_laws lib \<Longrightarrow> length (blake3_keyed_out lib k x n) = n"
  by (simp_all add: crypto_laws_def blake3_laws_def)

text \<open>
  Names for what the libraries return, so that both ends of the handshake can be rewritten
  to the same terms.
\<close>

definition dh :: "'k crypto \<Rightarrow> bytes \<Rightarrow> bytes \<Rightarrow> bytes" where
  "dh lib a B = the (DeriveSharedSecret lib a B)"

definition kem_ct :: "'k crypto \<Rightarrow> bytes \<Rightarrow> bytes \<Rightarrow> bytes" where
  "kem_ct lib ek seed = encaps_ciphertext (the (Encapsulate lib ek ML_KEM_768 seed))"

definition kem_ss :: "'k crypto \<Rightarrow> bytes \<Rightarrow> bytes \<Rightarrow> bytes" where
  "kem_ss lib ek seed = shared_secret (the (Encapsulate lib ek ML_KEM_768 seed))"

definition sealed :: "'k crypto \<Rightarrow> bytes \<Rightarrow> bytes \<Rightarrow> bytes \<Rightarrow> bytes \<Rightarrow> bytes" where
  "sealed lib k n a p = fst (chacha_seal lib k n a p) @ snd (chacha_seal lib k n a p)"

lemma laws_cases:
  assumes "crypto_laws lib"
  shows "blake3_laws lib" "aead_laws lib" "x25519_laws lib" "mlkem_laws lib"
    "cipher_ok lib c" "pkey_ok lib d"
  using assms by (simp_all add: crypto_laws_def aead_laws_def x25519_laws_def)

lemma seal_laws:
  assumes "crypto_laws lib"
  shows "length (fst (chacha_seal lib k n a p)) = length p"
    and "length (snd (chacha_seal lib k n a p)) = 16"
    and "chacha_open lib k n a (fst (chacha_seal lib k n a p)) (snd (chacha_seal lib k n a p)) = Some p"
proof -
  have "let (c, t) = chacha_seal lib k n a p in
      length c = length p \<and> length t = 16 \<and> chacha_open lib k n a c t = Some p"
    using laws_cases(2) [OF assms] unfolding aead_laws_def by blast
  then show "length (fst (chacha_seal lib k n a p)) = length p"
    and "length (snd (chacha_seal lib k n a p)) = 16"
    and "chacha_open lib k n a (fst (chacha_seal lib k n a p)) (snd (chacha_seal lib k n a p)) = Some p"
    by (simp_all add: case_prod_beta)
qed

lemma Encrypt_laws:
  "crypto_laws lib \<Longrightarrow>
   Encrypt lib p k n a = Some \<lparr>ciphertext = fst (chacha_seal lib k n a p),
     tag = snd (chacha_seal lib k n a p)\<rparr>"
  by (simp add: Encrypt_def laws_cases case_prod_beta)

lemma Decrypt_laws:
  "crypto_laws lib \<Longrightarrow> Decrypt lib ct t k n a = chacha_open lib k n a ct t"
  by (simp add: Decrypt_def laws_cases)

lemma length_sealed [len_simps]: "crypto_laws lib \<Longrightarrow> length (sealed lib k n a p) = length p + 16"
  by (simp add: sealed_def seal_laws)

text \<open>Splitting the tag off and decrypting gives the plaintext back.\<close>

lemma open_sealed:
  assumes "crypto_laws lib" and "m = length p"
  shows "Decrypt lib (read_at 0 m (sealed lib k n a p)) (read_at m 16 (sealed lib k n a p)) k n a
    = Some p"
proof -
  have "read_at 0 m (sealed lib k n a p) = fst (chacha_seal lib k n a p)"
    using assms by (simp add: sealed_def buf_simps seal_laws)
  moreover have "read_at m 16 (sealed lib k n a p) = snd (chacha_seal lib k n a p)"
    using assms by (simp add: sealed_def buf_simps seal_laws)
  ultimately show ?thesis using assms(1) by (simp add: Decrypt_laws seal_laws)
qed

lemma dh_laws:
  assumes "crypto_laws lib" and "x25519_pair lib a A" and "x25519_pair lib b B"
  shows "DeriveSharedSecret lib a B = Some (dh lib a B)"
    and "DeriveSharedSecret lib b A = Some (dh lib a B)"
    and "length (dh lib a B) = 32"
proof -
  obtain ka kA kb kB s where h:
    "raw_private_key lib a = Some ka" "raw_private_key lib b = Some kb"
    "raw_public_key lib A = Some kA" "raw_public_key lib B = Some kB"
    "derive_len lib ka kB = Some 32" "derive_len lib kb kA = Some 32"
    "derive_secret lib ka kB = Some s" "derive_secret lib kb kA = Some s" "length s = 32"
    using laws_cases(3) [OF assms(1)] assms(2,3) unfolding x25519_laws_def by blast
  have "DeriveSharedSecret lib a B = Some s \<and> DeriveSharedSecret lib b A = Some s"
    using h by (simp add: DeriveSharedSecret_def PkeyFromPrivateBytes_def PkeyFromPublicBytes_def
        laws_cases [OF assms(1)] kSharedSecretBytes_def)
  then show "DeriveSharedSecret lib a B = Some (dh lib a B)"
    and "DeriveSharedSecret lib b A = Some (dh lib a B)" and "length (dh lib a B) = 32"
    using h(9) by (simp_all add: dh_def)
qed

lemma x25519_keygen_laws:
  assumes "crypto_laws lib"
  obtains a A where "x25519_GenerateKeyPair lib seed = Some (a, A)" "x25519_pair lib a A"
proof -
  obtain k a A where "x25519_keygen lib seed = Some k" "get_raw_private lib k = Some a"
    "get_raw_public lib k = Some A" "x25519_pair lib a A"
    using laws_cases(3) [OF assms] unfolding x25519_laws_def by blast
  then show thesis
    by (intro that [of a A]) (simp_all add: x25519_GenerateKeyPair_def laws_cases [OF assms])
qed

lemma mlkem_generate_laws:
  assumes "crypto_laws lib"
  obtains k dk ek where
    "mlkem_GenerateKeyPair lib ML_KEM_768 seed = Some \<lparr>pkey = k, public_key = ek\<rparr>"
    "octet_len lib ''priv'' k = Some 2400" "octet_get lib ''priv'' k 2400 = Some dk" "mlkem_pair lib dk ek"
proof -
  obtain k dk ek where "mlkem_keygen lib ''ML-KEM-768'' seed = Some k"
    "octet_len lib ''pub'' k = Some 1184" "octet_get lib ''pub'' k 1184 = Some ek"
    "octet_len lib ''priv'' k = Some 2400" "octet_get lib ''priv'' k 2400 = Some dk" "mlkem_pair lib dk ek"
    using laws_cases(4) [OF assms] unfolding mlkem_laws_def by blast
  then show thesis
    by (intro that [of k ek dk]) (simp_all add: mlkem_GenerateKeyPair_def ExtractPublicKey_def)
qed

lemma mlkem_keygen_laws:
  assumes "crypto_laws lib"
  obtains k dk ek where
    "mlkem_GenerateKeyPair lib ML_KEM_768 seed = Some \<lparr>pkey = k, public_key = ek\<rparr>"
    "octet_get lib ''priv'' k 2400 = Some dk" "mlkem_pair lib dk ek"
  using mlkem_generate_laws [OF assms] .

lemma kem_laws:
  assumes "crypto_laws lib" and "mlkem_pair lib dk ek"
  shows "Encapsulate lib ek ML_KEM_768 seed =
      Some \<lparr>encaps_ciphertext = kem_ct lib ek seed, shared_secret = kem_ss lib ek seed\<rparr>"
    and "\<exists>k. RebuildMlKemKey lib dk = Some k \<and>
      Decapsulate lib (Some k) (kem_ct lib ek seed) = Some (kem_ss lib ek seed)"
    and "length (kem_ct lib ek seed) = 1088" and "length (kem_ss lib ek seed) = 32"
proof -
  obtain k K ct ss where h: "fromdata_private lib ''ML-KEM-768'' dk = Some k"
    "fromdata_public lib ''ML-KEM-768'' ek = Some K" "encap_lens lib K \<noteq> None"
    "encap lib K seed = Some (ct, ss)" "length ct = 1088" "length ss = 32"
    "decap_len lib k ct \<noteq> None" "decap lib k ct = Some ss"
    using assms(2) unfolding mlkem_pair_def by blast
  have "ek \<noteq> []" using assms(2) by (auto simp: mlkem_pair_def)
  then have e: "Encapsulate lib ek ML_KEM_768 seed = Some \<lparr>encaps_ciphertext = ct, shared_secret = ss\<rparr>"
    using h by (auto simp: Encapsulate_def mlkem_PkeyFromPublicBytes_def laws_cases [OF assms(1)])
  have "ct \<noteq> []" using h(5) by auto
  then have "RebuildMlKemKey lib dk = Some k \<and> Decapsulate lib (Some k) ct = Some ss"
    using h by (auto simp: RebuildMlKemKey_def Decapsulate_def laws_cases [OF assms(1)])
  with e h(5,6) show "Encapsulate lib ek ML_KEM_768 seed =
      Some \<lparr>encaps_ciphertext = kem_ct lib ek seed, shared_secret = kem_ss lib ek seed\<rparr>"
    and "\<exists>k. RebuildMlKemKey lib dk = Some k \<and>
      Decapsulate lib (Some k) (kem_ct lib ek seed) = Some (kem_ss lib ek seed)"
    and "length (kem_ct lib ek seed) = 1088" and "length (kem_ss lib ek seed) = 32"
    by (auto simp: kem_ct_def kem_ss_def)
qed

end
