(* ===== verification/ToyCrypto.thy ===== *)
theory ToyCrypto
  imports CryptoLib
begin

text \<open>
  One concrete instance of the library parameter, on which every hypothesis about the
  libraries holds. It has no cryptographic strength: it shows that the laws are satisfiable
  and lets the theorems that assume them be applied to actual data. A key object is the byte
  string it was made from; a Diffie-Hellman result adds the two keys byte by byte; an ML-KEM
  ciphertext is the padded seed, its secret the first 32 bytes.
\<close>

definition pad_to :: "nat \<Rightarrow> bytes \<Rightarrow> bytes" where
  "pad_to n xs = take n (xs @ zeros n)"

definition sized :: "nat \<Rightarrow> bytes \<Rightarrow> bytes option" where
  "sized n xs = (if length xs = n then Some xs else None)"

definition toy :: "bytes crypto" where
  "toy = \<lparr>blake3_out = (\<lambda>x n. pad_to n x), blake3_keyed_out = (\<lambda>k x n. pad_to n (x @ k)),
     cipher_ok = (\<lambda>_. True), chacha_seal = (\<lambda>k n a p. (p, pad_to 16 (k @ n))),
     chacha_open = (\<lambda>k n a c t. if t = pad_to 16 (k @ n) then Some c else None),
     pkey_ok = (\<lambda>_. True), raw_private_key = sized 32, raw_public_key = sized 32,
     get_raw_private = sized 32, get_raw_public = sized 32,
     x25519_keygen = (\<lambda>seed. Some (pad_to 32 seed)), derive_len = (\<lambda>_ _. Some 32),
     derive_secret = (\<lambda>a b. Some (pad_to 32 (map2 (+) a b))),
     mlkem_keygen = (\<lambda>_ seed. Some (pad_to 1184 seed)),
     fromdata_public = (\<lambda>_. sized 1184), fromdata_private = (\<lambda>_. sized 2400),
     octet_len = (\<lambda>s k. Some (if s = ''pub'' then 1184 else 2400)),
     octet_get = (\<lambda>s k n. if s = ''pub'' then Some (pad_to n (take 1184 k)) else Some (pad_to n k)),
     encap_lens = (\<lambda>_. Some (1088, 32)),
     encap = (\<lambda>_ seed. Some (pad_to 1088 seed, pad_to 32 seed)),
     decap_len = (\<lambda>_ _. Some 32), decap = (\<lambda>_ ct. Some (take 32 ct)),
     hkdf_derive = (\<lambda>_ salt key info n. Some (pad_to n (salt @ key @ info)))\<rparr>"

lemma length_pad_to [simp, len_simps]: "length (pad_to n xs) = n"
  by (simp add: pad_to_def)

lemma take_pad_to: "m \<le> n \<Longrightarrow> take m (pad_to n xs) = pad_to m xs"
  by (simp add: pad_to_def zeros_def min_def)

lemma sized_iff [simp]: "sized n xs = Some ys \<longleftrightarrow> length xs = n \<and> ys = xs"
  by (auto simp: sized_def)

lemma map2_add_commute: "map2 (+) a b = map2 (+) b a" for a b :: bytes
proof (induction a arbitrary: b)
  case (Cons x a) then show ?case by (cases b) (simp_all add: add.commute)
qed simp

lemma toy_x25519_pair: "length a = 32 \<Longrightarrow> x25519_pair toy a A \<longleftrightarrow> A = a"
  by (auto simp: x25519_pair_def PublicKeyFromPrivate_def PkeyFromPrivateBytes_def toy_def
      Option.bind_eq_Some_conv)

lemma toy_mlkem_pair: "length dk = 2400 \<Longrightarrow> length ek = 1184 \<Longrightarrow> mlkem_pair toy dk ek"
  by (simp add: mlkem_pair_def toy_def take_pad_to)

lemma toy_x25519_laws: "x25519_laws toy"
  unfolding x25519_laws_def
proof (intro conjI allI impI)
  show "pkey_ok toy c" for c by (simp add: toy_def)
  show "\<exists>k a A. x25519_keygen toy seed = Some k \<and> get_raw_private toy k = Some a \<and>
      get_raw_public toy k = Some A \<and> x25519_pair toy a A" for seed
    by (intro exI [of _ "pad_to 32 seed"]) (simp add: toy_x25519_pair, simp add: toy_def)
  fix a A b B
  assume "x25519_pair toy a A" and "x25519_pair toy b B"
  then have "length a = 32" "A = a" "length b = 32" "B = b"
    by (simp_all add: x25519_pair_def PublicKeyFromPrivate_def PkeyFromPrivateBytes_def toy_def
        Option.bind_eq_Some_conv)
  then show "\<exists>ka kA kb kB s. raw_private_key toy a = Some ka \<and> raw_private_key toy b = Some kb \<and>
      raw_public_key toy A = Some kA \<and> raw_public_key toy B = Some kB \<and>
      derive_len toy ka kB = Some 32 \<and> derive_len toy kb kA = Some 32 \<and>
      derive_secret toy ka kB = Some s \<and> derive_secret toy kb kA = Some s \<and> length s = 32"
    by (simp add: toy_def map2_add_commute [of b a])
qed

lemma toy_crypto_laws: "crypto_laws toy"
proof -
  have "blake3_laws toy" by (simp add: blake3_laws_def toy_def)
  moreover have "aead_laws toy" by (simp add: aead_laws_def toy_def)
  moreover have "mlkem_laws toy"
    unfolding mlkem_laws_def
  proof (intro conjI allI)
    show "pkey_ok toy c" for c by (simp add: toy_def)
    show "\<exists>k dk ek. mlkem_keygen toy ''ML-KEM-768'' seed = Some k \<and>
        octet_len toy ''pub'' k = Some 1184 \<and> octet_get toy ''pub'' k 1184 = Some ek \<and>
        octet_len toy ''priv'' k = Some 2400 \<and>
        octet_get toy ''priv'' k 2400 = Some dk \<and> mlkem_pair toy dk ek" for seed
      by (intro exI [of _ "pad_to 1184 seed"] exI [of _ "pad_to 2400 (pad_to 1184 seed)"]
          exI [of _ "pad_to 1184 (pad_to 1184 seed)"])
        (simp add: toy_mlkem_pair, simp add: toy_def)
  qed
  ultimately show ?thesis using toy_x25519_laws by (simp add: crypto_laws_def)
qed

end
