(* ===== verification/IPv4.thy ===== *)
theory IPv4
  imports BitUtils
begin

text \<open>
  \<open>core/network/ipv4.hpp\<close> and \<open>core/os/linux/ipv4.cpp\<close>: the address class, its packing into a
  host-order word, its byte order conversions (on a little-endian host), and its dotted form
  through the C library's \<open>inet_pton\<close> and \<open>inet_ntop\<close> (glibc's reading of the format: four
  decimal octets, no leading zeros).
\<close>

section \<open>The C library's text form\<close>

text \<open>A \<open>std::string\<close> handed to C ends at its first zero character.\<close>

definition c_str :: "string \<Rightarrow> string" where
  "c_str s = takeWhile (\<lambda>c. of_char c \<noteq> (0 :: nat)) s"

fun decimal :: "nat \<Rightarrow> string" where
  "decimal n = (if n < 10 then [char_of (48 + n)] else decimal (n div 10) @ [char_of (48 + n mod 10)])"

declare decimal.simps [simp del]

definition is_digit :: "char \<Rightarrow> bool" where
  "is_digit c \<longleftrightarrow> 48 \<le> (of_char c :: nat) \<and> (of_char c :: nat) \<le> 57"

definition digit_value :: "char \<Rightarrow> nat" where
  "digit_value c = of_char c - 48"

text \<open>
  The state of \<open>inet_pton\<close>'s loop: the octets already finished, the current one, whether it
  has a digit yet, and the number of octets started.
\<close>

fun inet_pton4_loop :: "nat list \<Rightarrow> nat \<Rightarrow> bool \<Rightarrow> nat \<Rightarrow> string \<Rightarrow> nat list option" where
  "inet_pton4_loop finished cur saw_digit octets [] =
     (if octets < 4 then None else Some (finished @ [cur]))"
| "inet_pton4_loop finished cur saw_digit octets (c # cs) =
     (if is_digit c then
        (if saw_digit \<and> cur = 0 then None
         else if cur * 10 + digit_value c > 255 then None
         else if \<not> saw_digit \<and> octets + 1 > 4 then None
         else inet_pton4_loop finished (cur * 10 + digit_value c) True
                (if saw_digit then octets else octets + 1) cs)
      else if c = CHR ''.'' \<and> saw_digit then
        (if octets = 4 then None else inet_pton4_loop (finished @ [cur]) 0 False octets cs)
      else None)"

definition inet_pton4 :: "string \<Rightarrow> bytes option" where
  "inet_pton4 s = map_option (map of_nat) (inet_pton4_loop [] 0 False 0 (c_str s))"

definition inet_ntop4 :: "bytes \<Rightarrow> string" where
  "inet_ntop4 bs = decimal (unat (bs ! 0)) @ ''.'' @ decimal (unat (bs ! 1)) @ ''.'' @
     decimal (unat (bs ! 2)) @ ''.'' @ decimal (unat (bs ! 3))"

section \<open>The class\<close>

record IPv4 =
  ip_addr :: u32
  ip_valid :: bool

definition Pack :: "byte \<Rightarrow> byte \<Rightarrow> byte \<Rightarrow> byte \<Rightarrow> u32" where
  "Pack a b c d = push_bit 24 (ucast a) OR push_bit 16 (ucast b) OR push_bit 8 (ucast c) OR ucast d"

definition Unpack :: "u32 \<Rightarrow> bytes" where
  "Unpack v = [ucast (drop_bit 24 v AND 0xFF), ucast (drop_bit 16 v AND 0xFF),
     ucast (drop_bit 8 v AND 0xFF), ucast (v AND 0xFF)]"

definition ByteSwap :: "u32 \<Rightarrow> u32" where
  "ByteSwap v = drop_bit 24 (v AND 0xFF000000) OR drop_bit 8 (v AND 0x00FF0000) OR
     push_bit 8 (v AND 0x0000FF00) OR push_bit 24 (v AND 0x000000FF)"

definition HostToNetwork :: "u32 \<Rightarrow> u32" where
  "HostToNetwork host = ByteSwap host"

definition NetworkToHost :: "u32 \<Rightarrow> u32" where
  "NetworkToHost net = ByteSwap net"

definition IPv4_default :: IPv4 where
  "IPv4_default = \<lparr>ip_addr = 0, ip_valid = True\<rparr>"

definition IPv4_octets :: "byte \<Rightarrow> byte \<Rightarrow> byte \<Rightarrow> byte \<Rightarrow> IPv4" where
  "IPv4_octets a b c d = IPv4_default\<lparr>ip_addr := Pack a b c d\<rparr>"

definition IPv4_host_order :: "u32 \<Rightarrow> IPv4" where
  "IPv4_host_order v = IPv4_default\<lparr>ip_addr := v\<rparr>"

text \<open>\<open>inet_pton\<close> fills the four bytes of \<open>net_order\<close> in memory order.\<close>

definition IPv4_dotted :: "string \<Rightarrow> IPv4" where
  "IPv4_dotted dotted =
     (case inet_pton4 dotted of
        None \<Rightarrow> \<lparr>ip_addr = 0, ip_valid = False\<rparr>
      | Some memory \<Rightarrow> let net_order = le_word memory in
          IPv4_default\<lparr>ip_addr := NetworkToHost net_order\<rparr>)"

definition IPv4_ToString :: "IPv4 \<Rightarrow> string" where
  "IPv4_ToString ip = (let net_order = HostToNetwork (ip_addr ip) in inet_ntop4 (le_bytes 4 net_order))"

definition ToHostOrder :: "IPv4 \<Rightarrow> u32" where "ToHostOrder ip = ip_addr ip"
definition ToNetworkOrder :: "IPv4 \<Rightarrow> u32" where "ToNetworkOrder ip = HostToNetwork (ip_addr ip)"
definition Octets :: "IPv4 \<Rightarrow> bytes" where "Octets ip = Unpack (ip_addr ip)"
definition IsValid :: "IPv4 \<Rightarrow> bool" where "IsValid ip = ip_valid ip"

text \<open>The defaulted three-way comparison: members in declaration order.\<close>

instantiation IPv4_ext :: (order) order
begin

definition less_eq_IPv4_ext :: "'a IPv4_scheme \<Rightarrow> 'a IPv4_scheme \<Rightarrow> bool" where
  "less_eq_IPv4_ext x y \<longleftrightarrow> ip_addr x < ip_addr y \<or> ip_addr x = ip_addr y \<and>
     (ip_valid x < ip_valid y \<or> ip_valid x = ip_valid y \<and> IPv4.more x \<le> IPv4.more y)"

definition less_IPv4_ext :: "'a IPv4_scheme \<Rightarrow> 'a IPv4_scheme \<Rightarrow> bool" where
  "less_IPv4_ext x y \<longleftrightarrow> x \<le> y \<and> \<not> y \<le> x"

instance
  by standard (auto simp: less_eq_IPv4_ext_def less_IPv4_ext_def)

end

section \<open>Byte order\<close>

text \<open>The masks of the code as shifted byte masks.\<close>

lemma byte_masks:
  "(0xFF :: u32) = mask 8" "(0xFF00 :: u32) = push_bit 8 (mask 8)"
  "(0xFF0000 :: u32) = push_bit 16 (mask 8)" "(0xFF000000 :: u32) = push_bit 24 (mask 8)"
  by (simp_all add: mask_eq_exp_minus_1 push_bit_eq_mult)

lemma low_byte: "(ucast (v AND 0xFF) :: byte) = ucast v" for v :: u32
  unfolding byte_masks by (rule bit_word_eqI) (auto simp: bit_simps)

lemma Unpack_bytes: "Unpack v = rev (le_bytes 4 v)"
  by (simp add: Unpack_def low_byte numeral_eq_Suc drop_bit_drop_bit)

lemma Pack_le_word: "Pack a b c d = le_word [d, c, b, a]"
  by (simp add: Pack_def or.assoc or.commute or.left_commute push_bit_or)

lemma Unpack_Pack: "Unpack (Pack a b c d) = [a, b, c, d]"
  unfolding Unpack_bytes Pack_le_word by (subst le_bytes_le_word) simp_all

lemma Pack_Unpack: "Unpack v = [a, b, c, d] \<Longrightarrow> Pack a b c d = v"
  using le_word_le_bytes [of 4 v] by (simp add: Unpack_bytes Pack_le_word rev_swap)

lemma swap_terms:
  "drop_bit 24 (v AND 0xFF000000) = (ucast (ucast (drop_bit 24 v) :: byte) :: u32)"
  "drop_bit 8 (v AND 0xFF0000) = push_bit 8 (ucast (ucast (drop_bit 16 v) :: byte) :: u32)"
  "push_bit 8 (v AND 0xFF00) = push_bit 16 (ucast (ucast (drop_bit 8 v) :: byte) :: u32)"
  "push_bit 24 (v AND 0xFF) = push_bit 24 (ucast (ucast v :: byte) :: u32)" for v :: u32
     apply (unfold byte_masks)
     apply (rule bit_word_eqI, force simp: bit_simps)+
  done

lemma ByteSwap_Pack:
  "ByteSwap v = Pack (ucast v) (ucast (drop_bit 8 v)) (ucast (drop_bit 16 v)) (ucast (drop_bit 24 v))"
  unfolding ByteSwap_def swap_terms Pack_def by (simp only: or.assoc or.commute or.left_commute)

lemma ByteSwap_bytes: "le_bytes 4 (ByteSwap v) = Unpack v"
proof -
  have "le_bytes 4 (ByteSwap v) = rev (Unpack (ByteSwap v))" by (simp only: Unpack_bytes rev_rev_ident)
  also have "\<dots> = Unpack v"
    unfolding ByteSwap_Pack Unpack_Pack unfolding Unpack_def low_byte by simp
  finally show ?thesis .
qed

lemma ByteSwap_le_word:
  assumes "length bs = 4" shows "ByteSwap (le_word bs) = le_word (rev bs)"
proof -
  have "le_bytes 4 (ByteSwap (le_word bs)) = rev bs"
    unfolding ByteSwap_bytes Unpack_bytes using assms by (simp add: le_bytes_le_word)
  then have "le_word (rev bs) = (le_word (le_bytes 4 (ByteSwap (le_word bs))) :: u32)" by simp
  then show ?thesis by (simp add: le_word_le_bytes)
qed

section \<open>Dotted form\<close>

lemma decimal_small: "n < 10 \<Longrightarrow> decimal n = [char_of (48 + n)]"
  by (simp add: decimal.simps)

lemma decimal_step: "n > 0 \<Longrightarrow> d < 10 \<Longrightarrow> decimal (n * 10 + d) = decimal n @ [char_of (48 + d)]"
  by (subst decimal.simps) simp

lemma of_char_digit: "d < 10 \<Longrightarrow> of_char (char_of (48 + d :: nat)) = (48 + d :: nat)"
  by simp

lemma digit_char:
  "d < 10 \<Longrightarrow> is_digit (char_of (48 + d))" "d < 10 \<Longrightarrow> digit_value (char_of (48 + d)) = d"
  by (simp_all add: is_digit_def digit_value_def)

lemma is_digit_cases:
  assumes "is_digit c" obtains "digit_value c < 10" "c = char_of (48 + digit_value c)"
  using assms by (intro that) (auto simp: is_digit_def digit_value_def)

text \<open>What the loop has read so far, as text.\<close>

definition dotted_text :: "nat list \<Rightarrow> nat \<Rightarrow> bool \<Rightarrow> string" where
  "dotted_text finished cur saw =
     concat (map (\<lambda>n. decimal n @ ''.'') finished) @ (if saw then decimal cur else [])"

lemma inet_pton4_loop_sound:
  assumes "inet_pton4_loop fin cur saw oct s = Some l"
    and "oct = length fin + (if saw then 1 else 0)" and "length fin \<le> 3"
    and "\<forall>n \<in> set fin. n < 256" and "cur < 256" and "\<not> saw \<Longrightarrow> cur = 0"
  shows "\<exists>f n. l = f @ [n] \<and> length f = 3 \<and> (\<forall>m \<in> set l. m < 256) \<and>
    dotted_text f n True = dotted_text fin cur saw @ s"
  using assms
proof (induction fin cur saw oct s rule: inet_pton4_loop.induct)
  case (1 fin cur saw oct)
  then show ?case by (auto split: if_splits)
next
  case (2 fin cur saw oct c cs)
  show ?case
  proof (cases "is_digit c")
    case True
    then have step: "\<not> (saw \<and> cur = 0)" "cur * 10 + digit_value c < 256"
      and r: "inet_pton4_loop fin (cur * 10 + digit_value c) True (if saw then oct else oct + 1) cs = Some l"
      using 2(3) by (auto split: if_splits)
    then have "dotted_text fin (cur * 10 + digit_value c) True = dotted_text fin cur saw @ [c]"
      using 2(8) True by (auto simp: dotted_text_def decimal_step decimal_small elim!: is_digit_cases)
    then show ?thesis
      using 2(1) [OF True] 2(4-8) True step r by (auto split: if_splits)
  next
    case False
    then show ?thesis using 2(2) 2(3-8) by (auto split: if_splits simp: dotted_text_def)
  qed
qed

lemma loop_digit:
  assumes "d < 10" and "\<not> (saw \<and> cur = 0)" and "cur * 10 + d < 256" and "saw \<or> oct < 4"
  shows "inet_pton4_loop fin cur saw oct (char_of (48 + d) # cs) =
    inet_pton4_loop fin (cur * 10 + d) True (if saw then oct else oct + 1) cs"
  using assms by (auto simp: digit_char)

lemma loop_decimal:
  assumes "n < 256" and "oct < 4"
  shows "inet_pton4_loop fin 0 False oct (decimal n @ cs) = inet_pton4_loop fin n True (oct + 1) cs"
proof -
  define a b c where "a = n div 100" and "b = n div 10 mod 10" and "c = n mod 10"
  have split: "n = (a * 10 + b) * 10 + c" "a < 10" "b < 10" "c < 10"
    using assms(1) by (simp_all add: a_def b_def c_def div_mult2_eq [of n 10 10, simplified])
  show ?thesis
  proof (cases "a * 10 + b = 0")
    case True
    then show ?thesis using split assms by (simp add: decimal_small loop_digit del: inet_pton4_loop.simps)
  next
    case False
    then have d: "decimal n = decimal (a * 10 + b) @ [char_of (48 + c)]"
      using split by (simp only: decimal_step)
    show ?thesis
    proof (cases "a = 0")
      case True
      then show ?thesis using split assms False d
        by (simp add: decimal_small loop_digit del: inet_pton4_loop.simps)
    next
      case False
      then show ?thesis using split assms d
        by (simp add: decimal_small decimal_step loop_digit del: inet_pton4_loop.simps)
    qed
  qed
qed

lemma loop_dot:
  "oct < 4 \<Longrightarrow> inet_pton4_loop fin cur True oct (CHR ''.'' # cs) =
   inet_pton4_loop (fin @ [cur]) 0 False oct cs"
  by (simp add: is_digit_def)

lemma inet_pton4_loop_complete:
  assumes "a < 256" "b < 256" "c < 256" "d < 256"
  shows "inet_pton4_loop [] 0 False 0 (dotted_text [a, b, c] d True) = Some [a, b, c, d]"
  using assms loop_decimal [OF assms(4), of 3 _ "[]"]
  by (simp add: dotted_text_def loop_decimal loop_dot numeral_eq_Suc
      del: inet_pton4_loop.simps(2))

lemma decimal_chars: "c \<in> set (decimal n) \<Longrightarrow> is_digit c"
proof (induction n rule: decimal.induct)
  case (1 n)
  then show ?case
    by (subst (asm) decimal.simps) (auto split: if_splits simp: digit_char)
qed

lemma c_str_dotted: "c_str (dotted_text f n True) = dotted_text f n True"
proof -
  have "of_char c \<noteq> (0 :: nat)" if "c \<in> set (dotted_text f n True)" for c
    using that
    by (auto simp: dotted_text_def is_digit_def dest!: decimal_chars split: if_splits)
  then show ?thesis unfolding c_str_def by (simp add: takeWhile_eq_all_conv)
qed

lemma ToString_text:
  "Unpack v = [a, b, c, d] \<Longrightarrow> IPv4_ToString (IPv4_host_order v) =
   dotted_text [unat a, unat b, unat c] (unat d) True"
  by (simp add: IPv4_ToString_def IPv4_host_order_def IPv4_default_def HostToNetwork_def
      ByteSwap_bytes inet_ntop4_def dotted_text_def)

lemma inet_pton4_iff:
  "inet_pton4 s = Some m \<longleftrightarrow> (\<exists>a b c d. m = [a, b, c, d] \<and>
     c_str s = dotted_text [unat a, unat b, unat c] (unat d) True)"
proof
  assume "inet_pton4 s = Some m"
  then obtain l where l: "inet_pton4_loop [] 0 False 0 (c_str s) = Some l" and m: "m = map of_nat l"
    by (auto simp: inet_pton4_def)
  obtain f n where "l = f @ [n]" "length f = 3" and lt: "\<forall>k \<in> set l. k < 256"
    and text_s: "dotted_text f n True = c_str s"
    using inet_pton4_loop_sound [OF l] by (auto simp: dotted_text_def)
  then obtain w x y where "l = [w, x, y, n]" "f = [w, x, y]"
    by (auto simp: numeral_eq_Suc length_Suc_conv)
  then show "\<exists>a b c d. m = [a, b, c, d] \<and>
      c_str s = dotted_text [unat a, unat b, unat c] (unat d) True"
    using lt text_s m by (auto simp: unat_of_nat take_bit_nat_eq_self)
next
  assume "\<exists>a b c d. m = [a, b, c, d] \<and>
      c_str s = dotted_text [unat a, unat b, unat c] (unat d) True"
  then obtain a b c d where m: "m = [a, b, c, d]"
    and "c_str s = dotted_text [unat a, unat b, unat c] (unat d) True" by blast
  moreover have "inet_pton4_loop [] 0 False 0 (dotted_text [unat a, unat b, unat c] (unat d) True) =
      Some [unat a, unat b, unat c, unat d]"
    using byte_cases_nat by (intro inet_pton4_loop_complete) auto
  ultimately show "inet_pton4 s = Some m" by (simp add: inet_pton4_def)
qed

lemma Unpack_cases: obtains a b c d where "Unpack v = [a, b, c, d]"
  by (simp add: Unpack_def)

lemma inet_pton4_text:
  "inet_pton4 s = Some (Unpack v) \<longleftrightarrow> c_str s = IPv4_ToString (IPv4_host_order v)"
  by (rule Unpack_cases [of v]) (simp add: inet_pton4_iff ToString_text)

lemma IPv4_dotted_eq:
  "(IPv4_dotted s = IPv4_host_order v \<longleftrightarrow> inet_pton4 s = Some (Unpack v)) \<and>
   (IsValid (IPv4_dotted s) \<longleftrightarrow> (\<exists>u. inet_pton4 s = Some (Unpack u)))"
proof (cases "inet_pton4 s")
  case None
  then show ?thesis by (simp add: IPv4_dotted_def IPv4_host_order_def IPv4_default_def IsValid_def)
next
  case (Some m)
  then obtain a b c d where m: "m = [a, b, c, d]" by (auto simp: inet_pton4_iff)
  have host: "IPv4_dotted s = IPv4_host_order (Pack a b c d)"
    using Some by (simp add: m IPv4_dotted_def IPv4_host_order_def IPv4_default_def
        NetworkToHost_def ByteSwap_le_word Pack_le_word del: le_word.simps)
  have "Pack a b c d = v \<longleftrightarrow> Unpack v = [a, b, c, d]"
    using Pack_Unpack Unpack_Pack by blast
  then show ?thesis
    using Some m host Unpack_Pack [of a b c d]
    by (auto simp: IPv4_host_order_def IPv4_default_def IsValid_def
        intro: exI [of _ "Pack a b c d"])
qed

section \<open>Property\<close>

text \<open>
  C21. Parsing a dotted string yields the address \<open>v\<close> exactly when the string (up to its
  first zero character) is the text \<open>ToString\<close> prints for \<open>v\<close>; every other string yields the
  invalid address. So printing and parsing are inverse, and no address has a second accepted
  spelling.
\<close>

theorem IPv4_dotted_exact:
  "(IPv4_dotted s = IPv4_host_order v \<longleftrightarrow> c_str s = IPv4_ToString (IPv4_host_order v)) \<and>
   (IsValid (IPv4_dotted s) \<longleftrightarrow> (\<exists>u. c_str s = IPv4_ToString (IPv4_host_order u)))"
proof -
  have dotted: "IPv4_dotted s = IPv4_host_order u \<longleftrightarrow> inet_pton4 s = Some (Unpack u)"
    "IsValid (IPv4_dotted s) \<longleftrightarrow> (\<exists>u. inet_pton4 s = Some (Unpack u))" for u
    using IPv4_dotted_eq by blast+
  show ?thesis unfolding dotted inet_pton4_text by simp
qed

end
