(* ===== verification/HandshakeHelpers.thy ===== *)
theory HandshakeHelpers
  imports ToyCrypto IPv4
begin

text \<open>
  \<open>core/handshake/handshake_constants.*\<close> and \<open>core/handshake/handshake_helpers.*\<close>: the
  protocol constants, the transcript hash, the key derivations, the AEAD steps that mix the
  ciphertext into the transcript, the two message authentication codes and the cookie
  mechanism. A function that updates a reference argument returns the updated value beside
  its result; zeroing of local copies has no effect a caller sees and is not modelled.
\<close>

section \<open>Constants\<close>

definition string_bytes :: "string \<Rightarrow> bytes" where
  "string_bytes s = map of_char s"

definition kConstruction :: string where
  "kConstruction = ''Noise_IKpsk2_25519+MLKEM768_ChaChaPoly_BLAKE3''"

definition kIdentifier :: string where
  "kIdentifier = ''PQVPN v1 cmanlove1234@outlook.com''"

definition kLabelMac1 :: string where "kLabelMac1 = ''mac1----''"
definition kLabelCookie :: string where "kLabelCookie = ''cookie--''"

definition kRekeyAfterTime :: duration where "kRekeyAfterTime = chrono_seconds 120"
definition kRejectAfterTime :: duration where "kRejectAfterTime = chrono_seconds 180"
definition kRekeyTimeout :: duration where "kRekeyTimeout = chrono_seconds 5"
definition kRekeyTimeoutJitterMax :: duration where "kRekeyTimeoutJitterMax = chrono_milliseconds 334"
definition kRekeyAttemptTime :: duration where "kRekeyAttemptTime = chrono_seconds 90"
definition kMaxTimerHandshakes :: u32 where "kMaxTimerHandshakes = 18"
definition kKeepaliveTimeout :: duration where "kKeepaliveTimeout = chrono_seconds 10"
definition kCookieRefreshTime :: duration where "kCookieRefreshTime = chrono_seconds 120"
definition kHandshakeInitiationRate :: duration where
  "kHandshakeInitiationRate = chrono_milliseconds 20"

definition kRekeyAfterMessages :: u64 where "kRekeyAfterMessages = push_bit 60 1"
definition kRejectAfterMessages :: u64 where "kRejectAfterMessages = - 1 - push_bit 13 1"

definition kMlKemDecapsulationKeyBytes :: nat where "kMlKemDecapsulationKeyBytes = 2400"
definition kMlKemEncapsulationKeyBytes :: nat where "kMlKemEncapsulationKeyBytes = 1184"

text \<open>The two static hashes, and whether they have been computed.\<close>

record hs_constants =
  initial_chaining_key :: bytes
  initial_hash :: bytes
  hs_initialized :: bool

definition hs_constants_start :: hs_constants where
  "hs_constants_start = \<lparr>initial_chaining_key = zeros 32, initial_hash = zeros 32,
     hs_initialized = False\<rparr>"

definition InitHandshakeConstants :: "'k crypto \<Rightarrow> hs_constants \<Rightarrow> hs_constants" where
  "InitHandshakeConstants lib g =
     (if hs_initialized g then g
      else case Hash256 lib (string_bytes kConstruction) of
        None \<Rightarrow> g
      | Some ck \<Rightarrow>
          let g = g\<lparr>initial_chaining_key := ck\<rparr> in
          case Hash256 lib (initial_chaining_key g @ string_bytes kIdentifier) of
            None \<Rightarrow> g
          | Some h \<Rightarrow> g\<lparr>initial_hash := h, hs_initialized := True\<rparr>)"

section \<open>Transcript and key derivation\<close>

definition MixHash :: "'k crypto \<Rightarrow> bytes \<Rightarrow> bytes \<Rightarrow> bytes" where
  "MixHash lib hash data =
     (case Hash256 lib (hash @ data) of None \<Rightarrow> zeros (length hash) | Some h \<Rightarrow> h)"

definition KDF1 :: "'k crypto \<Rightarrow> bytes \<Rightarrow> bytes \<Rightarrow> bytes option" where
  "KDF1 lib chaining_key input = do {
     prk \<leftarrow> KeyedHash256 lib chaining_key input;
     KeyedHash256 lib prk [0x01]
   }"

definition KDF2 :: "'k crypto \<Rightarrow> bytes \<Rightarrow> bytes \<Rightarrow> (bytes \<times> bytes) option" where
  "KDF2 lib chaining_key input = do {
     prk \<leftarrow> KeyedHash256 lib chaining_key input;
     t0 \<leftarrow> KeyedHash256 lib prk [0x01];
     let t0_counter2 = (copy_into (zeros 33) t0)[32 := 0x02];
     t1 \<leftarrow> KeyedHash256 lib prk t0_counter2;
     Some (t0, t1)
   }"

definition KDF3 :: "'k crypto \<Rightarrow> bytes \<Rightarrow> bytes \<Rightarrow> (bytes \<times> bytes \<times> bytes) option" where
  "KDF3 lib chaining_key input = do {
     prk \<leftarrow> KeyedHash256 lib chaining_key input;
     t0 \<leftarrow> KeyedHash256 lib prk [0x01];
     let t0_counter2 = (copy_into (zeros 33) t0)[32 := 0x02];
     t1 \<leftarrow> KeyedHash256 lib prk t0_counter2;
     let t1_counter3 = (copy_into (zeros 33) t1)[32 := 0x03];
     t2 \<leftarrow> KeyedHash256 lib prk t1_counter3;
     Some (t0, t1, t2)
   }"

definition MixKey :: "'k crypto \<Rightarrow> bytes \<Rightarrow> bytes \<Rightarrow> bool \<times> bytes" where
  "MixKey lib chaining_key input =
     (case KDF1 lib chaining_key input of
        None \<Rightarrow> (False, chaining_key)
      | Some r \<Rightarrow> (True, r))"

section \<open>AEAD steps of the handshake\<close>

definition EncryptAndHash :: "'k crypto \<Rightarrow> bytes \<Rightarrow> bytes \<Rightarrow> bytes \<Rightarrow> bytes option \<times> bytes" where
  "EncryptAndHash lib hash key plaintext =
     (let kZeroNonce = zeros kNonceBytes;
          aead_key = copy_into (zeros kKeyBytes) key in
      case Encrypt lib plaintext aead_key kZeroNonce hash of
        None \<Rightarrow> (None, hash)
      | Some result \<Rightarrow>
          let ct_with_tag = ciphertext result @ tag result in
          (Some ct_with_tag, MixHash lib hash ct_with_tag))"

definition DecryptAndHash :: "'k crypto \<Rightarrow> bytes \<Rightarrow> bytes \<Rightarrow> bytes \<Rightarrow> bytes option \<times> bytes" where
  "DecryptAndHash lib hash key ciphertext_with_tag =
     (if length ciphertext_with_tag < kTagBytes then (None, hash)
      else
        let kZeroNonce = zeros kNonceBytes;
            aead_key = copy_into (zeros kKeyBytes) key;
            ct_len = length ciphertext_with_tag - kTagBytes;
            ct_span = read_at 0 ct_len ciphertext_with_tag;
            tg = read_at ct_len kTagBytes ciphertext_with_tag in
        case Decrypt lib ct_span tg aead_key kZeroNonce hash of
          None \<Rightarrow> (None, hash)
        | Some plaintext \<Rightarrow> (Some plaintext, MixHash lib hash ciphertext_with_tag))"

section \<open>Message authentication codes\<close>

definition DeriveMac1Key :: "'k crypto \<Rightarrow> bytes \<Rightarrow> bytes option" where
  "DeriveMac1Key lib responder_static_pub =
     Hash256 lib (string_bytes kLabelMac1 @ responder_static_pub)"

definition ComputeMac1 :: "'k crypto \<Rightarrow> bytes \<Rightarrow> bytes \<Rightarrow> bytes option" where
  "ComputeMac1 lib mac1_key message_before_mac1 = do {
     hash \<leftarrow> KeyedHash256 lib mac1_key message_before_mac1;
     Some (read_at 0 16 hash)
   }"

definition VerifyMac1 :: "'k crypto \<Rightarrow> bytes \<Rightarrow> bytes \<Rightarrow> bytes \<Rightarrow> bool" where
  "VerifyMac1 lib mac1_key message_before_mac1 received_mac1 =
     (case ComputeMac1 lib mac1_key message_before_mac1 of
        None \<Rightarrow> False
      | Some expected \<Rightarrow> ct_memcmp expected received_mac1)"

definition ComputeMac2 :: "'k crypto \<Rightarrow> bytes \<Rightarrow> bytes \<Rightarrow> bytes option" where
  "ComputeMac2 lib cookie message_before_mac2 = do {
     hash \<leftarrow> KeyedHash256 lib (write_at 0 cookie (zeros 32)) message_before_mac2;
     Some (read_at 0 16 hash)
   }"

definition VerifyMac2 :: "'k crypto \<Rightarrow> bytes \<Rightarrow> bytes \<Rightarrow> bytes \<Rightarrow> bool" where
  "VerifyMac2 lib cookie message_before_mac2 received_mac2 =
     (case ComputeMac2 lib cookie message_before_mac2 of
        None \<Rightarrow> False
      | Some expected \<Rightarrow> ct_memcmp expected received_mac2)"

section \<open>Cookies\<close>

definition kCookieBytes :: nat where "kCookieBytes = 16"
definition kRotatingSecretBytes :: nat where "kRotatingSecretBytes = 32"
definition kCookieNonceBytes :: nat where "kCookieNonceBytes = 12"

record CookieReply =
  cr_type :: u32
  cr_receiver_index :: u32
  cr_nonce :: bytes
  cr_encrypted_cookie :: bytes

definition DeriveCookieKey :: "'k crypto \<Rightarrow> bytes \<Rightarrow> bytes option" where
  "DeriveCookieKey lib static_x25519_pub =
     Hash256 lib (string_bytes kLabelCookie @ static_x25519_pub)"

text \<open>
  \<open>inet6\<close> is the C library's \<open>inet_pton\<close> for IPv6: 16 bytes, or its failure.
\<close>

definition GenerateCookie ::
  "'k crypto \<Rightarrow> (string \<Rightarrow> bytes option) \<Rightarrow> bytes \<Rightarrow> string \<Rightarrow> u16 \<Rightarrow> bytes option" where
  "GenerateCookie lib inet6 rotating_secret sender_ip sender_port = do {
     let port_hi = ucast (drop_bit 8 sender_port);
     let port_lo = ucast (sender_port AND 0xFF);
     data \<leftarrow> (case inet_pton4 sender_ip of
         Some ipv4 \<Rightarrow> Some ((write_at 0 (read_at 0 4 ipv4) (zeros 6))[4 := port_hi, 5 := port_lo])
       | None \<Rightarrow> (case inet6 sender_ip of
           Some ipv6 \<Rightarrow> Some ((write_at 0 (read_at 0 8 ipv6) (zeros 10))[8 := port_hi, 9 := port_lo])
         | None \<Rightarrow> None));
     hash \<leftarrow> KeyedHash256 lib rotating_secret data;
     Some (read_at 0 16 hash)
   }"

definition BuildCookieReply ::
  "'k crypto \<Rightarrow> bytes option \<Rightarrow> u32 \<Rightarrow> bytes \<Rightarrow> bytes \<Rightarrow> bytes \<Rightarrow> CookieReply option" where
  "BuildCookieReply lib rand receiver_index cookie cookie_key mac1 = do {
     nonce \<leftarrow> GenerateNonce rand;
     let aead_key = copy_into (zeros kKeyBytes) cookie_key;
     result \<leftarrow> Encrypt lib cookie aead_key nonce mac1;
     Some \<lparr>cr_type = 3, cr_receiver_index = receiver_index, cr_nonce = nonce,
       cr_encrypted_cookie = write_at 16 (read_at 0 16 (tag result))
         (write_at 0 (read_at 0 16 (ciphertext result)) (zeros 32))\<rparr>
   }"

definition DecryptCookieReply :: "'k crypto \<Rightarrow> CookieReply \<Rightarrow> bytes \<Rightarrow> bytes \<Rightarrow> bytes option" where
  "DecryptCookieReply lib reply cookie_key last_mac1_sent = do {
     let aead_key = copy_into (zeros kKeyBytes) cookie_key;
     let ct = read_at 0 16 (cr_encrypted_cookie reply);
     let tg = read_at 16 16 (cr_encrypted_cookie reply);
     plaintext \<leftarrow> Decrypt lib ct tg aead_key (cr_nonce reply) last_mac1_sent;
     Some (read_at 0 16 plaintext)
   }"

section \<open>The key derivation as a chain\<close>

text \<open>
  The specification in the header: \<open>temp = HMAC(C, input)\<close>, and output \<open>i\<close> is
  \<open>HMAC(temp, output (i - 1) || i)\<close>, output 0 being empty.
\<close>

fun kdf_chain :: "'k crypto \<Rightarrow> bytes \<Rightarrow> bytes \<Rightarrow> nat \<Rightarrow> bytes" where
  "kdf_chain lib c x 0 = []"
| "kdf_chain lib c x (Suc n) =
     blake3_keyed_out lib (blake3_keyed_out lib c x 32) (kdf_chain lib c x n @ [of_nat (Suc n)]) 32"

lemma length_kdf_chain [len_simps]:
  "crypto_laws lib \<Longrightarrow> 0 < n \<Longrightarrow> length (kdf_chain lib c x n) = 32"
  by (cases n) (simp_all add: length_blake3)

lemma counter_buffer:
  "length t = 32 \<Longrightarrow> (copy_into (zeros 33) t)[32 := v] = t @ [v]"
  by (simp add: copy_into_def write_at_zeros_0 list_update_append) (simp add: zeros_def)

lemma KDF_chain:
  assumes "crypto_laws lib"
  shows "KDF1 lib c x = Some (kdf_chain lib c x 1)"
    and "KDF2 lib c x = Some (kdf_chain lib c x 1, kdf_chain lib c x 2)"
    and "KDF3 lib c x = Some (kdf_chain lib c x 1, kdf_chain lib c x 2, kdf_chain lib c x 3)"
  by (simp_all add: KDF1_def KDF2_def KDF3_def KeyedHash256_def kDefaultHashBytes_def
      counter_buffer length_blake3 assms numeral_2_eq_2 numeral_3_eq_3 Let_def)

lemma MixKey_chain: "crypto_laws lib \<Longrightarrow> MixKey lib c x = (True, kdf_chain lib c x 1)"
  by (simp add: MixKey_def KDF_chain)

section \<open>Both sides of an AEAD step\<close>

definition transcript :: "'k crypto \<Rightarrow> bytes \<Rightarrow> bytes \<Rightarrow> bytes" where
  "transcript lib h d = blake3_out lib (h @ d) 32"

lemma MixHash_transcript: "h \<noteq> [] \<or> d \<noteq> [] \<Longrightarrow> MixHash lib h d = transcript lib h d"
  by (auto simp: MixHash_def Hash256_def transcript_def kDefaultHashBytes_def)

lemma length_transcript [len_simps]: "crypto_laws lib \<Longrightarrow> length (transcript lib h d) = 32"
  by (simp add: transcript_def length_blake3)

lemma length_MixHash [len_simps]:
  "crypto_laws lib \<Longrightarrow> length h = 32 \<Longrightarrow> length (MixHash lib h d) = 32"
  by (auto simp: MixHash_def length_blake3 Hash256_def kDefaultHashBytes_def)

lemma EncryptAndHash_sealed:
  assumes "crypto_laws lib" and "length key = 32"
  shows "EncryptAndHash lib h key p =
    (Some (sealed lib key (zeros 12) h p), MixHash lib h (sealed lib key (zeros 12) h p))"
  using assms
  by (simp add: EncryptAndHash_def Encrypt_laws sealed_def kKeyBytes_def kNonceBytes_def Let_def)

lemma DecryptAndHash_sealed:
  assumes "crypto_laws lib" and "length key = 32"
  shows "DecryptAndHash lib h key (sealed lib key (zeros 12) h p) =
    (Some p, MixHash lib h (sealed lib key (zeros 12) h p))"
  using assms open_sealed [OF assms(1) refl, of p key "zeros 12" h]
  by (simp add: DecryptAndHash_def kTagBytes_def kKeyBytes_def kNonceBytes_def length_sealed Let_def)

lemma DecryptAndHash_failed: "fst (DecryptAndHash lib h key c) = None \<Longrightarrow> snd (DecryptAndHash lib h key c) = h"
  by (simp add: DecryptAndHash_def Let_def split: option.splits if_splits)

lemma ComputeMac_total:
  "ComputeMac1 lib k m = Some (read_at 0 16 (blake3_keyed_out lib k m 32))"
  "ComputeMac2 lib k m = Some (read_at 0 16 (blake3_keyed_out lib (write_at 0 k (zeros 32)) m 32))"
  by (simp_all add: ComputeMac1_def ComputeMac2_def KeyedHash256_def kDefaultHashBytes_def)

lemma VerifyMac_iff:
  "VerifyMac1 lib k m t \<longleftrightarrow> ComputeMac1 lib k m = Some t"
  "VerifyMac2 lib k m t \<longleftrightarrow> ComputeMac2 lib k m = Some t"
  by (auto simp: VerifyMac1_def VerifyMac2_def split: option.splits)

lemma DeriveKey_total:
  "DeriveMac1Key lib pub = Some (blake3_out lib (string_bytes kLabelMac1 @ pub) 32)"
  "DeriveCookieKey lib pub = Some (blake3_out lib (string_bytes kLabelCookie @ pub) 32)"
  by (simp_all add: DeriveMac1Key_def DeriveCookieKey_def Hash256_def kDefaultHashBytes_def
      string_bytes_def kLabelMac1_def kLabelCookie_def)

lemma cookie_reply_opens:
  assumes "crypto_laws lib" and "length key = 32" and "length cookie = 16" and "length r = 12"
    and "BuildCookieReply lib (Some r) idx cookie key mac1 = Some reply"
  shows "DecryptCookieReply lib reply key mac1 = Some cookie"
  using assms(5)
  by (auto simp: BuildCookieReply_def DecryptCookieReply_def GenerateNonce_def kNonceBytes_def
      kKeyBytes_def Encrypt_laws Decrypt_laws seal_laws buf_simps Let_def assms(1-4))

section \<open>Properties\<close>

text \<open>
  The three key derivations are prefixes of one chain: each output is the keyed hash,
  under the key \<open>BLAKE3_keyed(C, input)\<close>, of the previous output followed by its number.
\<close>

lemma KDFs_are_one_chain:
  assumes "crypto_laws lib"
  shows "KDF1 lib c x = Some (kdf_chain lib c x 1) \<and>
    KDF2 lib c x = Some (kdf_chain lib c x 1, kdf_chain lib c x 2) \<and>
    KDF3 lib c x = Some (kdf_chain lib c x 1, kdf_chain lib c x 2, kdf_chain lib c x 3)"
  using KDF_chain [OF assms] by simp

lemma KDFs_are_one_chain_witness:
  "KDF3 toy [1] [2] = Some (kdf_chain toy [1] [2] 1, kdf_chain toy [1] [2] 2, kdf_chain toy [1] [2] 3)"
  using KDFs_are_one_chain [OF toy_crypto_laws, of "[1]" "[2]"] by simp

text \<open>
  C20. The two AEAD steps of the handshake agree: what \<open>EncryptAndHash\<close> produces,
  \<open>DecryptAndHash\<close> under the same transcript and key opens to the plaintext, and both end
  with the same transcript. A ciphertext that does not open leaves the transcript as it was.
\<close>

theorem DecryptAndHash_inverts_EncryptAndHash:
  assumes "crypto_laws lib" and "length key = 32"
  shows "(\<exists>c h'. EncryptAndHash lib h key p = (Some c, h') \<and>
      DecryptAndHash lib h key c = (Some p, h') \<and> length c = length p + 16) \<and>
    (fst (DecryptAndHash lib h key d) = None \<longrightarrow> snd (DecryptAndHash lib h key d) = h)"
  using EncryptAndHash_sealed [OF assms] DecryptAndHash_sealed [OF assms]
    DecryptAndHash_failed [of lib h key d] length_sealed [OF assms(1)] by simp

theorem DecryptAndHash_inverts_EncryptAndHash_witness:
  "\<exists>c h'. EncryptAndHash toy [7] (zeros 32) [1, 2] = (Some c, h') \<and>
     DecryptAndHash toy [7] (zeros 32) c = (Some [1, 2], h') \<and> length c = 18"
  using DecryptAndHash_inverts_EncryptAndHash [OF toy_crypto_laws, of "zeros 32" "[7]" "[1, 2]"]
  by simp

text \<open>
  The cookie exchange: a responder under load makes a cookie for the sender's address,
  sends it encrypted under the key derived from its static public key; the initiator, who
  sent \<open>mac1\<close>, recovers exactly that cookie, and a \<open>mac2\<close> computed with it over any message
  is accepted by the responder, who recomputes the cookie from the address.
\<close>

lemma cookie_exchange:
  assumes "crypto_laws lib" and "inet_pton4 ip \<noteq> None" and "length r = 12" and "length mac1 = 16"
  shows "\<exists>key cookie reply. DeriveCookieKey lib pub = Some key \<and>
    GenerateCookie lib inet6 secret ip port = Some cookie \<and>
    BuildCookieReply lib (Some r) idx cookie key mac1 = Some reply \<and>
    cr_receiver_index reply = idx \<and>
    DecryptCookieReply lib reply key mac1 = Some cookie \<and>
    (\<forall>msg. \<exists>mac2. ComputeMac2 lib cookie msg = Some mac2 \<and> length mac2 = 16 \<and>
       VerifyMac2 lib cookie msg mac2)"
proof -
  let ?key = "blake3_out lib (string_bytes kLabelCookie @ pub) 32"
  obtain cookie where c: "GenerateCookie lib inet6 secret ip port = Some cookie" "length cookie = 16"
    using assms(1,2)
    by (auto simp: GenerateCookie_def KeyedHash256_def kDefaultHashBytes_def length_blake3 Let_def)
  obtain reply where r: "BuildCookieReply lib (Some r) idx cookie ?key mac1 = Some reply"
    "cr_receiver_index reply = idx"
    using assms(1) by (simp add: BuildCookieReply_def GenerateNonce_def Encrypt_laws Let_def)
  have "DecryptCookieReply lib reply ?key mac1 = Some cookie"
    using cookie_reply_opens [OF assms(1) _ c(2) assms(3) r(1)] assms(1) by (simp add: length_blake3)
  moreover have "\<exists>mac2. ComputeMac2 lib cookie msg = Some mac2 \<and> length mac2 = 16 \<and>
      VerifyMac2 lib cookie msg mac2" for msg
    using assms(1) by (simp add: VerifyMac_iff ComputeMac_total length_blake3)
  ultimately show ?thesis using c(1) r DeriveKey_total(2) by blast
qed

lemma cookie_exchange_witness:
  "\<exists>key cookie reply. DeriveCookieKey toy (zeros 32) = Some key \<and>
    GenerateCookie toy (\<lambda>_. None) (zeros 32) ''10.0.0.7'' 51820 = Some cookie \<and>
    BuildCookieReply toy (Some (zeros 12)) 5 cookie key (zeros 16) = Some reply \<and>
    DecryptCookieReply toy reply key (zeros 16) = Some cookie"
proof -
  have "inet_pton4 ''10.0.0.7'' \<noteq> None" by (simp add: inet_pton4_def c_str_def is_digit_def digit_value_def)
  then show ?thesis
    using cookie_exchange [OF toy_crypto_laws _ length_zeros length_zeros] by blast
qed

end
