(* ===== verification/HandshakeMessages.thy ===== *)
theory HandshakeMessages
  imports BitUtils
begin

text \<open>
  \<open>core/handshake/handshake_messages.hpp\<close> and \<open>.cpp\<close>: the four wire messages, their
  serialisers into a zeroed buffer and their parsers. A parser and its serialiser form a
  wire format (a locale): what is serialised parses back, what parses is exactly the
  serialisation of the result, and the type tag separates the four formats.
\<close>

section \<open>Little-endian integers in a buffer\<close>

definition WriteU32LE :: "nat \<Rightarrow> u32 \<Rightarrow> bytes \<Rightarrow> bytes" where
  "WriteU32LE off val buf =
     buf[off := ucast val, off + 1 := ucast (drop_bit 8 val),
         off + 2 := ucast (drop_bit 16 val), off + 3 := ucast (drop_bit 24 val)]"

definition ReadU32LE :: "bytes \<Rightarrow> nat \<Rightarrow> u32" where
  "ReadU32LE buf off =
     ucast (buf ! off) OR push_bit 8 (ucast (buf ! (off + 1))) OR
     push_bit 16 (ucast (buf ! (off + 2))) OR push_bit 24 (ucast (buf ! (off + 3)))"

definition WriteU64LE :: "nat \<Rightarrow> u64 \<Rightarrow> bytes \<Rightarrow> bytes" where
  "WriteU64LE off val buf =
     fold (\<lambda>i b. b[off + i := ucast (drop_bit (8 * i) val)]) [0..<8] buf"

definition ReadU64LE :: "bytes \<Rightarrow> nat \<Rightarrow> u64" where
  "ReadU64LE buf off =
     fold (\<lambda>i val. val OR push_bit (8 * i) (ucast (buf ! (off + i)))) [0..<8] 0"

lemma upt_8: "[0..<8] = [0, 1, 2, 3, 4, 5, 6, 7]"
  by (simp add: upt_rec)

lemma list_update_write_at:
  "off < length buf \<Longrightarrow> buf[off := x] = write_at off [x] buf"
  by (simp add: write_at_def upd_conv_take_nth_drop)

lemma write_at_snoc:
  "off + length xs < length buf \<Longrightarrow>
   (write_at off xs buf)[off + length xs := x] = write_at off (xs @ [x]) buf"
  by (simp add: write_at_def list_update_append Cons_nth_drop_Suc [symmetric])

lemma WriteU32LE_write_at [buf_simps]:
  "off + 4 \<le> length buf \<Longrightarrow> WriteU32LE off val buf = write_at off (le_bytes 4 val) buf"
  using write_at_snoc [of off "[ucast val]" buf "ucast (drop_bit 8 val)"]
    write_at_snoc [of off "[ucast val, ucast (drop_bit 8 val)]" buf "ucast (drop_bit 16 val)"]
    write_at_snoc [of off "[ucast val, ucast (drop_bit 8 val), ucast (drop_bit 16 val)]" buf
      "ucast (drop_bit 24 val)"]
  by (simp add: WriteU32LE_def list_update_write_at [of off] numeral_eq_Suc drop_bit_drop_bit)

lemma read_at_Cons: "off < length xs \<Longrightarrow> read_at off (Suc n) xs = xs ! off # read_at (Suc off) n xs"
  by (simp add: read_at_def Cons_nth_drop_Suc [symmetric])

lemma read_at_none [simp]: "read_at off 0 xs = []"
  by (simp add: read_at_def)

lemma read_at_4:
  "off + 4 \<le> length xs \<Longrightarrow>
   read_at off 4 xs = [xs ! off, xs ! (off + 1), xs ! (off + 2), xs ! (off + 3)]"
  using read_at_Cons [of off xs 3] read_at_Cons [of "off + 1" xs 2]
    read_at_Cons [of "off + 2" xs 1] read_at_Cons [of "off + 3" xs 0]
  by (simp add: numeral_eq_Suc)

lemma ReadU32LE_read_at [buf_simps]:
  "off + 4 \<le> length buf \<Longrightarrow> ReadU32LE buf off = le_word (read_at off 4 buf)"
  by (simp add: ReadU32LE_def read_at_4 push_bit_or push_bit_push_bit or.assoc)

lemma read_at_8:
  "off + 8 \<le> length xs \<Longrightarrow> read_at off 8 xs = read_at off 4 xs @ read_at (off + 4) 4 xs"
  by (simp add: read_at_join)

lemma ReadU64LE_read_at [buf_simps]:
  "off + 8 \<le> length buf \<Longrightarrow> ReadU64LE buf off = le_word (read_at off 8 buf)"
  by (simp add: ReadU64LE_def upt_8 read_at_8 read_at_4 push_bit_or push_bit_push_bit or.assoc
      add.commute)

lemma le_bytes_map: "le_bytes n v = map (\<lambda>i. ucast (drop_bit (8 * i) v)) [0..<n]"
proof (induction n arbitrary: v)
  case 0
  then show ?case by simp
next
  case (Suc n)
  show ?case
    by (simp add: Suc.IH upt_conv_Cons drop_bit_drop_bit map_Suc_upt [symmetric] add.commute
        del: upt_Suc)
qed

lemma fold_bytes_write_at:
  "off + n \<le> length buf \<Longrightarrow>
   fold (\<lambda>i b. b[off + i := f i]) [0..<n] buf = write_at off (map f [0..<n]) buf"
proof (induction n)
  case 0
  then show ?case by (simp add: write_at_def)
next
  case (Suc n)
  then show ?case using write_at_snoc [of off "map f [0..<n]" buf "f n"] by simp
qed

lemma WriteU64LE_write_at [buf_simps]:
  "off + 8 \<le> length buf \<Longrightarrow> WriteU64LE off val buf = write_at off (le_bytes 8 val) buf"
  by (simp add: WriteU64LE_def fold_bytes_write_at le_bytes_map)

section \<open>The messages\<close>

definition kInitiationSize :: nat where
  "kInitiationSize = 3620"

definition kResponseSize :: nat where
  "kResponseSize = 2268"

definition kCookieReplySize :: nat where
  "kCookieReplySize = 64"

definition kTransportHeaderSize :: nat where
  "kTransportHeaderSize = 16"

datatype MessageType = Initiation | Response | Cookie | Transport

fun message_code :: "MessageType \<Rightarrow> u32" where
  "message_code Initiation = 1"
| "message_code Response = 2"
| "message_code Cookie = 3"
| "message_code Transport = 4"

record InitiationMsg =
  im_sender_index :: u32
  im_ephemeral_x25519 :: bytes
  im_ephemeral_mlkem_ek :: bytes
  im_kem_ciphertext_es :: bytes
  im_encrypted_static_x25519 :: bytes
  im_encrypted_static_mlkem :: bytes
  im_encrypted_timestamp :: bytes
  im_mac1 :: bytes
  im_mac2 :: bytes

record ResponseMsg =
  rm_sender_index :: u32
  rm_receiver_index :: u32
  rm_ephemeral_x25519 :: bytes
  rm_kem_ciphertext_ee :: bytes
  rm_kem_ciphertext_se :: bytes
  rm_encrypted_empty :: bytes
  rm_mac1 :: bytes
  rm_mac2 :: bytes

record CookieReplyMsg =
  cm_receiver_index :: u32
  cm_nonce :: bytes
  cm_encrypted_cookie :: bytes

record TransportDataMsg =
  tm_receiver_index :: u32
  tm_counter :: u64
  tm_encrypted_payload :: bytes

text \<open>The array sizes of the C++ structs.\<close>

definition wf_InitiationMsg :: "InitiationMsg \<Rightarrow> bool" where
  "wf_InitiationMsg m \<longleftrightarrow>
     length (im_ephemeral_x25519 m) = 32 \<and> length (im_ephemeral_mlkem_ek m) = 1184 \<and>
     length (im_kem_ciphertext_es m) = 1088 \<and> length (im_encrypted_static_x25519 m) = 48 \<and>
     length (im_encrypted_static_mlkem m) = 1200 \<and> length (im_encrypted_timestamp m) = 28 \<and>
     length (im_mac1 m) = 16 \<and> length (im_mac2 m) = 16"

definition wf_ResponseMsg :: "ResponseMsg \<Rightarrow> bool" where
  "wf_ResponseMsg m \<longleftrightarrow>
     length (rm_ephemeral_x25519 m) = 32 \<and> length (rm_kem_ciphertext_ee m) = 1088 \<and>
     length (rm_kem_ciphertext_se m) = 1088 \<and> length (rm_encrypted_empty m) = 16 \<and>
     length (rm_mac1 m) = 16 \<and> length (rm_mac2 m) = 16"

definition wf_CookieReplyMsg :: "CookieReplyMsg \<Rightarrow> bool" where
  "wf_CookieReplyMsg m \<longleftrightarrow>
     length (cm_nonce m) = 24 \<and> length (cm_encrypted_cookie m) = 32"

text \<open>A transport payload carries at least the 16-byte tag.\<close>

definition wf_TransportDataMsg :: "TransportDataMsg \<Rightarrow> bool" where
  "wf_TransportDataMsg m \<longleftrightarrow> 16 \<le> length (tm_encrypted_payload m)"

section \<open>Serialisers and parsers\<close>

definition SerializeInitiation :: "InitiationMsg \<Rightarrow> bytes" where
  "SerializeInitiation msg =
     (let buf = zeros kInitiationSize;
          buf = WriteU32LE 0 (message_code Initiation) buf;
          buf = WriteU32LE 4 (im_sender_index msg) buf;
          buf = write_at 8 (im_ephemeral_x25519 msg) buf;
          buf = write_at 40 (im_ephemeral_mlkem_ek msg) buf;
          buf = write_at 1224 (im_kem_ciphertext_es msg) buf;
          buf = write_at 2312 (im_encrypted_static_x25519 msg) buf;
          buf = write_at 2360 (im_encrypted_static_mlkem msg) buf;
          buf = write_at 3560 (im_encrypted_timestamp msg) buf;
          buf = write_at 3588 (im_mac1 msg) buf;
          buf = write_at 3604 (im_mac2 msg) buf
      in buf)"

definition DeserializeInitiation :: "bytes \<Rightarrow> InitiationMsg option" where
  "DeserializeInitiation buf =
     (if length buf \<noteq> kInitiationSize then None
      else if ReadU32LE buf 0 \<noteq> message_code Initiation then None
      else Some
        \<lparr>im_sender_index = ReadU32LE buf 4,
         im_ephemeral_x25519 = read_at 8 32 buf,
         im_ephemeral_mlkem_ek = read_at 40 1184 buf,
         im_kem_ciphertext_es = read_at 1224 1088 buf,
         im_encrypted_static_x25519 = read_at 2312 48 buf,
         im_encrypted_static_mlkem = read_at 2360 1200 buf,
         im_encrypted_timestamp = read_at 3560 28 buf,
         im_mac1 = read_at 3588 16 buf,
         im_mac2 = read_at 3604 16 buf\<rparr>)"

definition SerializeResponse :: "ResponseMsg \<Rightarrow> bytes" where
  "SerializeResponse msg =
     (let buf = zeros kResponseSize;
          buf = WriteU32LE 0 (message_code Response) buf;
          buf = WriteU32LE 4 (rm_sender_index msg) buf;
          buf = WriteU32LE 8 (rm_receiver_index msg) buf;
          buf = write_at 12 (rm_ephemeral_x25519 msg) buf;
          buf = write_at 44 (rm_kem_ciphertext_ee msg) buf;
          buf = write_at 1132 (rm_kem_ciphertext_se msg) buf;
          buf = write_at 2220 (rm_encrypted_empty msg) buf;
          buf = write_at 2236 (rm_mac1 msg) buf;
          buf = write_at 2252 (rm_mac2 msg) buf
      in buf)"

definition DeserializeResponse :: "bytes \<Rightarrow> ResponseMsg option" where
  "DeserializeResponse buf =
     (if length buf \<noteq> kResponseSize then None
      else if ReadU32LE buf 0 \<noteq> message_code Response then None
      else Some
        \<lparr>rm_sender_index = ReadU32LE buf 4,
         rm_receiver_index = ReadU32LE buf 8,
         rm_ephemeral_x25519 = read_at 12 32 buf,
         rm_kem_ciphertext_ee = read_at 44 1088 buf,
         rm_kem_ciphertext_se = read_at 1132 1088 buf,
         rm_encrypted_empty = read_at 2220 16 buf,
         rm_mac1 = read_at 2236 16 buf,
         rm_mac2 = read_at 2252 16 buf\<rparr>)"

definition SerializeCookieReply :: "CookieReplyMsg \<Rightarrow> bytes" where
  "SerializeCookieReply msg =
     (let buf = zeros kCookieReplySize;
          buf = WriteU32LE 0 (message_code Cookie) buf;
          buf = WriteU32LE 4 (cm_receiver_index msg) buf;
          buf = write_at 8 (cm_nonce msg) buf;
          buf = write_at 32 (cm_encrypted_cookie msg) buf
      in buf)"

definition DeserializeCookieReply :: "bytes \<Rightarrow> CookieReplyMsg option" where
  "DeserializeCookieReply buf =
     (if length buf \<noteq> kCookieReplySize then None
      else if ReadU32LE buf 0 \<noteq> message_code Cookie then None
      else Some
        \<lparr>cm_receiver_index = ReadU32LE buf 4,
         cm_nonce = read_at 8 24 buf,
         cm_encrypted_cookie = read_at 32 32 buf\<rparr>)"

definition SerializeTransport :: "TransportDataMsg \<Rightarrow> bytes" where
  "SerializeTransport msg =
     (let payload = tm_encrypted_payload msg;
          buf = zeros (kTransportHeaderSize + length payload);
          buf = WriteU32LE 0 (message_code Transport) buf;
          buf = WriteU32LE 4 (tm_receiver_index msg) buf;
          buf = WriteU64LE 8 (tm_counter msg) buf
      in if payload \<noteq> [] then write_at 16 payload buf else buf)"

definition DeserializeTransport :: "bytes \<Rightarrow> TransportDataMsg option" where
  "DeserializeTransport buf =
     (if length buf < kTransportHeaderSize then None
      else if ReadU32LE buf 0 \<noteq> message_code Transport then None
      else
        (let payload_size = length buf - kTransportHeaderSize in
         if payload_size < 16 then None
         else Some
           \<lparr>tm_receiver_index = ReadU32LE buf 4,
            tm_counter = ReadU64LE buf 8,
            tm_encrypted_payload = read_at 16 payload_size buf\<rparr>))"

section \<open>Wire formats\<close>

text \<open>
  The contract between a serialiser and its parser: every well-formed message survives the
  wire, the parser accepts only serialised well-formed messages (so a message has one
  encoding), and every encoding starts with the type tag.
\<close>

locale wire_format =
  fixes ser :: "'m \<Rightarrow> bytes" and deser :: "bytes \<Rightarrow> 'm option" and wf :: "'m \<Rightarrow> bool"
    and tag :: MessageType
  assumes roundtrip: "wf m \<Longrightarrow> deser (ser m) = Some m"
    and canonical: "deser bs = Some m \<Longrightarrow> wf m \<and> ser m = bs"
    and tagged: "deser bs = Some m \<Longrightarrow> ReadU32LE bs 0 = message_code tag"
begin

lemma ser_inject: "wf m \<Longrightarrow> wf m' \<Longrightarrow> ser m = ser m' \<longleftrightarrow> m = m'"
  using roundtrip by (metis option.inject)

lemma deser_iff: "deser bs = Some m \<longleftrightarrow> wf m \<and> bs = ser m"
  using roundtrip canonical by blast

lemma accepts_iff: "deser bs \<noteq> None \<longleftrightarrow> (\<exists>m. wf m \<and> bs = ser m)"
  using deser_iff by blast

lemma first_byte: "wf m \<Longrightarrow> ReadU32LE (ser m) 0 = message_code tag"
  using roundtrip tagged by blast

end

lemma le_word_4 [simp]: "le_word (le_bytes 4 v) = (v :: u32)"
  by (rule le_word_le_bytes) simp

lemma le_word_8 [simp]: "le_word (le_bytes 8 v) = (v :: u64)"
  by (rule le_word_le_bytes) simp

lemmas size_defs = kInitiationSize_def kResponseSize_def kCookieReplySize_def
  kTransportHeaderSize_def

text \<open>Each serialiser fills its buffer from the front: the wire layout as one concatenation.\<close>

lemma first_word: "4 \<le> n \<Longrightarrow> WriteU32LE 0 v (zeros n) = le_bytes 4 v @ zeros (n - 4)"
  by (simp add: buf_simps)

lemma next_word:
  "off = length pre \<Longrightarrow> 4 \<le> n \<Longrightarrow>
   WriteU32LE off v (pre @ zeros n) = (pre @ le_bytes 4 v) @ zeros (n - 4)"
  by (simp add: buf_simps)

lemma next_dword:
  "off = length pre \<Longrightarrow> 8 \<le> n \<Longrightarrow>
   WriteU64LE off v (pre @ zeros n) = (pre @ le_bytes 8 v) @ zeros (n - 8)"
  by (simp add: buf_simps)

lemma next_field:
  "off = length pre \<Longrightarrow>
   write_at off src (pre @ zeros n) = (pre @ src) @ zeros (n - length src)"
  by (simp add: buf_simps)

lemmas layout_simps = Let_def size_defs first_word next_word next_dword next_field

lemma SerializeInitiation_concat:
  "wf_InitiationMsg m \<Longrightarrow>
   SerializeInitiation m = le_bytes 4 (1 :: u32) @ le_bytes 4 (im_sender_index m) @
     im_ephemeral_x25519 m @ im_ephemeral_mlkem_ek m @ im_kem_ciphertext_es m @
     im_encrypted_static_x25519 m @ im_encrypted_static_mlkem m @ im_encrypted_timestamp m @
     im_mac1 m @ im_mac2 m"
  by (simp add: SerializeInitiation_def layout_simps wf_InitiationMsg_def flip: append_assoc)

lemma SerializeResponse_concat:
  "wf_ResponseMsg m \<Longrightarrow>
   SerializeResponse m = le_bytes 4 (2 :: u32) @ le_bytes 4 (rm_sender_index m) @
     le_bytes 4 (rm_receiver_index m) @ rm_ephemeral_x25519 m @ rm_kem_ciphertext_ee m @
     rm_kem_ciphertext_se m @ rm_encrypted_empty m @ rm_mac1 m @ rm_mac2 m"
  by (simp add: SerializeResponse_def layout_simps wf_ResponseMsg_def flip: append_assoc)

lemma SerializeCookieReply_concat:
  "wf_CookieReplyMsg m \<Longrightarrow>
   SerializeCookieReply m = le_bytes 4 (3 :: u32) @ le_bytes 4 (cm_receiver_index m) @
     cm_nonce m @ cm_encrypted_cookie m"
  by (simp add: SerializeCookieReply_def layout_simps wf_CookieReplyMsg_def flip: append_assoc)

lemma SerializeTransport_concat:
  "SerializeTransport m = le_bytes 4 (4 :: u32) @ le_bytes 4 (tm_receiver_index m) @
     le_bytes 8 (tm_counter m) @ tm_encrypted_payload m"
  by (simp add: SerializeTransport_def layout_simps flip: append_assoc)

lemma length_SerializeInitiation [len_simps]:
  "wf_InitiationMsg m \<Longrightarrow> length (SerializeInitiation m) = 3620"
  by (simp add: SerializeInitiation_concat) (simp add: wf_InitiationMsg_def)

lemma length_SerializeResponse [len_simps]:
  "wf_ResponseMsg m \<Longrightarrow> length (SerializeResponse m) = 2268"
  by (simp add: SerializeResponse_concat) (simp add: wf_ResponseMsg_def)

lemma length_SerializeCookieReply [len_simps]:
  "wf_CookieReplyMsg m \<Longrightarrow> length (SerializeCookieReply m) = 64"
  by (simp add: SerializeCookieReply_concat) (simp add: wf_CookieReplyMsg_def)

lemma length_SerializeTransport [len_simps]:
  "length (SerializeTransport m) = 16 + length (tm_encrypted_payload m)"
  by (simp add: SerializeTransport_concat)

text \<open>Reading a field back skips the fields before it.\<close>

lemmas parse_simps = ReadU32LE_read_at ReadU64LE_read_at read_at_append_skip
  read_at_append_here read_at_self

lemma Initiation_roundtrip:
  assumes "wf_InitiationMsg m"
  shows "DeserializeInitiation (SerializeInitiation m) = Some m"
  using assms length_SerializeInitiation [OF assms]
  by (simp add: DeserializeInitiation_def SerializeInitiation_concat wf_InitiationMsg_def
      size_defs parse_simps)

lemma Response_roundtrip:
  assumes "wf_ResponseMsg m"
  shows "DeserializeResponse (SerializeResponse m) = Some m"
  using assms length_SerializeResponse [OF assms]
  by (simp add: DeserializeResponse_def SerializeResponse_concat wf_ResponseMsg_def
      size_defs parse_simps)

lemma CookieReply_roundtrip:
  assumes "wf_CookieReplyMsg m"
  shows "DeserializeCookieReply (SerializeCookieReply m) = Some m"
  using assms length_SerializeCookieReply [OF assms]
  by (simp add: DeserializeCookieReply_def SerializeCookieReply_concat wf_CookieReplyMsg_def
      size_defs parse_simps)

lemma Transport_roundtrip:
  "wf_TransportDataMsg m \<Longrightarrow> DeserializeTransport (SerializeTransport m) = Some m"
  by (simp add: DeserializeTransport_def SerializeTransport_concat wf_TransportDataMsg_def
      size_defs parse_simps Let_def)

lemma le_bytes_le_word_read_at:
  "off + n \<le> length bs \<Longrightarrow> 8 * n \<le> LENGTH('a::len) \<Longrightarrow>
   le_bytes n (le_word (read_at off n bs) :: 'a word) = read_at off n bs"
  by (rule le_bytes_le_word) simp_all

lemma tag_bytes:
  assumes "4 \<le> length bs" and "ReadU32LE bs 0 = v"
  shows "le_bytes 4 v = read_at 0 4 bs"
  using assms le_bytes_le_word_read_at [of 0 4 bs, where 'a = 32] by (auto simp: parse_simps)

lemma Initiation_canonical:
  assumes "DeserializeInitiation bs = Some m"
  shows "wf_InitiationMsg m \<and> SerializeInitiation m = bs"
proof -
  have len: "length bs = 3620" and tag: "ReadU32LE bs 0 = 1"
    using assms by (auto simp: DeserializeInitiation_def size_defs split: if_splits)
  have wf: "wf_InitiationMsg m"
    using assms len by (auto simp: DeserializeInitiation_def wf_InitiationMsg_def split: if_splits)
  then show ?thesis
    using assms len tag tag_bytes [OF _ tag]
    by (auto simp: SerializeInitiation_concat DeserializeInitiation_def size_defs parse_simps
        le_bytes_le_word_read_at read_at_join read_at_all split: if_splits)
qed

lemma Response_canonical:
  assumes "DeserializeResponse bs = Some m"
  shows "wf_ResponseMsg m \<and> SerializeResponse m = bs"
proof -
  have len: "length bs = 2268" and tag: "ReadU32LE bs 0 = 2"
    using assms by (auto simp: DeserializeResponse_def size_defs split: if_splits)
  have wf: "wf_ResponseMsg m"
    using assms len by (auto simp: DeserializeResponse_def wf_ResponseMsg_def split: if_splits)
  then show ?thesis
    using assms len tag tag_bytes [OF _ tag]
    by (auto simp: SerializeResponse_concat DeserializeResponse_def size_defs parse_simps
        le_bytes_le_word_read_at read_at_join read_at_all split: if_splits)
qed

lemma CookieReply_canonical:
  assumes "DeserializeCookieReply bs = Some m"
  shows "wf_CookieReplyMsg m \<and> SerializeCookieReply m = bs"
proof -
  have len: "length bs = 64" and tag: "ReadU32LE bs 0 = 3"
    using assms by (auto simp: DeserializeCookieReply_def size_defs split: if_splits)
  have wf: "wf_CookieReplyMsg m"
    using assms len by (auto simp: DeserializeCookieReply_def wf_CookieReplyMsg_def split: if_splits)
  then show ?thesis
    using assms len tag tag_bytes [OF _ tag]
    by (auto simp: SerializeCookieReply_concat DeserializeCookieReply_def size_defs parse_simps
        le_bytes_le_word_read_at read_at_join read_at_all split: if_splits)
qed

lemma Transport_canonical:
  assumes "DeserializeTransport bs = Some m"
  shows "wf_TransportDataMsg m \<and> SerializeTransport m = bs"
proof -
  have len: "32 \<le> length bs" and tag: "ReadU32LE bs 0 = 4"
    using assms by (auto simp: DeserializeTransport_def size_defs Let_def split: if_splits)
  then show ?thesis
    using assms tag_bytes [OF _ tag]
    by (auto simp: SerializeTransport_concat DeserializeTransport_def wf_TransportDataMsg_def
        size_defs Let_def parse_simps le_bytes_le_word_read_at read_at_join read_at_all
        split: if_splits)
qed

lemma parsed_tag:
  "DeserializeInitiation bs = Some mi \<Longrightarrow> ReadU32LE bs 0 = message_code Initiation"
  "DeserializeResponse bs = Some mr \<Longrightarrow> ReadU32LE bs 0 = message_code Response"
  "DeserializeCookieReply bs = Some mc \<Longrightarrow> ReadU32LE bs 0 = message_code Cookie"
  "DeserializeTransport bs = Some mt \<Longrightarrow> ReadU32LE bs 0 = message_code Transport"
  by (auto simp: DeserializeInitiation_def DeserializeResponse_def DeserializeCookieReply_def
      DeserializeTransport_def Let_def split: if_splits)

interpretation initiation_wire: wire_format SerializeInitiation DeserializeInitiation
  wf_InitiationMsg Initiation
  by (rule wire_format.intro [OF Initiation_roundtrip Initiation_canonical parsed_tag(1)])

interpretation response_wire: wire_format SerializeResponse DeserializeResponse
  wf_ResponseMsg Response
  by (rule wire_format.intro [OF Response_roundtrip Response_canonical parsed_tag(2)])

interpretation cookie_wire: wire_format SerializeCookieReply DeserializeCookieReply
  wf_CookieReplyMsg Cookie
  by (rule wire_format.intro [OF CookieReply_roundtrip CookieReply_canonical parsed_tag(3)])

interpretation transport_wire: wire_format SerializeTransport DeserializeTransport
  wf_TransportDataMsg Transport
  by (rule wire_format.intro [OF Transport_roundtrip Transport_canonical parsed_tag(4)])

section \<open>Properties\<close>

lemma message_types_disjoint:
  "length (filter id
     [DeserializeInitiation bs \<noteq> None, DeserializeResponse bs \<noteq> None,
      DeserializeCookieReply bs \<noteq> None, DeserializeTransport bs \<noteq> None]) \<le> 1"
proof -
  show ?thesis
    using initiation_wire.tagged [of bs] response_wire.tagged [of bs]
      cookie_wire.tagged [of bs] transport_wire.tagged [of bs]
    by (cases "DeserializeInitiation bs"; cases "DeserializeResponse bs";
        cases "DeserializeCookieReply bs"; cases "DeserializeTransport bs") simp_all
qed

text \<open>
  C18. Each of the four parsers accepts exactly the serialisations of the well-formed messages
  of its type and returns the message that was serialised: every message survives the
  wire, nothing else is accepted, and no datagram stands for two messages or is accepted by two
  of the parsers.
\<close>

theorem wire_formats_exact:
  "(DeserializeInitiation bs = Some mi \<longleftrightarrow> wf_InitiationMsg mi \<and> bs = SerializeInitiation mi) \<and>
   (DeserializeResponse bs = Some mr \<longleftrightarrow> wf_ResponseMsg mr \<and> bs = SerializeResponse mr) \<and>
   (DeserializeCookieReply bs = Some mc \<longleftrightarrow> wf_CookieReplyMsg mc \<and> bs = SerializeCookieReply mc) \<and>
   (DeserializeTransport bs = Some mt \<longleftrightarrow> wf_TransportDataMsg mt \<and> bs = SerializeTransport mt) \<and>
   length (filter id
     [DeserializeInitiation bs \<noteq> None, DeserializeResponse bs \<noteq> None,
      DeserializeCookieReply bs \<noteq> None, DeserializeTransport bs \<noteq> None]) \<le> 1"
  by (intro conjI initiation_wire.deser_iff response_wire.deser_iff cookie_wire.deser_iff
      transport_wire.deser_iff message_types_disjoint)

end
