(* ===== verification/Tai64n.thy ===== *)
theory Tai64n
  imports BitUtils
begin

text \<open>
  \<open>core/utils/tai64n.hpp\<close> and \<open>tai64n.cpp\<close>: the twelve-byte big-endian TAI64N stamp
  (eight bytes of seconds, four of nanoseconds), its increment, its comparison (byte by
  byte, as \<open>std::array\<close> compares) and the monotonic generator \<open>Tai64n::Now\<close>, whose only
  state is the last stamp handed out. The main result is that the generator's stamps
  increase strictly as long as the seconds field does not wrap.
\<close>

section \<open>Stamps\<close>

definition Tai64nStamp :: "u64 \<Rightarrow> u32 \<Rightarrow> bytes" where
  "Tai64nStamp seconds nanoseconds =
     [ucast (drop_bit 56 seconds), ucast (drop_bit 48 seconds), ucast (drop_bit 40 seconds),
      ucast (drop_bit 32 seconds), ucast (drop_bit 24 seconds), ucast (drop_bit 16 seconds),
      ucast (drop_bit 8 seconds), ucast seconds,
      ucast (drop_bit 24 nanoseconds), ucast (drop_bit 16 nanoseconds),
      ucast (drop_bit 8 nanoseconds), ucast nanoseconds]"

definition Seconds :: "bytes \<Rightarrow> u64" where
  "Seconds d =
     push_bit 56 (ucast (d ! 0)) OR push_bit 48 (ucast (d ! 1)) OR
     push_bit 40 (ucast (d ! 2)) OR push_bit 32 (ucast (d ! 3)) OR
     push_bit 24 (ucast (d ! 4)) OR push_bit 16 (ucast (d ! 5)) OR
     push_bit 8 (ucast (d ! 6)) OR ucast (d ! 7)"

definition Nanoseconds :: "bytes \<Rightarrow> u32" where
  "Nanoseconds d =
     push_bit 24 (ucast (d ! 8)) OR push_bit 16 (ucast (d ! 9)) OR
     push_bit 8 (ucast (d ! 10)) OR ucast (d ! 11)"

definition tai_Hash :: "bytes \<Rightarrow> u64" where
  "tai_Hash d = Fnv1a d"

text \<open>
  The carry loop of \<open>operator++\<close>: it increments byte \<open>i\<close> and stops unless the byte
  became zero, in which case it moves one byte up; after byte 0 it stops in any case.
\<close>

fun carry_seconds :: "nat \<Rightarrow> bytes \<Rightarrow> bytes" where
  "carry_seconds 0 d = d[0 := d ! 0 + 1]"
| "carry_seconds (Suc i) d =
     (let d' = d[Suc i := d ! Suc i + 1] in
      if d' ! Suc i \<noteq> 0 then d' else carry_seconds i d')"

definition tai_incr :: "bytes \<Rightarrow> bytes" where
  "tai_incr d =
     (let nanos = Nanoseconds d in
      if nanos < 999999999 then
        (let nanos = nanos + 1 in
         d[8 := ucast (drop_bit 24 nanos), 9 := ucast (drop_bit 16 nanos),
           10 := ucast (drop_bit 8 nanos), 11 := ucast nanos])
      else carry_seconds 7 (d[8 := 0, 9 := 0, 10 := 0, 11 := 0]))"

text \<open>
  The comparison of two \<open>std::array\<close>s by \<open><=>\<close> and of two equally long buffers by
  \<open>memcmp\<close>: the first differing byte decides.
\<close>

fun memcmp_less :: "bytes \<Rightarrow> bytes \<Rightarrow> bool" where
  "memcmp_less (a # as) (b # bs) = (a < b \<or> (a = b \<and> memcmp_less as bs))"
| "memcmp_less _ _ = False"

definition memcmp_le :: "bytes \<Rightarrow> bytes \<Rightarrow> bool" where
  "memcmp_le a b = (\<not> memcmp_less b a)"

section \<open>The generator\<close>

definition kTai64Label :: u64 where
  "kTai64Label = 0x4000000000000000"

text \<open>\<open>Tai64n::Now\<close> at clock reading \<open>now\<close> (since the epoch): the stamp and the new last stamp.\<close>

definition tai_Now :: "time_point \<Rightarrow> bytes \<Rightarrow> bytes \<times> bytes" where
  "tai_Now now prev =
     (let secs = cast_seconds now;
          nanos = now - chrono_seconds secs;
          tai_secs = kTai64Label + word_of_int secs;
          tai_nanos = word_of_int nanos;
          stamp = Tai64nStamp tai_secs tai_nanos;
          stamp = (if memcmp_le stamp prev then tai_incr prev else stamp)
      in (stamp, stamp))"

section \<open>Stamps as numbers\<close>

fun be_nat :: "bytes \<Rightarrow> nat" where
  "be_nat [] = 0"
| "be_nat (b # bs) = unat b * 256 ^ length bs + be_nat bs"

fun le_nat :: "bytes \<Rightarrow> nat" where
  "le_nat [] = 0"
| "le_nat (b # bs) = unat b + 256 * le_nat bs"

lemma be_nat_snoc: "be_nat (bs @ [b]) = 256 * be_nat bs + unat b"
  by (induction bs) (simp_all add: algebra_simps)

lemma be_nat_append: "be_nat (as @ bs) = be_nat as * 256 ^ length bs + be_nat bs"
  by (induction as) (simp_all add: algebra_simps power_add)

lemma be_nat_rev: "be_nat (rev bs) = le_nat bs"
  by (induction bs) (simp_all add: be_nat_snoc)

lemma be_nat_less: "be_nat bs < 256 ^ length bs"
proof (induction bs)
  case Nil
  then show ?case by simp
next
  case (Cons b bs)
  have "unat b * 256 ^ length bs + be_nat bs < (unat b + 1) * 256 ^ length bs"
    using Cons.IH by simp
  also have "\<dots> \<le> 256 * 256 ^ length bs"
    using byte_cases_nat [of b] by (intro mult_right_mono) simp_all
  finally show ?case by simp
qed

text \<open>Comparing byte by byte is comparing the big-endian numbers.\<close>

lemma memcmp_less_be_nat:
  "length as = length bs \<Longrightarrow> memcmp_less as bs \<longleftrightarrow> be_nat as < be_nat bs"
proof (induction as bs rule: list_induct2)
  case Nil
  then show ?case by simp
next
  case (Cons a as b bs)
  have bound: "be_nat as < 256 ^ length bs" "be_nat bs < 256 ^ length bs"
    using be_nat_less [of as] be_nat_less [of bs] Cons.hyps by simp_all
  have step: "u * P + x < v * P + y" if "u < v" "x < P" for u v x y P :: nat
  proof -
    have "(u + 1) * P \<le> v * P" using that(1) by (intro mult_right_mono) simp_all
    then show ?thesis using that(2) by simp
  qed
  consider "a < b" | "a = b" | "b < a" by (rule linorder_cases)
  then show ?case
  proof cases
    case 1
    then show ?thesis using step [of "unat a" "unat b"] bound Cons.hyps
      by (simp add: word_less_nat_alt)
  next
    case 2
    then show ?thesis using Cons.IH Cons.hyps by simp
  next
    case 3
    have "be_nat (b # bs) < be_nat (a # as)"
      using step [of "unat b" "unat a"] bound Cons.hyps 3 by (simp add: word_less_nat_alt)
    then have "\<not> be_nat (a # as) < be_nat (b # bs)" by simp
    moreover have "\<not> memcmp_less (a # as) (b # bs)" using 3 by auto
    ultimately show ?thesis by blast
  qed
qed

lemma unat_le_word:
  "8 * length bs \<le> LENGTH('a::len) \<Longrightarrow> unat (le_word bs :: 'a word) = le_nat bs"
proof (induction bs)
  case Nil
  then show ?case by simp
next
  case (Cons b bs)
  let ?w = "le_word bs :: 'a word"
  have len: "8 * length bs + 8 \<le> LENGTH('a)" using Cons.prems by simp
  have IH: "unat ?w = le_nat bs" using Cons.IH len by simp
  have bound: "le_nat bs < 256 ^ length bs"
    using be_nat_less [of "rev bs"] by (simp add: be_nat_rev)
  have "256 ^ length bs * 256 = (2 :: nat) ^ (8 * length bs + 8)"
    by (simp add: power_add power_mult)
  also have "\<dots> \<le> 2 ^ LENGTH('a)" using len by (intro power_increasing) simp_all
  finally have fits: "le_nat bs * 256 + 256 \<le> 2 ^ LENGTH('a)"
    using bound by (smt (verit) Suc_leI add.commute mult_Suc mult_le_mono1 order_trans)
  have disj: "ucast b OR push_bit 8 ?w = ucast b + push_bit 8 ?w"
    by (rule disjunctive_add [symmetric]) (auto simp: bit_simps dest: bit_imp_le_length)
  have b: "unat (ucast b :: 'a word) = unat b"
  proof -
    have "(2 :: nat) ^ 8 \<le> 2 ^ LENGTH('a)" using len by (intro power_increasing) simp_all
    then show ?thesis using byte_cases_nat [of b]
      by (simp add: unsigned_ucast_eq take_bit_nat_eq_self)
  qed
  have p: "unat (push_bit 8 ?w) = 256 * le_nat bs"
  proof -
    have "unat (push_bit 8 ?w) = take_bit LENGTH('a) (push_bit 8 (unat ?w))"
      by (rule unsigned_push_bit_eq)
    also have "\<dots> = 256 * le_nat bs"
      using fits IH by (simp add: push_bit_eq_mult take_bit_nat_eq_self)
    finally show ?thesis .
  qed
  show ?case
    using fits b p byte_cases_nat [of b] disj by (simp add: unat_word_ariths)
qed

lemma le_nat_le_bytes:
  fixes w :: "'a::len word"
  assumes "LENGTH('a) = 8 * n"
  shows "le_nat (le_bytes n w) = unat w"
  using unat_le_word [of "le_bytes n w", where 'a = 'a] assms by (simp add: le_word_le_bytes)

lemma Tai64nStamp_bytes: "Tai64nStamp s n = rev (le_bytes 8 s) @ rev (le_bytes 4 n)"
  by (simp add: Tai64nStamp_def numeral_eq_Suc drop_bit_drop_bit)

lemma length_Tai64nStamp [simp, len_simps]: "length (Tai64nStamp s n) = 12"
  by (simp add: Tai64nStamp_def)

lemma be_nat_Tai64nStamp: "be_nat (Tai64nStamp s n) = unat s * 2 ^ 32 + unat n"
  by (simp add: Tai64nStamp_bytes be_nat_append be_nat_rev le_nat_le_bytes)

lemma list_12_cases:
  assumes "length d = 12"
  obtains d0 d1 d2 d3 d4 d5 d6 d7 d8 d9 d10 d11
    where "d = [d0, d1, d2, d3, d4, d5, d6, d7, d8, d9, d10, d11]"
  using assms by (auto simp: numeral_eq_Suc length_Suc_conv)

lemma Nanoseconds_be_nat: "length d = 12 \<Longrightarrow> unat (Nanoseconds d) = be_nat (drop 8 d)"
proof (erule list_12_cases)
  fix d0 d1 d2 d3 d4 d5 d6 d7 d8 d9 d10 d11 :: byte
  assume d: "d = [d0, d1, d2, d3, d4, d5, d6, d7, d8, d9, d10, d11]"
  have "Nanoseconds d = le_word [d11, d10, d9, d8]"
    by (simp add: Nanoseconds_def d push_bit_or push_bit_push_bit or.commute or.left_commute or.assoc)
  then show ?thesis
    using be_nat_rev [of "[d11, d10, d9, d8]"]
    by (simp add: unat_le_word d del: le_word.simps le_nat.simps be_nat.simps)
qed

lemma Seconds_be_nat: "length d = 12 \<Longrightarrow> unat (Seconds d) = be_nat (take 8 d)"
proof (erule list_12_cases)
  fix d0 d1 d2 d3 d4 d5 d6 d7 d8 d9 d10 d11 :: byte
  assume d: "d = [d0, d1, d2, d3, d4, d5, d6, d7, d8, d9, d10, d11]"
  have "Seconds d = le_word [d7, d6, d5, d4, d3, d2, d1, d0]"
    by (simp add: Seconds_def d push_bit_or push_bit_push_bit or.commute or.left_commute or.assoc)
  then show ?thesis
    using be_nat_rev [of "[d7, d6, d5, d4, d3, d2, d1, d0]"]
    by (simp add: unat_le_word d del: le_word.simps le_nat.simps be_nat.simps)
qed

section \<open>The increment and the generator\<close>

definition tai_secs_nat :: "bytes \<Rightarrow> nat" where
  "tai_secs_nat d = be_nat (take 8 d)"

lemma be_nat_split: "length d = 12 \<Longrightarrow> be_nat d = tai_secs_nat d * 2 ^ 32 + be_nat (drop 8 d)"
  using be_nat_append [of "take 8 d" "drop 8 d"] by (simp add: tai_secs_nat_def)

lemma be_nat_nanos_less: "length d = 12 \<Longrightarrow> be_nat (drop 8 d) < 2 ^ 32"
  using be_nat_less [of "drop 8 d"] by simp

lemma length_carry [simp]: "length (carry_seconds i d) = length d"
  by (induction i d rule: carry_seconds.induct) (simp_all add: Let_def)

lemma byte_succ:
  fixes b :: byte
  shows "b + 1 \<noteq> 0 \<Longrightarrow> unat (b + 1) = unat b + 1" and "b + 1 = 0 \<Longrightarrow> unat b = 255"
proof -
  show "unat (b + 1) = unat b + 1" if "b + 1 \<noteq> 0"
    using that unatSuc [of b] by (simp add: add.commute)
  show "unat b = 255" if "b + 1 = 0"
  proof -
    have "b = - 1" using that by (simp add: eq_neg_iff_add_eq_0)
    then show ?thesis by (simp add: unsigned_minus_1_eq_mask mask_eq_exp_minus_1)
  qed
qed

lemma carry_seconds_value:
  "i < length d \<Longrightarrow> be_nat (take (Suc i) d) + 1 < 256 ^ Suc i \<Longrightarrow>
   be_nat (take (Suc i) (carry_seconds i d)) = be_nat (take (Suc i) d) + 1 \<and>
   drop (Suc i) (carry_seconds i d) = drop (Suc i) d"
proof (induction i arbitrary: d)
  case 0
  then obtain b bs where d: "d = b # bs" by (cases d) auto
  have "b + 1 \<noteq> 0" using 0 byte_succ(2) [of b] by (auto simp: d)
  then show ?case by (simp add: d byte_succ(1))
next
  case (Suc i)
  let ?x = "d ! Suc i" and ?d = "d[Suc i := d ! Suc i + 1]"
  have split: "take (Suc (Suc i)) e = take (Suc i) e @ [e ! Suc i]" if "length e = length d" for e
    using that Suc.prems(1) by (simp add: take_Suc_conv_app_nth)
  show ?case
  proof (cases "?x + 1 = 0")
    case False
    then show ?thesis using Suc.prems(1) byte_succ(1) [of ?x]
      by (simp add: split be_nat_snoc)
  next
    case True
    have "be_nat (take (Suc i) ?d) + 1 < 256 ^ Suc i"
      using Suc.prems True byte_succ(2) [of ?x] by (simp add: split be_nat_snoc)
    then have IH: "be_nat (take (Suc i) (carry_seconds i ?d)) = be_nat (take (Suc i) d) + 1"
        "drop (Suc i) (carry_seconds i ?d) = drop (Suc i) ?d"
      using Suc.IH [of ?d] Suc.prems(1) by simp_all
    have nth: "carry_seconds i ?d ! Suc i = 0"
      using arg_cong [OF IH(2), of hd] Suc.prems(1) True by (simp add: hd_drop_conv_nth)
    have drop: "drop (Suc (Suc i)) (carry_seconds i ?d) = drop (Suc (Suc i)) d"
    proof -
      have "drop (Suc (Suc i)) (carry_seconds i ?d) = drop 1 (drop (Suc i) ?d)"
        using IH(2) by (metis drop_drop plus_1_eq_Suc)
      then show ?thesis by (metis drop_drop drop_update_cancel lessI plus_1_eq_Suc)
    qed
    show ?thesis
      using Suc.prems(1) True IH(1) nth drop byte_succ(2) [of ?x]
      by (simp add: split be_nat_snoc)
  qed
qed

lemma length_tai_incr [simp, len_simps]: "length (tai_incr d) = length d"
  by (simp add: tai_incr_def Let_def)

lemma tai_incr_nanos:
  assumes "length d = 12" and "Nanoseconds d < 999999999"
  shows "be_nat (tai_incr d) = be_nat d + 1 \<and> tai_secs_nat (tai_incr d) = tai_secs_nat d"
proof -
  let ?n = "Nanoseconds d + 1"
  have d': "tai_incr d = take 8 d @ rev (le_bytes 4 ?n)"
    using assms(1) by (rule list_12_cases)
      (use assms(2) in \<open>simp add: tai_incr_def Let_def numeral_eq_Suc drop_bit_drop_bit\<close>)
  have "unat ?n = be_nat (drop 8 d) + 1"
    using assms by (simp add: Nanoseconds_be_nat [symmetric] unat_word_ariths word_less_nat_alt)
  then show ?thesis
    using assms(1) be_nat_split [OF assms(1)]
    by (simp add: d' be_nat_append be_nat_rev le_nat_le_bytes tai_secs_nat_def)
qed

lemma tai_incr_carry:
  assumes "length d = 12" and "\<not> Nanoseconds d < 999999999" and "tai_secs_nat d + 1 < 2 ^ 64"
  shows "be_nat d < be_nat (tai_incr d) \<and> tai_secs_nat (tai_incr d) = tai_secs_nat d + 1"
proof -
  let ?d = "d[8 := 0, 9 := 0, 10 := 0, 11 := 0]"
  have "be_nat (take (Suc 7) (carry_seconds 7 ?d)) = be_nat (take (Suc 7) ?d) + 1"
    using carry_seconds_value [of 7 ?d] assms(1,3) by (simp add: tai_secs_nat_def)
  then have secs: "tai_secs_nat (tai_incr d) = tai_secs_nat d + 1"
    using assms(2) by (simp add: tai_incr_def tai_secs_nat_def Let_def)
  moreover have "be_nat d < be_nat (tai_incr d)"
    using be_nat_split [of "tai_incr d"] be_nat_split [of d] be_nat_nanos_less [of d] assms(1) secs
    by simp
  ultimately show ?thesis by simp
qed

lemma tai_incr_greater:
  assumes "length d = 12" and "tai_secs_nat d + 1 < 2 ^ 64"
  shows "be_nat d < be_nat (tai_incr d) \<and> tai_secs_nat (tai_incr d) \<le> tai_secs_nat d + 1"
  using assms tai_incr_nanos [of d] tai_incr_carry [of d]
  by (cases "Nanoseconds d < 999999999") simp_all

text \<open>The TAI seconds the clock reading stands for, as \<open>Now\<close> computes them.\<close>

definition tai_clock_secs :: "time_point \<Rightarrow> nat" where
  "tai_clock_secs now = unat (kTai64Label + word_of_int (cast_seconds now) :: u64)"

lemma tai_Now_greater:
  assumes "length prev = 12" and "tai_secs_nat prev + 1 < 2 ^ 64"
  shows "length (fst (tai_Now now prev)) = 12"
    and "be_nat prev < be_nat (fst (tai_Now now prev))"
    and "tai_secs_nat (fst (tai_Now now prev)) \<le> max (tai_clock_secs now) (tai_secs_nat prev + 1)"
  using assms tai_incr_greater [OF assms]
  by (auto simp: tai_Now_def Let_def memcmp_le_def memcmp_less_be_nat tai_clock_secs_def
      tai_secs_nat_def Tai64nStamp_bytes be_nat_rev le_nat_le_bytes)

fun tai_run :: "time_point list \<Rightarrow> bytes \<Rightarrow> bytes list" where
  "tai_run [] prev = []"
| "tai_run (now # clocks) prev =
     (let (stamp, prev') = tai_Now now prev in stamp # tai_run clocks prev')"

lemma tai_run_sorted:
  assumes "length prev = 12" and "tai_secs_nat prev \<le> K" and "K + length clocks < 2 ^ 64"
    and "\<And>now. now \<in> set clocks \<Longrightarrow> tai_clock_secs now \<le> K"
  shows "sorted_wrt (\<lambda>a b. be_nat a < be_nat b) (prev # tai_run clocks prev)
    \<and> (\<forall>s \<in> set (tai_run clocks prev). length s = 12)"
  using assms
proof (induction clocks arbitrary: prev K)
  case Nil
  then show ?case by simp
next
  case (Cons now clocks)
  obtain stamp where stamp: "tai_Now now prev = (stamp, stamp)"
    by (simp add: tai_Now_def Let_def)
  have now: "length stamp = 12" "be_nat prev < be_nat stamp" "tai_secs_nat stamp \<le> Suc K"
    using tai_Now_greater [of prev now] Cons.prems(1-3) Cons.prems(4) [of now] stamp by auto
  have "sorted_wrt (\<lambda>a b. be_nat a < be_nat b) (stamp # tai_run clocks stamp)
      \<and> (\<forall>s \<in> set (tai_run clocks stamp). length s = 12)"
    using Cons.prems now by (intro Cons.IH [of stamp "Suc K"]) (auto simp: le_SucI)
  then show ?case using now stamp by (auto intro: less_trans)
qed

text \<open>Seconds and nanoseconds are read back from the big-endian stamp they were written to.\<close>

theorem Tai64nStamp_roundtrip:
  "Seconds (Tai64nStamp s n) = s \<and> Nanoseconds (Tai64nStamp s n) = n"
proof -
  have "unat (Seconds (Tai64nStamp s n)) = unat s"
    by (simp add: Seconds_be_nat) (simp add: Tai64nStamp_bytes be_nat_rev le_nat_le_bytes)
  moreover have "unat (Nanoseconds (Tai64nStamp s n)) = unat n"
    by (simp add: Nanoseconds_be_nat) (simp add: Tai64nStamp_bytes be_nat_rev le_nat_le_bytes)
  ultimately show ?thesis by (simp add: word_unat_eq_iff)
qed

text \<open>
  C19. Whatever the clock does (it may stand still or step back), the stamps one generator
  hands out are strictly increasing in the byte order the responder compares them by.
\<close>

theorem tai_run_strictly_increasing:
  assumes "\<And>now. now \<in> set clocks \<Longrightarrow> tai_clock_secs now < 2 ^ 63" and "length clocks < 2 ^ 63"
  shows "sorted_wrt memcmp_less (tai_run clocks (Tai64nStamp 0 0))"
proof -
  let ?run = "tai_run clocks (Tai64nStamp 0 0)"
  have "sorted_wrt (\<lambda>a b. be_nat a < be_nat b) (Tai64nStamp 0 0 # ?run)
      \<and> (\<forall>s \<in> set ?run. length s = 12)"
    using assms
    by (intro tai_run_sorted [where K = "2 ^ 63 - 1"])
      (force simp: tai_secs_nat_def Tai64nStamp_bytes be_nat_rev le_nat_le_bytes)+
  then show ?thesis
    by (auto simp: memcmp_less_be_nat intro: sorted_wrt_mono_rel [rotated])
qed

theorem tai_run_strictly_increasing_witness:
  "sorted_wrt memcmp_less (tai_run [5000000000, 5000000000, 1000000000] (Tai64nStamp 0 0))"
  by (rule tai_run_strictly_increasing)
    (auto simp: tai_clock_secs_def kTai64Label_def cast_seconds_def)

end
