(* ===== verification/IndexTable.thy ===== *)
theory IndexTable
  imports Prelude
begin

text \<open>
  \<open>core/handshake/index_table.hpp\<close>: the map from a sender index to the peer, the handshake in
  progress and the keypair it stands for. A pointer is the identity of what it points to, as
  an option. The hasher only places an index in a bucket, so the table is a map. The interface
  the rest of the code uses is the locale \<open>keyed_store\<close>.
\<close>

section \<open>The interface: a store by key\<close>

locale keyed_store =
  fixes empty_store :: 's
    and look :: "'s \<Rightarrow> 'a \<Rightarrow> 'v option"
    and put :: "'s \<Rightarrow> 'a \<Rightarrow> 'v \<Rightarrow> 's"
    and del :: "'s \<Rightarrow> 'a \<Rightarrow> 's"
  assumes look_empty: "look empty_store k = None"
    and look_put: "look (put s k v) k' = (if k' = k then Some v else look s k')"
    and look_del: "look (del s k) k' = (if k' = k then None else look s k')"
begin

definition keys_of :: "'s \<Rightarrow> 'a set" where
  "keys_of s = {k. look s k \<noteq> None}"

lemma keys_of_ops:
  "keys_of empty_store = {}" "keys_of (put s k v) = insert k (keys_of s)"
  "keys_of (del s k) = keys_of s - {k}"
  by (auto simp: keys_of_def look_empty look_put look_del)

text \<open>A key taken while it is free keeps every other binding, and releasing it restores the store.\<close>

lemma put_fresh_others: "look s k = None \<Longrightarrow> look s k' = Some v' \<Longrightarrow> look (put s k v) k' = Some v'"
  by (auto simp: look_put)

lemma del_put: "look (del (put s k v) k) k' = look (del s k) k'"
  by (simp add: look_put look_del)

lemma del_put_fresh: "look s k = None \<Longrightarrow> look (del (put s k v) k) k' = look s k'"
  by (simp add: look_put look_del)

text \<open>Loading keys one after another: the last binding of a key is the one found.\<close>

lemma look_foldl_put:
  "look (foldl (\<lambda>s (k, v). put s k v) s kvs) k =
   (case map_of (rev kvs) k of None \<Rightarrow> look s k | Some v \<Rightarrow> Some v)"
  by (induction kvs arbitrary: s) (auto simp: look_put map_add_def split: option.splits)

end

section \<open>The table\<close>

record IndexTableEntry =
  e_peer :: "nat option"
  e_handshake :: "nat option"
  e_keypair :: "nat option"

type_synonym IndexTable = "u32 \<Rightarrow> IndexTableEntry option"

definition IndexTable_init :: IndexTable where
  "IndexTable_init = (\<lambda>_. None)"

text \<open>
  \<open>GenerateRandomIndex\<close>: \<open>RAND_bytes\<close> fills the four bytes, or fails and the index is 0.
  \<open>NewIndex\<close> keeps drawing; \<open>draws\<close> are the results it gets, and \<open>None\<close> is a call still
  looping when they run out.
\<close>

definition GenerateRandomIndex :: "u32 option \<Rightarrow> u32" where
  "GenerateRandomIndex rand = (case rand of None \<Rightarrow> 0 | Some index \<Rightarrow> index)"

fun draw_index :: "(u32 \<Rightarrow> bool) \<Rightarrow> u32 option list \<Rightarrow> u32 option" where
  "draw_index taken [] = None"
| "draw_index taken (d # ds) =
     (let index = GenerateRandomIndex d in
      if index = 0 \<or> taken index then draw_index taken ds else Some index)"

definition NewIndex ::
  "IndexTable \<Rightarrow> u32 option list \<Rightarrow> nat option \<Rightarrow> nat option \<Rightarrow> (u32 \<times> IndexTable) option" where
  "NewIndex table draws peer handshake = do {
     index \<leftarrow> draw_index (\<lambda>i. table i \<noteq> None) draws;
     Some (index, table(index \<mapsto> \<lparr>e_peer = peer, e_handshake = handshake, e_keypair = None\<rparr>))
   }"

definition Lookup :: "IndexTable \<Rightarrow> u32 \<Rightarrow> IndexTableEntry option" where
  "Lookup table index = table index"

definition SwapHandshakeToKeypair :: "IndexTable \<Rightarrow> u32 \<Rightarrow> nat option \<Rightarrow> IndexTable" where
  "SwapHandshakeToKeypair table index keypair =
     (case table index of
        None \<Rightarrow> table
      | Some e \<Rightarrow> table(index \<mapsto> e\<lparr>e_handshake := None, e_keypair := keypair\<rparr>))"

definition Delete :: "IndexTable \<Rightarrow> u32 \<Rightarrow> IndexTable" where
  "Delete table index = table(index := None)"

interpretation ixt: keyed_store IndexTable_init Lookup "\<lambda>t k v. t(k \<mapsto> v)" Delete
  by unfold_locales (simp_all add: IndexTable_init_def Lookup_def Delete_def)

section \<open>Drawing\<close>

lemma draw_index_Some:
  "draw_index taken ds = Some i \<Longrightarrow> i \<noteq> 0 \<and> \<not> taken i \<and> Some i \<in> set ds"
  by (induction taken ds rule: draw_index.induct)
    (auto simp: GenerateRandomIndex_def Let_def split: if_splits option.splits)

lemma draw_index_total:
  "Some i \<in> set ds \<Longrightarrow> i \<noteq> 0 \<Longrightarrow> \<not> taken i \<Longrightarrow> \<exists>j. draw_index taken ds = Some j"
  by (induction taken ds rule: draw_index.induct) (auto simp: GenerateRandomIndex_def Let_def)

lemma draw_index_first: "i \<noteq> 0 \<Longrightarrow> \<not> taken i \<Longrightarrow> draw_index taken (Some i # ds) = Some i"
  by (simp add: GenerateRandomIndex_def)

lemma NewIndex_Some:
  assumes "NewIndex table draws p h = Some (i, table')"
  shows "i \<noteq> 0" and "table i = None"
    and "table' = table(i \<mapsto> \<lparr>e_peer = p, e_handshake = h, e_keypair = None\<rparr>)"
  using assms by (auto simp: NewIndex_def Option.bind_eq_Some_conv dest!: draw_index_Some)

lemma NewIndex_first:
  "i \<noteq> 0 \<Longrightarrow> table i = None \<Longrightarrow> NewIndex table (Some i # ds) p h =
   Some (i, table(i \<mapsto> \<lparr>e_peer = p, e_handshake = h, e_keypair = None\<rparr>))"
  by (simp add: NewIndex_def draw_index_first del: draw_index.simps)

lemma NewIndex_total:
  assumes "Some free \<in> set draws" and "free \<noteq> 0" and "table free = None"
  obtains i where "i \<noteq> 0" and "table i = None" and "NewIndex table draws p h =
    Some (i, table(i \<mapsto> \<lparr>e_peer = p, e_handshake = h, e_keypair = None\<rparr>))"
proof -
  obtain i where i: "draw_index (\<lambda>j. table j \<noteq> None) draws = Some i"
    using draw_index_total [of free draws "\<lambda>j. table j \<noteq> None"] assms by auto
  then have "i \<noteq> 0" "table i = None" using draw_index_Some [OF i] by simp_all
  then show thesis using that i by (simp add: NewIndex_def)
qed

section \<open>Properties\<close>

text \<open>
  \<open>NewIndex\<close> returns as soon as the random source yields one free non-zero index; the index
  it returns was free and is not 0, is bound to the given peer and handshake with no keypair,
  and every other binding stays. Completing the handshake replaces the handshake pointer
  by the keypair pointer and keeps the peer; deleting the index restores the table.
\<close>

lemma index_table_lifecycle:
  assumes "Some free \<in> set draws" and "free \<noteq> 0" and "Lookup table free = None"
  shows "\<exists>i table'. NewIndex table draws p h = Some (i, table') \<and> i \<noteq> 0 \<and>
    Lookup table i = None \<and>
    Lookup table' i = Some \<lparr>e_peer = p, e_handshake = h, e_keypair = None\<rparr> \<and>
    (\<forall>j. j \<noteq> i \<longrightarrow> Lookup table' j = Lookup table j) \<and>
    Lookup (SwapHandshakeToKeypair table' i (Some k)) i =
      Some \<lparr>e_peer = p, e_handshake = None, e_keypair = Some k\<rparr> \<and>
    Delete (SwapHandshakeToKeypair table' i (Some k)) i = table"
proof -
  have free: "table free = None" using assms(3) by (simp add: Lookup_def)
  obtain i where "i \<noteq> 0" "table i = None" "NewIndex table draws p h =
      Some (i, table(i \<mapsto> \<lparr>e_peer = p, e_handshake = h, e_keypair = None\<rparr>))"
    using NewIndex_total [of free draws table, OF assms(1,2) free] .
  then show ?thesis by (auto simp: Lookup_def SwapHandshakeToKeypair_def Delete_def)
qed

lemma index_table_lifecycle_witness:
  "\<exists>i table'. NewIndex IndexTable_init [None, Some 0, Some 9] (Some 1) (Some 1) = Some (i, table') \<and>
     Delete (SwapHandshakeToKeypair table' i (Some 4)) i = IndexTable_init"
proof -
  have "Lookup IndexTable_init 9 = None" by (rule ixt.look_empty)
  then show ?thesis
    using index_table_lifecycle [of 9 "[None, Some 0, Some 9]" IndexTable_init "Some 1" "Some 1" 4]
    by auto
qed

end
