(* ===== verification/Keypair.thy ===== *)
theory Keypair
  imports CryptoLib
begin

text \<open>
  \<open>core/handshake/keypair.hpp\<close>: a transport keypair and the three slots of the manager. The
  pointer a caller keeps to a keypair is its address, \<open>kp_addr\<close>; the replay filter pointer
  is always null in this code. \<open>std::unique_ptr\<close> is an option: a moved-from pointer is null, and
  a keypair whose slot is overwritten is destroyed.
\<close>

record Keypair =
  kp_addr :: nat
  send_key :: bytes
  receive_key :: bytes
  send_nonce :: u64
  kp_is_initiator :: bool
  kp_created :: time_point
  kp_local_index :: u32
  kp_remote_index :: u32

definition Keypair_new :: "nat \<Rightarrow> Keypair" where
  "Keypair_new a = \<lparr>kp_addr = a, send_key = zeros kKeyBytes, receive_key = zeros kKeyBytes,
     send_nonce = 0, kp_is_initiator = False, kp_created = 0, kp_local_index = 0,
     kp_remote_index = 0\<rparr>"

definition Keypair_Clear :: "Keypair \<Rightarrow> Keypair" where
  "Keypair_Clear kp = kp\<lparr>send_key := secure_zero (send_key kp),
     receive_key := secure_zero (receive_key kp)\<rparr>"

section \<open>The manager\<close>

record KeypairManager =
  km_current :: "Keypair option"
  km_previous :: "Keypair option"
  km_next :: "Keypair option"

definition KeypairManager_init :: KeypairManager where
  "KeypairManager_init = \<lparr>km_current = None, km_previous = None, km_next = None\<rparr>"

definition PromoteNext :: "KeypairManager \<Rightarrow> KeypairManager" where
  "PromoteNext m =
     (let m = m\<lparr>km_previous := map_option Keypair_Clear (km_previous m)\<rparr>;
          m = m\<lparr>km_previous := km_current m, km_current := None\<rparr>;
          m = m\<lparr>km_current := km_next m, km_next := None\<rparr> in
      m\<lparr>km_next := None\<rparr>)"

definition SetCurrent :: "KeypairManager \<Rightarrow> Keypair option \<Rightarrow> KeypairManager" where
  "SetCurrent m keypair =
     (let m = m\<lparr>km_previous := map_option Keypair_Clear (km_previous m)\<rparr>;
          m = m\<lparr>km_previous := km_current m, km_current := None\<rparr> in
      m\<lparr>km_current := keypair\<rparr>)"

definition SetNext :: "KeypairManager \<Rightarrow> Keypair option \<Rightarrow> KeypairManager" where
  "SetNext m keypair = m\<lparr>km_next := keypair\<rparr>"

definition Current :: "KeypairManager \<Rightarrow> Keypair option" where "Current m = km_current m"
definition Previous :: "KeypairManager \<Rightarrow> Keypair option" where "Previous m = km_previous m"
definition Next :: "KeypairManager \<Rightarrow> Keypair option" where "Next m = km_next m"

definition ClearAll :: "KeypairManager \<Rightarrow> KeypairManager" where
  "ClearAll m = m\<lparr>km_current := None, km_previous := None, km_next := None\<rparr>"

section \<open>Slots\<close>

text \<open>
  The live keypairs of a manager, by age: a rekey on either side shifts them towards
  \<open>previous\<close> and never duplicates one.
\<close>

definition slots :: "KeypairManager \<Rightarrow> Keypair option list" where
  "slots m = [km_next m, km_current m, km_previous m]"

lemma slots_ops [simp]:
  "slots (PromoteNext m) = [None, km_next m, km_current m]"
  "slots (SetCurrent m k) = [km_next m, k, km_current m]"
  "slots (SetNext m k) = [k, km_current m, km_previous m]"
  "slots (ClearAll m) = [None, None, None]"
  by (simp_all add: slots_def PromoteNext_def SetCurrent_def SetNext_def ClearAll_def Let_def)

lemma manager_slots_eq: "slots m = slots m' \<longleftrightarrow> (m :: KeypairManager) = m'"
  by (cases m; cases m') (auto simp: slots_def)

definition live_addrs :: "KeypairManager \<Rightarrow> nat list" where
  "live_addrs m = map kp_addr (concat (map (\<lambda>s. case s of None \<Rightarrow> [] | Some k \<Rightarrow> [k]) (slots m)))"

lemma live_addrs_ops:
  "set (live_addrs (PromoteNext m)) \<subseteq> set (live_addrs m)"
  "set (live_addrs (SetCurrent m (Some k))) \<subseteq> insert (kp_addr k) (set (live_addrs m))"
  "set (live_addrs (SetNext m (Some k))) \<subseteq> insert (kp_addr k) (set (live_addrs m))"
  "live_addrs (ClearAll m) = []"
  unfolding live_addrs_def slots_ops by (auto simp: slots_def split: option.splits)

text \<open>One step of a manager's life, and what a history of steps keeps.\<close>

datatype manager_step = Promote | Install_current Keypair | Install_next Keypair | Clear_all

fun manager_apply :: "KeypairManager \<Rightarrow> manager_step \<Rightarrow> KeypairManager" where
  "manager_apply m Promote = PromoteNext m"
| "manager_apply m (Install_current k) = SetCurrent m (Some k)"
| "manager_apply m (Install_next k) = SetNext m (Some k)"
| "manager_apply m Clear_all = ClearAll m"

fun installed :: "manager_step list \<Rightarrow> nat list" where
  "installed [] = []"
| "installed (Install_current k # ss) = kp_addr k # installed ss"
| "installed (Install_next k # ss) = kp_addr k # installed ss"
| "installed (_ # ss) = installed ss"

lemma live_addrs_distinct_step:
  assumes "distinct (live_addrs m)" and "set (installed [s]) \<inter> set (live_addrs m) = {}"
  shows "distinct (live_addrs (manager_apply m s))"
  using assms
  by (cases s) (auto simp: live_addrs_def slots_def PromoteNext_def SetCurrent_def SetNext_def
      ClearAll_def split: option.splits)

lemma live_addrs_step:
  "set (live_addrs (manager_apply m s)) \<subseteq> set (installed [s]) \<union> set (live_addrs m)"
  using live_addrs_ops by (cases s) auto

lemma manager_history:
  assumes "distinct (installed ss)" and "distinct (live_addrs m)"
    and "set (installed ss) \<inter> set (live_addrs m) = {}"
  shows "distinct (live_addrs (foldl manager_apply m ss)) \<and>
    set (live_addrs (foldl manager_apply m ss)) \<subseteq> set (installed ss) \<union> set (live_addrs m)"
  using assms
proof (induction ss arbitrary: m)
  case (Cons s ss)
  have i: "installed (s # ss) = installed [s] @ installed ss" by (cases s) simp_all
  have "distinct (live_addrs (manager_apply m s))"
    using Cons.prems i by (intro live_addrs_distinct_step) auto
  moreover have "set (installed ss) \<inter> set (live_addrs (manager_apply m s)) = {}"
    using Cons.prems i live_addrs_step [of m s] by auto
  ultimately show ?case
    using Cons.IH [of "manager_apply m s"] Cons.prems(1) i live_addrs_step [of m s] by auto
qed simp

section \<open>Properties\<close>

text \<open>
  Over any history of rekeys, a keypair never sits in two slots, at most the keypairs
  installed are live, and a promotion turns next into current and current into previous
  while the old previous is dropped.
\<close>

lemma keypair_slots_disjoint:
  assumes "distinct (installed ss)" and "m = foldl manager_apply KeypairManager_init ss"
  shows "distinct (live_addrs m) \<and> set (live_addrs m) \<subseteq> set (installed ss) \<and>
    PromoteNext m = \<lparr>km_current = km_next m, km_previous = km_current m, km_next = None\<rparr>"
  using manager_history [OF assms(1), of KeypairManager_init]
  by (simp add: assms(2) live_addrs_def slots_def KeypairManager_init_def PromoteNext_def)

lemma keypair_slots_disjoint_witness:
  "live_addrs (foldl manager_apply KeypairManager_init
     [Install_next (Keypair_new 1), Promote, Install_next (Keypair_new 2)]) = [2, 1] \<and>
   distinct (live_addrs (foldl manager_apply KeypairManager_init
     [Install_next (Keypair_new 1), Promote, Install_next (Keypair_new 2)]))"
  using keypair_slots_disjoint [of "[Install_next (Keypair_new 1), Promote, Install_next (Keypair_new 2)]"]
  by (simp add: Keypair_new_def live_addrs_def slots_def KeypairManager_init_def PromoteNext_def
      SetNext_def)

end
