(* ===== verification/Peer.thy ===== *)
theory Peer
  imports Keypair IPv4
begin

text \<open>
  \<open>core/handshake/handshake_state.hpp\<close> and \<open>core/handshake/peer.hpp\<close>: the state of a handshake
  in progress and the peer it belongs to, with their clearing operations. Mutexes are left
  out: each handler is one step of the model.
\<close>

datatype HandshakeStateEnum =
    Zeroed
  | InitiationCreated
  | InitiationConsumed
  | ResponseCreated
  | ResponseConsumed

record HandshakeState =
  hs_state :: HandshakeStateEnum
  hs_chaining_key :: bytes
  hs_hash :: bytes
  hs_local_ephemeral_x25519_private :: bytes
  hs_local_ephemeral_x25519_public :: bytes
  hs_local_ephemeral_mlkem_dk :: bytes
  hs_local_ephemeral_mlkem_ek :: bytes
  hs_remote_static_x25519 :: bytes
  hs_remote_static_mlkem :: bytes
  hs_remote_ephemeral_x25519 :: bytes
  hs_remote_ephemeral_mlkem :: bytes
  hs_precomputed_static_static :: bytes
  hs_preshared_key :: bytes
  hs_local_index :: u32
  hs_remote_index :: u32
  hs_last_timestamp :: bytes
  hs_last_initiation_consumption :: time_point
  hs_last_sent_handshake :: time_point

definition HandshakeState_init :: HandshakeState where
  "HandshakeState_init = \<lparr>hs_state = Zeroed, hs_chaining_key = zeros 32, hs_hash = zeros 32,
     hs_local_ephemeral_x25519_private = zeros 32, hs_local_ephemeral_x25519_public = zeros 32,
     hs_local_ephemeral_mlkem_dk = zeros 2400, hs_local_ephemeral_mlkem_ek = zeros 1184,
     hs_remote_static_x25519 = zeros 32, hs_remote_static_mlkem = zeros 1184,
     hs_remote_ephemeral_x25519 = zeros 32, hs_remote_ephemeral_mlkem = zeros 1184,
     hs_precomputed_static_static = zeros 32, hs_preshared_key = zeros 32,
     hs_local_index = 0, hs_remote_index = 0, hs_last_timestamp = zeros 12,
     hs_last_initiation_consumption = 0, hs_last_sent_handshake = 0\<rparr>"

definition HandshakeState_Clear :: "HandshakeState \<Rightarrow> HandshakeState" where
  "HandshakeState_Clear h = h\<lparr>hs_state := Zeroed,
     hs_chaining_key := secure_zero (hs_chaining_key h), hs_hash := secure_zero (hs_hash h),
     hs_local_ephemeral_x25519_private := secure_zero (hs_local_ephemeral_x25519_private h),
     hs_local_ephemeral_x25519_public := secure_zero (hs_local_ephemeral_x25519_public h),
     hs_local_ephemeral_mlkem_dk := secure_zero (hs_local_ephemeral_mlkem_dk h),
     hs_local_ephemeral_mlkem_ek := secure_zero (hs_local_ephemeral_mlkem_ek h),
     hs_remote_static_x25519 := secure_zero (hs_remote_static_x25519 h),
     hs_remote_static_mlkem := secure_zero (hs_remote_static_mlkem h),
     hs_remote_ephemeral_x25519 := secure_zero (hs_remote_ephemeral_x25519 h),
     hs_remote_ephemeral_mlkem := secure_zero (hs_remote_ephemeral_mlkem h),
     hs_precomputed_static_static := secure_zero (hs_precomputed_static_static h),
     hs_preshared_key := secure_zero (hs_preshared_key h),
     hs_local_index := 0, hs_remote_index := 0,
     hs_last_timestamp := zeros (length (hs_last_timestamp h))\<rparr>"

record Peer =
  local_static_x25519_private :: bytes
  local_static_x25519_public :: bytes
  local_static_mlkem_dk :: bytes
  local_static_mlkem_ek :: bytes
  remote_static_x25519 :: bytes
  remote_static_mlkem_ek :: bytes
  precomputed_static_static :: bytes
  mac1_key :: bytes
  cookie_key :: bytes
  preshared_key :: bytes
  endpoint_ip :: IPv4
  endpoint_port :: u16
  handshake :: HandshakeState
  keypairs :: KeypairManager
  last_received_cookie :: bytes
  last_sent_mac1 :: bytes
  cookie_valid :: bool
  cookie_received_at :: time_point
  handshake_retries :: u32
  tx_messages :: u64
  rx_messages :: u64

definition Peer_init :: Peer where
  "Peer_init = \<lparr>local_static_x25519_private = zeros 32, local_static_x25519_public = zeros 32,
     local_static_mlkem_dk = zeros 2400, local_static_mlkem_ek = zeros 1184,
     remote_static_x25519 = zeros 32, remote_static_mlkem_ek = zeros 1184,
     precomputed_static_static = zeros 32, mac1_key = zeros 32, cookie_key = zeros 32,
     preshared_key = zeros 32, endpoint_ip = IPv4_default, endpoint_port = 0,
     handshake = HandshakeState_init, keypairs = KeypairManager_init,
     last_received_cookie = zeros 16, last_sent_mac1 = zeros 16, cookie_valid = False,
     cookie_received_at = 0, handshake_retries = 0, tx_messages = 0, rx_messages = 0\<rparr>"

definition Peer_Clear :: "Peer \<Rightarrow> Peer" where
  "Peer_Clear p = p\<lparr>
     local_static_x25519_private := secure_zero (local_static_x25519_private p),
     local_static_mlkem_dk := secure_zero (local_static_mlkem_dk p),
     precomputed_static_static := secure_zero (precomputed_static_static p),
     preshared_key := secure_zero (preshared_key p),
     mac1_key := secure_zero (mac1_key p),
     cookie_key := secure_zero (cookie_key p),
     last_received_cookie := secure_zero (last_received_cookie p),
     last_sent_mac1 := secure_zero (last_sent_mac1 p),
     cookie_valid := False,
     handshake := HandshakeState_Clear (handshake p)\<rparr>"

section \<open>Well-formed peers\<close>

text \<open>Every array has its declared length.\<close>

definition wf_HandshakeState :: "HandshakeState \<Rightarrow> bool" where
  "wf_HandshakeState h \<longleftrightarrow>
     length (hs_chaining_key h) = 32 \<and> length (hs_hash h) = 32 \<and>
     length (hs_local_ephemeral_x25519_private h) = 32 \<and>
     length (hs_local_ephemeral_x25519_public h) = 32 \<and>
     length (hs_local_ephemeral_mlkem_dk h) = 2400 \<and>
     length (hs_local_ephemeral_mlkem_ek h) = 1184 \<and>
     length (hs_remote_static_x25519 h) = 32 \<and> length (hs_remote_static_mlkem h) = 1184 \<and>
     length (hs_remote_ephemeral_x25519 h) = 32 \<and> length (hs_remote_ephemeral_mlkem h) = 1184 \<and>
     length (hs_precomputed_static_static h) = 32 \<and> length (hs_preshared_key h) = 32 \<and>
     length (hs_last_timestamp h) = 12"

definition wf_Peer :: "Peer \<Rightarrow> bool" where
  "wf_Peer p \<longleftrightarrow>
     length (local_static_x25519_private p) = 32 \<and> length (local_static_x25519_public p) = 32 \<and>
     length (local_static_mlkem_dk p) = 2400 \<and> length (local_static_mlkem_ek p) = 1184 \<and>
     length (remote_static_x25519 p) = 32 \<and> length (remote_static_mlkem_ek p) = 1184 \<and>
     length (precomputed_static_static p) = 32 \<and> length (mac1_key p) = 32 \<and>
     length (cookie_key p) = 32 \<and> length (preshared_key p) = 32 \<and>
     length (last_received_cookie p) = 16 \<and> length (last_sent_mac1 p) = 16 \<and>
     wf_HandshakeState (handshake p)"

lemma wf_HandshakeState_init [simp, intro]: "wf_HandshakeState HandshakeState_init"
  by (simp add: wf_HandshakeState_def HandshakeState_init_def)

lemma wf_Peer_init [simp, intro]: "wf_Peer Peer_init"
  by (simp add: wf_Peer_def Peer_init_def)

lemma wf_HandshakeState_Clear: "wf_HandshakeState h \<Longrightarrow> wf_HandshakeState (HandshakeState_Clear h)"
  by (simp add: wf_HandshakeState_def HandshakeState_Clear_def)

text \<open>The secrets of a peer: everything a third party must not learn.\<close>

definition handshake_secrets :: "HandshakeState \<Rightarrow> bytes" where
  "handshake_secrets h = hs_chaining_key h @ hs_hash h @ hs_local_ephemeral_x25519_private h @
     hs_local_ephemeral_mlkem_dk h @ hs_precomputed_static_static h @ hs_preshared_key h"

definition peer_secrets :: "Peer \<Rightarrow> bytes" where
  "peer_secrets p = local_static_x25519_private p @ local_static_mlkem_dk p @
     precomputed_static_static p @ preshared_key p @ mac1_key p @ cookie_key p @
     last_received_cookie p @ handshake_secrets (handshake p)"

lemma all_zero_append [simp]: "all_zero (xs @ ys) \<longleftrightarrow> all_zero xs \<and> all_zero ys"
  by (simp add: all_zero_def)

section \<open>Property\<close>

text \<open>
  Clearing a peer leaves none of its secrets: every private key, shared secret, MAC and
  cookie key, the cookie, the chaining key, the transcript and the ephemeral private keys
  are zero, the handshake is back in its first state and no index remains. The array lengths
  and the two rate limiting times stay.
\<close>

lemma Peer_Clear_leaves_no_secret:
  "all_zero (peer_secrets (Peer_Clear p)) \<and>
   length (peer_secrets (Peer_Clear p)) = length (peer_secrets p) \<and>
   hs_state (handshake (Peer_Clear p)) = Zeroed \<and>
   hs_local_index (handshake (Peer_Clear p)) = 0 \<and> hs_remote_index (handshake (Peer_Clear p)) = 0 \<and>
   \<not> cookie_valid (Peer_Clear p) \<and>
   hs_last_initiation_consumption (handshake (Peer_Clear p)) =
     hs_last_initiation_consumption (handshake p)"
  by (simp add: peer_secrets_def handshake_secrets_def Peer_Clear_def HandshakeState_Clear_def)

end
