(* ===== verification/HandshakeProcessor.thy ===== *)
theory HandshakeProcessor
  imports HandshakeHelpers HandshakeMessages Tai64n IndexTable Peer
begin

text \<open>
  \<open>core/handshake/handshake_processor.cpp\<close>: the four message handlers of the handshake and the
  derivation of the transport keys. Each handler takes the state it touches (the peer, the
  index table, the time stamp generator) and returns it updated beside its result; what it
  draws from the outside (randomness, the clock, the address of a new keypair) is an
  argument. A handler that allocates an index is an option: \<open>None\<close> is a call still drawing
  indices.
\<close>

text \<open>What one call draws from outside.\<close>

record hs_env =
  ev_x25519_seed :: bytes
  ev_mlkem_seed :: bytes
  ev_encap_seed :: bytes
  ev_encap_seed2 :: bytes
  ev_now :: time_point
  ev_index_draws :: "u32 option list"

section \<open>CreateMessageInitiation\<close>

text \<open>
  Steps 1 to 10: chaining key, transcript, the key for the time stamp, the ephemeral keys, the
  ciphertext and the two encrypted static keys.
\<close>

definition initiation_secrets ::
  "'k crypto \<Rightarrow> hs_constants \<Rightarrow> hs_env \<Rightarrow> Peer \<Rightarrow>
   (bytes \<times> bytes \<times> bytes \<times> bytes \<times> bytes \<times> bytes \<times> bytes \<times> bytes \<times> bytes \<times> bytes) option" where
  "initiation_secrets lib g ev peer = do {
     let C = initial_chaining_key g;
     let H = initial_hash g;
     let H = MixHash lib H (remote_static_x25519 peer);
     let H = MixHash lib H (remote_static_mlkem_ek peer);
     (e_private, e_public) \<leftarrow> x25519_GenerateKeyPair lib (ev_x25519_seed ev);
     e_mlkem \<leftarrow> mlkem_GenerateKeyPair lib ML_KEM_768 (ev_mlkem_seed ev);
     dk \<leftarrow> octet_get lib ''priv'' (pkey e_mlkem) kMlKemDecapsulationKeyBytes;
     require (length dk = kMlKemDecapsulationKeyBytes);
     let dk_ephemeral = copy_into (zeros kMlKemDecapsulationKeyBytes) dk;
     let (ok, C) = MixKey lib C e_public;
     require ok;
     let H = MixHash lib H e_public;
     let ek_span = public_key e_mlkem;
     let (ok, C) = MixKey lib C ek_span;
     require ok;
     let H = MixHash lib H ek_span;
     dh_es \<leftarrow> DeriveSharedSecret lib e_private (remote_static_x25519 peer);
     (C, enc_key1) \<leftarrow> KDF2 lib C dh_es;
     encaps_es \<leftarrow> Encapsulate lib (remote_static_mlkem_ek peer) ML_KEM_768 (ev_encap_seed ev);
     let (ok, C) = MixKey lib C (shared_secret encaps_es);
     require ok;
     let H = MixHash lib H (encaps_ciphertext encaps_es);
     let (r, H) = EncryptAndHash lib H enc_key1 (local_static_x25519_public peer);
     enc_static_x25519 \<leftarrow> r;
     require (length enc_static_x25519 = 48);
     (C, enc_key2) \<leftarrow> KDF2 lib C [];
     let (r, H) = EncryptAndHash lib H enc_key2 (local_static_mlkem_ek peer);
     enc_static_mlkem \<leftarrow> r;
     require (length enc_static_mlkem = 1200);
     (C, enc_key3) \<leftarrow> KDF2 lib C (precomputed_static_static peer);
     Some (C, H, enc_key3, e_private, e_public, dk_ephemeral, ek_span,
       encaps_ciphertext encaps_es, enc_static_x25519, enc_static_mlkem)
   }"

text \<open>
  Steps 11 to 15. The generator of time stamps is a static of the function: it has moved on
  even when a later step fails. \<open>self\<close> is the address of the peer.
\<close>

definition CreateMessageInitiation ::
  "'k crypto \<Rightarrow> hs_constants \<Rightarrow> hs_env \<Rightarrow> nat \<Rightarrow> Peer \<Rightarrow> IndexTable \<Rightarrow> bytes \<Rightarrow>
   (bytes option \<times> Peer \<times> IndexTable \<times> bytes) option" where
  "CreateMessageInitiation lib g ev self peer table tai =
     (case initiation_secrets lib g ev peer of
        None \<Rightarrow> Some (None, peer, table, tai)
      | Some (C, H, enc_key3, e_private, e_public, dk_ephemeral, ek, ct_es, enc_x, enc_m) \<Rightarrow>
          let (ts, tai) = tai_Now (ev_now ev) tai;
              (r, H) = EncryptAndHash lib H enc_key3 ts in
          (case r of
             None \<Rightarrow> Some (None, peer, table, tai)
           | Some enc_timestamp \<Rightarrow>
               if length enc_timestamp \<noteq> 28 then Some (None, peer, table, tai)
               else do {
                 (local_index, table) \<leftarrow> NewIndex table (ev_index_draws ev) (Some self) (Some self);
                 let msg = \<lparr>im_sender_index = local_index,
                   im_ephemeral_x25519 = copy_into (zeros 32) e_public,
                   im_ephemeral_mlkem_ek = copy_into (zeros 1184) ek,
                   im_kem_ciphertext_es = copy_into (zeros 1088) ct_es,
                   im_encrypted_static_x25519 = copy_into (zeros 48) enc_x,
                   im_encrypted_static_mlkem = copy_into (zeros 1200) enc_m,
                   im_encrypted_timestamp = copy_into (zeros 28) enc_timestamp,
                   im_mac1 = zeros 16, im_mac2 = zeros 16\<rparr>;
                 let peer = peer\<lparr>handshake := (handshake peer)\<lparr>
                   hs_chaining_key := C, hs_hash := H,
                   hs_local_ephemeral_x25519_private := e_private,
                   hs_local_ephemeral_x25519_public := e_public,
                   hs_local_ephemeral_mlkem_dk := dk_ephemeral,
                   hs_local_ephemeral_mlkem_ek :=
                     copy_into (hs_local_ephemeral_mlkem_ek (handshake peer)) ek,
                   hs_local_index := local_index,
                   hs_state := InitiationCreated\<rparr>\<rparr>;
                 Some (Some (SerializeInitiation msg), peer, table, tai)
               }))"

section \<open>ConsumeMessageInitiation\<close>

text \<open>
  Step 11: an open server (no configured peer key) computes the static-static secret; otherwise
  the initiator must be the configured peer.
\<close>

definition static_secret :: "'k crypto \<Rightarrow> Peer \<Rightarrow> bytes \<Rightarrow> bytes option" where
  "static_secret lib peer initiator_static_x25519 =
     (let open_server = all_zero (remote_static_x25519 peer) in
      if open_server
      then DeriveSharedSecret lib (local_static_x25519_private peer) initiator_static_x25519
      else if \<not> ct_memcmp initiator_static_x25519 (remote_static_x25519 peer) then None
      else Some (precomputed_static_static peer))"

text \<open>
  Steps 1 to 13: everything before the peer is looked at under its lock. The result is the
  parsed message, chaining key, transcript, the initiator's static keys and the time stamp.
\<close>

definition initiation_opened ::
  "'k crypto \<Rightarrow> hs_constants \<Rightarrow> bytes \<Rightarrow> Peer \<Rightarrow>
   (InitiationMsg \<times> bytes \<times> bytes \<times> bytes \<times> bytes \<times> bytes) option" where
  "initiation_opened lib g msg peer = do {
     initiation \<leftarrow> DeserializeInitiation msg;
     let C = initial_chaining_key g;
     let H = initial_hash g;
     let H = MixHash lib H (local_static_x25519_public peer);
     let H = MixHash lib H (local_static_mlkem_ek peer);
     let (ok, C) = MixKey lib C (im_ephemeral_x25519 initiation);
     require ok;
     let H = MixHash lib H (im_ephemeral_x25519 initiation);
     let (ok, C) = MixKey lib C (im_ephemeral_mlkem_ek initiation);
     require ok;
     let H = MixHash lib H (im_ephemeral_mlkem_ek initiation);
     dh_es \<leftarrow> DeriveSharedSecret lib (local_static_x25519_private peer)
       (im_ephemeral_x25519 initiation);
     (C, dec_key1) \<leftarrow> KDF2 lib C dh_es;
     static_dk \<leftarrow> RebuildMlKemKey lib (local_static_mlkem_dk peer);
     ss_kem_es \<leftarrow> Decapsulate lib (Some static_dk) (im_kem_ciphertext_es initiation);
     let (ok, C) = MixKey lib C ss_kem_es;
     require ok;
     let H = MixHash lib H (im_kem_ciphertext_es initiation);
     let (r, H) = DecryptAndHash lib H dec_key1 (im_encrypted_static_x25519 initiation);
     dec_static_x25519 \<leftarrow> r;
     require (length dec_static_x25519 = 32);
     let initiator_static_x25519 = copy_into (zeros 32) dec_static_x25519;
     (C, dec_key2) \<leftarrow> KDF2 lib C [];
     let (r, H) = DecryptAndHash lib H dec_key2 (im_encrypted_static_mlkem initiation);
     dec_static_mlkem \<leftarrow> r;
     require (length dec_static_mlkem = kMlKemEncapsulationKeyBytes);
     ss_static \<leftarrow> static_secret lib peer initiator_static_x25519;
     (C, dec_key3) \<leftarrow> KDF2 lib C ss_static;
     let (r, H) = DecryptAndHash lib H dec_key3 (im_encrypted_timestamp initiation);
     dec_ts \<leftarrow> r;
     require (length dec_ts = 12);
     let timestamp = copy_into (zeros 12) dec_ts;
     Some (initiation, C, H, initiator_static_x25519, dec_static_mlkem, timestamp)
   }"

text \<open>Steps 14 and 15: replay and rate checks, then the commit.\<close>

definition ConsumeMessageInitiation ::
  "'k crypto \<Rightarrow> hs_constants \<Rightarrow> time_point \<Rightarrow> bytes \<Rightarrow> Peer \<Rightarrow> bool \<times> Peer" where
  "ConsumeMessageInitiation lib g now msg peer =
     (case initiation_opened lib g msg peer of
        None \<Rightarrow> (False, peer)
      | Some (initiation, C, H, initiator_static_x25519, dec_static_mlkem, timestamp) \<Rightarrow>
          if memcmp_le timestamp (hs_last_timestamp (handshake peer)) then (False, peer)
          else if hs_last_initiation_consumption (handshake peer) \<noteq> 0 \<and>
            now - hs_last_initiation_consumption (handshake peer) < kHandshakeInitiationRate
          then (False, peer)
          else (True, peer\<lparr>handshake := (handshake peer)\<lparr>
            hs_chaining_key := C, hs_hash := H,
            hs_remote_ephemeral_x25519 := im_ephemeral_x25519 initiation,
            hs_remote_ephemeral_mlkem := im_ephemeral_mlkem_ek initiation,
            hs_remote_static_mlkem :=
              copy_into (hs_remote_static_mlkem (handshake peer)) dec_static_mlkem,
            hs_remote_index := im_sender_index initiation,
            hs_remote_static_x25519 := initiator_static_x25519,
            hs_last_timestamp := timestamp,
            hs_last_initiation_consumption := now,
            hs_state := InitiationConsumed\<rparr>\<rparr>))"

section \<open>CreateMessageResponse\<close>

definition response_secrets ::
  "'k crypto \<Rightarrow> hs_env \<Rightarrow> Peer \<Rightarrow> (bytes \<times> bytes \<times> bytes \<times> bytes \<times> bytes \<times> bytes) option" where
  "response_secrets lib ev peer = do {
     require (hs_state (handshake peer) = InitiationConsumed);
     let C = hs_chaining_key (handshake peer);
     let H = hs_hash (handshake peer);
     (e_private, e_public) \<leftarrow> x25519_GenerateKeyPair lib (ev_x25519_seed ev);
     let (ok, C) = MixKey lib C e_public;
     require ok;
     let H = MixHash lib H e_public;
     dh_ee \<leftarrow> DeriveSharedSecret lib e_private (hs_remote_ephemeral_x25519 (handshake peer));
     let (ok, C) = MixKey lib C dh_ee;
     require ok;
     encaps_ee \<leftarrow> Encapsulate lib (hs_remote_ephemeral_mlkem (handshake peer)) ML_KEM_768
       (ev_encap_seed ev);
     let (ok, C) = MixKey lib C (shared_secret encaps_ee);
     require ok;
     let H = MixHash lib H (encaps_ciphertext encaps_ee);
     dh_se \<leftarrow> DeriveSharedSecret lib e_private (hs_remote_static_x25519 (handshake peer));
     let (ok, C) = MixKey lib C dh_se;
     require ok;
     encaps_se \<leftarrow> Encapsulate lib (hs_remote_static_mlkem (handshake peer)) ML_KEM_768
       (ev_encap_seed2 ev);
     let (ok, C) = MixKey lib C (shared_secret encaps_se);
     require ok;
     let H = MixHash lib H (encaps_ciphertext encaps_se);
     (C, tau, enc_key) \<leftarrow> KDF3 lib C (preshared_key peer);
     let H = MixHash lib H tau;
     let (r, H) = EncryptAndHash lib H enc_key [];
     encrypted_empty \<leftarrow> r;
     require (length encrypted_empty = 16);
     Some (C, H, e_public, encaps_ciphertext encaps_ee, encaps_ciphertext encaps_se,
       encrypted_empty)
   }"

definition CreateMessageResponse ::
  "'k crypto \<Rightarrow> hs_env \<Rightarrow> nat \<Rightarrow> Peer \<Rightarrow> IndexTable \<Rightarrow>
   (bytes option \<times> Peer \<times> IndexTable) option" where
  "CreateMessageResponse lib ev self peer table =
     (case response_secrets lib ev peer of
        None \<Rightarrow> Some (None, peer, table)
      | Some (C, H, e_public, ct_ee, ct_se, encrypted_empty) \<Rightarrow> do {
          (local_index, table) \<leftarrow> NewIndex table (ev_index_draws ev) (Some self) (Some self);
          let msg = \<lparr>rm_sender_index = local_index,
            rm_receiver_index = hs_remote_index (handshake peer),
            rm_ephemeral_x25519 = copy_into (zeros 32) e_public,
            rm_kem_ciphertext_ee = copy_into (zeros 1088) ct_ee,
            rm_kem_ciphertext_se = copy_into (zeros 1088) ct_se,
            rm_encrypted_empty = copy_into (zeros 16) encrypted_empty,
            rm_mac1 = zeros 16, rm_mac2 = zeros 16\<rparr>;
          let peer = peer\<lparr>handshake := (handshake peer)\<lparr>
            hs_chaining_key := C, hs_hash := H, hs_local_index := local_index,
            hs_state := ResponseCreated\<rparr>\<rparr>;
          Some (Some (SerializeResponse msg), peer, table)
        })"

section \<open>ConsumeMessageResponse\<close>

definition response_opened ::
  "'k crypto \<Rightarrow> bytes \<Rightarrow> nat \<Rightarrow> Peer \<Rightarrow> IndexTable \<Rightarrow> (ResponseMsg \<times> bytes \<times> bytes) option" where
  "response_opened lib msg self peer table = do {
     response \<leftarrow> DeserializeResponse msg;
     entry \<leftarrow> Lookup table (rm_receiver_index response);
     require (e_peer entry = Some self);
     require (hs_state (handshake peer) = InitiationCreated);
     let C = hs_chaining_key (handshake peer);
     let H = hs_hash (handshake peer);
     let (ok, C) = MixKey lib C (rm_ephemeral_x25519 response);
     require ok;
     let H = MixHash lib H (rm_ephemeral_x25519 response);
     dh_ee \<leftarrow> DeriveSharedSecret lib (hs_local_ephemeral_x25519_private (handshake peer))
       (rm_ephemeral_x25519 response);
     let (ok, C) = MixKey lib C dh_ee;
     require ok;
     e_dk \<leftarrow> RebuildMlKemKey lib (hs_local_ephemeral_mlkem_dk (handshake peer));
     ss_kem_ee \<leftarrow> Decapsulate lib (Some e_dk) (rm_kem_ciphertext_ee response);
     let (ok, C) = MixKey lib C ss_kem_ee;
     require ok;
     let H = MixHash lib H (rm_kem_ciphertext_ee response);
     dh_se \<leftarrow> DeriveSharedSecret lib (local_static_x25519_private peer)
       (rm_ephemeral_x25519 response);
     let (ok, C) = MixKey lib C dh_se;
     require ok;
     s_dk \<leftarrow> RebuildMlKemKey lib (local_static_mlkem_dk peer);
     ss_kem_se \<leftarrow> Decapsulate lib (Some s_dk) (rm_kem_ciphertext_se response);
     let (ok, C) = MixKey lib C ss_kem_se;
     require ok;
     let H = MixHash lib H (rm_kem_ciphertext_se response);
     (C, tau, dec_key) \<leftarrow> KDF3 lib C (preshared_key peer);
     let H = MixHash lib H tau;
     let (r, H) = DecryptAndHash lib H dec_key (rm_encrypted_empty response);
     dec_empty \<leftarrow> r;
     Some (response, C, H)
   }"

definition ConsumeMessageResponse ::
  "'k crypto \<Rightarrow> bytes \<Rightarrow> nat \<Rightarrow> Peer \<Rightarrow> IndexTable \<Rightarrow> bool \<times> Peer" where
  "ConsumeMessageResponse lib msg self peer table =
     (case response_opened lib msg self peer table of
        None \<Rightarrow> (False, peer)
      | Some (response, C, H) \<Rightarrow> (True, peer\<lparr>handshake := (handshake peer)\<lparr>
          hs_chaining_key := C, hs_hash := H,
          hs_remote_index := rm_sender_index response,
          hs_state := ResponseConsumed,
          hs_local_ephemeral_x25519_private :=
            secure_zero (hs_local_ephemeral_x25519_private (handshake peer)),
          hs_local_ephemeral_mlkem_dk :=
            secure_zero (hs_local_ephemeral_mlkem_dk (handshake peer))\<rparr>\<rparr>))"

section \<open>DeriveSessionKeys\<close>

text \<open>\<open>addr\<close> is where the new keypair is allocated.\<close>

definition DeriveSessionKeys ::
  "'k crypto \<Rightarrow> time_point \<Rightarrow> nat \<Rightarrow> Peer \<Rightarrow> IndexTable \<Rightarrow> bool \<Rightarrow> bool \<times> Peer \<times> IndexTable" where
  "DeriveSessionKeys lib now addr peer table is_initiator =
     (let expected = (if is_initiator then ResponseConsumed else ResponseCreated) in
      if hs_state (handshake peer) \<noteq> expected then (False, peer, table)
      else
        let C = hs_chaining_key (handshake peer);
            local_index = hs_local_index (handshake peer);
            remote_index = hs_remote_index (handshake peer) in
        case KDF2 lib C [] of
          None \<Rightarrow> (False, peer, table)
        | Some (T0, T1) \<Rightarrow>
            let kp = Keypair_new addr;
                kp = (if is_initiator then kp\<lparr>send_key := T0, receive_key := T1\<rparr>
                      else kp\<lparr>receive_key := T0, send_key := T1\<rparr>);
                kp = kp\<lparr>kp_is_initiator := is_initiator, kp_created := now,
                  kp_local_index := local_index, kp_remote_index := remote_index\<rparr>;
                table = SwapHandshakeToKeypair table local_index (Some addr);
                peer = (if is_initiator
                  then peer\<lparr>keypairs := SetCurrent (keypairs peer) (Some kp)\<rparr>
                  else peer\<lparr>keypairs := SetNext (keypairs peer) (Some kp)\<rparr>);
                peer = peer\<lparr>handshake := (handshake peer)\<lparr>
                  hs_chaining_key := secure_zero (hs_chaining_key (handshake peer)),
                  hs_hash := secure_zero (hs_hash (handshake peer)),
                  hs_local_ephemeral_x25519_private :=
                    secure_zero (hs_local_ephemeral_x25519_private (handshake peer)),
                  hs_local_ephemeral_mlkem_dk :=
                    secure_zero (hs_local_ephemeral_mlkem_dk (handshake peer)),
                  hs_state := Zeroed\<rparr>\<rparr> in
            (True, peer, table))"

end
