(* ===== verification/KeySchedule.thy ===== *)
theory KeySchedule
  imports HandshakeProcessor
begin

text \<open>
  The key schedule of the handshake as a specification: from the public values on the wire and
  the shared secrets of the exchanges, the chaining key and the transcript after every step,
  the message keys and the sealed fields. It is written over the inputs alone, without saying
  which side computes it; the lemmas show that both sides of \<open>HandshakeProcessor\<close> implement it.
\<close>

named_theorems schedule_folds \<open>folding the steps of the key schedule\<close>

section \<open>The first message\<close>

record initiation_view =
  iv_r_static :: bytes
  iv_r_ek :: bytes
  iv_E :: bytes
  iv_ek :: bytes
  iv_dh_es :: bytes
  iv_ct_es :: bytes
  iv_ss_es :: bytes
  iv_i_static :: bytes
  iv_i_ek :: bytes
  iv_dh_ss :: bytes
  iv_time :: bytes

definition iC1 where "iC1 lib g v = kdf_chain lib (initial_chaining_key g) (iv_E v) 1"
definition iC2 where "iC2 lib g v = kdf_chain lib (iC1 lib g v) (iv_ek v) 1"
definition iC3 where "iC3 lib g v = kdf_chain lib (iC2 lib g v) (iv_dh_es v) 1"
definition ik1 where "ik1 lib g v = kdf_chain lib (iC2 lib g v) (iv_dh_es v) 2"
definition iC4 where "iC4 lib g v = kdf_chain lib (iC3 lib g v) (iv_ss_es v) 1"
definition iC5 where "iC5 lib g v = kdf_chain lib (iC4 lib g v) [] 1"
definition ik2 where "ik2 lib g v = kdf_chain lib (iC4 lib g v) [] 2"
definition iC6 where "iC6 lib g v = kdf_chain lib (iC5 lib g v) (iv_dh_ss v) 1"
definition ik3 where "ik3 lib g v = kdf_chain lib (iC5 lib g v) (iv_dh_ss v) 2"

definition iH1 where "iH1 lib g v = MixHash lib (initial_hash g) (iv_r_static v)"
definition iH2 where "iH2 lib g v = MixHash lib (iH1 lib g v) (iv_r_ek v)"
definition iH3 where "iH3 lib g v = MixHash lib (iH2 lib g v) (iv_E v)"
definition iH4 where "iH4 lib g v = MixHash lib (iH3 lib g v) (iv_ek v)"
definition iH5 where "iH5 lib g v = MixHash lib (iH4 lib g v) (iv_ct_es v)"
definition ix1 where "ix1 lib g v = sealed lib (ik1 lib g v) (zeros 12) (iH5 lib g v) (iv_i_static v)"
definition iH6 where "iH6 lib g v = MixHash lib (iH5 lib g v) (ix1 lib g v)"
definition ix2 where "ix2 lib g v = sealed lib (ik2 lib g v) (zeros 12) (iH6 lib g v) (iv_i_ek v)"
definition iH7 where "iH7 lib g v = MixHash lib (iH6 lib g v) (ix2 lib g v)"
definition ix3 where "ix3 lib g v = sealed lib (ik3 lib g v) (zeros 12) (iH7 lib g v) (iv_time v)"
definition iH8 where "iH8 lib g v = MixHash lib (iH7 lib g v) (ix3 lib g v)"

lemmas ischedule [schedule_folds] =
  iC1_def [symmetric] iC2_def [symmetric] iC3_def [symmetric] iC4_def [symmetric]
  iC5_def [symmetric] iC6_def [symmetric] ik1_def [symmetric] ik2_def [symmetric]
  ik3_def [symmetric] iH1_def [symmetric] iH2_def [symmetric] iH3_def [symmetric]
  iH4_def [symmetric] iH5_def [symmetric] iH6_def [symmetric] iH7_def [symmetric]
  iH8_def [symmetric] ix1_def [symmetric] ix2_def [symmetric] ix3_def [symmetric]

lemma length_ik [len_simps]:
  assumes "crypto_laws lib"
  shows "length (ik1 lib g v) = 32" "length (ik2 lib g v) = 32" "length (ik3 lib g v) = 32"
  using assms by (simp_all add: ik1_def ik2_def ik3_def length_kdf_chain)

text \<open>The message of the schedule.\<close>

definition initiation_msg :: "'k crypto \<Rightarrow> hs_constants \<Rightarrow> initiation_view \<Rightarrow> u32 \<Rightarrow> InitiationMsg" where
  "initiation_msg lib g v i = \<lparr>im_sender_index = i, im_ephemeral_x25519 = iv_E v,
     im_ephemeral_mlkem_ek = iv_ek v, im_kem_ciphertext_es = iv_ct_es v,
     im_encrypted_static_x25519 = ix1 lib g v, im_encrypted_static_mlkem = ix2 lib g v,
     im_encrypted_timestamp = ix3 lib g v, im_mac1 = zeros 16, im_mac2 = zeros 16\<rparr>"

definition wf_view :: "initiation_view \<Rightarrow> bool" where
  "wf_view v \<longleftrightarrow> length (iv_E v) = 32 \<and> length (iv_ek v) = 1184 \<and> length (iv_ct_es v) = 1088 \<and>
     length (iv_i_static v) = 32 \<and> length (iv_i_ek v) = 1184 \<and> length (iv_time v) = 12"

lemma length_ix [len_simps]:
  assumes "crypto_laws lib" and "wf_view v"
  shows "length (ix1 lib g v) = 48" "length (ix2 lib g v) = 1200" "length (ix3 lib g v) = 28"
  using assms by (simp_all add: ix1_def ix2_def ix3_def length_sealed wf_view_def)

lemma wf_initiation_msg:
  assumes "crypto_laws lib" and "wf_view v"
  shows "wf_InitiationMsg (initiation_msg lib g v i)"
  using assms length_ix [OF assms, of g]
  by (simp add: wf_InitiationMsg_def initiation_msg_def wf_view_def)

lemmas laws_rewrites = MixKey_chain KDF_chain EncryptAndHash_sealed DecryptAndHash_sealed Let_def

subsection \<open>The initiator's side\<close>

lemma initiation_secrets_schedule:
  assumes "crypto_laws lib"
    and "x25519_GenerateKeyPair lib (ev_x25519_seed ev) = Some (e, iv_E v)"
    and "mlkem_GenerateKeyPair lib ML_KEM_768 (ev_mlkem_seed ev) =
      Some \<lparr>pkey = k, public_key = iv_ek v\<rparr>"
    and "octet_get lib ''priv'' k 2400 = Some dk" and "length dk = 2400"
    and "DeriveSharedSecret lib e (iv_r_static v) = Some (iv_dh_es v)"
    and "Encapsulate lib (iv_r_ek v) ML_KEM_768 (ev_encap_seed ev) =
      Some \<lparr>encaps_ciphertext = iv_ct_es v, shared_secret = iv_ss_es v\<rparr>"
    and "remote_static_x25519 peer = iv_r_static v" and "remote_static_mlkem_ek peer = iv_r_ek v"
    and "local_static_x25519_public peer = iv_i_static v"
    and "local_static_mlkem_ek peer = iv_i_ek v" and "precomputed_static_static peer = iv_dh_ss v"
    and "wf_view v"
  shows "initiation_secrets lib g ev peer = Some (iC6 lib g v, iH7 lib g v, ik3 lib g v, e, iv_E v,
    dk, iv_ek v, iv_ct_es v, ix1 lib g v, ix2 lib g v)"
  using assms(1-12) length_ik [OF assms(1), of g v] length_ix [OF assms(1,13), of g]
  by (simp add: initiation_secrets_def laws_rewrites schedule_folds kMlKemDecapsulationKeyBytes_def
      del: kdf_chain.simps One_nat_def)

subsection \<open>The responder's side\<close>

lemma initiation_opened_schedule:
  assumes "crypto_laws lib" and "wf_view v"
    and "local_static_x25519_public peer = iv_r_static v" and "local_static_mlkem_ek peer = iv_r_ek v"
    and "DeriveSharedSecret lib (local_static_x25519_private peer) (iv_E v) = Some (iv_dh_es v)"
    and "RebuildMlKemKey lib (local_static_mlkem_dk peer) = Some k"
    and "Decapsulate lib (Some k) (iv_ct_es v) = Some (iv_ss_es v)"
    and "static_secret lib peer (iv_i_static v) = Some (iv_dh_ss v)"
  shows "initiation_opened lib g (SerializeInitiation (initiation_msg lib g v i)) peer =
    Some (initiation_msg lib g v i, iC6 lib g v, iH8 lib g v, iv_i_static v, iv_i_ek v, iv_time v)"
proof -
  let ?m = "initiation_msg lib g v i"
  have m: "im_ephemeral_x25519 ?m = iv_E v" "im_ephemeral_mlkem_ek ?m = iv_ek v"
    "im_kem_ciphertext_es ?m = iv_ct_es v" "im_encrypted_static_x25519 ?m = ix1 lib g v"
    "im_encrypted_static_mlkem ?m = ix2 lib g v" "im_encrypted_timestamp ?m = ix3 lib g v"
    by (simp_all add: initiation_msg_def)
  have opens: "DecryptAndHash lib (iH5 lib g v) (ik1 lib g v) (ix1 lib g v) =
      (Some (iv_i_static v), iH6 lib g v)"
    "DecryptAndHash lib (iH6 lib g v) (ik2 lib g v) (ix2 lib g v) = (Some (iv_i_ek v), iH7 lib g v)"
    "DecryptAndHash lib (iH7 lib g v) (ik3 lib g v) (ix3 lib g v) = (Some (iv_time v), iH8 lib g v)"
    unfolding ix1_def ix2_def ix3_def iH6_def iH7_def iH8_def
    by (intro DecryptAndHash_sealed assms(1) length_ik)+
  have lens: "length (iv_i_static v) = 32" "length (iv_i_ek v) = 1184" "length (iv_time v) = 12"
    using assms(2) by (simp_all add: wf_view_def)
  have parse: "DeserializeInitiation (SerializeInitiation ?m) = Some ?m"
    by (rule Initiation_roundtrip) (rule wf_initiation_msg [OF assms(1,2)])
  show ?thesis
    unfolding initiation_opened_def parse m
    using assms(1,3-8) opens lens
    by (simp add: MixKey_chain KDF_chain Let_def m schedule_folds kMlKemEncapsulationKeyBytes_def
        del: kdf_chain.simps One_nat_def)
qed

section \<open>The second message\<close>

record response_view =
  rv_C :: bytes
  rv_H :: bytes
  rv_E :: bytes
  rv_dh_ee :: bytes
  rv_ct_ee :: bytes
  rv_ss_ee :: bytes
  rv_dh_se :: bytes
  rv_ct_se :: bytes
  rv_ss_se :: bytes
  rv_psk :: bytes

definition rC1 where "rC1 lib v = kdf_chain lib (rv_C v) (rv_E v) 1"
definition rC2 where "rC2 lib v = kdf_chain lib (rC1 lib v) (rv_dh_ee v) 1"
definition rC3 where "rC3 lib v = kdf_chain lib (rC2 lib v) (rv_ss_ee v) 1"
definition rC4 where "rC4 lib v = kdf_chain lib (rC3 lib v) (rv_dh_se v) 1"
definition rC5 where "rC5 lib v = kdf_chain lib (rC4 lib v) (rv_ss_se v) 1"
definition rC6 where "rC6 lib v = kdf_chain lib (rC5 lib v) (rv_psk v) 1"
definition rtau where "rtau lib v = kdf_chain lib (rC5 lib v) (rv_psk v) 2"
definition rkey where "rkey lib v = kdf_chain lib (rC5 lib v) (rv_psk v) 3"
definition rH1 where "rH1 lib v = MixHash lib (rv_H v) (rv_E v)"
definition rH2 where "rH2 lib v = MixHash lib (rH1 lib v) (rv_ct_ee v)"
definition rH3 where "rH3 lib v = MixHash lib (rH2 lib v) (rv_ct_se v)"
definition rH4 where "rH4 lib v = MixHash lib (rH3 lib v) (rtau lib v)"
definition rx where "rx lib v = sealed lib (rkey lib v) (zeros 12) (rH4 lib v) []"
definition rH5 where "rH5 lib v = MixHash lib (rH4 lib v) (rx lib v)"

lemmas rschedule [schedule_folds] =
  rC1_def [symmetric] rC2_def [symmetric] rC3_def [symmetric] rC4_def [symmetric]
  rC5_def [symmetric] rC6_def [symmetric] rtau_def [symmetric] rkey_def [symmetric]
  rH1_def [symmetric] rH2_def [symmetric] rH3_def [symmetric] rH4_def [symmetric]
  rH5_def [symmetric] rx_def [symmetric]

lemma length_rkey [len_simps]: "crypto_laws lib \<Longrightarrow> length (rkey lib v) = 32"
  by (simp add: rkey_def length_kdf_chain)

lemma length_rx [len_simps]: "crypto_laws lib \<Longrightarrow> length (rx lib v) = 16"
  by (simp add: rx_def length_sealed)

definition response_msg :: "'k crypto \<Rightarrow> response_view \<Rightarrow> u32 \<Rightarrow> u32 \<Rightarrow> ResponseMsg" where
  "response_msg lib v i j = \<lparr>rm_sender_index = i, rm_receiver_index = j,
     rm_ephemeral_x25519 = rv_E v, rm_kem_ciphertext_ee = rv_ct_ee v,
     rm_kem_ciphertext_se = rv_ct_se v, rm_encrypted_empty = rx lib v,
     rm_mac1 = zeros 16, rm_mac2 = zeros 16\<rparr>"

definition wf_rview :: "response_view \<Rightarrow> bool" where
  "wf_rview v \<longleftrightarrow> length (rv_E v) = 32 \<and> length (rv_ct_ee v) = 1088 \<and> length (rv_ct_se v) = 1088"

lemma wf_response_msg:
  "crypto_laws lib \<Longrightarrow> wf_rview v \<Longrightarrow> wf_ResponseMsg (response_msg lib v i j)"
  by (simp add: wf_ResponseMsg_def response_msg_def wf_rview_def length_rx)

lemma response_secrets_schedule:
  assumes "crypto_laws lib" and "hs_state (handshake peer) = InitiationConsumed"
    and "hs_chaining_key (handshake peer) = rv_C v" and "hs_hash (handshake peer) = rv_H v"
    and "x25519_GenerateKeyPair lib (ev_x25519_seed ev) = Some (e, rv_E v)"
    and "DeriveSharedSecret lib e (hs_remote_ephemeral_x25519 (handshake peer)) = Some (rv_dh_ee v)"
    and "Encapsulate lib (hs_remote_ephemeral_mlkem (handshake peer)) ML_KEM_768 (ev_encap_seed ev) =
      Some \<lparr>encaps_ciphertext = rv_ct_ee v, shared_secret = rv_ss_ee v\<rparr>"
    and "DeriveSharedSecret lib e (hs_remote_static_x25519 (handshake peer)) = Some (rv_dh_se v)"
    and "Encapsulate lib (hs_remote_static_mlkem (handshake peer)) ML_KEM_768 (ev_encap_seed2 ev) =
      Some \<lparr>encaps_ciphertext = rv_ct_se v, shared_secret = rv_ss_se v\<rparr>"
    and "preshared_key peer = rv_psk v"
  shows "response_secrets lib ev peer =
    Some (rC6 lib v, rH5 lib v, rv_E v, rv_ct_ee v, rv_ct_se v, rx lib v)"
  using assms length_rkey [OF assms(1), of v] length_rx [OF assms(1), of v]
  by (simp add: response_secrets_def laws_rewrites schedule_folds
      del: kdf_chain.simps One_nat_def)

lemma response_opened_schedule:
  assumes "crypto_laws lib" and "wf_rview v"
    and "Lookup table j = Some entry" and "e_peer entry = Some self"
    and "hs_state (handshake peer) = InitiationCreated"
    and "hs_chaining_key (handshake peer) = rv_C v" and "hs_hash (handshake peer) = rv_H v"
    and "DeriveSharedSecret lib (hs_local_ephemeral_x25519_private (handshake peer)) (rv_E v) =
      Some (rv_dh_ee v)"
    and "RebuildMlKemKey lib (hs_local_ephemeral_mlkem_dk (handshake peer)) = Some ke"
    and "Decapsulate lib (Some ke) (rv_ct_ee v) = Some (rv_ss_ee v)"
    and "DeriveSharedSecret lib (local_static_x25519_private peer) (rv_E v) = Some (rv_dh_se v)"
    and "RebuildMlKemKey lib (local_static_mlkem_dk peer) = Some ks"
    and "Decapsulate lib (Some ks) (rv_ct_se v) = Some (rv_ss_se v)"
    and "preshared_key peer = rv_psk v"
  shows "response_opened lib (SerializeResponse (response_msg lib v i j)) self peer table =
    Some (response_msg lib v i j, rC6 lib v, rH5 lib v)"
proof -
  let ?m = "response_msg lib v i j"
  have m: "rm_ephemeral_x25519 ?m = rv_E v" "rm_kem_ciphertext_ee ?m = rv_ct_ee v"
    "rm_kem_ciphertext_se ?m = rv_ct_se v" "rm_encrypted_empty ?m = rx lib v"
    "rm_receiver_index ?m = j"
    by (simp_all add: response_msg_def)
  have opens: "DecryptAndHash lib (rH4 lib v) (rkey lib v) (rx lib v) = (Some [], rH5 lib v)"
    unfolding rx_def rH5_def by (intro DecryptAndHash_sealed assms(1) length_rkey)
  have parse: "DeserializeResponse (SerializeResponse ?m) = Some ?m"
    by (rule Response_roundtrip) (rule wf_response_msg [OF assms(1,2)])
  show ?thesis
    using assms(1,3-14) opens
    by (simp add: response_opened_def parse MixKey_chain KDF_chain Let_def m schedule_folds
        del: kdf_chain.simps One_nat_def)
qed

end
