(* ===== verification/HandshakeAgreement.thy ===== *)
theory HandshakeAgreement
  imports KeySchedule
begin

text \<open>
  What the handlers of \<open>HandshakeProcessor\<close> achieve together: an undisturbed handshake between
  two peers configured for each other ends with matching transport keys, and what each
  handler guarantees on its own when the other side is not to be trusted.
\<close>

section \<open>Configured peers\<close>

text \<open>The initiator knows the responder; the responder knows the initiator or accepts anyone.\<close>

definition peers_match :: "'k crypto \<Rightarrow> Peer \<Rightarrow> Peer \<Rightarrow> bool" where
  "peers_match lib I R \<longleftrightarrow>
     x25519_pair lib (local_static_x25519_private I) (local_static_x25519_public I) \<and>
     x25519_pair lib (local_static_x25519_private R) (local_static_x25519_public R) \<and>
     mlkem_pair lib (local_static_mlkem_dk I) (local_static_mlkem_ek I) \<and>
     mlkem_pair lib (local_static_mlkem_dk R) (local_static_mlkem_ek R) \<and>
     remote_static_x25519 I = local_static_x25519_public R \<and>
     remote_static_mlkem_ek I = local_static_mlkem_ek R \<and>
     DeriveSharedSecret lib (local_static_x25519_private I) (local_static_x25519_public R) =
       Some (precomputed_static_static I) \<and>
     (all_zero (remote_static_x25519 R) \<or>
      remote_static_x25519 R = local_static_x25519_public I \<and>
      DeriveSharedSecret lib (local_static_x25519_private R) (local_static_x25519_public I) =
        Some (precomputed_static_static R)) \<and>
     preshared_key I = preshared_key R"

lemma static_secret_match:
  assumes "crypto_laws lib" and "peers_match lib I R"
  shows "static_secret lib R (local_static_x25519_public I) = Some (precomputed_static_static I)"
proof -
  let ?a = "local_static_x25519_private I" and ?b = "local_static_x25519_private R"
  let ?A = "local_static_x25519_public I" and ?B = "local_static_x25519_public R"
  have pairs: "x25519_pair lib ?a ?A" "x25519_pair lib ?b ?B"
    and pre: "DeriveSharedSecret lib ?a ?B = Some (precomputed_static_static I)"
    and known: "all_zero (remote_static_x25519 R) \<or> remote_static_x25519 R = ?A \<and>
      DeriveSharedSecret lib ?b ?A = Some (precomputed_static_static R)"
    using assms(2) unfolding peers_match_def by blast+
  have ba: "DeriveSharedSecret lib ?b ?A = Some (precomputed_static_static I)"
    using dh_laws(1,2) [OF assms(1) pairs] pre by (simp only: option.inject)
  from known show ?thesis
    by (rule disjE) (simp_all only: static_secret_def Let_def ba ct_memcmp_iff if_True if_False
        if_cancel simp_thms option.inject)
qed

section \<open>The honest steps\<close>

text \<open>The inputs of the key schedule in an undisturbed run.\<close>

definition honest_view ::
  "'k crypto \<Rightarrow> Peer \<Rightarrow> Peer \<Rightarrow> bytes \<Rightarrow> initiation_view \<Rightarrow> bytes \<Rightarrow> bytes \<Rightarrow> bool" where
  "honest_view lib I R seed v e dk \<longleftrightarrow>
     wf_view v \<and> x25519_pair lib e (iv_E v) \<and> mlkem_pair lib dk (iv_ek v) \<and>
     iv_r_static v = local_static_x25519_public R \<and> iv_r_ek v = local_static_mlkem_ek R \<and>
     iv_i_static v = local_static_x25519_public I \<and> iv_i_ek v = local_static_mlkem_ek I \<and>
     iv_dh_es v = dh lib e (iv_r_static v) \<and> iv_dh_ss v = precomputed_static_static I \<and>
     iv_ct_es v = kem_ct lib (iv_r_ek v) seed \<and> iv_ss_es v = kem_ss lib (iv_r_ek v) seed"

text \<open>The initiator's state after the first message.\<close>

definition initiated :: "'k crypto \<Rightarrow> hs_constants \<Rightarrow> initiation_view \<Rightarrow> bytes \<Rightarrow> bytes \<Rightarrow> u32 \<Rightarrow> Peer \<Rightarrow> Peer" where
  "initiated lib g v e dk i I = I\<lparr>handshake := (handshake I)\<lparr>
     hs_chaining_key := iC6 lib g v, hs_hash := iH8 lib g v,
     hs_local_ephemeral_x25519_private := e, hs_local_ephemeral_x25519_public := iv_E v,
     hs_local_ephemeral_mlkem_dk := dk,
     hs_local_ephemeral_mlkem_ek := copy_into (hs_local_ephemeral_mlkem_ek (handshake I)) (iv_ek v),
     hs_local_index := i, hs_state := InitiationCreated\<rparr>\<rparr>"

lemma honest_initiation:
  assumes "crypto_laws lib" and "peers_match lib I R" and "length tai = 12"
    and "tai_secs_nat tai + 1 < 2 ^ 64"
    and "Some free \<in> set (ev_index_draws ev)" and "free \<noteq> 0" and "table free = None"
  obtains v e dk i where "honest_view lib I R (ev_encap_seed ev) v e dk"
    and "CreateMessageInitiation lib g ev self I table tai =
      Some (Some (SerializeInitiation (initiation_msg lib g v i)), initiated lib g v e dk i I,
        table(i \<mapsto> \<lparr>e_peer = Some self, e_handshake = Some self, e_keypair = None\<rparr>),
        fst (tai_Now (ev_now ev) tai))"
    and "iv_time v = fst (tai_Now (ev_now ev) tai)"
proof -
  note laws = assms(1)
  obtain e E where e: "x25519_GenerateKeyPair lib (ev_x25519_seed ev) = Some (e, E)"
    "x25519_pair lib e E" using x25519_keygen_laws [OF laws] .
  obtain k dk ek where k: "mlkem_GenerateKeyPair lib ML_KEM_768 (ev_mlkem_seed ev) =
      Some \<lparr>pkey = k, public_key = ek\<rparr>" "octet_get lib ''priv'' k 2400 = Some dk"
    "mlkem_pair lib dk ek" using mlkem_keygen_laws [OF laws] .
  let ?R = "local_static_x25519_public R" and ?K = "local_static_mlkem_ek R"
  define v where "v = \<lparr>iv_r_static = ?R, iv_r_ek = ?K, iv_E = E, iv_ek = ek, iv_dh_es = dh lib e ?R,
    iv_ct_es = kem_ct lib ?K (ev_encap_seed ev), iv_ss_es = kem_ss lib ?K (ev_encap_seed ev),
    iv_i_static = local_static_x25519_public I, iv_i_ek = local_static_mlkem_ek I,
    iv_dh_ss = precomputed_static_static I, iv_time = fst (tai_Now (ev_now ev) tai)\<rparr>"
  note kem = kem_laws [OF laws, of "local_static_mlkem_dk R" ?K "ev_encap_seed ev"]
  note dhs = dh_laws [OF laws e(2), of "local_static_x25519_private R" ?R]
  have wf: "wf_view v"
    using assms(2) e(2) k(3) kem tai_Now_greater(1) [OF assms(3,4)]
    by (simp add: wf_view_def v_def peers_match_def x25519_pair_def mlkem_pair_def)
  have secrets: "initiation_secrets lib g ev I = Some (iC6 lib g v, iH7 lib g v, ik3 lib g v, e,
      iv_E v, dk, iv_ek v, iv_ct_es v, ix1 lib g v, ix2 lib g v)"
    using assms(2) e k kem dhs
    by (intro initiation_secrets_schedule [OF laws _ _ _ _ _ _ _ _ _ _ _ wf])
      (simp_all add: v_def peers_match_def mlkem_pair_def)
  have ts: "EncryptAndHash lib (iH7 lib g v) (ik3 lib g v) (fst (tai_Now (ev_now ev) tai)) =
      (Some (ix3 lib g v), iH8 lib g v)"
    using EncryptAndHash_sealed [OF laws length_ik(3) [OF laws]]
    by (simp add: ix3_def iH8_def v_def)
  have stamp: "tai_Now (ev_now ev) tai = (iv_time v, iv_time v)"
    by (simp add: v_def tai_Now_def Let_def)
  obtain i where idx: "NewIndex table (ev_index_draws ev) (Some self) (Some self) = Some (i,
      table(i \<mapsto> \<lparr>e_peer = Some self, e_handshake = Some self, e_keypair = None\<rparr>))"
    by (rule NewIndex_total [of free "ev_index_draws ev" table, OF assms(5-7)])
  note lens = length_ix [OF laws wf, of g]
  have "CreateMessageInitiation lib g ev self I table tai =
      Some (Some (SerializeInitiation (initiation_msg lib g v i)), initiated lib g v e dk i I,
        table(i \<mapsto> \<lparr>e_peer = Some self, e_handshake = Some self, e_keypair = None\<rparr>),
        fst (tai_Now (ev_now ev) tai))"
    using secrets ts stamp idx lens wf
    by (simp add: CreateMessageInitiation_def Let_def initiation_msg_def initiated_def wf_view_def)
  moreover have "honest_view lib I R (ev_encap_seed ev) v e dk"
    using wf e(2) k(3) by (simp add: honest_view_def v_def)
  moreover have "iv_time v = fst (tai_Now (ev_now ev) tai)" by (simp add: v_def)
  ultimately show thesis by (intro that)
qed

text \<open>The responder's state after consuming it.\<close>

definition consumed :: "'k crypto \<Rightarrow> hs_constants \<Rightarrow> initiation_view \<Rightarrow> time_point \<Rightarrow> u32 \<Rightarrow> Peer \<Rightarrow> Peer" where
  "consumed lib g v now i R = R\<lparr>handshake := (handshake R)\<lparr>
     hs_chaining_key := iC6 lib g v, hs_hash := iH8 lib g v,
     hs_remote_ephemeral_x25519 := iv_E v, hs_remote_ephemeral_mlkem := iv_ek v,
     hs_remote_static_mlkem := iv_i_ek v, hs_remote_index := i,
     hs_remote_static_x25519 := iv_i_static v, hs_last_timestamp := iv_time v,
     hs_last_initiation_consumption := now, hs_state := InitiationConsumed\<rparr>\<rparr>"

definition fresh_initiation :: "bytes \<Rightarrow> time_point \<Rightarrow> Peer \<Rightarrow> bool" where
  "fresh_initiation time now R \<longleftrightarrow> memcmp_less (hs_last_timestamp (handshake R)) time \<and>
     (hs_last_initiation_consumption (handshake R) = 0 \<or>
      now - hs_last_initiation_consumption (handshake R) \<ge> kHandshakeInitiationRate)"

lemma honest_consumption:
  assumes laws: "crypto_laws lib" and match: "peers_match lib I R" and "wf_Peer R"
    and view: "honest_view lib I R seed v e dk" and "fresh_initiation (iv_time v) now R"
  shows "ConsumeMessageInitiation lib g now (SerializeInitiation (initiation_msg lib g v i)) R =
    (True, consumed lib g v now i R)"
proof -
  let ?b = "local_static_x25519_private R"
  have v: "wf_view v" "x25519_pair lib e (iv_E v)" "iv_r_static v = local_static_x25519_public R"
    "iv_r_ek v = local_static_mlkem_ek R" "iv_i_static v = local_static_x25519_public I"
    "iv_dh_es v = dh lib e (iv_r_static v)" "iv_dh_ss v = precomputed_static_static I"
    "iv_ct_es v = kem_ct lib (iv_r_ek v) seed" "iv_ss_es v = kem_ss lib (iv_r_ek v) seed"
    using view by (simp_all add: honest_view_def)
  have R: "x25519_pair lib ?b (iv_r_static v)" "mlkem_pair lib (local_static_mlkem_dk R) (iv_r_ek v)"
    using match by (simp_all add: peers_match_def v)
  have es: "DeriveSharedSecret lib ?b (iv_E v) = Some (iv_dh_es v)"
    using dh_laws(2) [OF laws v(2) R(1)] by (simp only: v(6))
  obtain k where k: "RebuildMlKemKey lib (local_static_mlkem_dk R) = Some k"
    "Decapsulate lib (Some k) (iv_ct_es v) = Some (iv_ss_es v)"
    using kem_laws(2) [OF laws R(2), of seed] by (auto simp only: v(8,9))
  have ss: "static_secret lib R (iv_i_static v) = Some (iv_dh_ss v)"
    using static_secret_match [OF laws match] by (simp only: v)
  note opened = initiation_opened_schedule [OF laws v(1) v(3) [symmetric] v(4) [symmetric] es k ss]
  have "length (iv_i_ek v) = 1184" "length (hs_remote_static_mlkem (handshake R)) = 1184"
    using v(1) assms(3) by (simp_all add: wf_view_def wf_Peer_def wf_HandshakeState_def)
  then show ?thesis
    using opened [of g i] assms(5)
    by (auto simp: ConsumeMessageInitiation_def fresh_initiation_def memcmp_le_def consumed_def
        initiation_msg_def)
qed

text \<open>The second message.\<close>

definition honest_rview ::
  "'k crypto \<Rightarrow> hs_constants \<Rightarrow> Peer \<Rightarrow> hs_env \<Rightarrow> initiation_view \<Rightarrow> bytes \<Rightarrow> response_view \<Rightarrow> bool" where
  "honest_rview lib g R ev v e' w \<longleftrightarrow>
     wf_rview w \<and> x25519_pair lib e' (rv_E w) \<and>
     rv_C w = iC6 lib g v \<and> rv_H w = iH8 lib g v \<and>
     rv_dh_ee w = dh lib e' (iv_E v) \<and> rv_dh_se w = dh lib e' (iv_i_static v) \<and>
     rv_ct_ee w = kem_ct lib (iv_ek v) (ev_encap_seed ev) \<and>
     rv_ss_ee w = kem_ss lib (iv_ek v) (ev_encap_seed ev) \<and>
     rv_ct_se w = kem_ct lib (iv_i_ek v) (ev_encap_seed2 ev) \<and>
     rv_ss_se w = kem_ss lib (iv_i_ek v) (ev_encap_seed2 ev) \<and> rv_psk w = preshared_key R"

definition responded :: "'k crypto \<Rightarrow> response_view \<Rightarrow> u32 \<Rightarrow> Peer \<Rightarrow> Peer" where
  "responded lib w j R = R\<lparr>handshake := (handshake R)\<lparr>hs_chaining_key := rC6 lib w,
     hs_hash := rH5 lib w, hs_local_index := j, hs_state := ResponseCreated\<rparr>\<rparr>"

lemma honest_response:
  assumes laws: "crypto_laws lib" and match: "peers_match lib I R"
    and view: "honest_view lib I R seed v e dk"
    and "Some free \<in> set (ev_index_draws ev)" and "free \<noteq> 0" and "table free = None"
  obtains w e' j where "honest_rview lib g R ev v e' w"
    and "CreateMessageResponse lib ev self (consumed lib g v now i R) table =
      Some (Some (SerializeResponse (response_msg lib w j i)),
        responded lib w j (consumed lib g v now i R),
        table(j \<mapsto> \<lparr>e_peer = Some self, e_handshake = Some self, e_keypair = None\<rparr>))"
proof -
  let ?P = "consumed lib g v now i R"
  obtain e' E where e': "x25519_GenerateKeyPair lib (ev_x25519_seed ev) = Some (e', E)"
    "x25519_pair lib e' E" using x25519_keygen_laws [OF laws] .
  have v: "wf_view v" "x25519_pair lib e (iv_E v)" "mlkem_pair lib dk (iv_ek v)"
    "iv_i_static v = local_static_x25519_public I" "iv_i_ek v = local_static_mlkem_ek I"
    using view by (simp_all add: honest_view_def)
  have I: "x25519_pair lib (local_static_x25519_private I) (iv_i_static v)"
    "mlkem_pair lib (local_static_mlkem_dk I) (iv_i_ek v)"
    using match by (simp_all add: peers_match_def v)
  define w where "w = \<lparr>rv_C = iC6 lib g v, rv_H = iH8 lib g v, rv_E = E,
    rv_dh_ee = dh lib e' (iv_E v), rv_ct_ee = kem_ct lib (iv_ek v) (ev_encap_seed ev),
    rv_ss_ee = kem_ss lib (iv_ek v) (ev_encap_seed ev), rv_dh_se = dh lib e' (iv_i_static v),
    rv_ct_se = kem_ct lib (iv_i_ek v) (ev_encap_seed2 ev),
    rv_ss_se = kem_ss lib (iv_i_ek v) (ev_encap_seed2 ev), rv_psk = preshared_key R\<rparr>"
  note ke = kem_laws [OF laws v(3), of "ev_encap_seed ev"]
  note ks = kem_laws [OF laws I(2), of "ev_encap_seed2 ev"]
  have wf: "wf_rview w" using e'(2) ke(3) ks(3) by (simp add: wf_rview_def w_def x25519_pair_def)
  have secrets: "response_secrets lib ev ?P =
      Some (rC6 lib w, rH5 lib w, rv_E w, rv_ct_ee w, rv_ct_se w, rx lib w)"
    by (rule response_secrets_schedule [OF laws, where e = e'])
      (simp_all add: consumed_def w_def e'(1) ke(1) ks(1) dh_laws(1) [OF laws e'(2) v(2)]
        dh_laws(1) [OF laws e'(2) I(1)])
  obtain j where idx: "NewIndex table (ev_index_draws ev) (Some self) (Some self) = Some (j,
      table(j \<mapsto> \<lparr>e_peer = Some self, e_handshake = Some self, e_keypair = None\<rparr>))"
    by (rule NewIndex_total [of free "ev_index_draws ev" table, OF assms(4-6)])
  have "hs_remote_index (handshake ?P) = i" by (simp add: consumed_def)
  then have "CreateMessageResponse lib ev self ?P table =
      Some (Some (SerializeResponse (response_msg lib w j i)), responded lib w j ?P,
        table(j \<mapsto> \<lparr>e_peer = Some self, e_handshake = Some self, e_keypair = None\<rparr>))"
    using secrets idx wf length_rx [OF laws, of w]
    by (simp add: CreateMessageResponse_def responded_def response_msg_def wf_rview_def Let_def)
  moreover have "honest_rview lib g R ev v e' w"
    using wf e'(2) by (simp add: honest_rview_def w_def)
  ultimately show thesis by (intro that)
qed

definition finished :: "'k crypto \<Rightarrow> response_view \<Rightarrow> u32 \<Rightarrow> Peer \<Rightarrow> Peer" where
  "finished lib w j I = I\<lparr>handshake := (handshake I)\<lparr>
     hs_chaining_key := rC6 lib w, hs_hash := rH5 lib w, hs_remote_index := j,
     hs_state := ResponseConsumed,
     hs_local_ephemeral_x25519_private := secure_zero (hs_local_ephemeral_x25519_private (handshake I)),
     hs_local_ephemeral_mlkem_dk := secure_zero (hs_local_ephemeral_mlkem_dk (handshake I))\<rparr>\<rparr>"

lemma honest_finish:
  assumes laws: "crypto_laws lib" and match: "peers_match lib I R"
    and view: "honest_view lib I R seed v e dk" and rview: "honest_rview lib g R ev v e' w"
    and "Lookup table i = Some entry" and "e_peer entry = Some self"
  shows "ConsumeMessageResponse lib (SerializeResponse (response_msg lib w j i)) self
      (initiated lib g v e dk i I) table = (True, finished lib w j (initiated lib g v e dk i I))"
proof -
  let ?P = "initiated lib g v e dk i I"
  have v: "x25519_pair lib e (iv_E v)" "mlkem_pair lib dk (iv_ek v)"
    "iv_i_static v = local_static_x25519_public I" "iv_i_ek v = local_static_mlkem_ek I"
    using view by (simp_all add: honest_view_def)
  have w: "wf_rview w" "x25519_pair lib e' (rv_E w)" "rv_C w = iC6 lib g v" "rv_H w = iH8 lib g v"
    "rv_dh_ee w = dh lib e' (iv_E v)" "rv_dh_se w = dh lib e' (iv_i_static v)"
    "rv_ct_ee w = kem_ct lib (iv_ek v) (ev_encap_seed ev)"
    "rv_ss_ee w = kem_ss lib (iv_ek v) (ev_encap_seed ev)"
    "rv_ct_se w = kem_ct lib (iv_i_ek v) (ev_encap_seed2 ev)"
    "rv_ss_se w = kem_ss lib (iv_i_ek v) (ev_encap_seed2 ev)" "rv_psk w = preshared_key R"
    using rview by (simp_all add: honest_rview_def)
  have I: "x25519_pair lib (local_static_x25519_private I) (iv_i_static v)"
    "mlkem_pair lib (local_static_mlkem_dk I) (iv_i_ek v)" "preshared_key I = preshared_key R"
    using match by (simp_all add: peers_match_def v)
  obtain ke where ke: "RebuildMlKemKey lib dk = Some ke"
    "Decapsulate lib (Some ke) (rv_ct_ee w) = Some (rv_ss_ee w)"
    using kem_laws(2) [OF laws v(2), of "ev_encap_seed ev"] by (auto simp only: w)
  obtain ks where ks: "RebuildMlKemKey lib (local_static_mlkem_dk I) = Some ks"
    "Decapsulate lib (Some ks) (rv_ct_se w) = Some (rv_ss_se w)"
    using kem_laws(2) [OF laws I(2), of "ev_encap_seed2 ev"] by (auto simp only: w)
  have ee: "DeriveSharedSecret lib e (rv_E w) = Some (rv_dh_ee w)"
    using dh_laws(2) [OF laws w(2) v(1)] by (simp only: w)
  have se: "DeriveSharedSecret lib (local_static_x25519_private I) (rv_E w) = Some (rv_dh_se w)"
    using dh_laws(2) [OF laws w(2) I(1)] by (simp only: w)
  have opened: "response_opened lib (SerializeResponse (response_msg lib w j i)) self ?P table =
      Some (response_msg lib w j i, rC6 lib w, rH5 lib w)"
    by (rule response_opened_schedule [OF laws w(1) assms(5,6), where ke = ke and ks = ks])
      (simp_all add: initiated_def w(3,4,11) I(3) ke ks ee se)
  have "rm_sender_index (response_msg lib w j i) = j" by (simp add: response_msg_def)
  then show ?thesis
    by (simp only: ConsumeMessageResponse_def opened option.case prod.case finished_def)
qed

text \<open>The keypair each side derives from the common chaining key.\<close>

definition derived_keypair ::
  "'k crypto \<Rightarrow> bytes \<Rightarrow> time_point \<Rightarrow> nat \<Rightarrow> u32 \<Rightarrow> u32 \<Rightarrow> bool \<Rightarrow> Keypair" where
  "derived_keypair lib C now addr l r is_initiator = \<lparr>kp_addr = addr,
     send_key = kdf_chain lib C [] (if is_initiator then 1 else 2),
     receive_key = kdf_chain lib C [] (if is_initiator then 2 else 1),
     send_nonce = 0, kp_is_initiator = is_initiator, kp_created = now,
     kp_local_index = l, kp_remote_index = r\<rparr>"

lemma DeriveSessionKeys_result:
  assumes "crypto_laws lib"
    and "hs_state (handshake p) = (if b then ResponseConsumed else ResponseCreated)"
  shows "\<exists>p'. DeriveSessionKeys lib now addr p table b =
      (True, p', SwapHandshakeToKeypair table (hs_local_index (handshake p)) (Some addr)) \<and>
    (if b then km_current (keypairs p') else km_next (keypairs p')) =
      Some (derived_keypair lib (hs_chaining_key (handshake p)) now addr
        (hs_local_index (handshake p)) (hs_remote_index (handshake p)) b) \<and>
    hs_state (handshake p') = Zeroed \<and> all_zero (hs_chaining_key (handshake p')) \<and>
    all_zero (hs_hash (handshake p')) \<and>
    all_zero (hs_local_ephemeral_x25519_private (handshake p')) \<and>
    all_zero (hs_local_ephemeral_mlkem_dk (handshake p'))"
  using assms
  by (auto simp: DeriveSessionKeys_def Let_def KDF_chain derived_keypair_def Keypair_new_def
      SetCurrent_def SetNext_def simp del: kdf_chain.simps One_nat_def)

section \<open>The whole handshake\<close>

text \<open>
  The messages and key derivations in the order the client and the server run them;
  \<open>nI\<close> and \<open>nR\<close> are the clock readings and \<open>aI\<close>, \<open>aR\<close> the addresses of the new keypairs.
\<close>

definition run_handshake ::
  "'k crypto \<Rightarrow> hs_constants \<Rightarrow> hs_env \<Rightarrow> hs_env \<Rightarrow> time_point \<Rightarrow> nat \<Rightarrow> time_point \<Rightarrow> nat \<Rightarrow>
   nat \<Rightarrow> Peer \<Rightarrow> IndexTable \<Rightarrow> bytes \<Rightarrow> nat \<Rightarrow> Peer \<Rightarrow> IndexTable \<Rightarrow>
   (Peer \<times> IndexTable \<times> Peer \<times> IndexTable) option" where
  "run_handshake lib g evI evR nI aI nR aR selfI I tabI tai selfR R tabR = do {
     (r, I, tabI, tai) \<leftarrow> CreateMessageInitiation lib g evI selfI I tabI tai;
     msg1 \<leftarrow> r;
     let (ok, R) = ConsumeMessageInitiation lib g (ev_now evR) msg1 R;
     require ok;
     (r, R, tabR) \<leftarrow> CreateMessageResponse lib evR selfR R tabR;
     msg2 \<leftarrow> r;
     let (ok, R, tabR) = DeriveSessionKeys lib nR aR R tabR False;
     require ok;
     let (ok, I) = ConsumeMessageResponse lib msg2 selfI I tabI;
     require ok;
     let (ok, I, tabI) = DeriveSessionKeys lib nI aI I tabI True;
     require ok;
     Some (I, tabI, R, tabR)
   }"

definition handshake_over :: "Peer \<Rightarrow> bool" where
  "handshake_over p \<longleftrightarrow> hs_state (handshake p) = Zeroed \<and>
     all_zero (hs_chaining_key (handshake p)) \<and> all_zero (hs_hash (handshake p)) \<and>
     all_zero (hs_local_ephemeral_x25519_private (handshake p)) \<and>
     all_zero (hs_local_ephemeral_mlkem_dk (handshake p))"

text \<open>What the two sides hold afterwards.\<close>

definition agreed :: "Keypair \<Rightarrow> Keypair \<Rightarrow> bool" where
  "agreed kI kR \<longleftrightarrow> send_key kI = receive_key kR \<and> receive_key kI = send_key kR \<and>
     length (send_key kI) = 32 \<and> length (receive_key kI) = 32 \<and>
     kp_remote_index kI = kp_local_index kR \<and> kp_local_index kI = kp_remote_index kR \<and>
     kp_is_initiator kI \<and> \<not> kp_is_initiator kR \<and> send_nonce kI = 0 \<and> send_nonce kR = 0"

definition keypair_registered :: "IndexTable \<Rightarrow> nat \<Rightarrow> Keypair \<Rightarrow> bool" where
  "keypair_registered table self k \<longleftrightarrow> Lookup table (kp_local_index k) =
     Some \<lparr>e_peer = Some self, e_handshake = None, e_keypair = Some (kp_addr k)\<rparr>"

lemma handshake_run:
  assumes laws: "crypto_laws lib" and match: "peers_match lib I R" and "wf_Peer R"
    and "length tai = 12" and "tai_secs_nat tai + 1 < 2 ^ 64"
    and "fresh_initiation (fst (tai_Now (ev_now evI) tai)) (ev_now evR) R"
    and fI: "Some fI \<in> set (ev_index_draws evI)" "fI \<noteq> 0" "tabI fI = None"
    and fR: "Some fR \<in> set (ev_index_draws evR)" "fR \<noteq> 0" "tabR fR = None"
  shows "\<exists>I' tabI' R' tabR' kI kR.
    run_handshake lib g evI evR nI aI nR aR selfI I tabI tai selfR R tabR =
      Some (I', tabI', R', tabR') \<and>
    km_current (keypairs I') = Some kI \<and> km_next (keypairs R') = Some kR \<and> agreed kI kR \<and>
    keypair_registered tabI' selfI kI \<and> keypair_registered tabR' selfR kR \<and>
    handshake_over I' \<and> handshake_over R'"
proof -
  obtain v e dk i where view: "honest_view lib I R (ev_encap_seed evI) v e dk"
    and m1: "CreateMessageInitiation lib g evI selfI I tabI tai =
      Some (Some (SerializeInitiation (initiation_msg lib g v i)), initiated lib g v e dk i I,
        tabI(i \<mapsto> \<lparr>e_peer = Some selfI, e_handshake = Some selfI, e_keypair = None\<rparr>),
        fst (tai_Now (ev_now evI) tai))"
    and time: "iv_time v = fst (tai_Now (ev_now evI) tai)"
    using honest_initiation [OF laws match assms(4,5), where free = fI and table = tabI, OF fI] .
  let ?I1 = "initiated lib g v e dk i I" and ?R1 = "consumed lib g v (ev_now evR) i R"
  let ?tabI = "tabI(i \<mapsto> \<lparr>e_peer = Some selfI, e_handshake = Some selfI, e_keypair = None\<rparr>)"
  have c1: "ConsumeMessageInitiation lib g (ev_now evR)
      (SerializeInitiation (initiation_msg lib g v i)) R = (True, ?R1)"
    using honest_consumption [OF laws match assms(3) view] assms(6) time by simp
  obtain w e' j where rview: "honest_rview lib g R evR v e' w"
    and m2: "CreateMessageResponse lib evR selfR ?R1 tabR =
      Some (Some (SerializeResponse (response_msg lib w j i)), responded lib w j ?R1,
        tabR(j \<mapsto> \<lparr>e_peer = Some selfR, e_handshake = Some selfR, e_keypair = None\<rparr>))"
    using honest_response [OF laws match view, where free = fR and table = tabR, OF fR] .
  let ?R2 = "responded lib w j ?R1" and ?I2 = "finished lib w j ?I1"
  let ?tabR = "tabR(j \<mapsto> \<lparr>e_peer = Some selfR, e_handshake = Some selfR, e_keypair = None\<rparr>)"
  have c2: "ConsumeMessageResponse lib (SerializeResponse (response_msg lib w j i)) selfI ?I1 ?tabI
      = (True, ?I2)"
    by (rule honest_finish [OF laws match view rview, where
        entry = "\<lparr>e_peer = Some selfI, e_handshake = Some selfI, e_keypair = None\<rparr>"])
      (simp_all add: Lookup_def)
  have stR: "hs_state (handshake ?R2) = ResponseCreated" "hs_local_index (handshake ?R2) = j"
    "hs_remote_index (handshake ?R2) = i" "hs_chaining_key (handshake ?R2) = rC6 lib w"
    by (simp_all add: responded_def consumed_def)
  have stI: "hs_state (handshake ?I2) = ResponseConsumed" "hs_local_index (handshake ?I2) = i"
    "hs_remote_index (handshake ?I2) = j" "hs_chaining_key (handshake ?I2) = rC6 lib w"
    by (simp_all add: finished_def initiated_def)
  let ?kR = "derived_keypair lib (rC6 lib w) nR aR j i False"
  let ?kI = "derived_keypair lib (rC6 lib w) nI aI i j True"
  obtain R3 where R3: "DeriveSessionKeys lib nR aR ?R2 ?tabR False =
      (True, R3, SwapHandshakeToKeypair ?tabR j (Some aR))"
    "km_next (keypairs R3) = Some ?kR" "handshake_over R3"
    using DeriveSessionKeys_result [OF laws, of ?R2 False nR aR ?tabR] stR
    by (auto simp: handshake_over_def)
  obtain I3 where I3: "DeriveSessionKeys lib nI aI ?I2 ?tabI True =
      (True, I3, SwapHandshakeToKeypair ?tabI i (Some aI))"
    "km_current (keypairs I3) = Some ?kI" "handshake_over I3"
    using DeriveSessionKeys_result [OF laws, of ?I2 True nI aI ?tabI] stI
    by (auto simp: handshake_over_def)
  have "run_handshake lib g evI evR nI aI nR aR selfI I tabI tai selfR R tabR =
      Some (I3, SwapHandshakeToKeypair ?tabI i (Some aI), R3, SwapHandshakeToKeypair ?tabR j (Some aR))"
    by (simp add: run_handshake_def m1 c1 m2 c2 R3(1) I3(1))
  moreover have "agreed ?kI ?kR"
    by (simp add: agreed_def derived_keypair_def length_kdf_chain [OF laws]
        del: kdf_chain.simps One_nat_def)
  moreover have "keypair_registered (SwapHandshakeToKeypair ?tabI i (Some aI)) selfI ?kI"
    "keypair_registered (SwapHandshakeToKeypair ?tabR j (Some aR)) selfR ?kR"
    by (simp_all add: keypair_registered_def derived_keypair_def Lookup_def SwapHandshakeToKeypair_def)
  ultimately show ?thesis using I3(2,3) R3(2,3) by blast
qed

section \<open>A concrete pair of peers\<close>

definition toy_initiator :: Peer where
  "toy_initiator = Peer_init\<lparr>local_static_x25519_private := replicate 32 1,
     local_static_x25519_public := replicate 32 1, remote_static_x25519 := replicate 32 2,
     precomputed_static_static := replicate 32 3\<rparr>"

definition toy_responder :: Peer where
  "toy_responder = Peer_init\<lparr>local_static_x25519_private := replicate 32 2,
     local_static_x25519_public := replicate 32 2\<rparr>"

definition toy_env :: "time_point \<Rightarrow> u32 \<Rightarrow> hs_env" where
  "toy_env now i = \<lparr>ev_x25519_seed = [5], ev_mlkem_seed = [6], ev_encap_seed = [7],
     ev_encap_seed2 = [8], ev_now = now, ev_index_draws = [None, Some i]\<rparr>"

lemma toy_peers_match: "peers_match toy toy_initiator toy_responder"
proof -
  have k: "x25519_pair toy (replicate 32 1) (replicate 32 1)"
    "x25519_pair toy (replicate 32 2) (replicate 32 2)" "mlkem_pair toy (zeros 2400) (zeros 1184)"
    by (simp_all add: toy_x25519_pair toy_mlkem_pair)
  have "DeriveSharedSecret toy (replicate 32 1) (replicate 32 2) = Some (replicate 32 3)"
    by (simp add: DeriveSharedSecret_def PkeyFromPrivateBytes_def PkeyFromPublicBytes_def toy_def
        sized_def kSharedSecretBytes_def pad_to_def map2_map_map zip_replicate)
  then show ?thesis
    using k by (simp add: peers_match_def toy_initiator_def toy_responder_def Peer_init_def)
qed

lemma toy_fresh: "fresh_initiation (fst (tai_Now now (Tai64nStamp 0 0))) 1 toy_responder"
proof -
  have z: "Tai64nStamp 0 0 = zeros 12" by (simp add: Tai64nStamp_def zeros_def numeral_eq_Suc)
  have "tai_secs_nat (Tai64nStamp 0 0) = 0"
    by (simp add: tai_secs_nat_def Tai64nStamp_bytes be_nat_rev le_nat_le_bytes)
  then have "memcmp_less (Tai64nStamp 0 0) (fst (tai_Now now (Tai64nStamp 0 0)))"
    using tai_Now_greater [of "Tai64nStamp 0 0" now] by (simp add: memcmp_less_be_nat)
  then show ?thesis
    by (simp add: fresh_initiation_def toy_responder_def Peer_init_def HandshakeState_init_def z)
qed

section \<open>Property\<close>

text \<open>
  C4. An undisturbed handshake succeeds and agrees. Two peers configured for each other (the
  responder may also accept any initiator), with libraries that behave as documented, a
  fresh time stamp and a random source that yields a free index, run the two messages and
  derive their keypairs: both hold a keypair, what one sends under the other receives
  under, in both directions, each knows the other's index, both indices lead to the new
  keypairs, and every handshake secret has been erased.
\<close>

theorem undisturbed_handshake_agrees:
  assumes "crypto_laws lib" and "peers_match lib I R" and "wf_Peer R"
    and "length tai = 12" and "tai_secs_nat tai + 1 < 2 ^ 64"
    and "fresh_initiation (fst (tai_Now (ev_now evI) tai)) (ev_now evR) R"
    and "Some fI \<in> set (ev_index_draws evI)" and "fI \<noteq> 0" and "tabI fI = None"
    and "Some fR \<in> set (ev_index_draws evR)" and "fR \<noteq> 0" and "tabR fR = None"
  shows "\<exists>I' tabI' R' tabR' kI kR.
    run_handshake lib g evI evR nI aI nR aR selfI I tabI tai selfR R tabR =
      Some (I', tabI', R', tabR') \<and>
    km_current (keypairs I') = Some kI \<and> km_next (keypairs R') = Some kR \<and> agreed kI kR \<and>
    keypair_registered tabI' selfI kI \<and> keypair_registered tabR' selfR kR \<and>
    handshake_over I' \<and> handshake_over R'"
  using assms by (rule handshake_run)

theorem undisturbed_handshake_agrees_witness:
  "\<exists>I' tabI' R' tabR' kI kR.
    run_handshake toy (InitHandshakeConstants toy hs_constants_start) (toy_env 5 9) (toy_env 1 4) 0 1 0 2 1 toy_initiator
      IndexTable_init (Tai64nStamp 0 0) 2 toy_responder IndexTable_init =
      Some (I', tabI', R', tabR') \<and>
    km_current (keypairs I') = Some kI \<and> km_next (keypairs R') = Some kR \<and> agreed kI kR \<and>
    keypair_registered tabI' 1 kI \<and> keypair_registered tabR' 2 kR \<and>
    handshake_over I' \<and> handshake_over R'"
proof (rule undisturbed_handshake_agrees [where fI = 9 and fR = 4])
  show "crypto_laws toy" by (rule toy_crypto_laws)
  show "peers_match toy toy_initiator toy_responder" by (rule toy_peers_match)
  show "fresh_initiation (fst (tai_Now (ev_now (toy_env 5 9)) (Tai64nStamp 0 0)))
      (ev_now (toy_env 1 4)) toy_responder"
    using toy_fresh [of 5] by (simp add: toy_env_def)
  show "wf_Peer toy_responder"
    by (simp add: wf_Peer_def toy_responder_def Peer_init_def)
  show "tai_secs_nat (Tai64nStamp 0 0) + 1 < 2 ^ 64"
    by (simp add: tai_secs_nat_def Tai64nStamp_bytes be_nat_rev le_nat_le_bytes)
qed (simp_all add: toy_env_def IndexTable_init_def)

end
