(* ===== verification/HandshakeTraces.thy ===== *)
theory HandshakeTraces
  imports HandshakeAgreement
begin

text \<open>
  The handlers of one peer in any order and with any input, as a step relation: the peer's
  owner calls them with messages an adversary may have made, at any clock reading. The
  theorems say what holds over every such history: the order in which messages can be
  accepted and keys derived, and that no initiation is accepted twice.
\<close>

section \<open>Steps\<close>

datatype hs_event =
    Sent_initiation bytes
  | Accepted_initiation time_point bytes
  | Sent_response bytes
  | Accepted_response bytes
  | Derived bool
  | Failed

type_synonym hs_world = "Peer \<times> IndexTable \<times> bytes"

inductive hs_step :: "'k crypto \<Rightarrow> hs_constants \<Rightarrow> nat \<Rightarrow> hs_world \<Rightarrow> hs_event \<Rightarrow> hs_world \<Rightarrow> bool"
  for lib g self where
  create_initiation:
    "CreateMessageInitiation lib g ev self p t tai = Some (Some m, p', t', tai') \<Longrightarrow>
     hs_step lib g self (p, t, tai) (Sent_initiation m) (p', t', tai')"
| create_initiation_fails:
    "CreateMessageInitiation lib g ev self p t tai = Some (None, p', t', tai') \<Longrightarrow>
     hs_step lib g self (p, t, tai) Failed (p', t', tai')"
| consume_initiation:
    "ConsumeMessageInitiation lib g now m p = (True, p') \<Longrightarrow>
     hs_step lib g self (p, t, tai) (Accepted_initiation now m) (p', t, tai)"
| consume_initiation_fails:
    "ConsumeMessageInitiation lib g now m p = (False, p') \<Longrightarrow>
     hs_step lib g self (p, t, tai) Failed (p', t, tai)"
| create_response:
    "CreateMessageResponse lib ev self p t = Some (Some m, p', t') \<Longrightarrow>
     hs_step lib g self (p, t, tai) (Sent_response m) (p', t', tai)"
| create_response_fails:
    "CreateMessageResponse lib ev self p t = Some (None, p', t') \<Longrightarrow>
     hs_step lib g self (p, t, tai) Failed (p', t', tai)"
| consume_response:
    "ConsumeMessageResponse lib m self p t = (True, p') \<Longrightarrow>
     hs_step lib g self (p, t, tai) (Accepted_response m) (p', t, tai)"
| consume_response_fails:
    "ConsumeMessageResponse lib m self p t = (False, p') \<Longrightarrow>
     hs_step lib g self (p, t, tai) Failed (p', t, tai)"
| derive:
    "DeriveSessionKeys lib now addr p t b = (True, p', t') \<Longrightarrow>
     hs_step lib g self (p, t, tai) (Derived b) (p', t', tai)"
| derive_fails:
    "DeriveSessionKeys lib now addr p t b = (False, p', t') \<Longrightarrow>
     hs_step lib g self (p, t, tai) Failed (p', t', tai)"

inductive hs_run :: "'k crypto \<Rightarrow> hs_constants \<Rightarrow> nat \<Rightarrow> hs_world \<Rightarrow> hs_event list \<Rightarrow> hs_world \<Rightarrow> bool"
  for lib g self where
  hs_run_nil: "hs_run lib g self s [] s"
| hs_run_cons: "hs_step lib g self s e s' \<Longrightarrow> hs_run lib g self s' es s'' \<Longrightarrow>
    hs_run lib g self s (e # es) s''"

inductive_cases hs_run_NilE: "hs_run lib g self s [] s'"
inductive_cases hs_run_ConsE: "hs_run lib g self s (e # es) s'"

inductive_simps hs_step_simps:
  "hs_step lib g self (p, t, tai) (Sent_initiation m) w"
  "hs_step lib g self (p, t, tai) (Accepted_initiation now m) w"
  "hs_step lib g self (p, t, tai) (Sent_response m) w"
  "hs_step lib g self (p, t, tai) (Accepted_response m) w"
  "hs_step lib g self (p, t, tai) (Derived b) w"
  "hs_step lib g self (p, t, tai) Failed w"

text \<open>A history can be cut anywhere.\<close>

lemma hs_run_append:
  "hs_run lib g self w (es @ es') w'' \<longleftrightarrow>
   (\<exists>w'. hs_run lib g self w es w' \<and> hs_run lib g self w' es' w'')"
proof (induction es arbitrary: w)
  case Nil
  then show ?case by (auto simp del: split_paired_Ex elim: hs_run_NilE intro: hs_run_nil)
next
  case (Cons e es)
  then show ?case
    by (simp only: append_Cons) (blast elim: hs_run_ConsE intro: hs_run_cons)
qed

section \<open>What each handler changes\<close>

text \<open>The configured part of a peer.\<close>

definition identity :: "Peer \<Rightarrow> bytes list" where
  "identity p = [local_static_x25519_private p, local_static_x25519_public p,
     local_static_mlkem_dk p, local_static_mlkem_ek p, remote_static_x25519 p,
     remote_static_mlkem_ek p, precomputed_static_static p, preshared_key p]"

lemma CreateMessageInitiation_effect:
  assumes "CreateMessageInitiation lib g ev self p t tai = Some (r, p', t', tai')"
  shows "(case r of None \<Rightarrow> p' = p \<and> t' = t
    | Some m \<Rightarrow> hs_state (handshake p') = InitiationCreated \<and> identity p' = identity p \<and>
        hs_last_timestamp (handshake p') = hs_last_timestamp (handshake p))"
  using assms
  by (auto simp: CreateMessageInitiation_def Let_def identity_def case_prod_beta
      Option.bind_eq_Some_conv split: option.splits if_splits)

lemma ConsumeMessageInitiation_effect:
  assumes "ConsumeMessageInitiation lib g now m p = (ok, p')"
  shows "(if ok then \<exists>i C H x k ts. initiation_opened lib g m p = Some (i, C, H, x, k, ts) \<and>
      \<not> memcmp_le ts (hs_last_timestamp (handshake p)) \<and>
      hs_last_timestamp (handshake p') = ts \<and> hs_last_initiation_consumption (handshake p') = now \<and>
      (hs_last_initiation_consumption (handshake p) = 0 \<or>
        now - hs_last_initiation_consumption (handshake p) \<ge> kHandshakeInitiationRate) \<and>
      hs_remote_static_x25519 (handshake p') = x \<and>
      hs_state (handshake p') = InitiationConsumed \<and> identity p' = identity p
    else p' = p)"
  using assms
  by (auto simp: ConsumeMessageInitiation_def identity_def split: option.splits if_splits prod.splits)

lemma CreateMessageResponse_effect:
  assumes "CreateMessageResponse lib ev self p t = Some (r, p', t')"
  shows "(case r of None \<Rightarrow> p' = p \<and> t' = t
    | Some m \<Rightarrow> hs_state (handshake p) = InitiationConsumed \<and>
        hs_state (handshake p') = ResponseCreated \<and> identity p' = identity p \<and>
        hs_last_timestamp (handshake p') = hs_last_timestamp (handshake p))"
proof (cases "hs_state (handshake p) = InitiationConsumed")
  case True
  then show ?thesis
    using assms by (auto simp: CreateMessageResponse_def Let_def identity_def
        Option.bind_eq_Some_conv split: option.splits)
next
  case False
  then have "response_secrets lib ev p = None" by (simp add: response_secrets_def)
  then show ?thesis using assms by (auto simp: CreateMessageResponse_def)
qed

lemma ConsumeMessageResponse_effect:
  assumes "ConsumeMessageResponse lib m self p t = (ok, p')"
  shows "(if ok then hs_state (handshake p) = InitiationCreated \<and>
      hs_state (handshake p') = ResponseConsumed \<and> identity p' = identity p \<and>
      hs_last_timestamp (handshake p') = hs_last_timestamp (handshake p) \<and>
      all_zero (hs_local_ephemeral_x25519_private (handshake p')) \<and>
      all_zero (hs_local_ephemeral_mlkem_dk (handshake p'))
    else p' = p)"
proof (cases "response_opened lib m self p t")
  case None
  then show ?thesis using assms by (auto simp: ConsumeMessageResponse_def)
next
  case (Some x)
  then have "hs_state (handshake p) = InitiationCreated"
    by (auto simp: response_opened_def Option.bind_eq_Some_conv)
  then show ?thesis
    using assms Some by (auto simp: ConsumeMessageResponse_def identity_def split: prod.splits)
qed

lemma DeriveSessionKeys_effect:
  assumes "DeriveSessionKeys lib now addr p t b = (ok, p', t')"
  shows "(if ok then hs_state (handshake p) = (if b then ResponseConsumed else ResponseCreated) \<and>
      hs_state (handshake p') = Zeroed \<and> identity p' = identity p \<and>
      hs_last_timestamp (handshake p') = hs_last_timestamp (handshake p)
    else p' = p \<and> t' = t)"
  using assms
  by (auto simp: DeriveSessionKeys_def Let_def identity_def split: option.splits if_splits prod.splits)

lemmas handler_effects = CreateMessageInitiation_effect ConsumeMessageInitiation_effect
  CreateMessageResponse_effect ConsumeMessageResponse_effect DeriveSessionKeys_effect

section \<open>The handshake automaton\<close>

text \<open>The protocol as an automaton: which event is possible in which state.\<close>

fun automaton :: "HandshakeStateEnum \<Rightarrow> hs_event \<Rightarrow> HandshakeStateEnum option" where
  "automaton s (Sent_initiation m) = Some InitiationCreated"
| "automaton s (Accepted_initiation now m) = Some InitiationConsumed"
| "automaton s (Sent_response m) = (if s = InitiationConsumed then Some ResponseCreated else None)"
| "automaton s (Accepted_response m) = (if s = InitiationCreated then Some ResponseConsumed else None)"
| "automaton s (Derived b) =
     (if s = (if b then ResponseConsumed else ResponseCreated) then Some Zeroed else None)"
| "automaton s Failed = Some s"

fun automaton_run :: "HandshakeStateEnum \<Rightarrow> hs_event list \<Rightarrow> HandshakeStateEnum option" where
  "automaton_run s [] = Some s"
| "automaton_run s (e # es) = do { s' \<leftarrow> automaton s e; automaton_run s' es }"

definition world_state :: "hs_world \<Rightarrow> HandshakeStateEnum" where
  "world_state w = hs_state (handshake (fst w))"

lemma hs_step_automaton:
  "hs_step lib g self w e w' \<Longrightarrow> automaton (world_state w) e = Some (world_state w')"
  by (induction rule: hs_step.induct)
    (auto simp: world_state_def dest!: handler_effects split: if_splits)

lemma hs_run_automaton:
  "hs_run lib g self w es w' \<Longrightarrow> automaton_run (world_state w) es = Some (world_state w')"
  by (induction rule: hs_run.induct) (simp_all add: hs_step_automaton)

lemma hs_step_identity: "hs_step lib g self w e w' \<Longrightarrow> identity (fst w') = identity (fst w)"
  by (induction rule: hs_step.induct) (auto dest!: handler_effects)

lemma hs_step_Failed: "hs_step lib g self w Failed w' \<Longrightarrow> fst w' = fst w \<and> fst (snd w') = fst (snd w)"
  by (cases w; cases w') (auto simp: hs_step_simps dest!: handler_effects)

section \<open>Time stamps\<close>

fun accepted :: "hs_event list \<Rightarrow> bytes list" where
  "accepted [] = []"
| "accepted (Accepted_initiation now m # es) = m # accepted es"
| "accepted (_ # es) = accepted es"

fun accepted_at :: "hs_event list \<Rightarrow> time_point list" where
  "accepted_at [] = []"
| "accepted_at (Accepted_initiation now m # es) = now # accepted_at es"
| "accepted_at (_ # es) = accepted_at es"

text \<open>The time stamp inside a message, as a peer with these keys reads it.\<close>

definition initiation_time :: "'k crypto \<Rightarrow> hs_constants \<Rightarrow> Peer \<Rightarrow> bytes \<Rightarrow> bytes" where
  "initiation_time lib g p m =
     (case initiation_opened lib g m p of Some (i, C, H, x, k, ts) \<Rightarrow> ts | None \<Rightarrow> [])"

lemma initiation_opened_identity:
  "identity p = identity q \<Longrightarrow> initiation_opened lib g m p = initiation_opened lib g m q"
proof -
  assume id: "identity p = identity q"
  have "static_secret lib p = static_secret lib q"
    by (rule ext) (use id in \<open>simp add: identity_def static_secret_def cong: if_cong\<close>)
  then show ?thesis using id by (simp add: identity_def initiation_opened_def)
qed

lemma initiation_time_identity:
  "identity p = identity q \<Longrightarrow> initiation_time lib g p = initiation_time lib g q"
  by (rule ext) (simp add: initiation_time_def initiation_opened_identity [of p q])

lemma length_initiation_time:
  "initiation_opened lib g m p = Some (i, C, H, x, k, ts) \<Longrightarrow> length ts = 12"
  by (auto simp: initiation_opened_def Let_def case_prod_beta Option.bind_eq_Some_conv)

text \<open>What one event does to the two anti-replay fields.\<close>

lemma hs_step_accepts:
  assumes "hs_step lib g self w (Accepted_initiation now m) w'"
    and "length (hs_last_timestamp (handshake (fst w))) = 12"
  shows "hs_last_timestamp (handshake (fst w')) = initiation_time lib g (fst w) m"
    and "length (initiation_time lib g (fst w) m) = 12"
    and "be_nat (hs_last_timestamp (handshake (fst w))) < be_nat (initiation_time lib g (fst w) m)"
    and "hs_last_initiation_consumption (handshake (fst w')) = now"
    and "hs_last_initiation_consumption (handshake (fst w)) = 0 \<or>
      now - hs_last_initiation_consumption (handshake (fst w)) \<ge> kHandshakeInitiationRate"
proof -
  obtain p t tai where w: "w = (p, t, tai)" by (cases w)
  then obtain p' where "ConsumeMessageInitiation lib g now m p = (True, p')" and w': "w' = (p', t, tai)"
    using assms(1) by (auto simp: hs_step_simps)
  then obtain i C H x k ts where o: "initiation_opened lib g m p = Some (i, C, H, x, k, ts)"
    and e: "\<not> memcmp_le ts (hs_last_timestamp (handshake p))"
      "hs_last_timestamp (handshake p') = ts" "hs_last_initiation_consumption (handshake p') = now"
      "hs_last_initiation_consumption (handshake p) = 0 \<or>
        now - hs_last_initiation_consumption (handshake p) \<ge> kHandshakeInitiationRate"
    using ConsumeMessageInitiation_effect [of lib g now m p True p'] by auto
  note len = length_initiation_time [OF o]
  show "hs_last_timestamp (handshake (fst w')) = initiation_time lib g (fst w) m"
    and "length (initiation_time lib g (fst w) m) = 12"
    and "be_nat (hs_last_timestamp (handshake (fst w))) < be_nat (initiation_time lib g (fst w) m)"
    and "hs_last_initiation_consumption (handshake (fst w')) = now"
    and "hs_last_initiation_consumption (handshake (fst w)) = 0 \<or>
      now - hs_last_initiation_consumption (handshake (fst w)) \<ge> kHandshakeInitiationRate"
    using e len assms(2) by (simp_all add: w w' o initiation_time_def memcmp_le_def memcmp_less_be_nat)
qed

lemma hs_step_other:
  assumes "hs_step lib g self w e w'" and "accepted [e] = []"
  shows "hs_last_timestamp (handshake (fst w')) = hs_last_timestamp (handshake (fst w)) \<and>
    hs_last_initiation_consumption (handshake (fst w')) =
      hs_last_initiation_consumption (handshake (fst w))"
  using assms
proof (induction rule: hs_step.induct)
  case (create_initiation ev p t tai m p' t' tai')
  then show ?case
    by (auto simp: CreateMessageInitiation_def Let_def case_prod_beta Option.bind_eq_Some_conv
        split: option.splits if_splits)
next
  case (create_response ev p t m p' t' tai)
  then show ?case
    by (auto simp: CreateMessageResponse_def Let_def case_prod_beta Option.bind_eq_Some_conv
        split: option.splits)
next
  case (consume_response m p t p' tai)
  then show ?case by (auto simp: ConsumeMessageResponse_def split: option.splits)
next
  case (derive now addr p t b p' t' tai)
  then show ?case by (auto simp: DeriveSessionKeys_def Let_def split: option.splits if_splits)
qed (auto dest!: handler_effects)

lemma accepted_Cons: "accepted (e # es) = accepted [e] @ accepted es"
  by (cases e) simp_all

lemma accepted_at_Cons: "accepted_at (e # es) = accepted_at [e] @ accepted_at es"
  by (cases e) simp_all

lemma hs_run_timestamps:
  assumes "hs_run lib g self w es w'" and "length (hs_last_timestamp (handshake (fst w))) = 12"
  shows "sorted_wrt (\<lambda>a b. be_nat a < be_nat b)
      (hs_last_timestamp (handshake (fst w)) # map (initiation_time lib g (fst w)) (accepted es)) \<and>
    (\<forall>m \<in> set (accepted es). length (initiation_time lib g (fst w) m) = 12) \<and>
    successively (\<lambda>a b. a = 0 \<or> b - a \<ge> kHandshakeInitiationRate)
      (hs_last_initiation_consumption (handshake (fst w)) # accepted_at es)"
  using assms
proof (induction rule: hs_run.induct)
  case (hs_run_cons w e w1 es w2)
  note id = initiation_time_identity [OF hs_step_identity [OF hs_run_cons.hyps(1)], of lib g]
  show ?case
  proof (cases "accepted [e] = []")
    case True
    then have "accepted_at [e] = []" by (cases e) simp_all
    then show ?thesis
      using hs_run_cons.IH hs_step_other [OF hs_run_cons.hyps(1) True] hs_run_cons.prems id True
      by (simp add: accepted_Cons [of e es] accepted_at_Cons [of e es])
  next
    case False
    then obtain now m where e: "e = Accepted_initiation now m" by (cases e) simp_all
    note acc = hs_step_accepts [OF hs_run_cons.hyps(1) [unfolded e] hs_run_cons.prems]
    show ?thesis
      using hs_run_cons.IH acc id by (auto simp: e intro: less_trans)
  qed
qed simp

section \<open>Properties\<close>

text \<open>
  C6. The handlers refine the handshake automaton: in every history, whatever messages arrive,
  the events follow the protocol's transitions. A response is only made after an accepted
  initiation, a response only accepted after an initiation was sent, keys are derived once,
  and only after a response was accepted (initiator) or made (responder). A handler that
  fails leaves peer and index table as they were.
\<close>

theorem handlers_refine_automaton:
  assumes "hs_run lib g self w es w'"
  shows "automaton_run (world_state w) es = Some (world_state w') \<and>
    (\<forall>v. hs_step lib g self w' Failed v \<longrightarrow> fst v = fst w' \<and> fst (snd v) = fst (snd w'))"
  using hs_run_automaton [OF assms] hs_step_Failed by blast

text \<open>
  C5. No initiation is consumed twice by the same peer state: along any history the time stamps of the
  accepted initiations increase strictly, so a message (even with other MAC fields) is
  accepted at most once, and two accepted initiations are at least the rate limit apart.
\<close>

theorem no_initiation_consumed_twice:
  assumes "hs_run lib g self w es w'" and "length (hs_last_timestamp (handshake (fst w))) = 12"
  shows "sorted_wrt memcmp_less (map (initiation_time lib g (fst w)) (accepted es)) \<and>
    distinct (accepted es) \<and>
    successively (\<lambda>a b. a = 0 \<or> b - a \<ge> kHandshakeInitiationRate)
      (hs_last_initiation_consumption (handshake (fst w)) # accepted_at es)"
proof -
  let ?t = "initiation_time lib g (fst w)"
  have s: "sorted_wrt (\<lambda>a b. be_nat a < be_nat b) (map ?t (accepted es))"
    and l: "\<forall>m \<in> set (accepted es). length (?t m) = 12"
    and r: "successively (\<lambda>a b. a = 0 \<or> b - a \<ge> kHandshakeInitiationRate)
      (hs_last_initiation_consumption (handshake (fst w)) # accepted_at es)"
    using hs_run_timestamps [OF assms] by simp_all
  have "sorted_wrt memcmp_less (map ?t (accepted es))"
    using s by (rule sorted_wrt_mono_rel [rotated]) (use l in \<open>auto simp: memcmp_less_be_nat\<close>)
  moreover have "distinct (map (be_nat \<circ> ?t) (accepted es))"
    using s strict_sorted_iff [of "map (be_nat \<circ> ?t) (accepted es)"] by (simp add: sorted_wrt_map)
  then have "distinct (accepted es)" by (simp add: distinct_map)
  ultimately show ?thesis using r by blast
qed

section \<open>A concrete history\<close>

text \<open>The responder of the example accepts an initiation and then sees it again.\<close>

lemma toy_history:
  "\<exists>m p. hs_run toy g 2 (toy_responder, IndexTable_init, zeros 12)
     [Accepted_initiation 1 m, Failed] (p, IndexTable_init, zeros 12)"
proof -
  let ?tai = "Tai64nStamp 0 0"
  have t: "tai_secs_nat ?tai + 1 < 2 ^ 64"
    by (simp add: tai_secs_nat_def Tai64nStamp_bytes be_nat_rev le_nat_le_bytes)
  have wf: "wf_Peer toy_responder"
    by (simp add: wf_Peer_def toy_responder_def Peer_init_def)
  obtain v e dk and i :: u32 where view: "honest_view toy toy_initiator toy_responder
      (ev_encap_seed (toy_env 5 9)) v e dk" and time: "iv_time v = fst (tai_Now 5 ?tai)"
    by (rule honest_initiation [OF toy_crypto_laws toy_peers_match length_Tai64nStamp t,
          of 9 "toy_env 5 9" IndexTable_init])
      (simp_all add: toy_env_def IndexTable_init_def)
  let ?m = "SerializeInitiation (initiation_msg toy g v i)"
  let ?p = "consumed toy g v 1 i toy_responder"
  have "fresh_initiation (iv_time v) 1 toy_responder" using toy_fresh [of 5] time by simp
  note c = honest_consumption [OF toy_crypto_laws toy_peers_match wf view this, of g i]
  have again: "ConsumeMessageInitiation toy g 1 ?m ?p = (False, ?p)"
  proof -
    have id: "identity ?p = identity toy_responder" by (simp add: identity_def consumed_def)
    obtain a C H x k ts where o: "initiation_opened toy g ?m toy_responder = Some (a, C, H, x, k, ts)"
      and "hs_last_timestamp (handshake ?p) = ts"
      using ConsumeMessageInitiation_effect [OF c] by auto
    then show ?thesis
      by (simp add: ConsumeMessageInitiation_def initiation_opened_identity [OF id] memcmp_le_def
          memcmp_less_be_nat length_initiation_time [OF o])
  qed
  have "hs_run toy g 2 (toy_responder, IndexTable_init, zeros 12) [Accepted_initiation 1 ?m, Failed]
      (?p, IndexTable_init, zeros 12)"
    by (rule hs_run_cons [OF hs_step.consume_initiation [OF c]
          hs_run_cons [OF hs_step.consume_initiation_fails [OF again] hs_run_nil]])
  then show ?thesis by blast
qed

theorem handlers_refine_automaton_witness:
  "\<exists>m p. hs_run toy hs_constants_start 2 (toy_responder, IndexTable_init, zeros 12)
     [Accepted_initiation 1 m, Failed] (p, IndexTable_init, zeros 12) \<and>
     automaton_run Zeroed [Accepted_initiation 1 m, Failed] = Some (hs_state (handshake p))"
proof -
  obtain m p where r: "hs_run toy hs_constants_start 2 (toy_responder, IndexTable_init, zeros 12)
      [Accepted_initiation 1 m, Failed] (p, IndexTable_init, zeros 12)"
    using toy_history [of hs_constants_start] by (elim exE)
  have "world_state (toy_responder, IndexTable_init, zeros 12) = Zeroed"
    by (simp add: world_state_def toy_responder_def Peer_init_def HandshakeState_init_def)
  then show ?thesis
    using handlers_refine_automaton [OF r] r by (auto simp: world_state_def)
qed

theorem no_initiation_consumed_twice_witness:
  "\<exists>m p. hs_run toy hs_constants_start 2 (toy_responder, IndexTable_init, zeros 12)
     [Accepted_initiation 1 m, Failed] (p, IndexTable_init, zeros 12) \<and>
     distinct (accepted [Accepted_initiation 1 m, Failed])"
proof -
  obtain m p where r: "hs_run toy hs_constants_start 2 (toy_responder, IndexTable_init, zeros 12)
      [Accepted_initiation 1 m, Failed] (p, IndexTable_init, zeros 12)"
    using toy_history [of hs_constants_start] by (elim exE)
  have "length (hs_last_timestamp (handshake (fst (toy_responder, IndexTable_init, zeros 12)))) = 12"
    by (simp add: toy_responder_def Peer_init_def HandshakeState_init_def)
  then show ?thesis using no_initiation_consumed_twice [OF r] r by blast
qed

end
