(* ===== verification/HandshakeTypes.thy ===== *)
theory HandshakeTypes
  imports HandshakeTraces
begin

text \<open>
  The arrays of the handshake keep their sizes. The source holds keys, digests and time stamps in arrays of
  fixed size, the model in lists: over every history of handler calls these lists have the lengths the
  arrays are declared with, so that no copy into one of them is cut short or leaves old bytes behind.
\<close>

section \<open>Lengths of what the steps compute\<close>

lemma x25519_key_lengths:
  "crypto_laws lib \<Longrightarrow> x25519_GenerateKeyPair lib seed = Some (a, A) \<Longrightarrow> length a = 32 \<and> length A = 32"
  by (erule x25519_keygen_laws [of lib seed]) (simp add: x25519_pair_def)

lemma mlkem_key_lengths:
  "crypto_laws lib \<Longrightarrow> mlkem_GenerateKeyPair lib ML_KEM_768 seed = Some k \<Longrightarrow> length (public_key k) = 1184"
  by (erule mlkem_keygen_laws [of lib seed]) (auto simp: mlkem_pair_def)

text \<open>What the documentation of ML-KEM-768 says of every ciphertext it makes, under whatever key.\<close>

definition kem_sizes :: "'k crypto \<Rightarrow> bool" where
  "kem_sizes lib \<longleftrightarrow>
     (\<forall>ek seed r. Encapsulate lib ek ML_KEM_768 seed = Some r \<longrightarrow> length (encaps_ciphertext r) = 1088)"

lemma toy_kem_sizes: "kem_sizes toy"
  by (auto simp: kem_sizes_def Encapsulate_def toy_def Option.bind_eq_Some_conv)

lemma kem_sizesD:
  "kem_sizes lib \<Longrightarrow> Encapsulate lib ek ML_KEM_768 seed = Some r \<Longrightarrow> length (encaps_ciphertext r) = 1088"
  by (simp add: kem_sizes_def)

text \<open>Each step as an elimination: what its result being there says about lengths.\<close>

lemma step_lengths:
  assumes "crypto_laws lib"
  shows "MixKey lib c x = (ok, c') \<Longrightarrow> length c' = 32"
    and "KDF2 lib c x = Some (c', k) \<Longrightarrow> length c' = 32 \<and> length k = 32"
    and "KDF3 lib c x = Some (c', t, k) \<Longrightarrow> length c' = 32 \<and> length k = 32"
    and "EncryptAndHash lib h k p = (r, h') \<Longrightarrow> length h = 32 \<longrightarrow> length h' = 32"
    and "DecryptAndHash lib h k p = (r, h') \<Longrightarrow> length h = 32 \<longrightarrow> length h' = 32"
  using assms
  by (auto simp: MixKey_chain KDF_chain length_kdf_chain length_blake3 EncryptAndHash_def DecryptAndHash_def Let_def length_MixHash
      split: option.splits if_splits)

text \<open>One step of a chain of binds at a time.\<close>

lemma bind_SomeE: "Option.bind x f = Some y \<Longrightarrow> (\<And>a. x = Some a \<Longrightarrow> f a = Some y \<Longrightarrow> P) \<Longrightarrow> P"
  by (cases x) simp_all

lemma case_pairE: "(case x of (a, b) \<Rightarrow> f a b) = Some y \<Longrightarrow> (\<And>a b. x = (a, b) \<Longrightarrow> f a b = Some y \<Longrightarrow> P) \<Longrightarrow> P"
  by (cases x) simp

lemmas chainE = bind_SomeE case_pairE

lemma initiation_secrets_lengths:
  assumes "crypto_laws lib" "length (initial_hash g) = 32"
    and "initiation_secrets lib g ev p = Some (C, H, k, e, E, dk, ek, ct, x, m)"
  shows "length C = 32 \<and> length H = 32 \<and> length e = 32 \<and> length E = 32 \<and> length dk = 2400 \<and> length ek = 1184 \<and>
    length x = 48 \<and> length m = 1200 \<and> (kem_sizes lib \<longrightarrow> length ct = 1088)"
  using assms
  by (auto simp: initiation_secrets_def Let_def length_MixHash kMlKemDecapsulationKeyBytes_def kem_sizesD
      elim!: chainE dest!: x25519_key_lengths [OF assms(1)] mlkem_key_lengths [OF assms(1)] step_lengths [OF assms(1)])

lemma initiation_opened_lengths:
  assumes "crypto_laws lib" "length (initial_hash g) = 32"
    and "initiation_opened lib g msg p = Some (i, C, H, x, m, ts)"
  shows "wf_InitiationMsg i \<and> length C = 32 \<and> length H = 32 \<and> length x = 32 \<and> length m = 1184 \<and> length ts = 12"
proof -
  have "DeserializeInitiation msg = Some i" using assms(3) by (auto simp: initiation_opened_def Let_def elim!: chainE)
  then have "wf_InitiationMsg i" using Initiation_canonical by blast
  moreover have "length C = 32 \<and> length H = 32 \<and> length x = 32 \<and> length m = 1184 \<and> length ts = 12"
    using assms by (auto simp: initiation_opened_def Let_def length_MixHash kMlKemEncapsulationKeyBytes_def elim!: chainE
      dest!: step_lengths [OF assms(1)])
  ultimately show ?thesis by blast
qed

lemma response_secrets_lengths:
  assumes "crypto_laws lib" "wf_HandshakeState (handshake p)"
    and "response_secrets lib ev p = Some (C, H, E, ct1, ct2, x)"
  shows "length C = 32 \<and> length H = 32 \<and> length E = 32 \<and> length x = 16 \<and>
    (kem_sizes lib \<longrightarrow> length ct1 = 1088 \<and> length ct2 = 1088)"
  using assms
  by (auto simp: response_secrets_def wf_HandshakeState_def Let_def length_MixHash kem_sizesD
      elim!: chainE dest!: x25519_key_lengths [OF assms(1)] step_lengths [OF assms(1)])

lemma response_opened_lengths:
  assumes "crypto_laws lib" "wf_HandshakeState (handshake p)"
    and "response_opened lib msg self p t = Some (r, C, H)"
  shows "length C = 32 \<and> length H = 32"
  using assms
  by (auto simp: response_opened_def wf_HandshakeState_def Let_def length_MixHash elim!: chainE
      dest!: step_lengths [OF assms(1)])

section \<open>Every handler keeps the sizes\<close>

text \<open>The keys of the keypairs in the three slots.\<close>

definition wf_keypairs :: "KeypairManager \<Rightarrow> bool" where
  "wf_keypairs m \<longleftrightarrow> (\<forall>kp. Some kp \<in> set (slots m) \<longrightarrow> length (send_key kp) = 32 \<and> length (receive_key kp) = 32)"

definition wf_world :: "hs_world \<Rightarrow> bool" where
  "wf_world w = (case w of (p, t, tai) \<Rightarrow> wf_Peer p \<and> wf_keypairs (keypairs p) \<and> length tai = 12)"

text \<open>What an event carries.\<close>

fun wf_event :: "hs_event \<Rightarrow> bool" where
  "wf_event (Sent_initiation m) = (length m = kInitiationSize)"
| "wf_event (Accepted_initiation now m) = (length m = kInitiationSize)"
| "wf_event (Sent_response m) = (length m = kResponseSize)"
| "wf_event (Accepted_response m) = (length m = kResponseSize)"
| "wf_event (Derived b) = True"
| "wf_event Failed = True"

lemma wf_keypairs_ops:
  "wf_keypairs m \<Longrightarrow> length (send_key kp) = 32 \<Longrightarrow> length (receive_key kp) = 32 \<Longrightarrow>
     wf_keypairs (SetCurrent m (Some kp)) \<and> wf_keypairs (SetNext m (Some kp))"
  by (auto simp: wf_keypairs_def slots_ops) (auto simp: slots_def)

lemma length_tai_Now: "length tai = 12 \<Longrightarrow> tai_Now now tai = (ts, tai') \<Longrightarrow> length ts = 12 \<and> length tai' = 12"
  by (auto simp: tai_Now_def Let_def)

lemma CreateMessageInitiation_wf:
  assumes "crypto_laws lib" "length (initial_hash g) = 32" "wf_world (p, t, tai)"
    and "CreateMessageInitiation lib g ev self p t tai = Some (r, p', t', tai')"
  shows "wf_world (p', t', tai') \<and> (\<forall>m. r = Some m \<longrightarrow> kem_sizes lib \<longrightarrow> length m = kInitiationSize)"
proof (cases "initiation_secrets lib g ev p")
  case None
  then show ?thesis using assms(3,4) by (simp add: CreateMessageInitiation_def)
next
  case (Some s)
  obtain C H k e E dk ek ct x m where s: "s = (C, H, k, e, E, dk, ek, ct, x, m)" by (cases s) auto
  note l = initiation_secrets_lengths [OF assms(1,2) Some [unfolded s]]
  obtain ts tai1 where ts: "tai_Now (ev_now ev) tai = (ts, tai1)" by (cases "tai_Now (ev_now ev) tai") auto
  have tai: "length tai1 = 12" using length_tai_Now [OF _ ts] assms(3) by (simp add: wf_world_def)
  obtain c H' where enc: "EncryptAndHash lib H k ts = (c, H')" by (cases "EncryptAndHash lib H k ts") auto
  have H': "length H' = 32" using step_lengths(4) [OF assms(1) enc] l by simp
  show ?thesis
  proof (cases "\<exists>y. c = Some y \<and> length y = 28")
    case False
    then have "wf_world (p, t, tai') \<and> r = None \<and> p' = p \<and> t' = t \<and> tai' = tai1"
      using assms(3,4) tai by (auto simp: CreateMessageInitiation_def Some s ts enc Let_def wf_world_def split: option.splits if_splits)
    then show ?thesis by auto
  next
    case True
    then obtain y where y: "c = Some y" "length y = 28" by blast
    obtain i t1 where i: "NewIndex t (ev_index_draws ev) (Some self) (Some self) = Some (i, t1)"
      using assms(4) by (auto simp: CreateMessageInitiation_def Some s ts enc y Let_def elim!: chainE)
    show ?thesis
      using assms(3,4) l H' tai y(2)
      by (auto simp: CreateMessageInitiation_def Some s ts enc y(1) i wf_world_def wf_Peer_def wf_HandshakeState_def Let_def
          size_defs length_SerializeInitiation wf_InitiationMsg_def)
  qed
qed

lemma ConsumeMessageInitiation_wf:
  assumes "crypto_laws lib" "length (initial_hash g) = 32" "wf_world (p, t, tai)"
    and "ConsumeMessageInitiation lib g now m p = (ok, p')"
  shows "wf_world (p', t, tai)"
  using assms(3,4)
  by (auto simp: ConsumeMessageInitiation_def wf_world_def wf_Peer_def wf_HandshakeState_def wf_InitiationMsg_def Let_def
      split: prod.splits option.splits if_splits dest!: initiation_opened_lengths [OF assms(1,2)])

lemma CreateMessageResponse_wf:
  assumes "crypto_laws lib" "wf_world (p, t, tai)" "CreateMessageResponse lib ev self p t = Some (r, p', t')"
  shows "wf_world (p', t', tai) \<and> (\<forall>m. r = Some m \<longrightarrow> kem_sizes lib \<longrightarrow> length m = kResponseSize)"
proof -
  have "wf_HandshakeState (handshake p)" using assms(2) by (simp add: wf_world_def wf_Peer_def)
  note l = response_secrets_lengths [OF assms(1) this]
  show ?thesis using assms(2,3)
    by (auto simp: CreateMessageResponse_def wf_world_def wf_Peer_def wf_HandshakeState_def Let_def size_defs
        length_SerializeResponse wf_ResponseMsg_def split: prod.splits option.splits if_splits elim!: chainE dest!: l)
qed

lemma ConsumeMessageResponse_wf:
  assumes "crypto_laws lib" "wf_world (p, t, tai)" "ConsumeMessageResponse lib m self p t = (ok, p')"
  shows "wf_world (p', t, tai)"
proof -
  have "wf_HandshakeState (handshake p)" using assms(2) by (simp add: wf_world_def wf_Peer_def)
  note l = response_opened_lengths [OF assms(1) this]
  show ?thesis using assms(2,3)
    by (auto simp: ConsumeMessageResponse_def wf_world_def wf_Peer_def wf_HandshakeState_def
        split: prod.splits option.splits dest!: l)
qed

lemma DeriveSessionKeys_wf:
  assumes "crypto_laws lib" "wf_world (p, t, tai)" "DeriveSessionKeys lib now addr p t b = (ok, p', t')"
  shows "wf_world (p', t', tai)"
  using assms(2,3)
  by (auto simp: DeriveSessionKeys_def wf_world_def wf_Peer_def wf_HandshakeState_def Let_def Keypair_new_def
      split: option.splits if_splits dest!: step_lengths [OF assms(1)] intro!: conjunct1 [OF wf_keypairs_ops] conjunct2 [OF wf_keypairs_ops])

lemma DeserializeResponse_size: "DeserializeResponse bs = Some m \<Longrightarrow> length bs = kResponseSize"
  by (simp add: DeserializeResponse_def split: if_splits)

lemma accepted_sizes:
  "ConsumeMessageInitiation lib g now m p = (True, p') \<Longrightarrow> length m = kInitiationSize"
  "ConsumeMessageResponse lib m self p t = (True, p') \<Longrightarrow> length m = kResponseSize"
proof -
  assume "ConsumeMessageInitiation lib g now m p = (True, p')"
  then obtain i where "DeserializeInitiation m = Some i"
    by (auto simp: ConsumeMessageInitiation_def initiation_opened_def split: option.splits elim!: bind_SomeE)
  then show "length m = kInitiationSize" by (simp add: DeserializeInitiation_def split: if_splits)
next
  assume "ConsumeMessageResponse lib m self p t = (True, p')"
  then show "length m = kResponseSize"
    by (auto simp: ConsumeMessageResponse_def response_opened_def split: option.splits elim!: bind_SomeE
        dest: DeserializeResponse_size)
qed

lemma hs_step_wf:
  assumes "hs_step lib g self w e w'" "crypto_laws lib" "kem_sizes lib" "length (initial_hash g) = 32" "wf_world w"
  shows "wf_world w' \<and> wf_event e"
  using assms
proof (induction rule: hs_step.induct)
  case (create_initiation ev p t tai m p' t' tai')
  show ?case using CreateMessageInitiation_wf [OF create_initiation.prems(1,3,4) create_initiation.hyps] create_initiation.prems(2) by simp
next
  case (create_initiation_fails ev p t tai p' t' tai')
  show ?case using CreateMessageInitiation_wf [OF create_initiation_fails.prems(1,3,4) create_initiation_fails.hyps]  by simp
next
  case (consume_initiation now m p p' t tai)
  show ?case using ConsumeMessageInitiation_wf [OF consume_initiation.prems(1,3,4) consume_initiation.hyps] accepted_sizes(1) [OF consume_initiation.hyps] by simp
next
  case (consume_initiation_fails now m p p' t tai)
  show ?case using ConsumeMessageInitiation_wf [OF consume_initiation_fails.prems(1,3,4) consume_initiation_fails.hyps]  by simp
next
  case (create_response ev p t m p' t' tai)
  show ?case using CreateMessageResponse_wf [OF create_response.prems(1,4) create_response.hyps] create_response.prems(2) by simp
next
  case (create_response_fails ev p t p' t' tai)
  show ?case using CreateMessageResponse_wf [OF create_response_fails.prems(1,4) create_response_fails.hyps]  by simp
next
  case (consume_response m p t p' tai)
  show ?case using ConsumeMessageResponse_wf [OF consume_response.prems(1,4) consume_response.hyps] accepted_sizes(2) [OF consume_response.hyps] by simp
next
  case (consume_response_fails m p t p' tai)
  show ?case using ConsumeMessageResponse_wf [OF consume_response_fails.prems(1,4) consume_response_fails.hyps]  by simp
next
  case (derive now addr p t b p' t' tai)
  show ?case using DeriveSessionKeys_wf [OF derive.prems(1,4) derive.hyps]  by simp
next
  case (derive_fails now addr p t b p' t' tai)
  show ?case using DeriveSessionKeys_wf [OF derive_fails.prems(1,4) derive_fails.hyps]  by simp
qed

section \<open>Property\<close>

lemma constants_length: "crypto_laws lib \<Longrightarrow> length (initial_hash (InitHandshakeConstants lib hs_constants_start)) = 32"
  by (auto simp: InitHandshakeConstants_def hs_constants_start_def Hash256_def kDefaultHashBytes_def length_blake3 Let_def
      split: option.splits)

text \<open>
  C7. The arrays of a peer are well typed. Over every history of handler calls, with whatever messages, random
  values and clock readings, all fields of the peer and of its handshake have the lengths of the arrays they are
  declared as, the keys of the keypairs in the three slots have 32 bytes and the time stamp generator its 12;
  what is sent or accepted has the size of its message; and a peer as it is constructed is such.
\<close>

theorem handshake_arrays_typed:
  assumes "crypto_laws lib" "kem_sizes lib"
    and "hs_run lib (InitHandshakeConstants lib hs_constants_start) self w es w'" "wf_world w"
  shows "wf_world w' \<and> (\<forall>e \<in> set es. wf_event e) \<and> wf_world (Peer_init, table, zeros 12)"
proof -
  have "wf_world w' \<and> (\<forall>e \<in> set es. wf_event e)"
    using assms(3,4)
  proof (induction rule: hs_run.induct)
    case (hs_run_cons w e w1 es w2)
    then show ?case using hs_step_wf [OF hs_run_cons.hyps(1) assms(1,2) constants_length [OF assms(1)]] by simp
  qed simp
  moreover have "wf_keypairs (keypairs Peer_init)"
    by (simp add: Peer_init_def KeypairManager_init_def wf_keypairs_def slots_def)
  then have "wf_world (Peer_init, table, zeros 12)" by (simp add: wf_world_def)
  ultimately show ?thesis by blast
qed

lemma handshake_arrays_typed_witness:
  "\<exists>m p. hs_run toy (InitHandshakeConstants toy hs_constants_start) 2 (toy_responder, IndexTable_init, zeros 12)
     [Accepted_initiation 1 m, Failed] (p, IndexTable_init, zeros 12) \<and> wf_Peer p \<and> length m = 3620"
proof -
  have "wf_world (toy_responder, IndexTable_init, zeros 12)"
    by (simp add: wf_world_def wf_Peer_def wf_keypairs_def toy_responder_def Peer_init_def KeypairManager_init_def slots_def)
  moreover obtain m p where r: "hs_run toy (InitHandshakeConstants toy hs_constants_start) 2
      (toy_responder, IndexTable_init, zeros 12) [Accepted_initiation 1 m, Failed] (p, IndexTable_init, zeros 12)"
    using toy_history [of "InitHandshakeConstants toy hs_constants_start"] by (elim exE)
  ultimately have "wf_world (p, IndexTable_init, zeros 12) \<and> wf_event (Accepted_initiation 1 m)"
    using handshake_arrays_typed [OF toy_crypto_laws toy_kem_sizes r] by simp
  then show ?thesis using r by (auto simp: wf_world_def size_defs)
qed

end
