(* ===== verification/ReplayWindow.thy ===== *)
theory ReplayWindow
  imports Prelude
begin

text \<open>
  \<open>core/session/replay_window.hpp\<close> and \<open>replay_window.cpp\<close>: the 2048-packet sliding window
  of inbound counters. \<open>std::bitset<2048>\<close> is a \<open>2048 word\<close>, so \<open>bitmap_ <<= n\<close> is
  \<open>push_bit n\<close> (which drops the bits shifted out, and everything for \<open>n \<ge> 2048\<close>). The
  window is specified by the set of counters accepted so far, and the interface of a
  replay filter is a locale whose client lemma is that no counter passes it twice.
\<close>

section \<open>The window\<close>

definition kWindowSize :: u64 where
  "kWindowSize = 2048"

record replay_window =
  rw_last :: u64
  rw_bitmap :: "2048 word"

definition ReplayWindow_init :: replay_window where
  "ReplayWindow_init = \<lparr>rw_last = 0, rw_bitmap = 0\<rparr>"

definition Check :: "replay_window \<Rightarrow> u64 \<Rightarrow> bool" where
  "Check w counter =
     (if counter > rw_last w then True
      else if counter + kWindowSize \<le> rw_last w then False
      else \<not> bit (rw_bitmap w) (unat (rw_last w - counter)))"

definition Accept :: "replay_window \<Rightarrow> u64 \<Rightarrow> replay_window" where
  "Accept w counter =
     (if counter > rw_last w then
        \<lparr>rw_last = counter,
         rw_bitmap = set_bit 0 (push_bit (unat (counter - rw_last w)) (rw_bitmap w))\<rparr>
      else w\<lparr>rw_bitmap := set_bit (unat (rw_last w - counter)) (rw_bitmap w)\<rparr>)"

section \<open>The interface of a replay filter\<close>

text \<open>
  A receiver offers a sequence of authentic counters to the filter; \<open>offer\<close> collects those
  that pass the check, each accepted as it passes, and \<open>offer_state\<close> is the filter afterwards.
\<close>

fun offer :: "('w \<Rightarrow> 'c \<Rightarrow> bool) \<Rightarrow> ('w \<Rightarrow> 'c \<Rightarrow> 'w) \<Rightarrow> 'w \<Rightarrow> 'c list \<Rightarrow> 'c list" where
  "offer chk acc w [] = []"
| "offer chk acc w (c # cs) =
     (if chk w c then c # offer chk acc (acc w c) cs else offer chk acc w cs)"

fun offer_state :: "('w \<Rightarrow> 'c \<Rightarrow> bool) \<Rightarrow> ('w \<Rightarrow> 'c \<Rightarrow> 'w) \<Rightarrow> 'w \<Rightarrow> 'c list \<Rightarrow> 'w" where
  "offer_state chk acc w [] = w"
| "offer_state chk acc w (c # cs) = offer_state chk acc (if chk w c then acc w c else w) cs"

text \<open>
  What the receiver relies on: \<open>seen_by S w\<close> says that \<open>S\<close> is the set of counters accepted
  so far. A fresh filter has seen none, an accepted counter is remembered, and a counter
  that was seen fails the check.
\<close>

locale replay_filter =
  fixes init :: 'w and chk :: "'w \<Rightarrow> 'c \<Rightarrow> bool" and acc :: "'w \<Rightarrow> 'c \<Rightarrow> 'w"
    and seen_by :: "'c set \<Rightarrow> 'w \<Rightarrow> bool"
  assumes init_seen: "seen_by {} init"
    and acc_seen: "seen_by S w \<Longrightarrow> chk w c \<Longrightarrow> seen_by (insert c S) (acc w c)"
    and chk_fresh: "seen_by S w \<Longrightarrow> chk w c \<Longrightarrow> c \<notin> S"
begin

lemma offer_disjoint:
  "seen_by S w \<Longrightarrow> set (offer chk acc w cs) \<inter> S = {} \<and> distinct (offer chk acc w cs)"
proof (induction cs arbitrary: S w)
  case Nil
  then show ?case by simp
next
  case (Cons c cs)
  show ?case
  proof (cases "chk w c")
    case True
    have "set (offer chk acc (acc w c) cs) \<inter> insert c S = {} \<and> distinct (offer chk acc (acc w c) cs)"
      by (rule Cons.IH) (rule acc_seen [OF Cons.prems True])
    then show ?thesis using True chk_fresh [OF Cons.prems True] by auto
  next
    case False
    then show ?thesis using Cons.IH [OF Cons.prems] by simp
  qed
qed

lemma offer_distinct: "distinct (offer chk acc init cs)"
  using offer_disjoint [OF init_seen] by simp

lemma offer_state_seen:
  "seen_by S w \<Longrightarrow> seen_by (S \<union> set (offer chk acc w cs)) (offer_state chk acc w cs)"
proof (induction cs arbitrary: S w)
  case Nil
  then show ?case by simp
next
  case (Cons c cs)
  show ?case
  proof (cases "chk w c")
    case True
    have "seen_by (insert c S \<union> set (offer chk acc (acc w c) cs)) (offer_state chk acc (acc w c) cs)"
      by (rule Cons.IH) (rule acc_seen [OF Cons.prems True])
    then show ?thesis using True by (simp add: Un_insert_left)
  next
    case False
    then show ?thesis using Cons.IH [OF Cons.prems] by simp
  qed
qed

lemma offered_again_fails:
  "c \<in> set (offer chk acc init cs) \<Longrightarrow> \<not> chk (offer_state chk acc init cs) c"
  using chk_fresh [OF offer_state_seen [OF init_seen]] by auto

end

section \<open>What the bitmap stands for\<close>

text \<open>
  The bit a counter up to \<open>last\<close> maps to says whether the counter was accepted; no counter
  above \<open>last\<close> was.
\<close>

definition window_of :: "u64 set \<Rightarrow> replay_window \<Rightarrow> bool" where
  "window_of S w \<longleftrightarrow>
     (\<forall>c \<in> S. c \<le> rw_last w) \<and>
     (\<forall>c \<le> rw_last w. unat (rw_last w - c) < 2048 \<longrightarrow>
        (bit (rw_bitmap w) (unat (rw_last w - c)) \<longleftrightarrow> c \<in> S))"

lemma window_of_init: "window_of {} ReplayWindow_init"
  by (simp add: window_of_def ReplayWindow_init_def)

lemma window_ofI:
  assumes "\<And>c. c \<in> S \<Longrightarrow> c \<le> rw_last w"
    and "\<And>c. c \<le> rw_last w \<Longrightarrow> unat (rw_last w - c) < 2048 \<Longrightarrow>
       bit (rw_bitmap w) (unat (rw_last w - c)) \<longleftrightarrow> c \<in> S"
  shows "window_of S w"
  using assms by (simp add: window_of_def)

lemma window_of_le: "window_of S w \<Longrightarrow> c \<in> S \<Longrightarrow> c \<le> rw_last w"
  by (simp add: window_of_def)

lemma window_of_bit:
  "window_of S w \<Longrightarrow> c \<le> rw_last w \<Longrightarrow> unat (rw_last w - c) < 2048 \<Longrightarrow>
   bit (rw_bitmap w) (unat (rw_last w - c)) \<longleftrightarrow> c \<in> S"
  by (simp add: window_of_def)

lemma word_le_add_iff:
  fixes c l :: u64
  assumes "c \<le> l"
  shows "\<not> c + kWindowSize \<le> l \<Longrightarrow> unat (l - c) < 2048"
    and "unat c + 2048 < 2 ^ 64 \<Longrightarrow> c + kWindowSize \<le> l \<longleftrightarrow> 2048 \<le> unat (l - c)"
proof -
  have sub: "unat (l - c) = unat l - unat c" using assms by (rule unat_sub)
  have le: "unat c \<le> unat l" using assms by (simp add: word_le_nat_alt)
  have nowrap: "unat (c + 2048) = unat c + 2048" if "unat c + 2048 < 2 ^ 64"
    using that by (simp add: unat_word_ariths)
  show "unat (l - c) < 2048" if "\<not> c + kWindowSize \<le> l"
    using that sub le nowrap unat_less_2p64 [of l]
    by (cases "unat c + 2048 < 2 ^ 64") (simp_all add: kWindowSize_def word_le_nat_alt)
  show "c + kWindowSize \<le> l \<longleftrightarrow> 2048 \<le> unat (l - c)" if "unat c + 2048 < 2 ^ 64"
    using that sub le nowrap by (auto simp: kWindowSize_def word_le_nat_alt)
qed

lemma Check_exact:
  assumes "window_of S w"
  shows "Check w c \<longleftrightarrow> rw_last w < c \<or> (\<not> c + kWindowSize \<le> rw_last w \<and> c \<notin> S)"
  using window_of_bit [OF assms] word_le_add_iff(1) [of c "rw_last w"]
  by (auto simp: Check_def not_less)

lemma Accept_bit:
  "rw_last w < c \<Longrightarrow> i < 2048 \<Longrightarrow>
   bit (rw_bitmap (Accept w c)) i \<longleftrightarrow>
     i = 0 \<or> (unat (c - rw_last w) \<le> i \<and> bit (rw_bitmap w) (i - unat (c - rw_last w)))"
  "\<not> rw_last w < c \<Longrightarrow> i < 2048 \<Longrightarrow>
   bit (rw_bitmap (Accept w c)) i \<longleftrightarrow> i = unat (rw_last w - c) \<or> bit (rw_bitmap w) i"
  by (auto simp: Accept_def bit_simps)

lemma Accept_last: "rw_last (Accept w c) = max (rw_last w) c"
  by (auto simp: Accept_def max_def not_less)

lemma window_of_Accept:
  assumes W: "window_of S w" and C: "Check w c"
  shows "window_of (insert c S) (Accept w c)"
proof (rule window_ofI)
  fix d assume "d \<in> insert c S"
  then show "d \<le> rw_last (Accept w c)"
    using window_of_le [OF W] by (auto simp: Accept_last intro: max.coboundedI1)
next
  fix d assume le: "d \<le> rw_last (Accept w c)" and small: "unat (rw_last (Accept w c) - d) < 2048"
  show "bit (rw_bitmap (Accept w c)) (unat (rw_last (Accept w c) - d)) \<longleftrightarrow> d \<in> insert c S"
  proof (cases "rw_last w < c")
    case True
    then have last: "rw_last (Accept w c) = c" by (simp add: Accept_def)
    consider "d = c" | "rw_last w < d" "d < c" | "d \<le> rw_last w" using le last by force
    then show ?thesis
    proof cases
      case 1
      then show ?thesis using True Accept_bit(1) [of w c 0] last by simp
    next
      case 2
      then have "d \<notin> S" using window_of_le [OF W] by force
      with 2 show ?thesis using True Accept_bit(1) [OF True, of "unat (c - d)"] small last
        by (auto simp: unat_sub word_less_nat_alt less_imp_le)
    next
      case 3
      then have "unat (c - d) = unat (c - rw_last w) + unat (rw_last w - d)"
        using True by (simp add: unat_sub word_less_nat_alt word_le_nat_alt)
      moreover have "0 < unat (c - rw_last w)" and "d \<noteq> c"
        using True 3 by (auto simp: unat_sub word_less_nat_alt word_le_nat_alt)
      ultimately show ?thesis
        using Accept_bit(1) [OF True, of "unat (c - d)"] window_of_bit [OF W 3] small last by auto
    qed
  next
    case False
    then have last: "rw_last (Accept w c) = rw_last w" by (simp add: Accept_def)
    have "unat (rw_last w - d) = unat (rw_last w - c) \<longleftrightarrow> d = c"
      by (simp add: word_unat_eq_iff [symmetric])
    then show ?thesis
      using Accept_bit(2) [OF False, of "unat (rw_last w - d)"] window_of_bit [OF W] small le last
      by auto
  qed
qed

lemma window_of_fresh:
  "window_of S w \<Longrightarrow> Check w c \<Longrightarrow> c \<notin> S"
  using Check_exact [of S w c] window_of_le [of S w c] by auto

interpretation rw: replay_filter ReplayWindow_init Check Accept window_of
  by unfold_locales (auto intro: window_of_init window_of_Accept dest: window_of_fresh)

section \<open>Properties\<close>

text \<open>
  No counter is ever accepted twice, whatever the order in which counters arrive: the
  counters that pass the window in any run from a fresh window are pairwise distinct.
\<close>

lemma no_counter_accepted_twice: "distinct (offer Check Accept ReplayWindow_init cs)"
  by (rule rw.offer_distinct)

text \<open>The highest counter is one that was accepted, or still the initial zero.\<close>

lemma last_accepted: "rw_last (offer_state Check Accept w cs) \<in> insert (rw_last w) (set (offer Check Accept w cs))"
proof (induction cs arbitrary: w)
  case (Cons c cs)
  have "rw_last (Accept w c) \<in> {rw_last w, c}" by (simp add: Accept_last max_def)
  then show ?case using Cons.IH [of "Accept w c"] Cons.IH [of w] by auto
qed simp

text \<open>
  C17. The check is exact. After any history, a counter passes if and only if it is none of the counters accepted
  in that history and lies less than 2048 below each of them, or above; only for the last 2048 values of the
  counter, where the addition \<open>counter + 2048\<close> wraps, nothing below an accepted counter passes any more.
\<close>

theorem Check_iff_fresh_in_window:
  "Check (offer_state Check Accept ReplayWindow_init cs) c \<longleftrightarrow>
     c \<notin> set (offer Check Accept ReplayWindow_init cs) \<and>
     (\<forall>a \<in> set (offer Check Accept ReplayWindow_init cs).
        a < c \<or> unat c + 2048 < 2 ^ 64 \<and> unat a < unat c + 2048)"
proof -
  let ?w = "offer_state Check Accept ReplayWindow_init cs" and ?A = "set (offer Check Accept ReplayWindow_init cs)"
  have W: "window_of ?A ?w" using rw.offer_state_seen [OF window_of_init] by simp
  have last: "rw_last ?w \<in> insert 0 ?A" using last_accepted [of ReplayWindow_init cs] by (simp add: ReplayWindow_init_def)
  have le: "a \<le> rw_last ?w" if "a \<in> ?A" for a by (rule window_of_le [OF W that])
  have exact: "Check ?w c \<longleftrightarrow> rw_last ?w < c \<or> (\<not> c + kWindowSize \<le> rw_last ?w \<and> c \<notin> ?A)"
    by (rule Check_exact [OF W])
  show ?thesis
  proof (cases "rw_last ?w < c")
    case True
    then have "a < c" if "a \<in> ?A" for a using le [OF that] by simp
    then show ?thesis using exact True by blast
  next
    case False
    have small: "unat a < unat c + 2048" if "unat (rw_last ?w) < unat c + 2048" "a \<in> ?A" for a
      using that(1) le [OF that(2)] by (simp add: word_le_nat_alt)
    show ?thesis
    proof (cases "unat c + 2048 < 2 ^ 64")
      case nowrap: True
      have "\<not> c + kWindowSize \<le> rw_last ?w \<longleftrightarrow> unat (rw_last ?w) < unat c + 2048"
        using word_le_add_iff(2) [OF _ nowrap, of "rw_last ?w"] False by (auto simp: not_less unat_sub word_le_nat_alt)
      moreover have "(\<forall>a \<in> ?A. a < c \<or> unat a < unat c + 2048) \<longleftrightarrow> unat (rw_last ?w) < unat c + 2048"
        using last False small by auto
      ultimately show ?thesis using exact False nowrap by (simp add: conj_commute)
    next
      case wrap: False
      have "c + kWindowSize \<le> rw_last ?w"
      proof -
        have "(unat c + 2048) mod 2 ^ 64 = unat c + 2048 - 2 ^ 64"
          using wrap unat_less_2p64 [of c] by (subst mod_if) (simp add: not_less)
        moreover have "unat c \<le> unat (rw_last ?w)" using False by (simp add: not_less word_le_nat_alt)
        ultimately show ?thesis by (simp add: kWindowSize_def word_le_nat_alt unat_word_ariths)
      qed
      moreover have "c \<in> ?A \<or> \<not> (\<forall>a \<in> ?A. a < c)"
      proof -
        have "c \<noteq> 0" using wrap by auto
        then have "rw_last ?w \<in> ?A" using last False by (auto simp: word_neq_0_conv)
        then show ?thesis using False by blast
      qed
      ultimately show ?thesis using exact False wrap by auto
    qed
  qed
qed

theorem Check_iff_fresh_in_window_witness:
  "Check (offer_state Check Accept ReplayWindow_init [5, 5, 3000, 2]) 3000 = False
   \<and> Check (offer_state Check Accept ReplayWindow_init [5, 5, 3000, 2]) 5 = False
   \<and> Check (offer_state Check Accept ReplayWindow_init [5, 5, 3000, 2]) 953"
  using Check_iff_fresh_in_window [of "[5, 5, 3000, 2]" 3000] Check_iff_fresh_in_window [of "[5, 5, 3000, 2]" 5]
    Check_iff_fresh_in_window [of "[5, 5, 3000, 2]" 953]
  by (simp add: Check_def Accept_def ReplayWindow_init_def kWindowSize_def)

end
