(* ===== verification/Descriptor.thy ===== *)
theory Descriptor
  imports Prelude "HOL-Library.Multiset"
begin

text \<open>
  The interface the wrappers of system objects share: an object holds at most one descriptor, gets
  one from the kernel when it opens, gives it back when it closes, and hands it over when it
  is moved from. The laws say that no operation loses or duplicates a descriptor; the lemma,
  that no sequence of operations on any number of objects does.
\<close>

text \<open>
  The operations of a class: opening with an argument of the kernel's answers (the new object and
  the descriptors closed on the way), the descriptors the kernel hands out in that call, closing,
  and move assignment (target, source, closed).
\<close>

record ('a, 'd) handle_api =
  ha_open :: "'a \<Rightarrow> 'd \<Rightarrow> 'd \<times> int list"
  ha_gets :: "'a \<Rightarrow> 'd \<Rightarrow> int list"
  ha_close :: "'d \<Rightarrow> 'd \<times> int list"
  ha_move :: "'d \<Rightarrow> 'd \<Rightarrow> 'd \<times> 'd \<times> int list"

text \<open>The classes return the closed descriptor as an option.\<close>

definition some_list :: "'x option \<Rightarrow> 'x list" where
  "some_list x = (case x of None \<Rightarrow> [] | Some h \<Rightarrow> [h])"

datatype 'a handle_op = Open_it nat 'a | Close_it nat | Move_to nat nat

text \<open>
  One operation on a list of objects, with the descriptors obtained and closed so far. A move to
  itself does nothing, as in the code.
\<close>

fun handle_step ::
  "('a, 'd) handle_api \<Rightarrow> 'd list \<times> int list \<times> int list \<Rightarrow> 'a handle_op \<Rightarrow> 'd list \<times> int list \<times> int list" where
  "handle_step api (ds, got, closed) (Open_it i a) =
     (if i < length ds then
        (case ha_open api a (ds ! i) of (d, c) \<Rightarrow> (ds[i := d], ha_gets api a (ds ! i) @ got, c @ closed))
      else (ds, got, closed))"
| "handle_step api (ds, got, closed) (Close_it i) =
     (if i < length ds then (case ha_close api (ds ! i) of (d, c) \<Rightarrow> (ds[i := d], got, c @ closed))
      else (ds, got, closed))"
| "handle_step api (ds, got, closed) (Move_to i j) =
     (if i < length ds \<and> j < length ds \<and> i \<noteq> j then
        (case ha_move api (ds ! i) (ds ! j) of (d, e, c) \<Rightarrow> (ds[i := d, j := e], got, c @ closed))
      else (ds, got, closed))"

definition handle_run :: "('a, 'd) handle_api \<Rightarrow> 'a handle_op list \<Rightarrow> 'd list \<Rightarrow> 'd list \<times> int list \<times> int list" where
  "handle_run api ops ds = foldl (handle_step api) (ds, [], []) ops"

lemma mset_concat_update:
  "i < length xs \<Longrightarrow> mset (concat (map f (xs[i := y]))) + mset (f (xs ! i)) = mset (concat (map f xs)) + mset (f y)"
  by (induction xs arbitrary: i) (auto simp: nth_Cons' ac_simps split: nat.split)

text \<open>The book-keeping of one and of two objects.\<close>

lemma ledger_step:
  fixes C C' h h' g c got closed :: "'x multiset"
  assumes "C' + h = C + h'" and "g + h = h' + c" and "got = closed + C"
  shows "g + got = c + closed + C'"
proof (rule multiset_eqI)
  fix x
  show "count (g + got) x = count (c + closed + C') x"
    using arg_cong [OF assms(1), of "\<lambda>m. count m x"] arg_cong [OF assms(2), of "\<lambda>m. count m x"] assms(3) by simp
qed

lemma ledger_move:
  assumes "i < length ds" and "j < length ds" and "i \<noteq> j"
    and "mset (f (ds ! i)) + mset (f (ds ! j)) = mset (f d) + mset (f e) + mset c"
    and "mset got = mset closed + mset (concat (map f ds))"
  shows "mset got = mset c + mset closed + mset (concat (map f (ds[i := d, j := e])))"
proof (rule multiset_eqI)
  fix x
  show "count (mset got) x = count (mset c + mset closed + mset (concat (map f (ds[i := d, j := e])))) x"
    using arg_cong [OF mset_concat_update [OF assms(1), of f d], of "\<lambda>m. count m x"]
      arg_cong [OF mset_concat_update [of j "ds[i := d]" f e], of "\<lambda>m. count m x"]
      arg_cong [OF assms(4), of "\<lambda>m. count m x"] arg_cong [OF assms(5), of "\<lambda>m. count m x"] assms(2,3) by simp
qed

locale descriptor =
  fixes api :: "('a, 'd) handle_api" and held :: "'d \<Rightarrow> int list" and start :: 'd
  assumes start: "held start = []"
    and open_law: "ha_open api a d = (d', c) \<Longrightarrow> mset (ha_gets api a d) + mset (held d) = mset (held d') + mset c"
    and close_law: "ha_close api d = (d', c) \<Longrightarrow> mset (held d) = mset (held d') + mset c"
    and move_law: "ha_move api d e = (d', e', c) \<Longrightarrow>
      mset (held d) + mset (held e) = mset (held d') + mset (held e') + mset c"
begin

lemma step_balanced:
  assumes "case st of (ds, got, closed) \<Rightarrow> mset got = mset closed + mset (concat (map held ds))"
  shows "case handle_step api st x of (ds, got, closed) \<Rightarrow> mset got = mset closed + mset (concat (map held ds))"
proof -
  obtain ds got closed where st: "st = (ds, got, closed)" by (cases st)
  have b: "mset got = mset closed + mset (concat (map held ds))" using assms st by simp
  show ?thesis
  proof (cases x)
    case (Open_it i a)
    obtain d c where d: "ha_open api a (ds ! i) = (d, c)" by fastforce
    show ?thesis using b Open_it d ledger_step [OF mset_concat_update open_law [OF d] b] by (simp add: st)
  next
    case (Close_it i)
    obtain d c where d: "ha_close api (ds ! i) = (d, c)" by fastforce
    have g: "mset [] + mset (held (ds ! i)) = mset (held d) + mset c" using close_law [OF d] by simp
    show ?thesis using b Close_it d ledger_step [OF mset_concat_update g b] by (simp add: st)
  next
    case (Move_to i j)
    obtain d e c where d: "ha_move api (ds ! i) (ds ! j) = (d, e, c)" by (cases "ha_move api (ds ! i) (ds ! j)")
    show ?thesis using b Move_to d ledger_move [OF _ _ _ move_law [OF d] b] by (simp add: st)
  qed
qed

lemma run_balanced:
  "case handle_run api ops (replicate n start) of (ds, got, closed) \<Rightarrow>
     mset got = mset closed + mset (concat (map held ds))"
proof -
  have "concat (map held (replicate n start)) = []" by (induction n) (simp_all add: start)
  then show ?thesis unfolding handle_run_def
    by (induction ops rule: rev_induct) (simp_all add: step_balanced)
qed

end

end
