(* ===== verification/UdpSocket.thy ===== *)
theory UdpSocket
  imports IPv4 Descriptor
begin

text \<open>
  \<open>core/network/udp_socket.hpp\<close> and \<open>core/os/linux/udp_socket.cpp\<close>: the socket wrapper. Its
  state is the handle; the outcome of every system call is an argument, and what the wrapper
  hands to the kernel is part of the result. An address in a \<open>sockaddr_in\<close> is four bytes in
  network order, a port two.
\<close>

type_synonym Port = u16

record Endpoint =
  ep_ip :: IPv4
  ep_port :: Port

record ReceiveResult =
  bytes_read :: nat
  rr_sender :: Endpoint

record sockaddr_in =
  sin_addr :: bytes
  sin_port :: bytes

record UDPSocket =
  handle_of :: int

definition kInvalidHandle :: int where "kInvalidHandle = - 1"

definition UDPSocket_init :: UDPSocket where
  "UDPSocket_init = \<lparr>handle_of = kInvalidHandle\<rparr>"

definition IsOpen :: "UDPSocket \<Rightarrow> bool" where
  "IsOpen s \<longleftrightarrow> handle_of s \<noteq> kInvalidHandle"

definition GetHandle :: "UDPSocket \<Rightarrow> int" where
  "GetHandle s = handle_of s"

definition htons :: "u16 \<Rightarrow> bytes" where "htons p = rev (le_bytes 2 p)"
definition ntohs :: "bytes \<Rightarrow> u16" where "ntohs b = le_word (rev b)"

text \<open>\<open>fd\<close> is what \<open>socket\<close> returns.\<close>

definition udp_Open :: "UDPSocket \<Rightarrow> int \<Rightarrow> bool \<times> UDPSocket" where
  "udp_Open s fd =
     (if IsOpen s then (False, s)
      else let s = s\<lparr>handle_of := fd\<rparr> in
        if handle_of s < 0 then (False, s\<lparr>handle_of := kInvalidHandle\<rparr>)
        else (True, s))"

definition socket_address :: "IPv4 \<Rightarrow> Port \<Rightarrow> sockaddr_in option" where
  "socket_address ip port =
     (case inet_pton4 (IPv4_ToString ip) of
        None \<Rightarrow> None
      | Some a \<Rightarrow> Some \<lparr>sin_addr = a, sin_port = htons port\<rparr>)"

text \<open>\<open>rc\<close> is what \<open>bind\<close> returns for the address it is given.\<close>

definition Bind :: "UDPSocket \<Rightarrow> IPv4 \<Rightarrow> Port \<Rightarrow> (int \<Rightarrow> sockaddr_in \<Rightarrow> int) \<Rightarrow> bool" where
  "Bind s ip port rc =
     (if \<not> IsOpen s then False
      else case socket_address ip port of
        None \<Rightarrow> False
      | Some addr \<Rightarrow> \<not> rc (handle_of s) addr < 0)"

text \<open>The second component is the handle passed to \<open>close\<close>.\<close>

definition udp_Close :: "UDPSocket \<Rightarrow> UDPSocket \<times> int option" where
  "udp_Close s =
     (if IsOpen s then (s\<lparr>handle_of := kInvalidHandle\<rparr>, Some (handle_of s)) else (s, None))"

text \<open>Move assignment from another socket: the old handle is closed, the other left empty.\<close>

definition udp_move_assign :: "UDPSocket \<Rightarrow> UDPSocket \<Rightarrow> UDPSocket \<times> UDPSocket \<times> int option" where
  "udp_move_assign s other =
     (let (s, closed) = udp_Close s in
      (s\<lparr>handle_of := handle_of other\<rparr>, other\<lparr>handle_of := kInvalidHandle\<rparr>, closed))"

text \<open>
  \<open>flags\<close> is the result of \<open>F_GETFL\<close>, an int of 32 bits; the third component is the argument of
  \<open>F_SETFL\<close>, whose result is \<open>rc\<close>.
\<close>

definition O_NONBLOCK :: "32 word" where "O_NONBLOCK = 0x800"

definition SetNonBlocking ::
  "UDPSocket \<Rightarrow> bool \<Rightarrow> 32 word \<Rightarrow> (32 word \<Rightarrow> int) \<Rightarrow> bool \<times> 32 word option" where
  "SetNonBlocking s do_not_block flags rc =
     (if \<not> IsOpen s then (False, None)
      else if sint flags < 0 then (False, None)
      else
        let flags = (if do_not_block then flags OR O_NONBLOCK else flags OR NOT O_NONBLOCK) in
        if rc flags < 0 then (False, Some flags)
        else (True, Some flags))"

text \<open>\<open>sent\<close> is the result of \<open>sendto\<close>; the second component is the datagram handed to it.\<close>

definition SendTo ::
  "UDPSocket \<Rightarrow> Endpoint \<Rightarrow> bytes \<Rightarrow> int \<Rightarrow> int \<times> (sockaddr_in \<times> bytes) option" where
  "SendTo s destination data sent =
     (if \<not> IsOpen s then (- 1, None)
      else case socket_address (ep_ip destination) (ep_port destination) of
        None \<Rightarrow> (- 1, None)
      | Some addr \<Rightarrow> (sent, Some (addr, data)))"

definition endpoint_of :: "sockaddr_in \<Rightarrow> Endpoint" where
  "endpoint_of a = \<lparr>ep_ip = IPv4_dotted (inet_ntop4 (sin_addr a)), ep_port = ntohs (sin_port a)\<rparr>"

definition ReceiveFrom :: "UDPSocket \<Rightarrow> int \<Rightarrow> sockaddr_in \<Rightarrow> ReceiveResult option" where
  "ReceiveFrom s received addr =
     (if \<not> IsOpen s then None
      else if received < 0 then None
      else Some \<lparr>bytes_read = nat received, rr_sender = endpoint_of addr\<rparr>)"

definition GetLocalEndpoint :: "UDPSocket \<Rightarrow> int \<Rightarrow> sockaddr_in \<Rightarrow> Endpoint option" where
  "GetLocalEndpoint s rc addr =
     (if \<not> IsOpen s then None else if rc < 0 then None else Some (endpoint_of addr))"

section \<open>Addresses\<close>

lemma ntohs_htons [simp]: "ntohs (htons p) = p"
  by (simp add: ntohs_def htons_def le_word_le_bytes del: le_word.simps le_bytes.simps)

lemma ToString_host: "IPv4_ToString ip = IPv4_ToString (IPv4_host_order (ip_addr ip))"
  by (simp add: IPv4_ToString_def IPv4_host_order_def IPv4_default_def)

lemma c_str_ToString: "c_str (IPv4_ToString (IPv4_host_order v)) = IPv4_ToString (IPv4_host_order v)"
  by (rule Unpack_cases [of v]) (simp add: ToString_text c_str_dotted)

lemma inet_pton4_ToString: "inet_pton4 (IPv4_ToString ip) = Some (Unpack (ip_addr ip))"
  unfolding ToString_host [of ip] using inet_pton4_text [of _ "ip_addr ip"] c_str_ToString by simp

lemma socket_address_total:
  "socket_address ip port = Some \<lparr>sin_addr = Unpack (ip_addr ip), sin_port = htons port\<rparr>"
  by (simp add: socket_address_def inet_pton4_ToString)

lemma IPv4_dotted_ntop: "IPv4_dotted (inet_ntop4 (Unpack v)) = IPv4_host_order v"
proof -
  have "inet_ntop4 (Unpack v) = IPv4_ToString (IPv4_host_order v)"
    by (simp add: IPv4_ToString_def IPv4_host_order_def IPv4_default_def HostToNetwork_def
        ByteSwap_bytes)
  then show ?thesis using IPv4_dotted_eq [of _ v] inet_pton4_text c_str_ToString by simp
qed

section \<open>Properties\<close>

text \<open>
  Addresses survive the socket: a datagram sent to an endpoint carries the endpoint's four
  octets, most significant first, and its port; a datagram received from that socket address
  is reported with exactly that endpoint. Nothing is handed to the kernel by a closed socket.
\<close>

lemma socket_endpoint_roundtrip:
  "SendTo s \<lparr>ep_ip = IPv4_host_order v, ep_port = p\<rparr> data sent =
     (if IsOpen s then (sent, Some (\<lparr>sin_addr = Unpack v, sin_port = htons p\<rparr>, data)) else (- 1, None)) \<and>
   ReceiveFrom s received \<lparr>sin_addr = Unpack v, sin_port = htons p\<rparr> =
     (if IsOpen s \<and> received \<ge> 0
      then Some \<lparr>bytes_read = nat received,
        rr_sender = \<lparr>ep_ip = IPv4_host_order v, ep_port = p\<rparr>\<rparr>
      else None)"
  by (simp add: SendTo_def ReceiveFrom_def endpoint_of_def socket_address_total IPv4_dotted_ntop
      IPv4_host_order_def)

text \<open>
  The handle is open exactly between a successful open and a close: opening twice fails and
  keeps the handle, a failed open leaves the socket closed, closing twice closes the
  descriptor once, and a move hands the descriptor over without closing it.
\<close>

theorem socket_lifecycle:
  "(udp_Open UDPSocket_init fd = (0 \<le> fd, \<lparr>handle_of = (if 0 \<le> fd then fd else kInvalidHandle)\<rparr>)) \<and>
   udp_Open \<lparr>handle_of = int n\<rparr> fd = (False, \<lparr>handle_of = int n\<rparr>) \<and>
   udp_Close \<lparr>handle_of = int n\<rparr> = (UDPSocket_init, Some (int n)) \<and>
   udp_Close UDPSocket_init = (UDPSocket_init, None) \<and>
   udp_move_assign \<lparr>handle_of = int n\<rparr> \<lparr>handle_of = int m\<rparr> =
     (\<lparr>handle_of = int m\<rparr>, UDPSocket_init, Some (int n)) \<and>
   \<not> Bind UDPSocket_init ip port rc \<and> GetLocalEndpoint UDPSocket_init 0 addr = None"
  by (simp add: udp_Open_def udp_Close_def udp_move_assign_def Bind_def GetLocalEndpoint_def
      UDPSocket_init_def IsOpen_def kInvalidHandle_def Let_def)

text \<open>
  Asking for blocking mode never clears the flag: whatever the flags were, the word handed to
  \<open>F_SETFL\<close> by \<open>SetNonBlocking(false)\<close> keeps \<open>O_NONBLOCK\<close> as it was and sets every other bit.
\<close>

lemma SetNonBlocking_false_keeps_flag:
  "case SetNonBlocking s False flags rc of
     (ok, None) \<Rightarrow> \<not> ok
   | (ok, Some w) \<Rightarrow> (w AND O_NONBLOCK) = (flags AND O_NONBLOCK) \<and> w OR O_NONBLOCK = - 1"
proof -
  have "(flags OR NOT O_NONBLOCK) AND O_NONBLOCK = flags AND O_NONBLOCK"
    by (rule bit_word_eqI) (auto simp: bit_simps)
  moreover have "(flags OR NOT O_NONBLOCK) OR O_NONBLOCK = - 1"
    by (rule bit_word_eqI) (auto simp: bit_simps)
  ultimately show ?thesis by (simp add: SetNonBlocking_def Let_def)
qed

section \<open>The socket as a descriptor\<close>

definition udp_held :: "UDPSocket \<Rightarrow> int list" where
  "udp_held s = (if IsOpen s then [handle_of s] else [])"

text \<open>The kernel hands out \<open>fd\<close> when \<open>socket\<close> is called and succeeds.\<close>

definition udp_api :: "(int, UDPSocket) handle_api" where
  "udp_api = \<lparr>ha_open = (\<lambda>fd s. (snd (udp_Open s fd), [])),
     ha_gets = (\<lambda>fd s. if \<not> IsOpen s \<and> 0 \<le> fd then [fd] else []),
     ha_close = (\<lambda>s. case udp_Close s of (s, c) \<Rightarrow> (s, some_list c)),
     ha_move = (\<lambda>s t. case udp_move_assign s t of (s, t, c) \<Rightarrow> (s, t, some_list c))\<rparr>"

interpretation udp: descriptor udp_api udp_held UDPSocket_init
  by unfold_locales
    (auto simp: udp_api_def udp_held_def UDPSocket_init_def udp_Open_def udp_Close_def udp_move_assign_def
      some_list_def IsOpen_def kInvalidHandle_def Let_def split: if_splits)

end
