(* ===== verification/Session.thy ===== *)
theory Session
  imports CryptoLib HandshakeHelpers ReplayWindow UdpSocket
begin

text \<open>
  \<open>core/session/session.hpp\<close> and \<open>session.cpp\<close>: a transport session. \<open>Seal\<close> encrypts under the
  next counter, \<open>Open\<close> decrypts a packet whose counter passes the replay window. The two
  clocks are arguments: \<open>sys_now\<close> is the system clock, \<open>now\<close> the steady one, whose default time
  point is 0.
\<close>

record SessionSecrets =
  sec_send_key :: bytes
  sec_recv_key :: bytes
  sec_sender_index :: u32
  sec_receiver_index :: u32
  sec_is_initiator :: bool

record Session =
  ss_send_key :: bytes
  ss_recv_key :: bytes
  ss_send_nonce :: u64
  ss_is_initiator :: bool
  ss_created :: time_point
  ss_sender_index :: u32
  ss_receiver_index :: u32
  ss_peer :: Endpoint
  ss_last_received_time :: time_point
  ss_last_sent_time :: time_point
  ss_rekey_jitter :: duration
  ss_rekey_requested :: bool
  ss_replay_window :: replay_window

definition Session_init :: Session where
  "Session_init = \<lparr>ss_send_key = zeros 32, ss_recv_key = zeros 32, ss_send_nonce = 0,
     ss_is_initiator = False, ss_created = 0, ss_sender_index = 0, ss_receiver_index = 0,
     ss_peer = \<lparr>ep_ip = IPv4_default, ep_port = 0\<rparr>, ss_last_received_time = 0,
     ss_last_sent_time = 0, ss_rekey_jitter = 0, ss_rekey_requested = False,
     ss_replay_window = ReplayWindow_init\<rparr>"

definition Session_Clear :: "Session \<Rightarrow> Session" where
  "Session_Clear s = s\<lparr>ss_send_key := zeros (length (ss_send_key s)),
     ss_recv_key := zeros (length (ss_recv_key s))\<rparr>"

definition CounterToNonce :: "u64 \<Rightarrow> bytes" where
  "CounterToNonce counter = store64_le 4 counter (zeros kNonceBytes)"

definition Seal :: "'k crypto \<Rightarrow> time_point \<Rightarrow> Session \<Rightarrow> bytes \<Rightarrow> bytes option \<times> Session" where
  "Seal lib now s plaintext =
     (let counter = ss_send_nonce s;
          s = s\<lparr>ss_send_nonce := counter + 1\<rparr> in
      if counter \<ge> kRejectAfterMessages then (None, s)
      else
        let nonce = CounterToNonce counter in
        case Encrypt lib plaintext (ss_send_key s) nonce [] of
          None \<Rightarrow> (None, s)
        | Some enc \<Rightarrow> (Some (ciphertext enc @ tag enc), s\<lparr>ss_last_sent_time := now\<rparr>))"

definition Open ::
  "'k crypto \<Rightarrow> time_point \<Rightarrow> Session \<Rightarrow> u64 \<Rightarrow> bytes \<Rightarrow> bytes option \<times> Session" where
  "Open lib now s counter ciphertext_with_tag =
     (if counter \<ge> kRejectAfterMessages then (None, s)
      else if \<not> Check (ss_replay_window s) counter then (None, s)
      else if length ciphertext_with_tag < kTagBytes then (None, s)
      else
        let ct_len = length ciphertext_with_tag - kTagBytes;
            ct = read_at 0 ct_len ciphertext_with_tag;
            tg = read_at ct_len kTagBytes ciphertext_with_tag;
            nonce = CounterToNonce counter in
        case Decrypt lib ct tg (ss_recv_key s) nonce [] of
          None \<Rightarrow> (None, s)
        | Some plaintext \<Rightarrow>
            (Some plaintext, s\<lparr>ss_replay_window := Accept (ss_replay_window s) counter,
               ss_last_received_time := now\<rparr>))"

definition IsExpired :: "time_point \<Rightarrow> Session \<Rightarrow> bool" where
  "IsExpired sys_now s \<longleftrightarrow> sys_now - ss_created s > kRejectAfterTime"

definition NeedsRekey :: "time_point \<Rightarrow> Session \<Rightarrow> bool" where
  "NeedsRekey sys_now s =
     (if ss_rekey_requested s then False
      else if sys_now - ss_created s > kRekeyAfterTime + ss_rekey_jitter s then True
      else if ss_send_nonce s \<ge> kRekeyAfterMessages then True
      else False)"

definition ShouldSendKeepalive :: "time_point \<Rightarrow> Session \<Rightarrow> bool" where
  "ShouldSendKeepalive now s =
     (if ss_last_received_time s = 0 then False
      else now - ss_last_sent_time s > kKeepaliveTimeout)"

definition CreateKeepalive :: "'k crypto \<Rightarrow> time_point \<Rightarrow> Session \<Rightarrow> bytes option \<times> Session" where
  "CreateKeepalive lib now s = Seal lib now s []"

section \<open>Nonces\<close>

lemma CounterToNonce_bytes: "CounterToNonce c = zeros 4 @ le_bytes 8 c"
proof -
  have z: "zeros kNonceBytes = zeros 4 @ zeros 8" by (simp add: kNonceBytes_def zeros_def flip: replicate_add)
  show ?thesis unfolding CounterToNonce_def store64_le_def z by (simp add: write_at_zeros del: le_bytes.simps)
qed

lemma CounterToNonce_inject: "CounterToNonce a = CounterToNonce b \<longleftrightarrow> a = b"
  using le_bytes_inject [of 8 a b] by (auto simp: CounterToNonce_bytes simp del: le_bytes.simps)

lemma length_CounterToNonce [len_simps]: "length (CounterToNonce c) = 12"
  by (simp add: CounterToNonce_bytes)

section \<open>Sealing and opening\<close>

lemma Seal_laws:
  assumes "crypto_laws lib"
  shows "Seal lib now s p =
    (if ss_send_nonce s \<ge> kRejectAfterMessages then (None, s\<lparr>ss_send_nonce := ss_send_nonce s + 1\<rparr>)
     else (Some (sealed lib (ss_send_key s) (CounterToNonce (ss_send_nonce s)) [] p),
       s\<lparr>ss_send_nonce := ss_send_nonce s + 1, ss_last_sent_time := now\<rparr>))"
  using assms by (simp add: Seal_def Let_def Encrypt_laws sealed_def)

text \<open>A packet that opens under a key, whatever made it.\<close>

definition authentic :: "'k crypto \<Rightarrow> bytes \<Rightarrow> u64 \<Rightarrow> bytes \<Rightarrow> bytes option" where
  "authentic lib key counter ct =
     (if counter \<ge> kRejectAfterMessages \<or> length ct < kTagBytes then None
      else Decrypt lib (read_at 0 (length ct - kTagBytes) ct)
        (read_at (length ct - kTagBytes) kTagBytes ct) key (CounterToNonce counter) [])"

lemma Open_authentic:
  "Open lib now s c ct =
    (if Check (ss_replay_window s) c \<and> authentic lib (ss_recv_key s) c ct \<noteq> None
     then (authentic lib (ss_recv_key s) c ct, s\<lparr>ss_replay_window := Accept (ss_replay_window s) c,
       ss_last_received_time := now\<rparr>)
     else (None, s))"
  by (auto simp: Open_def authentic_def Let_def split: option.splits)

lemma authentic_sealed:
  assumes "crypto_laws lib" and "c < kRejectAfterMessages"
  shows "authentic lib key c (sealed lib key (CounterToNonce c) [] p) = Some p"
  using assms open_sealed [OF assms(1) refl, of p key "CounterToNonce c" "[]"]
  by (simp add: authentic_def length_sealed kTagBytes_def not_le)

section \<open>Runs of a receiver\<close>

text \<open>
  A receiver is handed packets (counter, ciphertext) one after another; the result lists the
  counter and plaintext of those it delivers.
\<close>

fun open_run :: "'k crypto \<Rightarrow> time_point \<Rightarrow> Session \<Rightarrow> (u64 \<times> bytes) list \<Rightarrow> (u64 \<times> bytes) list" where
  "open_run lib now s [] = []"
| "open_run lib now s ((c, ct) # ps) =
     (case Open lib now s c ct of
        (None, s') \<Rightarrow> open_run lib now s' ps
      | (Some p, s') \<Rightarrow> (c, p) # open_run lib now s' ps)"

definition authentic_counters :: "'k crypto \<Rightarrow> bytes \<Rightarrow> (u64 \<times> bytes) list \<Rightarrow> u64 list" where
  "authentic_counters lib key ps = map fst (filter (\<lambda>(c, ct). authentic lib key c ct \<noteq> None) ps)"

text \<open>The receiver is the replay filter over the authentic packets.\<close>

lemma open_run_offer:
  "map fst (open_run lib now s ps) =
   offer Check Accept (ss_replay_window s) (authentic_counters lib (ss_recv_key s) ps)"
proof (induction ps arbitrary: s)
  case (Cons a ps)
  then show ?case
    by (cases a) (auto simp: Open_authentic authentic_counters_def split: option.splits)
qed (simp add: authentic_counters_def)

lemma open_run_authentic:
  "(c, p) \<in> set (open_run lib now s ps) \<Longrightarrow>
   \<exists>ct. (c, ct) \<in> set ps \<and> authentic lib (ss_recv_key s) c ct = Some p"
proof (induction ps arbitrary: s)
  case (Cons a ps)
  then show ?case
    by (cases a) (fastforce simp: Open_authentic split: if_splits option.splits)
qed simp

section \<open>Runs of a sender\<close>

text \<open>The packets a sender emits for a list of plaintexts, with the counter in the header.\<close>

fun seal_run :: "'k crypto \<Rightarrow> time_point \<Rightarrow> Session \<Rightarrow> bytes list \<Rightarrow> (u64 \<times> bytes) list" where
  "seal_run lib now s [] = []"
| "seal_run lib now s (p # ps) =
     (let (r, s') = Seal lib now s p in
      case r of None \<Rightarrow> seal_run lib now s' ps
      | Some ct \<Rightarrow> (ss_send_nonce s' - 1, ct) # seal_run lib now s' ps)"

lemma kReject_value: "unat kRejectAfterMessages = 18446744073709543423"
  by (simp add: kRejectAfterMessages_def push_bit_eq_mult)

lemma seal_run_packets:
  assumes "crypto_laws lib" and "unat (ss_send_nonce s) + length ps \<le> unat kRejectAfterMessages"
  shows "seal_run lib now s ps = map (\<lambda>(i, p). (ss_send_nonce s + of_nat i,
    sealed lib (ss_send_key s) (CounterToNonce (ss_send_nonce s + of_nat i)) [] p)) (enumerate 0 ps)"
  using assms(2)
proof (induction ps arbitrary: s)
  case (Cons p ps)
  let ?n = "ss_send_nonce s"
  have lt: "\<not> kRejectAfterMessages \<le> ?n" using Cons.prems by (simp add: word_le_nat_alt)
  have "unat (- 1 :: u64) = 18446744073709551615" by (simp add: unsigned_minus_1_eq_mask mask_eq_exp_minus_1)
  then have "?n \<noteq> - 1" using Cons.prems kReject_value by auto
  then have "1 + ?n \<noteq> 0" by (metis add.commute eq_neg_iff_add_eq_0)
  then have "unat (?n + 1) = Suc (unat ?n)" using unatSuc [of ?n] by (simp add: add.commute)
  then have rest: "seal_run lib now (s\<lparr>ss_send_nonce := ?n + 1, ss_last_sent_time := now\<rparr>) ps =
      map (\<lambda>(i, p). (?n + 1 + of_nat i,
        sealed lib (ss_send_key s) (CounterToNonce (?n + 1 + of_nat i)) [] p)) (enumerate 0 ps)"
    using Cons.IH [of "s\<lparr>ss_send_nonce := ?n + 1, ss_last_sent_time := now\<rparr>"] Cons.prems by simp
  have "enumerate (Suc 0) ps = map (apfst Suc) (enumerate 0 ps)" by (rule enumerate_Suc_eq)
  then show ?case
    using lt rest by (simp add: Seal_laws [OF assms(1)] case_prod_beta' comp_def ac_simps)
qed simp

text \<open>Increasing counters all pass the filter.\<close>

lemma offer_increasing:
  assumes "sorted_wrt (<) cs" and "\<forall>c \<in> set cs. rw_last w < c"
  shows "offer Check Accept w cs = cs"
  using assms
proof (induction cs arbitrary: w)
  case (Cons c cs)
  then have "Check w c" by (simp add: Check_def)
  moreover have "offer Check Accept (Accept w c) cs = cs"
    using Cons.prems by (intro Cons.IH) (auto simp: Accept_last max_def)
  ultimately show ?case by simp
qed simp

lemma offer_in_order:
  assumes "unat (0 :: u64) + n \<le> unat kRejectAfterMessages"
  shows "offer Check Accept ReplayWindow_init (map of_nat [0..<n]) = map of_nat [0..<n]"
proof (cases n)
  case (Suc m)
  have lt: "n < 2 ^ 64" using assms by (simp add: kReject_value)
  have first: "Check ReplayWindow_init 0" by (simp add: Check_def ReplayWindow_init_def kWindowSize_def)
  have l: "rw_last (Accept ReplayWindow_init 0) = 0"
    by (simp add: Accept_last) (simp add: ReplayWindow_init_def)
  have inj: "(of_nat i :: u64) < of_nat j" if "i < j" "j < n" for i j
    using that lt by (simp add: word_less_nat_alt unat_of_nat take_bit_nat_eq_self)
  have "offer Check Accept (Accept ReplayWindow_init 0) (map of_nat [1..<n]) = map of_nat [1..<n]"
  proof (rule offer_increasing)
    show "sorted_wrt (<) (map of_nat [1..<n] :: u64 list)"
      unfolding sorted_wrt_map
      by (rule sorted_wrt_mono_rel [OF _ sorted_wrt_upt]) (use inj in auto)
    show "\<forall>c \<in> set (map of_nat [1..<n]). rw_last (Accept ReplayWindow_init 0) < (c :: u64)"
      using inj [of 0] l by auto
  qed
  then show ?thesis using first by (simp add: Suc upt_conv_Cons del: upt_Suc)
qed simp

section \<open>Properties\<close>

text \<open>
  C13. Whatever packets reach a fresh session, in whatever order and however often, no counter is
  delivered twice, and every delivered plaintext is the authenticated content of a packet
  that arrived with that counter.
\<close>

theorem session_delivers_once:
  assumes "ss_replay_window s = ReplayWindow_init"
  shows "distinct (map fst (open_run lib now s ps)) \<and>
    (\<forall>(c, p) \<in> set (open_run lib now s ps).
       c < kRejectAfterMessages \<and> (\<exists>ct. (c, ct) \<in> set ps \<and> authentic lib (ss_recv_key s) c ct = Some p))"
proof -
  have "distinct (map fst (open_run lib now s ps))"
    unfolding open_run_offer assms by (rule rw.offer_distinct)
  moreover have "c < kRejectAfterMessages" if "authentic lib (ss_recv_key s) c ct = Some p" for c ct p
    using that by (auto simp: authentic_def not_le split: if_splits)
  ultimately show ?thesis using open_run_authentic by fast
qed

theorem session_delivers_once_witness:
  "distinct (map fst (open_run toy 1 Session_init
     [(3, zeros 16), (3, zeros 16), (0, zeros 16), (3, zeros 20)]))"
  using session_delivers_once [of Session_init toy 1 "[(3, zeros 16), (3, zeros 16), (0, zeros 16), (3, zeros 20)]"]
  by (simp add: Session_init_def)

text \<open>
  C12. Transport is correct end to end: when the receiver's key is the sender's, and the network
  loses, repeats and reorders packets as it likes, each plaintext delivered under counter
  \<open>i\<close> is the \<open>i\<close>-th one sent and is delivered at most once; a network that keeps the order
  and loses nothing delivers everything.
\<close>

theorem transport_correct:
  assumes laws: "crypto_laws lib" and key: "ss_recv_key r = ss_send_key s"
    and fresh: "ss_send_nonce s = 0" "ss_replay_window r = ReplayWindow_init"
    and few: "length ps \<le> unat kRejectAfterMessages"
    and net: "set ds \<subseteq> set (seal_run lib now s ps)"
  shows "(\<forall>(c, p) \<in> set (open_run lib now' r ds). unat c < length ps \<and> p = ps ! unat c) \<and>
    distinct (map fst (open_run lib now' r ds)) \<and>
    open_run lib now' r (seal_run lib now s ps) = map (\<lambda>(i, p). (of_nat i, p)) (enumerate 0 ps)"
proof -
  let ?k = "ss_send_key s"
  have sent: "seal_run lib now s ps = map (\<lambda>(i, p). (of_nat i,
      sealed lib ?k (CounterToNonce (of_nat i)) [] p)) (enumerate 0 ps)"
    using seal_run_packets [OF laws, of s ps now] few fresh(1) by simp
  have small: "unat (of_nat i :: u64) = i \<and> (of_nat i :: u64) < kRejectAfterMessages"
    if "i < length ps" for i
  proof -
    have "i < 2 ^ 64" using that few by (simp add: kReject_value)
    then have "unat (of_nat i :: u64) = i" by (simp add: unat_of_nat take_bit_nat_eq_self)
    then show ?thesis using that few by (simp add: word_less_nat_alt)
  qed
  have auth: "authentic lib ?k c ct = Some (ps ! unat c) \<and> unat c < length ps"
    if mem: "(c, ct) \<in> set (seal_run lib now s ps)" for c ct
  proof -
    obtain x where x: "x \<in> set (enumerate 0 ps)" "c = of_nat (fst x)"
      "ct = sealed lib ?k (CounterToNonce c) [] (snd x)"
      using mem by (auto simp: sent)
    then have i: "fst x < length ps" "snd x = ps ! fst x" by (simp_all add: in_set_enumerate_eq)
    then show ?thesis
      using x(2,3) small [OF i(1)] authentic_sealed [OF laws, of c ?k "snd x"] by simp
  qed
  have right: "unat c < length ps \<and> p = ps ! unat c"
    if del: "(c, p) \<in> set (open_run lib now' r ds')"
      and sub: "set ds' \<subseteq> set (seal_run lib now s ps)" for c p ds'
  proof -
    obtain ct where "(c, ct) \<in> set ds'" "authentic lib ?k c ct = Some p"
      using open_run_authentic [OF del] key by auto
    then show ?thesis using auth sub by fastforce
  qed
  have "authentic_counters lib ?k (seal_run lib now s ps) = map fst (seal_run lib now s ps)"
    unfolding authentic_counters_def using auth
    by (intro arg_cong [where f = "map fst"] filter_True) fastforce
  also have "\<dots> = map of_nat [0..<length ps]"
    by (rule nth_equalityI) (simp_all add: sent nth_enumerate_eq)
  finally have counters: "map fst (open_run lib now' r (seal_run lib now s ps)) = map of_nat [0..<length ps]"
    unfolding open_run_offer using offer_in_order [of "length ps"] few fresh(2) key by simp
  have "open_run lib now' r (seal_run lib now s ps) = map (\<lambda>i. (of_nat i, ps ! i)) [0..<length ps]"
  proof (rule nth_equalityI)
    show len: "length (open_run lib now' r (seal_run lib now s ps)) =
        length (map (\<lambda>i. (of_nat i :: u64, ps ! i)) [0..<length ps])"
      using arg_cong [OF counters, of length] by simp
    fix i assume i: "i < length (open_run lib now' r (seal_run lib now s ps))"
    obtain c p where cp: "open_run lib now' r (seal_run lib now s ps) ! i = (c, p)" by (metis surj_pair)
    have "c = of_nat i" using arg_cong [OF counters, of "\<lambda>l. l ! i"] i len cp by simp
    moreover have "p = ps ! unat c" using right [of c p] nth_mem [OF i] cp by simp
    ultimately show "open_run lib now' r (seal_run lib now s ps) ! i =
        map (\<lambda>i. (of_nat i, ps ! i)) [0..<length ps] ! i"
      using small [of i] i len cp by simp
  qed
  moreover have "map (\<lambda>i. (of_nat i :: u64, ps ! i)) [0..<length ps] =
      map (\<lambda>(i, p). (of_nat i, p)) (enumerate 0 ps)"
    by (rule nth_equalityI) (simp_all add: nth_enumerate_eq)
  moreover have "distinct (map fst (open_run lib now' r ds))"
    unfolding open_run_offer fresh(2) by (rule rw.offer_distinct)
  ultimately show ?thesis using right [OF _ net] by auto
qed

theorem transport_correct_witness:
  "open_run toy 2 Session_init (seal_run toy 1 Session_init [[1], [2], [3]]) =
     [(0, [1]), (1, [2]), (2, [3])] \<and>
   distinct (map fst (open_run toy 2 Session_init (rev (seal_run toy 1 Session_init [[1], [2], [3]]))))"
proof -
  have "ss_recv_key Session_init = ss_send_key Session_init" "ss_send_nonce Session_init = 0"
    "ss_replay_window Session_init = ReplayWindow_init"
    "length [[1], [2], [3 :: byte]] \<le> unat kRejectAfterMessages"
    by (simp_all add: Session_init_def kReject_value)
  note t = transport_correct [OF toy_crypto_laws this,
      of "rev (seal_run toy 1 Session_init [[1], [2], [3]])" 1 2]
  show ?thesis using t by (simp add: enumerate_eq_zip upt_rec)
qed

text \<open>The sender after \<open>n\<close> calls, successful or not.\<close>

definition seals :: "'k crypto \<Rightarrow> time_point \<Rightarrow> nat \<Rightarrow> Session \<Rightarrow> Session" where
  "seals lib now n s = ((\<lambda>s. snd (Seal lib now s [])) ^^ n) s"

lemma seals_state:
  assumes "crypto_laws lib"
  shows "ss_send_nonce (seals lib now n s) = ss_send_nonce s + of_nat n \<and>
    ss_send_key (seals lib now n s) = ss_send_key s"
  by (induction n) (auto simp: seals_def Seal_laws [OF assms] add.assoc)

text \<open>
  C14. The use of counters by a session that sends: call number \<open>n\<close> uses the nonce of counter \<open>n\<close>
  up to the limit \<open>2^64 - 2^13 - 1\<close>, and different counters have different nonces; from the
  limit on every call is refused. But the refused calls go on counting, and the 64-bit
  counter wraps: call \<open>2^64\<close> is accepted again and reuses the nonce of the first packet.
\<close>

theorem Seal_nonce_use:
  assumes "crypto_laws lib" and "ss_send_nonce s = 0" and "n < 2 ^ 64" and "m < 2 ^ 64"
  shows "fst (Seal lib now (seals lib now n s) p) =
      (if n < unat kRejectAfterMessages
       then Some (sealed lib (ss_send_key s) (CounterToNonce (of_nat n)) [] p) else None) \<and>
    (CounterToNonce (of_nat n) = CounterToNonce (of_nat m) \<longleftrightarrow> n = m) \<and>
    fst (Seal lib now (seals lib now (2 ^ 64) s) p) =
      Some (sealed lib (ss_send_key s) (CounterToNonce 0) [] p)"
proof -
  have v: "unat (of_nat n :: u64) = n" "unat (of_nat m :: u64) = m"
    using assms(3,4) by (simp_all add: unat_of_nat take_bit_nat_eq_self)
  have "kRejectAfterMessages \<le> (of_nat n :: u64) \<longleftrightarrow> \<not> n < unat kRejectAfterMessages"
    using v by (simp add: word_le_nat_alt not_less)
  moreover have "(of_nat n :: u64) = of_nat m \<longleftrightarrow> n = m" using v by metis
  moreover have "(of_nat (2 ^ 64) :: u64) = 0" by simp
  moreover have "\<not> kRejectAfterMessages \<le> (0 :: u64)" by (simp add: word_le_nat_alt kReject_value)
  ultimately show ?thesis
    using seals_state [OF assms(1), of now _ s] assms(2)
    by (simp add: Seal_laws [OF assms(1)] CounterToNonce_inject del: of_nat_power of_nat_numeral)
qed

theorem Seal_nonce_use_witness:
  "fst (Seal toy 1 (seals toy 1 (2 ^ 64) Session_init) [9]) = fst (Seal toy 1 Session_init [9])"
proof -
  have z: "ss_send_nonce Session_init = 0" by (simp add: Session_init_def)
  have "fst (Seal toy 1 Session_init [9]) =
      Some (sealed toy (ss_send_key Session_init) (CounterToNonce 0) [] [9])"
    by (simp add: Seal_laws [OF toy_crypto_laws] z word_le_nat_alt kReject_value)
  then show ?thesis using Seal_nonce_use [OF toy_crypto_laws z, of 0 0 1 "[9]"] by simp
qed

end
