(* ===== verification/SessionManager.thy ===== *)
theory SessionManager
  imports Session IndexTable "HOL-Library.AList"
begin

text \<open>
  \<open>core/session/session_manager.cpp\<close>: the table of sessions by sender index. The code iterates
  over the table, so it is an association list (in the unspecified order of the hash map). The
  table owns the sessions: a \<open>Session*\<close> handed out is the index of the entry it points into,
  and is dangling once that entry is gone.
\<close>

type_synonym SessionTable = "(u32 \<times> Session) list"

definition SessionManager_init :: SessionTable where
  "SessionManager_init = []"

definition sm_Lookup :: "SessionTable \<Rightarrow> u32 \<Rightarrow> Session option" where
  "sm_Lookup sessions sender_index = map_of sessions sender_index"

definition sm_Remove :: "SessionTable \<Rightarrow> u32 \<Rightarrow> SessionTable" where
  "sm_Remove sessions sender_index = AList.delete sender_index sessions"

text \<open>
  \<open>jitter_raw\<close> is what \<open>RAND_bytes\<close> leaves in the variable (0 when it fails).
\<close>

definition CreateSession ::
  "time_point \<Rightarrow> u32 \<Rightarrow> SessionTable \<Rightarrow> SessionSecrets \<Rightarrow> Endpoint \<Rightarrow> u32 option \<times> SessionTable" where
  "CreateSession sys_now jitter_raw sessions secrets peer =
     (let session = Session_init\<lparr>ss_send_key := sec_send_key secrets,
            ss_recv_key := sec_recv_key secrets, ss_sender_index := sec_sender_index secrets,
            ss_receiver_index := sec_receiver_index secrets,
            ss_is_initiator := sec_is_initiator secrets, ss_created := sys_now, ss_peer := peer,
            ss_rekey_jitter := chrono_milliseconds (uint (jitter_raw mod 334))\<rparr> in
      (Some (sec_sender_index secrets), AList.update (sec_sender_index secrets) session sessions))"

definition ActivateSession ::
  "time_point \<Rightarrow> u32 \<Rightarrow> SessionTable \<Rightarrow> SessionSecrets \<Rightarrow> Endpoint \<Rightarrow> u32 option \<times> SessionTable" where
  "ActivateSession sys_now jitter_raw sessions secrets peer =
     (let send_zero = all_zero (sec_send_key secrets);
          recv_zero = all_zero (sec_recv_key secrets) in
      if send_zero \<or> recv_zero then (None, sessions)
      else CreateSession sys_now jitter_raw sessions secrets peer)"

definition TransitionSession ::
  "time_point \<Rightarrow> u32 \<Rightarrow> SessionTable \<Rightarrow> u32 \<Rightarrow> SessionSecrets \<Rightarrow> Endpoint \<Rightarrow>
   u32 option \<times> SessionTable" where
  "TransitionSession sys_now jitter_raw sessions old_sender_index new_secrets peer =
     (let (new_session, sessions) = ActivateSession sys_now jitter_raw sessions new_secrets peer in
      case new_session of
        None \<Rightarrow> (None, sessions)
      | Some s \<Rightarrow> (Some s, sm_Remove sessions old_sender_index))"

text \<open>\<open>draws\<close> as for \<open>NewIndex\<close>: \<open>None\<close> is a call still looping when they run out.\<close>

definition GenerateSenderIndex :: "SessionTable \<Rightarrow> u32 option list \<Rightarrow> u32 option" where
  "GenerateSenderIndex sessions draws = draw_index (\<lambda>i. sm_Lookup sessions i \<noteq> None) draws"

definition GetSessionCount :: "SessionTable \<Rightarrow> nat" where
  "GetSessionCount sessions = length sessions"

definition CheckRekeys :: "time_point \<Rightarrow> SessionTable \<Rightarrow> u32 list" where
  "CheckRekeys sys_now sessions = map fst (filter (\<lambda>(index, session). NeedsRekey sys_now session) sessions)"

definition SweepExpired :: "time_point \<Rightarrow> SessionTable \<Rightarrow> nat \<times> SessionTable" where
  "SweepExpired sys_now sessions =
     (length (filter (\<lambda>(index, session). IsExpired sys_now session) sessions),
      filter (\<lambda>(index, session). \<not> IsExpired sys_now session) sessions)"

definition GetKeepaliveDue :: "time_point \<Rightarrow> SessionTable \<Rightarrow> u32 list" where
  "GetKeepaliveDue now sessions =
     map fst (filter (\<lambda>(index, session). ShouldSendKeepalive now session) sessions)"

interpretation sm: keyed_store SessionManager_init sm_Lookup "\<lambda>t k v. AList.update k v t" sm_Remove
  by unfold_locales
    (simp_all add: SessionManager_init_def sm_Lookup_def sm_Remove_def update_conv' delete_conv')

section \<open>The invariant\<close>

text \<open>
  One entry per index, every session under its own index, no all-zero key, jitter below its
  bound.
\<close>

definition session_ok :: "Session \<Rightarrow> bool" where
  "session_ok s \<longleftrightarrow> \<not> all_zero (ss_send_key s) \<and> \<not> all_zero (ss_recv_key s) \<and>
     0 \<le> ss_rekey_jitter s \<and> ss_rekey_jitter s < kRekeyTimeoutJitterMax \<and> \<not> ss_rekey_requested s"

definition table_ok :: "SessionTable \<Rightarrow> bool" where
  "table_ok t \<longleftrightarrow> distinct (map fst t) \<and>
     (\<forall>(i, s) \<in> set t. ss_sender_index s = i \<and> session_ok s)"

lemma table_ok_init: "table_ok SessionManager_init"
  by (simp add: table_ok_def SessionManager_init_def)

lemma table_ok_Remove: "table_ok t \<Longrightarrow> table_ok (sm_Remove t i)"
  unfolding table_ok_def sm_Remove_def
  by (auto simp: AList.delete_eq distinct_map_filter)

lemma table_ok_Sweep: "table_ok t \<Longrightarrow> table_ok (snd (SweepExpired now t))"
  by (auto simp: table_ok_def SweepExpired_def distinct_map_filter)

lemma jitter_bound: "0 \<le> chrono_milliseconds (uint (r mod 334 :: u32)) \<and>
  chrono_milliseconds (uint (r mod 334 :: u32)) < kRekeyTimeoutJitterMax"
proof -
  have "uint (r mod 334) = uint r mod 334" by (simp add: uint_mod_distrib)
  then show ?thesis by (simp add: chrono_milliseconds_def kRekeyTimeoutJitterMax_def)
qed

lemma set_update: "set (AList.update k v t) \<subseteq> insert (k, v) (set t)"
  by (induction t) auto

definition new_session :: "time_point \<Rightarrow> u32 \<Rightarrow> SessionSecrets \<Rightarrow> Endpoint \<Rightarrow> Session" where
  "new_session sys_now r sec peer = Session_init\<lparr>ss_send_key := sec_send_key sec,
     ss_recv_key := sec_recv_key sec, ss_sender_index := sec_sender_index sec,
     ss_receiver_index := sec_receiver_index sec, ss_is_initiator := sec_is_initiator sec,
     ss_created := sys_now, ss_peer := peer,
     ss_rekey_jitter := chrono_milliseconds (uint (r mod 334))\<rparr>"

definition usable :: "SessionSecrets \<Rightarrow> bool" where
  "usable sec \<longleftrightarrow> \<not> all_zero (sec_send_key sec) \<and> \<not> all_zero (sec_recv_key sec)"

lemma ActivateSession_eq:
  "ActivateSession sys_now r t sec peer =
    (if usable sec then (Some (sec_sender_index sec),
       AList.update (sec_sender_index sec) (new_session sys_now r sec peer) t)
     else (None, t))"
  by (simp add: ActivateSession_def CreateSession_def usable_def new_session_def Let_def)

lemma new_session_ok: "usable sec \<Longrightarrow> session_ok (new_session sys_now r sec peer)"
  using jitter_bound [of r] by (simp add: session_ok_def usable_def new_session_def Session_init_def)

lemma table_ok_Activate: "table_ok t \<Longrightarrow> table_ok (snd (ActivateSession sys_now r t sec peer))"
  using set_update [of "sec_sender_index sec" "new_session sys_now r sec peer" t]
  by (auto simp: ActivateSession_eq table_ok_def distinct_update new_session_ok)
    (auto simp: new_session_def)

lemma table_ok_Transition:
  "table_ok t \<Longrightarrow> table_ok (snd (TransitionSession sys_now r t old sec peer))"
  using table_ok_Activate [of t sys_now r sec peer]
  by (auto simp: TransitionSession_def table_ok_Remove split: prod.splits option.splits)

text \<open>\<open>Seal\<close> and \<open>Open\<close> on a session of the table keep it too.\<close>

lemma session_ok_Seal: "session_ok s \<Longrightarrow> session_ok (snd (Seal lib now s p))"
  by (simp add: Seal_def Let_def session_ok_def split: option.split)

lemma session_ok_Open: "session_ok s \<Longrightarrow> session_ok (snd (Open lib now s c ct))"
  by (simp add: Open_authentic session_ok_def)

lemma index_Seal [simp]: "ss_sender_index (snd (Seal lib now s p)) = ss_sender_index s"
  by (simp add: Seal_def Let_def split: option.split)

lemma index_Open [simp]: "ss_sender_index (snd (Open lib now s c ct)) = ss_sender_index s"
  by (simp add: Open_authentic)

definition sm_store :: "SessionTable \<Rightarrow> u32 \<Rightarrow> Session \<Rightarrow> SessionTable" where
  "sm_store t i s = AList.update i s t"

lemma table_ok_store:
  "table_ok t \<Longrightarrow> ss_sender_index s = i \<Longrightarrow> session_ok s \<Longrightarrow> table_ok (sm_store t i s)"
  using set_update [of i s t] by (auto simp: table_ok_def sm_store_def distinct_update)

lemma table_ok_Lookup: "table_ok t \<Longrightarrow> sm_Lookup t i = Some s \<Longrightarrow> ss_sender_index s = i \<and> session_ok s"
  by (auto simp: table_ok_def sm_Lookup_def dest!: map_of_SomeD)

section \<open>Sweeping\<close>

lemma sm_Lookup_Sweep:
  assumes "table_ok t"
  shows "sm_Lookup (snd (SweepExpired now t)) i =
    (case sm_Lookup t i of None \<Rightarrow> None | Some s \<Rightarrow> if IsExpired now s then None else Some s)"
proof -
  have "map_of (filter (\<lambda>(j, s). \<not> P s) t) i =
      (case map_of t i of None \<Rightarrow> None | Some s \<Rightarrow> if P s then None else Some s)"
    if "distinct (map fst t)" for P
    using that by (induction t) (auto split: option.splits simp: map_of_eq_None_iff)
  then show ?thesis using assms by (simp add: table_ok_def SweepExpired_def sm_Lookup_def)
qed

lemma rekey_before_expiry:
  assumes "session_ok s" and "IsExpired now s" shows "NeedsRekey now s"
  using assms
  by (simp add: session_ok_def IsExpired_def NeedsRekey_def kRejectAfterTime_def kRekeyAfterTime_def
      kRekeyTimeoutJitterMax_def chrono_seconds_def chrono_milliseconds_def)

section \<open>Properties\<close>

text \<open>The operations of the table, as one call.\<close>

datatype sm_call =
    Activate SessionSecrets Endpoint u32
  | Transition u32 SessionSecrets Endpoint u32
  | Remove_index u32
  | Sweep
  | Seal_on u32 bytes
  | Open_on u32 u64 bytes

fun sm_apply :: "'k crypto \<Rightarrow> time_point \<Rightarrow> SessionTable \<Rightarrow> sm_call \<Rightarrow> SessionTable" where
  "sm_apply lib now t (Activate sec peer r) = snd (ActivateSession now r t sec peer)"
| "sm_apply lib now t (Transition old sec peer r) = snd (TransitionSession now r t old sec peer)"
| "sm_apply lib now t (Remove_index i) = sm_Remove t i"
| "sm_apply lib now t Sweep = snd (SweepExpired now t)"
| "sm_apply lib now t (Seal_on i p) =
     (case sm_Lookup t i of None \<Rightarrow> t | Some s \<Rightarrow> sm_store t i (snd (Seal lib now s p)))"
| "sm_apply lib now t (Open_on i c ct) =
     (case sm_Lookup t i of None \<Rightarrow> t | Some s \<Rightarrow> sm_store t i (snd (Open lib now s c ct)))"

lemma table_ok_apply: "table_ok t \<Longrightarrow> table_ok (sm_apply lib now t c)"
  by (cases c) (auto simp: table_ok_Activate table_ok_Transition table_ok_Remove table_ok_Sweep
      split: option.split intro!: table_ok_store session_ok_Seal session_ok_Open dest: table_ok_Lookup)

definition sm_history :: "'k crypto \<Rightarrow> (time_point \<times> sm_call) list \<Rightarrow> SessionTable" where
  "sm_history lib calls = foldl (\<lambda>t (now, c). sm_apply lib now t c) SessionManager_init calls"

lemma sm_history_ok: "table_ok (sm_history lib calls)"
proof -
  have "table_ok t \<Longrightarrow> table_ok (foldl (\<lambda>t (now, c). sm_apply lib now t c) t calls)" for t
    by (induction calls arbitrary: t) (auto simp: table_ok_apply)
  then show ?thesis by (simp add: sm_history_def table_ok_init)
qed

text \<open>
  C15. The session table stays well formed over every history of calls: one session per index,
  each filed under its own index, none with an all-zero key, jitter below its bound. So a
  session asks for a rekey no later than it expires, and sweeping removes exactly the expired
  sessions and reports their number.
\<close>

theorem session_table_wellformed:
  "table_ok (sm_history lib calls) \<and>
   (\<forall>i. sm_Lookup (snd (SweepExpired now (sm_history lib calls))) i =
     (case sm_Lookup (sm_history lib calls) i of None \<Rightarrow> None
      | Some s \<Rightarrow> if IsExpired now s then None else Some s)) \<and>
   fst (SweepExpired now (sm_history lib calls)) + GetSessionCount (snd (SweepExpired now (sm_history lib calls)))
     = GetSessionCount (sm_history lib calls) \<and>
   {i. \<exists>s. sm_Lookup (sm_history lib calls) i = Some s \<and> IsExpired now s}
     \<subseteq> set (CheckRekeys now (sm_history lib calls))"
proof (intro conjI allI)
  let ?t = "sm_history lib calls"
  note ok = sm_history_ok [of lib calls]
  show "table_ok ?t" by (rule ok)
  show "sm_Lookup (snd (SweepExpired now ?t)) i = (case sm_Lookup ?t i of None \<Rightarrow> None
      | Some s \<Rightarrow> if IsExpired now s then None else Some s)" for i
    by (rule sm_Lookup_Sweep [OF ok])
  have c: "filter (\<lambda>(i, s). \<not> IsExpired now s) ?t =
      filter (\<lambda>x. \<not> (case x of (i, s) \<Rightarrow> IsExpired now s)) ?t"
    by (rule filter_cong) auto
  show "fst (SweepExpired now ?t) + GetSessionCount (snd (SweepExpired now ?t)) = GetSessionCount ?t"
    unfolding SweepExpired_def GetSessionCount_def fst_conv snd_conv c
    by (rule sum_length_filter_compl)
  show "{i. \<exists>s. sm_Lookup ?t i = Some s \<and> IsExpired now s} \<subseteq> set (CheckRekeys now ?t)"
  proof
    fix i assume "i \<in> {i. \<exists>s. sm_Lookup ?t i = Some s \<and> IsExpired now s}"
    then obtain s where s: "sm_Lookup ?t i = Some s" "IsExpired now s" by blast
    then have "NeedsRekey now s" using table_ok_Lookup [OF ok] rekey_before_expiry by blast
    moreover have "(i, s) \<in> set ?t" using s(1) by (auto simp: sm_Lookup_def dest: map_of_SomeD)
    ultimately show "i \<in> set (CheckRekeys now ?t)" by (force simp: CheckRekeys_def)
  qed
qed

text \<open>
  C16. Activating a session: secrets with an all-zero key are refused and change nothing; other
  secrets are filed under their index with a zero counter and an empty replay window, and
  every other session stays. A transition then removes the old session, so the new one is
  reachable under its index exactly if that differs from the old one: with the same index
  the pointer returned is dangling.
\<close>

theorem session_activation:
  "ActivateSession now r t sec peer =
     (if usable sec then (Some (sec_sender_index sec), sm_store t (sec_sender_index sec) (new_session now r sec peer))
      else (None, t)) \<and>
   (let (res, t') = TransitionSession now r t old sec peer in
     (res = None \<longleftrightarrow> \<not> usable sec) \<and>
     (\<forall>i. sm_Lookup t' i =
       (if \<not> usable sec then sm_Lookup t i
        else if i = old then None
        else if i = sec_sender_index sec then Some (new_session now r sec peer)
        else sm_Lookup t i))) \<and>
   ss_send_nonce (new_session now r sec peer) = 0 \<and>
   ss_replay_window (new_session now r sec peer) = ReplayWindow_init"
  by (simp add: ActivateSession_eq TransitionSession_def sm_store_def sm.look_put sm.look_del)
    (simp add: new_session_def Session_init_def)

end
