(* ===== verification/SipHash.thy ===== *)
theory SipHash
  imports BitUtils
begin

text \<open>
  \<open>core/cryptography/siphash.hpp\<close> and \<open>siphash.cpp\<close>: SipHash with \<open>c\<close> compression and \<open>d\<close>
  finalisation rounds, the hasher of the index and session tables, and its equivalence to
  the algorithm as published: the padded message absorbed word by word.
\<close>

definition kMagicNumber0 :: u64 where "kMagicNumber0 = 0x736f6d6570736575"
definition kMagicNumber1 :: u64 where "kMagicNumber1 = 0x646f72616e646f6d"
definition kMagicNumber2 :: u64 where "kMagicNumber2 = 0x6c7967656e657261"
definition kMagicNumber3 :: u64 where "kMagicNumber3 = 0x7465646279746573"

record sip_state =
  v0 :: u64
  v1 :: u64
  v2 :: u64
  v3 :: u64

definition SipRound :: "sip_state \<Rightarrow> sip_state" where
  "SipRound s =
     (let s = s\<lparr>v0 := v0 s + v1 s\<rparr>;
          s = s\<lparr>v2 := v2 s + v3 s\<rparr>;
          s = s\<lparr>v1 := word_rotl 13 (v1 s)\<rparr>;
          s = s\<lparr>v3 := word_rotl 16 (v3 s)\<rparr>;
          s = s\<lparr>v1 := v1 s XOR v0 s\<rparr>;
          s = s\<lparr>v3 := v3 s XOR v2 s\<rparr>;
          s = s\<lparr>v0 := word_rotl 32 (v0 s)\<rparr>;
          s = s\<lparr>v2 := v2 s + v1 s\<rparr>;
          s = s\<lparr>v0 := v0 s + v3 s\<rparr>;
          s = s\<lparr>v1 := word_rotl 17 (v1 s)\<rparr>;
          s = s\<lparr>v3 := word_rotl 21 (v3 s)\<rparr>;
          s = s\<lparr>v1 := v1 s XOR v2 s\<rparr>;
          s = s\<lparr>v3 := v3 s XOR v0 s\<rparr> in
      s\<lparr>v2 := word_rotl 32 (v2 s)\<rparr>)"

definition sip_rounds :: "nat \<Rightarrow> sip_state \<Rightarrow> sip_state" where
  "sip_rounds n s = (SipRound ^^ n) s"

text \<open>The loop over the full blocks, from block \<open>i\<close> on.\<close>

fun block_loop :: "nat \<Rightarrow> bytes \<Rightarrow> nat \<Rightarrow> nat \<Rightarrow> sip_state \<Rightarrow> sip_state" where
  "block_loop c data i 0 s = s"
| "block_loop c data i (Suc n) s =
     (let mi = load64_le (i * 8) data;
          s = s\<lparr>v3 := v3 s XOR mi\<rparr>;
          s = sip_rounds c s in
      block_loop c data (i + 1) n (s\<lparr>v0 := v0 s XOR mi\<rparr>))"

fun tail_loop :: "nat \<Rightarrow> bytes \<Rightarrow> u64 \<Rightarrow> u64" where
  "tail_loop i [] acc = acc"
| "tail_loop i (b # bs) acc = tail_loop (i + 1) bs (acc OR push_bit (i * 8) (ucast b))"

definition sip_init :: "bytes \<Rightarrow> sip_state" where
  "sip_init key =
     (let k0 = load64_le 0 key; k1 = load64_le 8 key in
      \<lparr>v0 = kMagicNumber0 XOR k0, v1 = kMagicNumber1 XOR k1, v2 = kMagicNumber2 XOR k0,
       v3 = kMagicNumber3 XOR k1\<rparr>)"

definition SipHash :: "nat \<Rightarrow> nat \<Rightarrow> bytes \<Rightarrow> bytes \<Rightarrow> u64" where
  "SipHash c d key data =
     (let s = sip_init key;
          msgLen = length data;
          fullBlocks = msgLen div 8;
          s = block_loop c data 0 fullBlocks s;
          final = push_bit 56 (of_nat msgLen AND 0xFF);
          remaining = msgLen mod 8;
          tail = drop (fullBlocks * 8) data;
          final = tail_loop 0 (take remaining tail) final;
          s = s\<lparr>v3 := v3 s XOR final\<rparr>;
          s = sip_rounds c s;
          s = s\<lparr>v0 := v0 s XOR final\<rparr>;
          s = s\<lparr>v2 := v2 s XOR 0xFF\<rparr>;
          s = sip_rounds d s in
      v0 s XOR v1 s XOR v2 s XOR v3 s)"

definition SipHash24 :: "bytes \<Rightarrow> bytes \<Rightarrow> u64" where
  "SipHash24 key data = SipHash 2 4 key data"

definition NormalizeKey :: "bytes \<Rightarrow> bytes" where
  "NormalizeKey input = (let len = min (length input) 16 in write_at 0 (take len input) (zeros 16))"

text \<open>The hashers of the index table and of the session table.\<close>

definition IndexTableHasher :: "bytes \<Rightarrow> u32 \<Rightarrow> u64" where
  "IndexTableHasher key index = (let data = le_bytes 4 index in SipHash24 key data)"

definition SipHasher :: "bytes \<Rightarrow> u32 \<Rightarrow> u64" where
  "SipHasher key index = (let buf = le_bytes 4 index in SipHash24 key buf)"

section \<open>The published algorithm\<close>

text \<open>
  SipHash-c-d of Aumasson and Bernstein, written down on its own: four words, the key against the constant
  \<open>somepseudorandomlygeneratedbytes\<close>, a round of two half rounds that add, rotate and exclusive-or two pairs.
  Nothing of the code's state, constants or round is used.
\<close>

type_synonym sip_quad = "u64 \<times> u64 \<times> u64 \<times> u64"

definition sip_half_round :: "nat \<Rightarrow> nat \<Rightarrow> sip_quad \<Rightarrow> sip_quad" where
  "sip_half_round r t q = (case q of (a, b, c, d) \<Rightarrow>
     (word_rotl 32 (a + b), word_rotl r b XOR (a + b), c + d, word_rotl t d XOR (c + d)))"

definition swap_pairs :: "sip_quad \<Rightarrow> sip_quad" where
  "swap_pairs q = (case q of (a, b, c, d) \<Rightarrow> (c, b, a, d))"

definition published_round :: "sip_quad \<Rightarrow> sip_quad" where
  "published_round q = swap_pairs (sip_half_round 17 21 (swap_pairs (sip_half_round 13 16 q)))"

definition be_word :: "byte list \<Rightarrow> u64" where
  "be_word bs = foldl (\<lambda>w b. push_bit 8 w OR ucast b) 0 bs"

definition published_init :: "bytes \<Rightarrow> sip_quad" where
  "published_init key =
     (let k0 = le_word (take 8 key); k1 = le_word (take 8 (drop 8 key));
          w = map (\<lambda>c. of_nat (of_char c)) ''somepseudorandomlygeneratedbytes'' in
      (k0 XOR be_word (take 8 w), k1 XOR be_word (take 8 (drop 8 w)),
       k0 XOR be_word (take 8 (drop 16 w)), k1 XOR be_word (drop 24 w)))"

text \<open>The message is padded with zeros to a byte less than whole words, the last byte is its length modulo 256.\<close>

definition sip_pad :: "bytes \<Rightarrow> bytes" where
  "sip_pad m = m @ zeros (7 - length m mod 8) @ [of_nat (length m)]"

definition sip_words :: "bytes \<Rightarrow> u64 list" where
  "sip_words m = map (\<lambda>i. le_word (read_at (8 * i) 8 m)) [0..<length m div 8]"

definition published_word :: "nat \<Rightarrow> u64 \<Rightarrow> sip_quad \<Rightarrow> sip_quad" where
  "published_word c m q = (case q of (a, b, x, d) \<Rightarrow>
     case (published_round ^^ c) (a, b, x, d XOR m) of (a, b, x, d) \<Rightarrow> (a XOR m, b, x, d))"

definition siphash_spec :: "nat \<Rightarrow> nat \<Rightarrow> bytes \<Rightarrow> bytes \<Rightarrow> u64" where
  "siphash_spec c d key m =
     (case fold (published_word c) (sip_words (sip_pad m)) (published_init key) of (a, b, x, y) \<Rightarrow>
      case (published_round ^^ d) (a, b, x XOR 0xFF, y) of (a, b, x, y) \<Rightarrow> a XOR b XOR x XOR y)"

section \<open>The code's words and rounds are the published ones\<close>

fun quad_of :: "sip_state \<Rightarrow> sip_quad" where
  "quad_of s = (v0 s, v1 s, v2 s, v3 s)"

lemma SipRound_published: "quad_of (SipRound s) = published_round (quad_of s)"
  by (simp add: SipRound_def published_round_def sip_half_round_def swap_pairs_def Let_def)

lemma sip_rounds_published: "quad_of (sip_rounds n s) = (published_round ^^ n) (quad_of s)"
  unfolding sip_rounds_def by (induction n) (simp_all only: funpow.simps comp_apply id_apply SipRound_published)

lemma magic_published:
  "be_word (take 8 (map (\<lambda>c. of_nat (of_char c)) ''somepseudorandomlygeneratedbytes'')) = kMagicNumber0"
  "be_word (take 8 (drop 8 (map (\<lambda>c. of_nat (of_char c)) ''somepseudorandomlygeneratedbytes''))) = kMagicNumber1"
  "be_word (take 8 (drop 16 (map (\<lambda>c. of_nat (of_char c)) ''somepseudorandomlygeneratedbytes''))) = kMagicNumber2"
  "be_word (drop 24 (map (\<lambda>c. of_nat (of_char c)) ''somepseudorandomlygeneratedbytes'')) = kMagicNumber3"
  by code_simp+

lemma sip_init_published: "quad_of (sip_init key) = published_init key"
  unfolding published_init_def Let_def magic_published
  by (simp add: sip_init_def load64_le_def read_at_def xor.commute Let_def)

definition sip_absorb :: "nat \<Rightarrow> u64 \<Rightarrow> sip_state \<Rightarrow> sip_state" where
  "sip_absorb c m s = (let s = sip_rounds c (s\<lparr>v3 := v3 s XOR m\<rparr>) in s\<lparr>v0 := v0 s XOR m\<rparr>)"

definition sip_finish :: "nat \<Rightarrow> sip_state \<Rightarrow> u64" where
  "sip_finish d s = (let s = sip_rounds d (s\<lparr>v2 := v2 s XOR 0xFF\<rparr>) in v0 s XOR v1 s XOR v2 s XOR v3 s)"

lemma sip_absorb_published: "quad_of (sip_absorb c m s) = published_word c m (quad_of s)"
  using sip_rounds_published [of c "s\<lparr>v3 := v3 s XOR m\<rparr>"]
  by (auto simp: sip_absorb_def published_word_def Let_def split: prod.split)

lemma sip_fold_published: "quad_of (fold (sip_absorb c) ms s) = fold (published_word c) ms (quad_of s)"
  by (induction ms arbitrary: s) (simp_all add: sip_absorb_published del: quad_of.simps)

lemma sip_finish_published:
  "sip_finish d s = (case quad_of s of (a, b, x, y) \<Rightarrow>
     case (published_round ^^ d) (a, b, x XOR 0xFF, y) of (a, b, x, y) \<Rightarrow> a XOR b XOR x XOR y)"
  using sip_rounds_published [of d "s\<lparr>v2 := v2 s XOR 0xFF\<rparr>"]
  by (auto simp: sip_finish_def Let_def split: prod.split)

lemma sip_run_published:
  "sip_finish d (fold (sip_absorb c) (sip_words (sip_pad m)) (sip_init key)) = siphash_spec c d key m"
  unfolding sip_finish_published siphash_spec_def sip_fold_published sip_init_published ..

section \<open>The streaming code\<close>

lemma length_sip_pad: "length (sip_pad m) = 8 * (length m div 8 + 1)"
  by (simp add: sip_pad_def) presburger

lemma le_word_append:
  "8 * length xs \<le> LENGTH('a) \<Longrightarrow>
   (le_word (xs @ ys) :: 'a::len word) = le_word xs OR push_bit (8 * length xs) (le_word ys)"
proof (induction xs)
  case (Cons x xs)
  then show ?case by (simp add: push_bit_or or.assoc)
qed simp

lemma le_word_zeros: "le_word (zeros n @ ys) = push_bit (8 * n) (le_word ys)"
  by (induction n) (simp_all add: zeros_def)

lemma tail_loop_word: "tail_loop i bs acc = acc OR push_bit (8 * i) (le_word bs)"
  by (induction i bs acc rule: tail_loop.induct) (simp_all add: push_bit_or or.assoc mult.commute add.commute)

lemma length_byte_word: "(of_nat n AND 0xFF :: u64) = ucast (of_nat n :: byte)"
proof -
  have "(0xFF :: u64) = mask 8" by (simp add: mask_eq_exp_minus_1)
  then have "(of_nat n AND 0xFF :: u64) = take_bit 8 (of_nat n)" by (simp only: take_bit_eq_mask)
  also have "\<dots> = ucast (of_nat n :: byte)"
    by (rule bit_word_eqI) (auto simp: bit_simps)
  finally show ?thesis .
qed

lemma final_block:
  "tail_loop 0 (drop (length m div 8 * 8) m) (push_bit 56 (of_nat (length m) AND 0xFF)) =
   le_word (read_at (8 * (length m div 8)) 8 (sip_pad m))"
proof -
  let ?k = "length m div 8" and ?r = "length m mod 8"
  let ?t = "drop (?k * 8) m"
  have t: "length ?t = ?r" by (simp add: minus_mult_div_eq_mod mult.commute)
  have r: "?r < 8" by simp
  have block: "read_at (8 * ?k) 8 (sip_pad m) = ?t @ zeros (7 - ?r) @ [of_nat (length m)]"
    using t r by (simp add: read_at_def sip_pad_def mult.commute)
  have "(le_word (?t @ zeros (7 - ?r) @ [of_nat (length m)]) :: u64) =
      le_word ?t OR push_bit (8 * ?r) (push_bit (8 * (7 - ?r)) (ucast (of_nat (length m) :: byte)))"
    using r t by (subst le_word_append) (simp_all add: le_word_zeros)
  also have "push_bit (8 * ?r) (push_bit (8 * (7 - ?r)) (ucast (of_nat (length m) :: byte))) =
      (push_bit 56 (of_nat (length m) AND 0xFF) :: u64)"
  proof -
    have "8 * ?r + 8 * (7 - ?r) = 56" using r by simp
    then show ?thesis by (simp only: push_bit_push_bit length_byte_word)
  qed
  finally show ?thesis unfolding block tail_loop_word by (simp only: or.commute mult_0_right push_bit_of_0 push_bit_0_id id_apply)
qed

lemma block_loop_fold:
  assumes "8 * (i + n) \<le> length m"
  shows "block_loop c m i n s = fold (sip_absorb c) (map (\<lambda>j. le_word (read_at (8 * j) 8 m)) [i..<i + n]) s"
  using assms
proof (induction n arbitrary: i s)
  case (Suc n)
  have "[i..<i + Suc n] = i # [i + 1..<i + 1 + n]" by (simp add: upt_conv_Cons)
  then show ?case
    using Suc.IH [of "i + 1"] Suc.prems
    by (simp add: sip_absorb_def load64_le_def Let_def mult.commute del: upt_Suc)
qed simp

lemma SipHash_spec: "SipHash c d key m = siphash_spec c d key m"
proof -
  let ?k = "length m div 8"
  have len: "length (sip_pad m) div 8 = ?k + 1" by (simp add: length_sip_pad)
  have full: "map (\<lambda>i. le_word (read_at (8 * i) 8 (sip_pad m))) [0..<?k] =
      map (\<lambda>i. le_word (read_at (8 * i) 8 m) :: u64) [0..<?k]"
    by (auto simp: sip_pad_def read_at_def)
  then have words: "sip_words (sip_pad m) = map (\<lambda>i. le_word (read_at (8 * i) 8 m)) [0..<?k] @
      [le_word (read_at (8 * ?k) 8 (sip_pad m))]"
    by (simp add: sip_words_def len)
  have tail: "take (length m mod 8) (drop (?k * 8) m) = drop (?k * 8) m"
    by (simp add: minus_mult_div_eq_mod mult.commute)
  have blocks: "block_loop c m 0 ?k s = fold (sip_absorb c)
      (map (\<lambda>j. le_word (read_at (8 * j) 8 m)) [0..<?k]) s" for s
    using block_loop_fold [of 0 ?k m c s] by simp
  show ?thesis
    unfolding SipHash_def Let_def tail final_block blocks sip_run_published [symmetric] words
    by (simp add: sip_absorb_def sip_finish_def Let_def)
qed

text \<open>The example in the paper's appendix: the key 00..0f and the message 00..0e, round by round.\<close>

lemma rotl64: "n < 64 \<Longrightarrow> word_rotl n (w :: u64) = push_bit n w OR drop_bit (64 - n) w"
proof (rule bit_word_eqI)
  fix k assume "n < 64" "k < LENGTH(64)"
  then show "bit (word_rotl n w) k \<longleftrightarrow> bit (push_bit n w OR drop_bit (64 - n) w) k"
    using bit_imp_le_length [of w "k + 64 - n"]
    by (cases "k < n") (auto simp: bit_simps mod_if add.commute [of 64 k])
qed

lemma example_rounds:
  "published_round (0x7469686173716475, 0x6b617f6d656e6665, 0x6b7f62616d677361, 0x7c6d6c6a717c6d7b) =
     (0x64668a929363847f, 0x4ed232083d9aa8dc, 0xf2f74892d8141a2e, 0x9290f9810552f4a8)"
  "published_round (0x64668a929363847f, 0x4ed232083d9aa8dc, 0xf2f74892d8141a2e, 0x9290f9810552f4a8) =
     (0x4d07749cdd0858e0, 0xd52f6f62a4f59a4, 0x634cb3577b01fd3d, 0xa5224d6f55c7d9c8)"
  "published_round (0x4a017198de0a59e0, 0xd52f6f62a4f59a4, 0x634cb3577b01fd3d, 0xaa2c40635ecdd0c0) =
     (0x557560fb6063d060, 0x4c8e675bd961133e, 0xbd3d002b1703a181, 0xfb9441179a4a7315)"
  "published_round (0x557560fb6063d060, 0x4c8e675bd961133e, 0xbd3d002b1703a181, 0xfb9441179a4a7315) =
     (0x338bbea7645fb759, 0x414fc3fb98efe374, 0xccf13ea527b9f4bd, 0x5293f5da84008f82)"
  "published_round (0x3c85b3ab6f55be51, 0x414fc3fb98efe374, 0xccf13ea527b9f442, 0x5293f5da84008f82) =
     (0xf2a55244a20e48fe, 0xac5ad16ccc3ca6e4, 0x9fe5adb0a52f393a, 0xfd41d55e88f30308)"
  "published_round (0xf2a55244a20e48fe, 0xac5ad16ccc3ca6e4, 0x9fe5adb0a52f393a, 0xfd41d55e88f30308) =
     (0xb6c3fbdecc2ae4b4, 0x1638c86adc6b3cf0, 0x28b8b6ab62553d46, 0xc9465e86ec43eb95)"
  "published_round (0xb6c3fbdecc2ae4b4, 0x1638c86adc6b3cf0, 0x28b8b6ab62553d46, 0xc9465e86ec43eb95) =
     (0x58101b167209a5e6, 0xf8792ae75b66e7dd, 0x1da14c3ec7f0b4f7, 0x7624ba8a41bc4ad9)"
  "published_round (0x58101b167209a5e6, 0xf8792ae75b66e7dd, 0x1da14c3ec7f0b4f7, 0x7624ba8a41bc4ad9) =
     (0xf6bcd53893fecff1, 0x54b9964c7ea0d937, 0x1b38329c099bb55a, 0x1814bb89ad7be679)"
  by (simp_all add: published_round_def sip_half_round_def swap_pairs_def rotl64)

lemma example_words:
  "sip_words (sip_pad (map of_nat [0..<15])) = [0x706050403020100, 0xf0e0d0c0b0a0908]"
  "published_init (map of_nat [0..<16]) =
     (0x7469686173716475, 0x6b617f6d656e6665, 0x6b7f62616d677361, 0x7b6b696e727e6c7b)"
  by code_simp+

lemma published_example: "siphash_spec 2 4 (map of_nat [0..<16]) (map of_nat [0..<15]) = 0xa129ca6149be45e5"
  unfolding siphash_spec_def example_words
  by (simp add: published_word_def example_rounds eval_nat_numeral)

section \<open>Properties\<close>

text \<open>
  C29. The streaming code computes SipHash as published, for every key, message and number of
  rounds: the message padded with zeros and its length modulo 256 to whole words, absorbed
  word by word; the published algorithm is written down apart, with its own constants and round. The
  two table hashers are SipHash-2-4 of the index's four bytes, and on the published example
  the code gives the published value.
\<close>

theorem SipHash_is_published:
  "SipHash c d key m = siphash_spec c d key m \<and>
   IndexTableHasher key i = siphash_spec 2 4 key (le_bytes 4 i) \<and>
   SipHasher key i = IndexTableHasher key i \<and>
   SipHash24 (map of_nat [0..<16]) (map of_nat [0..<15]) = 0xa129ca6149be45e5"
  by (simp add: SipHash_spec IndexTableHasher_def SipHasher_def SipHash24_def published_example Let_def
      del: le_bytes.simps upt_Suc)

end
