(* ===== verification/HandshakeTimer.thy ===== *)
theory HandshakeTimer
  imports HandshakeHelpers Keypair
begin

text \<open>
  \<open>core/handshake/handshake_timer.hpp\<close>: the single-shot deadline timer, a thread that waits on a
  condition variable while other threads arm and disarm it, as a step relation; and the three
  timers of a peer. A step is one critical section of the code under the timer's mutex, or one
  \<open>notify_all\<close>, which the callers issue after they have left the mutex.
\<close>

section \<open>The timer thread\<close>

text \<open>
  Where the thread is: at the head of its loop; asleep in one of its two waits (for the deadline it has read
  in the second); awake in it, before it has tested the predicate again; running the callback; or gone. A
  sleeping thread does not look at the predicate: it is woken by a \<open>notify_all\<close>, by its deadline, or for no reason.
\<close>

datatype timer_pc =
    Loop_head
  | Asleep_armed | Awake_armed
  | Asleep_until time_point | Awake_until time_point
  | In_callback | Exited

text \<open>\<open>dt_notifies\<close> counts the calls of \<open>notify_all\<close> that are due: the caller has left the mutex or is about to.\<close>

record deadline_timer =
  dt_armed :: bool
  dt_stop :: bool
  dt_deadline :: time_point
  dt_notifies :: nat
  dt_pc :: timer_pc

definition DeadlineTimer_init :: deadline_timer where
  "DeadlineTimer_init = \<lparr>dt_armed = False, dt_stop = False, dt_deadline = 0, dt_notifies = 0, dt_pc = Loop_head\<rparr>"

datatype timer_event =
    Arm_event time_point duration
  | Disarm_event
  | Stop_event
  | Fire_event time_point
  | Internal_event
  | Notify_event
  | Timeout_event time_point
  | Spurious_event

definition Arm :: "time_point \<Rightarrow> duration \<Rightarrow> deadline_timer \<Rightarrow> deadline_timer" where
  "Arm now timeout s = s\<lparr>dt_armed := True, dt_deadline := now + timeout, dt_notifies := dt_notifies s + 1\<rparr>"

definition Disarm :: "deadline_timer \<Rightarrow> deadline_timer" where
  "Disarm s = s\<lparr>dt_armed := False\<rparr>"

definition IsArmed :: "deadline_timer \<Rightarrow> bool" where
  "IsArmed s = dt_armed s"

text \<open>The destructor's critical section; it joins the thread after its \<open>notify_all\<close>.\<close>

definition dt_destroy :: "deadline_timer \<Rightarrow> deadline_timer" where
  "dt_destroy s = s\<lparr>dt_stop := True, dt_notifies := dt_notifies s + 1\<rparr>"

fun woken_pc :: "timer_pc \<Rightarrow> timer_pc" where
  "woken_pc Asleep_armed = Awake_armed"
| "woken_pc (Asleep_until d) = Awake_until d"
| "woken_pc pc = pc"

definition notify_all :: "deadline_timer \<Rightarrow> deadline_timer" where
  "notify_all s = s\<lparr>dt_notifies := dt_notifies s - 1, dt_pc := woken_pc (dt_pc s)\<rparr>"

text \<open>The predicates of the two waits.\<close>

definition wake_armed :: "deadline_timer \<Rightarrow> bool" where
  "wake_armed s \<longleftrightarrow> dt_armed s \<or> dt_stop s"

definition wake_until :: "time_point \<Rightarrow> deadline_timer \<Rightarrow> bool" where
  "wake_until d s \<longleftrightarrow> dt_stop s \<or> \<not> dt_armed s \<or> dt_deadline s \<noteq> d"

text \<open>
  Both waits test their predicate before they sleep; after the head of the loop it is false. A wait that ends
  by its deadline returns what the predicate is once the mutex is held again.
\<close>

inductive dt_step :: "deadline_timer \<Rightarrow> timer_event \<Rightarrow> deadline_timer \<Rightarrow> bool" where
  arm: "dt_step s (Arm_event now timeout) (Arm now timeout s)"
| disarm: "dt_step s Disarm_event (Disarm s)"
| destroy: "dt_step s Stop_event (dt_destroy s)"
| notify: "dt_notifies s > 0 \<Longrightarrow> dt_step s Notify_event (notify_all s)"
| spurious: "dt_step s Spurious_event (s\<lparr>dt_pc := woken_pc (dt_pc s)\<rparr>)"
| loop_exit: "dt_pc s = Loop_head \<Longrightarrow> dt_stop s \<Longrightarrow> dt_step s Internal_event (s\<lparr>dt_pc := Exited\<rparr>)"
| loop_unarmed: "dt_pc s = Loop_head \<Longrightarrow> \<not> dt_stop s \<Longrightarrow> \<not> dt_armed s \<Longrightarrow>
    dt_step s Internal_event (s\<lparr>dt_pc := if wake_armed s then Loop_head else Asleep_armed\<rparr>)"
| loop_armed: "dt_pc s = Loop_head \<Longrightarrow> \<not> dt_stop s \<Longrightarrow> dt_armed s \<Longrightarrow>
    dt_step s Internal_event
      (s\<lparr>dt_pc := if wake_until (dt_deadline s) s then Loop_head else Asleep_until (dt_deadline s)\<rparr>)"
| awake_armed: "dt_pc s = Awake_armed \<Longrightarrow>
    dt_step s Internal_event (s\<lparr>dt_pc := if wake_armed s then Loop_head else Asleep_armed\<rparr>)"
| awake_until: "dt_pc s = Awake_until d \<Longrightarrow>
    dt_step s Internal_event (s\<lparr>dt_pc := if wake_until d s then Loop_head else Asleep_until d\<rparr>)"
| timeout_early: "dt_pc s = Asleep_until d \<Longrightarrow> d \<le> now \<Longrightarrow> wake_until d s \<Longrightarrow>
    dt_step s (Timeout_event now) (s\<lparr>dt_pc := Loop_head\<rparr>)"
| expired: "dt_pc s = Asleep_until d \<Longrightarrow> d \<le> now \<Longrightarrow> \<not> wake_until d s \<Longrightarrow> dt_armed s \<and> dt_deadline s = d \<Longrightarrow>
    dt_step s (Fire_event now) (s\<lparr>dt_armed := False, dt_pc := In_callback\<rparr>)"
| callback_done: "dt_pc s = In_callback \<Longrightarrow> dt_step s Internal_event (s\<lparr>dt_pc := Loop_head\<rparr>)"

inductive dt_run :: "deadline_timer \<Rightarrow> timer_event list \<Rightarrow> deadline_timer \<Rightarrow> bool" where
  dt_nil: "dt_run s [] s"
| dt_snoc: "dt_run s es s' \<Longrightarrow> dt_step s' e s'' \<Longrightarrow> dt_run s (es @ [e]) s''"

inductive_simps dt_step_simps:
  "dt_step s (Arm_event now timeout) s'" "dt_step s Disarm_event s'" "dt_step s Stop_event s'"
  "dt_step s (Fire_event now) s'" "dt_step s Internal_event s'" "dt_step s Notify_event s'"

section \<open>What a single-shot timer promises\<close>

text \<open>
  The specification keeps only the pending deadline: arming sets it, disarming clears it, and
  firing is allowed once, at or after the deadline.
\<close>

fun timer_spec :: "time_point option \<Rightarrow> timer_event \<Rightarrow> time_point option option" where
  "timer_spec p (Arm_event now timeout) = Some (Some (now + timeout))"
| "timer_spec p Disarm_event = Some None"
| "timer_spec p Stop_event = Some p"
| "timer_spec p (Fire_event now) =
     (case p of None \<Rightarrow> None | Some d \<Rightarrow> if d \<le> now then Some None else None)"
| "timer_spec p Internal_event = Some p"
| "timer_spec p Notify_event = Some p"
| "timer_spec p (Timeout_event now) = Some p"
| "timer_spec p Spurious_event = Some p"

definition pending :: "deadline_timer \<Rightarrow> time_point option" where
  "pending s = (if dt_armed s then Some (dt_deadline s) else None)"

definition spec_run :: "timer_event list \<Rightarrow> time_point option option" where
  "spec_run es = foldl (\<lambda>p e. case p of None \<Rightarrow> None | Some p \<Rightarrow> timer_spec p e) (Some None) es"

lemma dt_step_spec: "dt_step s e s' \<Longrightarrow> timer_spec (pending s) e = Some (pending s')"
  by (induction rule: dt_step.induct)
    (auto simp: pending_def Arm_def Disarm_def dt_destroy_def notify_all_def)

lemma dt_run_spec: "dt_run DeadlineTimer_init es s \<Longrightarrow> spec_run es = Some (pending s)"
proof (induction DeadlineTimer_init es s rule: dt_run.induct)
  case dt_nil
  then show ?case by (simp add: spec_run_def pending_def DeadlineTimer_init_def)
next
  case (dt_snoc es s' e s'')
  then show ?case by (simp add: spec_run_def dt_step_spec)
qed

section \<open>No wake-up is lost\<close>

text \<open>The thread leaves only after a stop; and a thread that sleeps on a predicate that holds is about to be notified.\<close>

definition dt_inv :: "deadline_timer \<Rightarrow> bool" where
  "dt_inv s \<longleftrightarrow> (dt_pc s = Exited \<longrightarrow> dt_stop s) \<and>
     (dt_pc s = Asleep_armed \<and> wake_armed s \<longrightarrow> dt_notifies s > 0) \<and>
     (\<forall>d. dt_pc s = Asleep_until d \<and> wake_until d s \<and> (dt_armed s \<or> dt_stop s) \<longrightarrow> dt_notifies s > 0)"

lemma woken_awake: "woken_pc pc \<noteq> Asleep_armed" "woken_pc pc \<noteq> Asleep_until d" "woken_pc pc = Exited \<longleftrightarrow> pc = Exited"
  by (cases pc; simp)+

lemma dt_inv_step: "dt_step s e s' \<Longrightarrow> dt_inv s \<Longrightarrow> dt_inv s'"
  by (induction rule: dt_step.induct)
    (auto simp: dt_inv_def Arm_def Disarm_def dt_destroy_def notify_all_def wake_armed_def wake_until_def woken_awake
      split: if_splits)

lemma dt_inv_run: "dt_run DeadlineTimer_init es s \<Longrightarrow> dt_inv s"
proof (induction DeadlineTimer_init es s rule: dt_run.induct)
  case dt_nil
  then show ?case by (simp add: DeadlineTimer_init_def dt_inv_def)
next
  case (dt_snoc es s' e s'')
  then show ?case using dt_inv_step by blast
qed

text \<open>
  What the thread and the pending notifications can still do by themselves: nothing outside has to happen for these
  steps, neither a spurious wake-up nor the passing of time.
\<close>

definition quiet :: "deadline_timer \<Rightarrow> bool" where
  "quiet s \<longleftrightarrow> (\<forall>s'. \<not> dt_step s Internal_event s' \<and> \<not> dt_step s Notify_event s')"

fun pc_steps :: "timer_pc \<Rightarrow> nat" where
  "pc_steps Loop_head = 1"
| "pc_steps Awake_armed = 2"
| "pc_steps (Awake_until d) = 2"
| "pc_steps In_callback = 2"
| "pc_steps pc = 0"

definition dt_steps_left :: "deadline_timer \<Rightarrow> nat" where
  "dt_steps_left s = 3 * dt_notifies s + pc_steps (dt_pc s)"

lemma pc_steps_woken: "pc_steps (woken_pc pc) \<le> pc_steps pc + 2"
  by (cases pc) simp_all

lemma own_step_decreases:
  assumes "dt_step s e s'" and "e = Internal_event \<or> e = Notify_event"
  shows "dt_steps_left s' < dt_steps_left s"
  using assms
proof (induction rule: dt_step.induct)
  case (notify s)
  then show ?case using pc_steps_woken [of "dt_pc s"] by (simp add: dt_steps_left_def notify_all_def)
qed (auto simp: dt_steps_left_def wake_armed_def wake_until_def)

lemma own_steps_bounded:
  assumes "dt_run s es s'" and "set es \<subseteq> {Internal_event, Notify_event}"
  shows "length es + dt_steps_left s' \<le> dt_steps_left s"
  using assms
proof (induction rule: dt_run.induct)
  case (dt_snoc s es s' e s'')
  then show ?case using own_step_decreases [OF dt_snoc.hyps(2)] by auto
qed simp

lemma quiet_pc:
  assumes "quiet s"
  shows "dt_notifies s = 0" and "dt_pc s = Asleep_armed \<or> (\<exists>d. dt_pc s = Asleep_until d) \<or> dt_pc s = Exited"
proof -
  show "dt_notifies s = 0" using assms unfolding quiet_def by (metis dt_step.notify not_gr_zero)
  have "\<exists>s'. dt_step s Internal_event s'" if "dt_pc s = Loop_head"
    using that dt_step.loop_exit dt_step.loop_unarmed dt_step.loop_armed by metis
  moreover have "\<exists>s'. dt_step s Internal_event s'" if "dt_pc s = Awake_armed \<or> dt_pc s = Awake_until d \<or> dt_pc s = In_callback" for d
    using that dt_step.awake_armed dt_step.awake_until dt_step.callback_done by metis
  ultimately show "dt_pc s = Asleep_armed \<or> (\<exists>d. dt_pc s = Asleep_until d) \<or> dt_pc s = Exited"
    using assms unfolding quiet_def by (cases "dt_pc s") blast+
qed

lemma quiet_inv:
  assumes "quiet s" and "dt_inv s"
  shows "if dt_stop s then dt_pc s = Exited
    else if dt_armed s then dt_pc s = Asleep_until (dt_deadline s)
    else dt_pc s = Asleep_armed \<or> (\<exists>d. dt_pc s = Asleep_until d)"
  using quiet_pc [OF assms(1)] assms(2) by (auto simp: dt_inv_def wake_armed_def wake_until_def)

section \<open>The timers of a peer\<close>

text \<open>\<open>RetransmitJitter\<close>: \<open>r\<close> are the four bytes drawn.\<close>

definition RetransmitJitter :: "bytes \<Rightarrow> duration" where
  "RetransmitJitter b =
     (let r = le_word b :: u32;
          max_ms = of_int (kRekeyTimeoutJitterMax div chrono_milliseconds 1) in chrono_milliseconds (uint (r mod max_ms)))"

record HandshakeTimers =
  handshake_attempts :: u32
  retransmit :: deadline_timer
  sent_last_minute_handshake :: bool
  rekey :: deadline_timer
  key_expiry :: deadline_timer

definition HandshakeTimers_init :: HandshakeTimers where
  "HandshakeTimers_init = \<lparr>handshake_attempts = 0, retransmit = DeadlineTimer_init,
     sent_last_minute_handshake = False, rekey = DeadlineTimer_init,
     key_expiry = DeadlineTimer_init\<rparr>"

definition ArmRetransmit :: "time_point \<Rightarrow> bytes \<Rightarrow> HandshakeTimers \<Rightarrow> HandshakeTimers" where
  "ArmRetransmit now r t = t\<lparr>retransmit := Arm now (kRekeyTimeout + RetransmitJitter r) (retransmit t)\<rparr>"

definition DisarmRetransmit :: "HandshakeTimers \<Rightarrow> HandshakeTimers" where
  "DisarmRetransmit t = t\<lparr>handshake_attempts := 0, retransmit := Disarm (retransmit t)\<rparr>"

text \<open>\<open>sys_now\<close> is the system clock, \<open>now\<close> the steady one the timers run on.\<close>

definition ArmRekey ::
  "time_point \<Rightarrow> time_point \<Rightarrow> time_point \<Rightarrow> u64 \<Rightarrow> HandshakeTimers \<Rightarrow> HandshakeTimers" where
  "ArmRekey sys_now now keypair_created nonce t =
     (if nonce \<ge> kRekeyAfterMessages then t\<lparr>rekey := Arm now 0 (rekey t)\<rparr>
      else
        let elapsed = chrono_seconds (cast_seconds (sys_now - keypair_created));
            remaining = kRekeyAfterTime - elapsed in
        t\<lparr>rekey := Arm now (if remaining > 0 then remaining else 0) (rekey t)\<rparr>)"

definition DisarmRekey :: "HandshakeTimers \<Rightarrow> HandshakeTimers" where
  "DisarmRekey t = t\<lparr>rekey := Disarm (rekey t), sent_last_minute_handshake := False\<rparr>"

definition NeedsLastMinuteHandshake :: "time_point \<Rightarrow> HandshakeTimers \<Rightarrow> Keypair \<Rightarrow> bool" where
  "NeedsLastMinuteHandshake sys_now t kp =
     (let threshold = kRejectAfterTime - kKeepaliveTimeout - kRekeyTimeout;
          age = chrono_seconds (cast_seconds (sys_now - kp_created kp)) in
      age \<ge> threshold \<and> \<not> sent_last_minute_handshake t)"

definition ArmKeyExpiry :: "time_point \<Rightarrow> HandshakeTimers \<Rightarrow> HandshakeTimers" where
  "ArmKeyExpiry now t = t\<lparr>key_expiry := Arm now (kRejectAfterTime * 3) (key_expiry t)\<rparr>"

definition DisarmKeyExpiry :: "HandshakeTimers \<Rightarrow> HandshakeTimers" where
  "DisarmKeyExpiry t = t\<lparr>key_expiry := Disarm (key_expiry t)\<rparr>"

section \<open>Properties\<close>

text \<open>
  C23. The deadline timer refines a single-shot timer: along every interleaving of its thread
  with arming, disarming, destruction and their notifications it fires only when armed and at or after the
  deadline of the last arming, at most once per arming; its thread leaves only once it is being
  destroyed. And no wake-up is lost. Left alone, after any history, the thread and the notifications still due take a bounded number of
  steps; when they have no more, then a destroyed timer's thread has left, so that the join returns, and an armed
  timer's thread sleeps until exactly the current deadline and fires once that has passed, without any help of spurious wake-ups.
\<close>

theorem deadline_timer_single_shot:
  assumes "dt_run DeadlineTimer_init es s"
  shows "spec_run es = Some (pending s) \<and> (dt_pc s = Exited \<longrightarrow> dt_stop s) \<and>
    (\<forall>is s'. dt_run s is s' \<and> set is \<subseteq> {Internal_event, Notify_event} \<longrightarrow> length is \<le> 3 * dt_notifies s + 2) \<and>
    (quiet s \<longrightarrow> (if dt_stop s then dt_pc s = Exited
      else if dt_armed s then dt_pc s = Asleep_until (dt_deadline s) \<and>
        (\<forall>now. (\<exists>s'. dt_step s (Fire_event now) s') = (dt_deadline s \<le> now))
      else \<forall>now s'. \<not> dt_step s (Fire_event now) s'))"
proof (intro conjI impI allI)
  note inv = dt_inv_run [OF assms]
  show "spec_run es = Some (pending s)" using assms by (rule dt_run_spec)
  show "dt_pc s = Exited \<Longrightarrow> dt_stop s" using inv by (simp add: dt_inv_def)
  show "length is \<le> 3 * dt_notifies s + 2" if "dt_run s is s' \<and> set is \<subseteq> {Internal_event, Notify_event}" for "is" s'
  proof -
    have "pc_steps (dt_pc s) \<le> 2" by (cases "dt_pc s") simp_all
    then show ?thesis using own_steps_bounded [of s "is" s'] that by (simp add: dt_steps_left_def)
  qed
  show "if dt_stop s then dt_pc s = Exited
      else if dt_armed s then dt_pc s = Asleep_until (dt_deadline s) \<and>
        (\<forall>now. (\<exists>s'. dt_step s (Fire_event now) s') = (dt_deadline s \<le> now))
      else \<forall>now s'. \<not> dt_step s (Fire_event now) s'" if "quiet s"
    using quiet_inv [OF that inv] by (auto simp: dt_step_simps wake_until_def)
qed

text \<open>Armed while its thread sleeps, before the notification and after it.\<close>

definition armed_asleep :: deadline_timer where
  "armed_asleep = \<lparr>dt_armed = True, dt_stop = False, dt_deadline = 8, dt_notifies = 1, dt_pc = Asleep_armed\<rparr>"

lemma timer_example:
  "dt_run DeadlineTimer_init [Internal_event, Arm_event 5 3] armed_asleep"
  "dt_run DeadlineTimer_init [Internal_event, Arm_event 5 3, Notify_event, Internal_event, Internal_event]
     (armed_asleep\<lparr>dt_notifies := 0, dt_pc := Asleep_until 8\<rparr>)"
proof -
  note timer = armed_asleep_def Arm_def DeadlineTimer_init_def wake_armed_def wake_until_def notify_all_def
  let ?s1 = "DeadlineTimer_init\<lparr>dt_pc := Asleep_armed\<rparr>"
  have "dt_step DeadlineTimer_init Internal_event ?s1"
    using dt_step.loop_unarmed [of DeadlineTimer_init] by (simp add: timer)
  from dt_snoc [OF dt_nil this] have "dt_run DeadlineTimer_init [Internal_event] ?s1" by simp
  moreover have "dt_step ?s1 (Arm_event 5 3) armed_asleep"
    using dt_step.arm [of ?s1 5 3] by (simp add: timer)
  ultimately show a: "dt_run DeadlineTimer_init [Internal_event, Arm_event 5 3] armed_asleep"
    using dt_snoc by fastforce
  let ?s2 = "armed_asleep\<lparr>dt_notifies := 0, dt_pc := Awake_armed\<rparr>" and ?s3 = "armed_asleep\<lparr>dt_notifies := 0, dt_pc := Loop_head\<rparr>"
  have "dt_step armed_asleep Notify_event ?s2" using dt_step.notify [of armed_asleep] by (simp add: timer)
  from dt_snoc [OF a this] have b: "dt_run DeadlineTimer_init [Internal_event, Arm_event 5 3, Notify_event] ?s2" by simp
  have "dt_step ?s2 Internal_event ?s3" using dt_step.awake_armed [of ?s2] by (simp add: timer)
  from dt_snoc [OF b this]
  have c: "dt_run DeadlineTimer_init [Internal_event, Arm_event 5 3, Notify_event, Internal_event] ?s3" by simp
  have "dt_step ?s3 Internal_event (armed_asleep\<lparr>dt_notifies := 0, dt_pc := Asleep_until 8\<rparr>)"
    using dt_step.loop_armed [of ?s3] by (simp add: timer)
  from dt_snoc [OF c this]
  show "dt_run DeadlineTimer_init [Internal_event, Arm_event 5 3, Notify_event, Internal_event, Internal_event]
     (armed_asleep\<lparr>dt_notifies := 0, dt_pc := Asleep_until 8\<rparr>)" by simp
qed

theorem deadline_timer_single_shot_witness:
  "spec_run [Internal_event, Arm_event 5 3] = Some (Some 8) \<and> \<not> quiet armed_asleep \<and>
   spec_run [Internal_event, Arm_event 5 3, Notify_event, Internal_event, Internal_event] = Some (Some 8)"
proof -
  have "\<not> quiet armed_asleep" if "quiet armed_asleep"
    using deadline_timer_single_shot [OF timer_example(1)] that by (simp add: armed_asleep_def)
  then show ?thesis
    using deadline_timer_single_shot [OF timer_example(1)] deadline_timer_single_shot [OF timer_example(2)]
    by (auto simp: pending_def armed_asleep_def)
qed

lemma jitter_bounds: "0 \<le> RetransmitJitter r" "RetransmitJitter r < kRekeyTimeoutJitterMax"
proof -
  let ?r = "le_word r :: u32"
  have "uint (?r mod 334) = uint ?r mod 334" by (simp add: uint_mod)
  then show "0 \<le> RetransmitJitter r" "RetransmitJitter r < kRekeyTimeoutJitterMax"
    by (simp_all add: RetransmitJitter_def kRekeyTimeoutJitterMax_def chrono_milliseconds_def)
qed

lemma cast_seconds_ge: "0 < n \<Longrightarrow> (n \<le> cast_seconds d) = (chrono_seconds n \<le> d)"
  by (cases "d \<ge> 0") (auto simp: cast_seconds_def chrono_seconds_def signed_divide_int_def sgn_if)

lemma cast_seconds_bounds:
  "0 \<le> d \<Longrightarrow> chrono_seconds (cast_seconds d) \<le> d \<and> d < chrono_seconds (cast_seconds d) + chrono_seconds 1"
  by (auto simp: cast_seconds_def chrono_seconds_def signed_divide_int_def sgn_if)

text \<open>
  The timers of a peer are armed for the protocol's times. A retransmission is due between
  5 s and 5.334 s after the initiation, whatever the random bytes. The rekey timer of a keypair
  created in the past is due between 120 s and 121 s after its creation, at once when that
  time has passed or the nonce has reached its limit. The last-minute handshake is asked for
  exactly from an age of 165 s and once. Keys expire 540 s after they were made. Disarming
  leaves nothing pending and resets the attempts and the last-minute flag.
\<close>

lemma peer_timers_due:
  assumes "created \<le> sys_now"
  shows "(\<exists>d. pending (retransmit (ArmRetransmit now r t)) = Some d \<and>
      now + chrono_seconds 5 \<le> d \<and> d < now + chrono_seconds 5 + chrono_milliseconds 334) \<and>
    (\<exists>d. pending (rekey (ArmRekey sys_now now created nonce t)) = Some d \<and>
      (if nonce \<ge> kRekeyAfterMessages \<or> created + chrono_seconds 120 \<le> sys_now then d = now
       else created + chrono_seconds 120 \<le> sys_now + (d - now) \<and>
            sys_now + (d - now) < created + chrono_seconds 121)) \<and>
    NeedsLastMinuteHandshake sys_now t kp =
      (kp_created kp + chrono_seconds 165 \<le> sys_now \<and> \<not> sent_last_minute_handshake t) \<and>
    pending (key_expiry (ArmKeyExpiry now t)) = Some (now + chrono_seconds 540) \<and>
    pending (retransmit (DisarmRetransmit t)) = None \<and> handshake_attempts (DisarmRetransmit t) = 0 \<and>
    pending (rekey (DisarmRekey t)) = None \<and> \<not> sent_last_minute_handshake (DisarmRekey t) \<and>
    pending (key_expiry (DisarmKeyExpiry t)) = None"
proof -
  have rt: "\<exists>d. pending (retransmit (ArmRetransmit now r t)) = Some d \<and>
      now + chrono_seconds 5 \<le> d \<and> d < now + chrono_seconds 5 + chrono_milliseconds 334"
    using jitter_bounds [of r]
    by (simp add: ArmRetransmit_def pending_def Arm_def kRekeyTimeout_def kRekeyTimeoutJitterMax_def)
  have rk: "\<exists>d. pending (rekey (ArmRekey sys_now now created nonce t)) = Some d \<and>
      (if nonce \<ge> kRekeyAfterMessages \<or> created + chrono_seconds 120 \<le> sys_now then d = now
       else created + chrono_seconds 120 \<le> sys_now + (d - now) \<and>
            sys_now + (d - now) < created + chrono_seconds 121)"
    using cast_seconds_bounds [of "sys_now - created"] cast_seconds_ge [of 120 "sys_now - created"] assms
    by (auto simp: ArmRekey_def pending_def Arm_def Let_def kRekeyAfterTime_def chrono_seconds_def)
  have lm: "NeedsLastMinuteHandshake sys_now t kp =
      (kp_created kp + chrono_seconds 165 \<le> sys_now \<and> \<not> sent_last_minute_handshake t)"
    using cast_seconds_ge [of 165 "sys_now - kp_created kp"]
    by (auto simp: NeedsLastMinuteHandshake_def Let_def kRejectAfterTime_def kKeepaliveTimeout_def
        kRekeyTimeout_def chrono_seconds_def)
  show ?thesis
    using rt rk lm
    by (simp add: ArmKeyExpiry_def DisarmRetransmit_def DisarmRekey_def DisarmKeyExpiry_def pending_def
        Arm_def Disarm_def kRejectAfterTime_def chrono_seconds_def)
qed

lemma peer_timers_due_witness:
  "(\<exists>d. pending (rekey (ArmRekey 5 7 0 0 HandshakeTimers_init)) = Some d \<and>
      chrono_seconds 120 \<le> 5 + (d - 7) \<and> 5 + (d - 7) < chrono_seconds 121)"
  using peer_timers_due [of 0 5 7 "[]" HandshakeTimers_init 0]
  by (simp add: kRekeyAfterMessages_def chrono_seconds_def)

end
