(* ===== verification/TunDevice.thy ===== *)
theory TunDevice
  imports UdpSocket
begin

text \<open>
  \<open>core/network/tun_device.hpp\<close> and \<open>core/os/linux/tun_device.cpp\<close>: the wrapper of the tunnel
  device, whose system calls are arguments as in \<open>UdpSocket\<close>, and its packet helpers: the IPv4
  header checksum, the UDP packet builder and the two address parsers. The target is
  little-endian.
\<close>

record TunDevice =
  tun_handle :: int
  tun_ifname :: string

definition TunDevice_init :: TunDevice where
  "TunDevice_init = \<lparr>tun_handle = kInvalidHandle, tun_ifname = []\<rparr>"

definition tun_IsOpen :: "TunDevice \<Rightarrow> bool" where
  "tun_IsOpen t \<longleftrightarrow> tun_handle t \<noteq> kInvalidHandle"

text \<open>
  \<open>fd\<close> is the result of \<open>open\<close>, \<open>rc\<close> of \<open>ioctl\<close> on the interface name it is given (at most 15
  characters of it); the last component is the descriptor closed again on failure.
\<close>

definition tun_Open ::
  "TunDevice \<Rightarrow> string \<Rightarrow> int \<Rightarrow> (string \<Rightarrow> int) \<Rightarrow> bool \<times> TunDevice \<times> int option" where
  "tun_Open t ifname fd rc =
     (if tun_IsOpen t then (False, t, None)
      else if fd < 0 then (False, t, None)
      else if rc (take 15 (c_str ifname)) < 0 then (False, t, Some fd)
      else (True, t\<lparr>tun_handle := fd, tun_ifname := ifname\<rparr>, None))"

definition tun_Close :: "TunDevice \<Rightarrow> TunDevice \<times> int option" where
  "tun_Close t =
     (if tun_IsOpen t then (t\<lparr>tun_handle := kInvalidHandle, tun_ifname := []\<rparr>, Some (tun_handle t))
      else (t, None))"

definition tun_move_assign :: "TunDevice \<Rightarrow> TunDevice \<Rightarrow> TunDevice \<times> TunDevice \<times> int option" where
  "tun_move_assign t other =
     (let (t, closed) = tun_Close t in
      (t\<lparr>tun_handle := tun_handle other, tun_ifname := tun_ifname other\<rparr>,
       other\<lparr>tun_handle := kInvalidHandle, tun_ifname := []\<rparr>, closed))"

definition tun_SetNonBlocking ::
  "TunDevice \<Rightarrow> bool \<Rightarrow> 32 word \<Rightarrow> (32 word \<Rightarrow> int) \<Rightarrow> bool \<times> 32 word option" where
  "tun_SetNonBlocking t non_blocking flags rc =
     (if \<not> tun_IsOpen t then (False, None)
      else if sint flags < 0 then (False, None)
      else
        let flags = (if non_blocking then flags OR O_NONBLOCK else flags AND NOT O_NONBLOCK) in
        if rc flags < 0 then (False, Some flags)
        else (True, Some flags))"

text \<open>
  \<open>read\<close> returns \<open>len\<close> and has put \<open>incoming\<close> into the buffer, of which it holds the first
  bytes; the result is the length and the buffer.
\<close>

definition tun_Read :: "TunDevice \<Rightarrow> bytes \<Rightarrow> int \<Rightarrow> bytes \<Rightarrow> int \<times> bytes" where
  "tun_Read t buf len incoming =
     (if \<not> tun_IsOpen t then (- 1, buf)
      else (len, write_at 0 (take (nat len) incoming) buf))"

text \<open>
  \<open>len\<close> is the result of \<open>write\<close> and \<open>would_block\<close> whether \<open>errno\<close> is \<open>EAGAIN\<close>; the second
  component is the packet handed to the kernel.
\<close>

definition tun_Write :: "TunDevice \<Rightarrow> bytes \<Rightarrow> int \<Rightarrow> bool \<Rightarrow> int \<times> bytes option" where
  "tun_Write t buf len would_block =
     (if \<not> tun_IsOpen t then (- 1, None)
      else if len < 0 then (if would_block then 0 else len, Some buf)
      else (len, Some buf))"

text \<open>\<open>sh\<close> is the exit status of \<open>system\<close> on a command; the commands run are returned too.\<close>

definition BringUp :: "TunDevice \<Rightarrow> IPv4 \<Rightarrow> (string \<Rightarrow> int) \<Rightarrow> bool \<times> string list" where
  "BringUp t ip sh =
     (if \<not> tun_IsOpen t then (False, [])
      else
        let ip_str = IPv4_ToString ip;
            addr_cmd = ''ip addr add '' @ ip_str @ ''/24 dev '' @ tun_ifname t @ '' >/dev/null 2>&1'';
            up_cmd = ''ip link set '' @ tun_ifname t @ '' up >/dev/null 2>&1'' in
        if sh addr_cmd \<noteq> 0 then (False, [addr_cmd])
        else if sh up_cmd \<noteq> 0 then (False, [addr_cmd, up_cmd])
        else (True, [addr_cmd, up_cmd]))"

text \<open>\<open>fd\<close> is the result of \<open>socket\<close>, \<open>rc\<close> of the \<open>ioctl\<close> asking for the interface's flags.\<close>

definition Exists :: "string \<Rightarrow> int \<Rightarrow> (string \<Rightarrow> int) \<Rightarrow> bool" where
  "Exists name fd rc = (if fd < 0 then False else rc (take 15 (c_str name)) = 0)"

definition HasRequiredPrivileges :: "u32 \<Rightarrow> bool" where
  "HasRequiredPrivileges euid \<longleftrightarrow> euid = 0"

section \<open>Packet helpers\<close>

definition HostToNetwork16 :: "u16 \<Rightarrow> u16" where
  "HostToNetwork16 v = drop_bit 8 v OR push_bit 8 v"

text \<open>The loop over 16-bit words, an odd last byte included.\<close>

fun checksum_loop :: "u32 \<Rightarrow> bytes \<Rightarrow> u32" where
  "checksum_loop total_sum (a # b # p) = checksum_loop (total_sum + ucast (le_word [a, b] :: u16)) p"
| "checksum_loop total_sum [a] = total_sum + ucast a"
| "checksum_loop total_sum [] = total_sum"

lemma fold_carry_decreases:
  fixes total_sum :: u32
  assumes "drop_bit 16 total_sum \<noteq> 0"
  shows "unat ((total_sum AND 0xffff) + drop_bit 16 total_sum) < unat total_sum"
    and "unat ((total_sum AND 0xffff) + drop_bit 16 total_sum) = unat total_sum mod 65536 + unat total_sum div 65536"
proof -
  have m: "(0xffff :: u32) = mask 16" by (simp add: mask_eq_exp_minus_1)
  have l: "unat (total_sum AND 0xffff) = unat total_sum mod 65536"
    unfolding m by (simp flip: take_bit_eq_mask add: unsigned_take_bit_eq take_bit_eq_mod unat_mod)
  have h: "unat (drop_bit 16 total_sum) = unat total_sum div 65536"
    by (simp add: unat_drop_bit_eq drop_bit_eq_div unat_div)
  have "unat (drop_bit 16 total_sum) \<noteq> 0" using assms by (simp only: unat_eq_zero not_False_eq_True)
  then have "unat total_sum div 65536 \<noteq> 0" by (simp only: h not_False_eq_True)
  then have bound: "unat total_sum mod 65536 + unat total_sum div 65536 < unat total_sum"
    using mult_div_mod_eq [of 65536 "unat total_sum"] by linarith
  show eq: "unat ((total_sum AND 0xffff) + drop_bit 16 total_sum) = unat total_sum mod 65536 + unat total_sum div 65536"
  proof (subst unat_add_lem [THEN iffD1])
    show "unat (total_sum AND 0xffff) + unat (drop_bit 16 total_sum) < 2 ^ LENGTH(32)"
      unfolding l h using less_trans [OF bound unat_less_2p32 [of total_sum]] by simp
    show "unat (total_sum AND 0xffff) + unat (drop_bit 16 total_sum) = unat total_sum mod 65536 + unat total_sum div 65536"
      by (simp only: l h)
  qed
  show "unat ((total_sum AND 0xffff) + drop_bit 16 total_sum) < unat total_sum" using bound eq by simp
qed

function fold_carry :: "u32 \<Rightarrow> u32" where
  "fold_carry total_sum = (if drop_bit 16 total_sum \<noteq> 0 then fold_carry ((total_sum AND 0xffff) + drop_bit 16 total_sum) else total_sum)"
  by auto

termination fold_carry
proof (relation "measure (unat :: u32 \<Rightarrow> nat)")
  show "((total_sum AND 0xffff) + drop_bit 16 total_sum, total_sum) \<in> measure unat"
    if "drop_bit 16 total_sum \<noteq> 0" for total_sum :: u32
    using fold_carry_decreases(1) [OF that] by (simp only: in_measure)
qed (rule wf_measure)

declare fold_carry.simps [simp del]

definition IpChecksum :: "bytes \<Rightarrow> u16" where
  "IpChecksum header = (let total_sum = checksum_loop 0 header; total_sum = fold_carry total_sum in ucast (NOT total_sum))"

definition BuildUdpPacket :: "IPv4 \<Rightarrow> IPv4 \<Rightarrow> u16 \<Rightarrow> u16 \<Rightarrow> bytes \<Rightarrow> bytes" where
  "BuildUdpPacket src_ip dst_ip src_port dst_port payload =
     (let total_len = 20 + 8 + length payload;
          pkt = zeros total_len;
          pkt = pkt[0 := 0x45];
          tlen = HostToNetwork16 (of_nat total_len);
          pkt = write_at 2 (le_bytes 2 tlen) pkt;
          pkt = pkt[8 := 64];
          pkt = pkt[9 := 17];
          src_net = ToNetworkOrder src_ip;
          dst_net = ToNetworkOrder dst_ip;
          pkt = write_at 12 (le_bytes 4 src_net) pkt;
          pkt = write_at 16 (le_bytes 4 dst_net) pkt;
          ck = IpChecksum (read_at 0 20 pkt);
          pkt = write_at 10 (le_bytes 2 ck) pkt;
          sp = HostToNetwork16 src_port;
          dp = HostToNetwork16 dst_port;
          ul = HostToNetwork16 (of_nat (8 + length payload));
          pkt = write_at 20 (le_bytes 2 sp) pkt;
          pkt = write_at 22 (le_bytes 2 dp) pkt;
          pkt = write_at 24 (le_bytes 2 ul) pkt in
      if payload \<noteq> [] then write_at 28 payload pkt else pkt)"

definition ParseDstIP :: "bytes \<Rightarrow> IPv4 option" where
  "ParseDstIP packet =
     (if length packet < 20 then None
      else Some (IPv4_octets (packet ! 16) (packet ! 17) (packet ! 18) (packet ! 19)))"

definition ParseSrcIP :: "bytes \<Rightarrow> IPv4 option" where
  "ParseSrcIP packet =
     (if length packet < 20 then None
      else Some (IPv4_octets (packet ! 12) (packet ! 13) (packet ! 14) (packet ! 15)))"

section \<open>The checksum\<close>

definition ones_complement :: "nat \<Rightarrow> nat" where
  "ones_complement n = (if n = 0 then 0 else (n - 1) mod 65535 + 1)"

lemma ones_complement_le: "ones_complement n \<le> 65535"
proof -
  have "(n - 1) mod 65535 < 65535" by (rule mod_less_divisor) simp
  then show ?thesis unfolding ones_complement_def by (simp only: split: if_split) linarith
qed

lemma ones_complement_step:
  "0 < n div 65536 \<Longrightarrow> (n - 1) mod 65535 = (n mod 65536 + n div 65536 - 1) mod 65535 \<and> 0 < (n :: nat)"
proof -
  assume q: "0 < n div 65536"
  then have "n - 1 = (n mod 65536 + n div 65536 - 1) + 65535 * (n div 65536)"
    using mult_div_mod_eq [of 65536 n] by linarith
  moreover have "0 < n" using q by (cases n) simp_all
  ultimately show ?thesis by (metis mod_mult_self2)
qed

lemma fold_carry_value: "unat (fold_carry total_sum) = ones_complement (unat total_sum)"
proof (induction total_sum rule: fold_carry.induct)
  case (1 total_sum)
  let ?n = "unat total_sum"
  have h: "unat (drop_bit 16 total_sum) = ?n div 65536"
    by (simp add: unat_drop_bit_eq drop_bit_eq_div unat_div)
  show ?case
  proof (cases "drop_bit 16 total_sum = 0")
    case True
    then have "?n < 65536" using h by (simp add: div_eq_0_iff)
    then show ?thesis using True by (simp add: fold_carry.simps [of total_sum] ones_complement_def)
  next
    case False
    let ?q = "?n div 65536" and ?r = "?n mod 65536"
    have "unat (drop_bit 16 total_sum) \<noteq> 0" using False by (simp only: unat_eq_zero not_False_eq_True)
    then have q: "0 < ?q" by (simp only: h neq0_conv)
    have "(?n - 1) mod 65535 = (?r + ?q - 1) mod 65535 \<and> 0 < ?n"
      using q ones_complement_step [of ?n] by simp
    then have "ones_complement (?r + ?q) = ones_complement ?n"
      using q by (simp add: ones_complement_def)
    then show ?thesis
      using False 1 fold_carry_decreases(2) [OF False] by (simp add: fold_carry.simps [of total_sum])
  qed
qed

fun word_sum :: "bytes \<Rightarrow> nat" where
  "word_sum (a # b # p) = unat a + 256 * unat b + word_sum p"
| "word_sum [a] = unat a"
| "word_sum [] = 0"

lemma unat_pair: "unat (ucast (le_word [a, b] :: u16) :: u32) = unat a + 256 * unat b"
proof -
  have or: "(le_word [a, b] :: u16) = ucast a + push_bit 8 (ucast b)"
  proof -
    have low: "n < 8" if "bit a n" for n using bit_imp_le_length [OF that] by simp
    have "(ucast a :: u16) AND push_bit 8 (ucast b) = 0"
      by (intro bit_word_eqI) (auto simp: bit_simps dest!: low)
    then show ?thesis by (simp add: disjunctive_add_eq_or)
  qed
  have "unat (ucast a :: u16) = unat a" "unat (push_bit 8 (ucast b :: u16)) = 256 * unat b"
    using byte_cases_nat [of a] byte_cases_nat [of b]
    by (simp_all add: unat_word_ariths unsigned_ucast_eq push_bit_eq_mult take_bit_nat_eq_self)
  then have "unat (le_word [a, b] :: u16) = unat a + 256 * unat b"
    using byte_cases_nat [of a] byte_cases_nat [of b]
    by (simp only: or unat_word_ariths) simp
  moreover have "unat a + 256 * unat b < 2 ^ 32"
    using byte_cases_nat [of a] byte_cases_nat [of b] by simp
  ultimately show ?thesis by (simp add: unsigned_ucast_eq take_bit_nat_eq_self)
qed

lemma word_sum_bound: "word_sum p \<le> 65535 * length p"
proof (induction p rule: word_sum.induct)
  case (1 a b p)
  then show ?case using byte_cases_nat [of a] byte_cases_nat [of b] by simp
next
  case (2 a)
  then show ?case using byte_cases_nat [of a] by simp
qed simp

lemma checksum_loop_value:
  "unat s + word_sum p < 2 ^ 32 \<Longrightarrow> unat (checksum_loop s p) = unat s + word_sum p"
proof (induction s p rule: checksum_loop.induct)
  case (1 s a b p)
  have "unat (s + ucast (le_word [a, b] :: u16)) = unat s + (unat a + 256 * unat b)"
    using 1 by (subst unat_add_lem [THEN iffD1]) (simp_all only: unat_pair, simp)
  then show ?case using 1 by simp
next
  case (2 s a)
  have "unat (ucast a :: u32) = unat a" using byte_cases_nat [of a] by (simp add: unsigned_ucast_eq take_bit_nat_eq_self)
  then show ?case using 2 by simp (subst unat_add_lem [THEN iffD1], simp_all)
qed simp

lemma unat_IpChecksum:
  assumes "word_sum p < 2 ^ 32"
  shows "unat (IpChecksum p) = 65535 - ones_complement (word_sum p)"
proof -
  let ?f = "fold_carry (checksum_loop 0 p)"
  have f: "unat ?f = ones_complement (word_sum p)"
    using checksum_loop_value [of 0 p] assms by (simp add: fold_carry_value)
  then have "unat ?f \<le> 65535" using ones_complement_le by simp
  then have "unat (ucast ?f :: u16) = unat ?f" by (simp add: unsigned_ucast_eq take_bit_nat_eq_self)
  moreover have "(ucast (NOT ?f) :: u16) = NOT (ucast ?f)"
    by (rule bit_word_eqI) (auto simp: bit_simps)
  moreover have "unat (NOT (w :: u16)) = 65535 - unat w" for w
  proof -
    have "NOT w = - 1 - w" by (simp add: not_eq_complement)
    then show ?thesis by (simp add: unat_sub unsigned_minus_1_eq_mask mask_eq_exp_minus_1)
  qed
  ultimately show ?thesis by (simp add: IpChecksum_def Let_def f)
qed

section \<open>Built packets\<close>

lemma le_bytes_2 [simp]: "le_bytes 2 w = [ucast w, ucast (drop_bit 8 w)]"
  by (simp add: numeral_eq_Suc)

lemma HostToNetwork16_bytes: "le_bytes 2 (HostToNetwork16 v) = htons v"
proof -
  have "(ucast (HostToNetwork16 v) :: byte) = ucast (drop_bit 8 v)"
    by (rule bit_word_eqI) (auto simp: HostToNetwork16_def bit_simps)
  moreover have "(ucast (drop_bit 8 (HostToNetwork16 v)) :: byte) = ucast v"
    by (rule bit_word_eqI) (auto simp: HostToNetwork16_def bit_simps dest: bit_imp_le_length)
  ultimately show ?thesis by (simp add: htons_def)
qed

text \<open>The twenty header bytes with the checksum \<open>ck\<close>, and the whole packet.\<close>

definition ip_header :: "u16 \<Rightarrow> u16 \<Rightarrow> u32 \<Rightarrow> u32 \<Rightarrow> bytes" where
  "ip_header tlen ck src dst =
     [0x45, 0] @ htons tlen @ [0, 0, 0, 0, 64, 17] @ le_bytes 2 ck @ Unpack src @ Unpack dst"

lemma length_htons [simp]: "length (htons p) = 2"
  by (simp add: htons_def)

lemma length_Unpack [simp]: "length (Unpack v) = 4"
  by (simp add: Unpack_def)

lemma BuildUdpPacket_bytes:
  "BuildUdpPacket src dst sp dp payload =
     (let tlen = of_nat (28 + length payload);
          ck = IpChecksum (ip_header tlen 0 (ip_addr src) (ip_addr dst)) in
      ip_header tlen ck (ip_addr src) (ip_addr dst) @
      htons sp @ htons dp @ htons (of_nat (8 + length payload)) @ [0, 0] @ payload)"
proof -
  obtain a b c d where s: "Unpack (ip_addr src) = [a, b, c, d]" by (rule Unpack_cases)
  obtain e f g h where t: "Unpack (ip_addr dst) = [e, f, g, h]" by (rule Unpack_cases)
  obtain i j where tl: "htons (of_nat (28 + length payload)) = [i, j]" by (simp add: htons_def)
  obtain k l where ul: "htons (of_nat (8 + length payload)) = [k, l]" by (simp add: htons_def)
  obtain m n where sp: "htons sp = [m, n]" by (simp add: htons_def)
  obtain p q where dp: "htons dp = [p, q]" by (simp add: htons_def)
  have z: "zeros (28 + n) = [0, 0, 0, 0, 0, 0, 0, 0, 0, 0, 0, 0, 0, 0, 0, 0, 0, 0, 0, 0, 0, 0, 0, 0, 0, 0, 0, 0] @ zeros n" for n
    by (simp add: zeros_def numeral_eq_Suc)
  have tlen: "20 + 8 + length payload = 28 + length payload" by simp
  have z0: "payload = [] \<Longrightarrow> zeros (length payload) = payload" by simp
  show ?thesis
    unfolding BuildUdpPacket_def Let_def tlen HostToNetwork16_bytes tl ul sp dp ToNetworkOrder_def
      HostToNetwork_def ByteSwap_bytes s t z ip_header_def
    by (simp add: write_at_def read_at_def z0 del: le_bytes.simps)
qed

lemma word_sum_append: "even (length p) \<Longrightarrow> word_sum (p @ q) = word_sum p + word_sum q"
  by (induction p rule: word_sum.induct) simp_all

lemma word_sum_header:
  "word_sum (ip_header tlen ck src dst) = word_sum (ip_header tlen 0 src dst) + unat ck"
proof -
  have "word_sum (le_bytes 2 ck) = unat ck"
  proof -
    have "unat (le_word (le_bytes 2 ck) :: u16) = unat ck" by (simp add: le_word_le_bytes del: le_bytes_2 le_bytes.simps le_word.simps)
    then have "unat (ucast (le_word [ucast ck, ucast (drop_bit 8 ck)] :: u16) :: u32) = unat ck"
      by (simp only: le_bytes_2) (simp add: unsigned_ucast_eq take_bit_nat_eq_self unat_less_2p32
          order.strict_trans [OF unsigned_less])
    then show ?thesis unfolding unat_pair by simp
  qed
  then show ?thesis
    by (simp only: ip_header_def word_sum_append length_append length_htons length_le_bytes even_add)
      (simp add: word_sum_append htons_def)
qed

lemma ones_complement_fill: "ones_complement (n + (65535 - ones_complement n)) = 65535"
proof (cases "n = 0")
  case False
  then obtain m where n: "n = Suc m" by (cases n) simp_all
  have lt: "m mod 65535 < 65535" by (rule mod_less_divisor) simp
  have "ones_complement n = m mod 65535 + 1" by (simp add: ones_complement_def n)
  moreover have "Suc (65535 * q + r) + (65535 - (r + 1)) = 65535 * (q + 1)" if "r < 65535" for q r :: nat
    using that by simp
  ultimately have "n + (65535 - ones_complement n) = 65535 * (m div 65535 + 1)"
    using mult_div_mod_eq [of 65535 m] lt n by metis
  moreover have "ones_complement (65535 * (k + 1)) = 65535" for k
  proof -
    have "65535 * (k + 1) - 1 = 65534 + 65535 * k" by simp
    then have "(65535 * (k + 1) - 1) mod 65535 = 65534" by (simp only: mod_mult_self2) simp
    then show ?thesis by (simp add: ones_complement_def)
  qed
  ultimately show ?thesis by simp
qed (simp add: ones_complement_def)

lemma checksum_verifies:
  "IpChecksum (ip_header tlen (IpChecksum (ip_header tlen 0 src dst)) src dst) = 0"
proof -
  let ?h = "ip_header tlen 0 src dst"
  let ?c = "IpChecksum ?h"
  have len: "length (ip_header tlen ck src dst) = 20" for ck by (simp add: ip_header_def)
  have small: "word_sum (ip_header tlen ck src dst) < 2 ^ 32" for ck
    using word_sum_bound [of "ip_header tlen ck src dst"] by (simp add: len)
  have "unat (IpChecksum (ip_header tlen ?c src dst)) =
      65535 - ones_complement (word_sum ?h + (65535 - ones_complement (word_sum ?h)))"
    using unat_IpChecksum [OF small, of ?c] unat_IpChecksum [OF small, of 0]
    by (simp only: word_sum_header [of _ ?c])
  then have "unat (IpChecksum (ip_header tlen ?c src dst)) = 0" by (simp only: ones_complement_fill)
  then show ?thesis by (simp only: unat_eq_zero)
qed

section \<open>Properties\<close>

text \<open>
  A packet built for a UDP payload passes the receiver's check of the header (the checksum
  over it, its own checksum included, is zero), names IPv4 and UDP, carries both lengths, and both
  address parsers and the payload read back exactly what was put in; shorter packets are
  refused by the parsers.
\<close>

lemma packet_roundtrip:
  "let p = BuildUdpPacket src dst sp dp payload in
   IpChecksum (read_at 0 20 p) = 0 \<and> length p = 28 + length payload \<and>
   p ! 0 = 0x45 \<and> p ! 9 = 17 \<and> read_at 2 2 p = htons (of_nat (28 + length payload)) \<and>
   ParseSrcIP p = Some (IPv4_host_order (ip_addr src)) \<and>
   ParseDstIP p = Some (IPv4_host_order (ip_addr dst)) \<and>
   read_at 20 2 p = htons sp \<and> read_at 22 2 p = htons dp \<and>
   read_at 24 2 p = htons (of_nat (8 + length payload)) \<and> drop 28 p = payload \<and>
   ParseSrcIP (take 19 p) = None \<and> ParseDstIP (take 19 p) = None"
proof -
  let ?l = "of_nat (28 + length payload) :: u16"
  define ck where "ck = IpChecksum (ip_header ?l 0 (ip_addr src) (ip_addr dst))"
  obtain a b c d where s: "Unpack (ip_addr src) = [a, b, c, d]" by (rule Unpack_cases)
  obtain e f g h where t: "Unpack (ip_addr dst) = [e, f, g, h]" by (rule Unpack_cases)
  have built: "BuildUdpPacket src dst sp dp payload = ip_header ?l ck (ip_addr src) (ip_addr dst) @
      htons sp @ htons dp @ htons (of_nat (8 + length payload)) @ [0, 0] @ payload"
    by (simp only: BuildUdpPacket_bytes ck_def Let_def)
  have hlen: "length (ip_header ?l ck (ip_addr src) (ip_addr dst)) = 20"
    by (simp only: ip_header_def length_append length_htons length_le_bytes length_Unpack) simp
  have head: "read_at 0 20 (BuildUdpPacket src dst sp dp payload) = ip_header ?l ck (ip_addr src) (ip_addr dst)"
    unfolding built by (rule read_at_append_here) (simp only: hlen)
  have ck: "IpChecksum (read_at 0 20 (BuildUdpPacket src dst sp dp payload)) = 0"
    unfolding head ck_def by (rule checksum_verifies)
  have "IPv4_octets a b c d = IPv4_host_order (ip_addr src)" "IPv4_octets e f g h = IPv4_host_order (ip_addr dst)"
    using s t by (simp_all add: IPv4_octets_def IPv4_host_order_def Pack_Unpack)
  then show ?thesis
    using ck unfolding Let_def built
    by (simp add: ip_header_def s t htons_def ParseSrcIP_def ParseDstIP_def read_at_def)
qed

section \<open>The device as a descriptor\<close>

definition tun_held :: "TunDevice \<Rightarrow> int list" where
  "tun_held t = (if tun_IsOpen t then [tun_handle t] else [])"

text \<open>Opening takes the interface name, the result of \<open>open\<close> and of \<open>ioctl\<close>; a failed \<open>ioctl\<close> closes.\<close>

definition tun_api :: "(string \<times> int \<times> (string \<Rightarrow> int), TunDevice) handle_api" where
  "tun_api = \<lparr>ha_open = (\<lambda>(ifname, fd, rc) t. case tun_Open t ifname fd rc of (ok, t, c) \<Rightarrow> (t, some_list c)),
     ha_gets = (\<lambda>(ifname, fd, rc) t. if \<not> tun_IsOpen t \<and> 0 \<le> fd then [fd] else []),
     ha_close = (\<lambda>t. case tun_Close t of (t, c) \<Rightarrow> (t, some_list c)),
     ha_move = (\<lambda>t u. case tun_move_assign t u of (t, u, c) \<Rightarrow> (t, u, some_list c))\<rparr>"

interpretation tund: descriptor tun_api tun_held TunDevice_init
  by unfold_locales
    (auto simp: tun_api_def tun_held_def TunDevice_init_def tun_Open_def tun_Close_def tun_move_assign_def
      some_list_def tun_IsOpen_def kInvalidHandle_def Let_def split: if_splits)

end
