(* ===== verification/EventPoller.thy ===== *)
theory EventPoller
  imports UdpSocket
begin

text \<open>
  \<open>core/network/event_poller.hpp\<close> and \<open>core/os/linux/event_poller.cpp\<close>: the wrapper of \<open>epoll\<close>.
  Results of system calls are arguments, what is handed to the kernel is returned. An
  \<open>epoll_event\<close> takes 12 bytes, as on x86-64.
\<close>

definition Readable :: u32 where "Readable = 0x01"
definition Writable :: u32 where "Writable = 0x02"
definition Error_mask :: u32 where "Error_mask = 0x04"
definition Hangup :: u32 where "Hangup = 0x08"

record PollEvent =
  pe_handle :: int
  pe_mask :: u32

definition PollEvent_init :: PollEvent where
  "PollEvent_init = \<lparr>pe_handle = kInvalidHandle, pe_mask = 0\<rparr>"

definition IsReadable :: "PollEvent \<Rightarrow> bool" where "IsReadable ev \<longleftrightarrow> pe_mask ev AND Readable \<noteq> 0"
definition IsWritable :: "PollEvent \<Rightarrow> bool" where "IsWritable ev \<longleftrightarrow> pe_mask ev AND Writable \<noteq> 0"
definition IsError :: "PollEvent \<Rightarrow> bool" where "IsError ev \<longleftrightarrow> pe_mask ev AND Error_mask \<noteq> 0"
definition IsHangup :: "PollEvent \<Rightarrow> bool" where "IsHangup ev \<longleftrightarrow> pe_mask ev AND Hangup \<noteq> 0"

text \<open>The kernel's event bits.\<close>

definition EPOLLIN :: u32 where "EPOLLIN = 0x001"
definition EPOLLOUT :: u32 where "EPOLLOUT = 0x004"
definition EPOLLERR :: u32 where "EPOLLERR = 0x008"
definition EPOLLHUP :: u32 where "EPOLLHUP = 0x010"

record epoll_event =
  ee_events :: u32
  ee_fd :: int

definition ToEpoll :: "u32 \<Rightarrow> u32" where
  "ToEpoll interest =
     (let ep = 0;
          ep = (if interest AND Readable \<noteq> 0 then ep OR EPOLLIN else ep);
          ep = (if interest AND Writable \<noteq> 0 then ep OR EPOLLOUT else ep);
          ep = (if interest AND Error_mask \<noteq> 0 then ep OR EPOLLERR else ep);
          ep = (if interest AND Hangup \<noteq> 0 then ep OR EPOLLHUP else ep) in
      ep)"

definition FromEpoll :: "u32 \<Rightarrow> u32" where
  "FromEpoll ep =
     (let mask = 0;
          mask = (if ep AND EPOLLIN \<noteq> 0 then mask OR Readable else mask);
          mask = (if ep AND EPOLLOUT \<noteq> 0 then mask OR Writable else mask);
          mask = (if ep AND EPOLLERR \<noteq> 0 then mask OR Error_mask else mask);
          mask = (if ep AND EPOLLHUP \<noteq> 0 then mask OR Hangup else mask) in
      mask)"

text \<open>The poller: its handle and the size in bytes of its buffer of native events.\<close>

record EventPoller =
  poller_handle :: int
  native_bytes :: nat

definition EventPoller_init :: EventPoller where
  "EventPoller_init = \<lparr>poller_handle = kInvalidHandle, native_bytes = 0\<rparr>"

definition ep_IsOpen :: "EventPoller \<Rightarrow> bool" where
  "ep_IsOpen p \<longleftrightarrow> poller_handle p \<noteq> kInvalidHandle"

definition ep_Open :: "EventPoller \<Rightarrow> int \<Rightarrow> bool \<times> EventPoller" where
  "ep_Open p fd =
     (if ep_IsOpen p then (False, p)
      else let p = p\<lparr>poller_handle := fd\<rparr> in
        if poller_handle p < 0 then (False, p\<lparr>poller_handle := kInvalidHandle\<rparr>)
        else (True, p))"

definition ep_Close :: "EventPoller \<Rightarrow> EventPoller \<times> int option" where
  "ep_Close p =
     (if ep_IsOpen p then (p\<lparr>poller_handle := kInvalidHandle, native_bytes := 0\<rparr>, Some (poller_handle p))
      else (p, None))"

definition ep_move_assign :: "EventPoller \<Rightarrow> EventPoller \<Rightarrow> EventPoller \<times> EventPoller \<times> int option" where
  "ep_move_assign p other =
     (let (p, closed) = ep_Close p in
      (p\<lparr>poller_handle := poller_handle other, native_bytes := native_bytes other\<rparr>,
       other\<lparr>poller_handle := kInvalidHandle, native_bytes := 0\<rparr>, closed))"

datatype epoll_op = EPOLL_CTL_ADD | EPOLL_CTL_MOD | EPOLL_CTL_DEL

text \<open>\<open>rc\<close> is the result of \<open>epoll_ctl\<close> on the request it is handed.\<close>

type_synonym epoll_request = "epoll_op \<times> int \<times> epoll_event option"

definition ep_Add :: "EventPoller \<Rightarrow> int \<Rightarrow> u32 \<Rightarrow> (epoll_request \<Rightarrow> int) \<Rightarrow> bool \<times> epoll_request option" where
  "ep_Add p handle interest_mask rc =
     (if \<not> ep_IsOpen p then (False, None)
      else
        let req = (EPOLL_CTL_ADD, handle, Some \<lparr>ee_events = ToEpoll interest_mask, ee_fd = handle\<rparr>) in
        (\<not> rc req < 0, Some req))"

definition ep_Modify ::
  "EventPoller \<Rightarrow> int \<Rightarrow> u32 \<Rightarrow> (epoll_request \<Rightarrow> int) \<Rightarrow> bool \<times> epoll_request option" where
  "ep_Modify p handle interest_mask rc =
     (if \<not> ep_IsOpen p then (False, None)
      else
        let req = (EPOLL_CTL_MOD, handle, Some \<lparr>ee_events = ToEpoll interest_mask, ee_fd = handle\<rparr>) in
        (\<not> rc req < 0, Some req))"

definition ep_Remove :: "EventPoller \<Rightarrow> int \<Rightarrow> (epoll_request \<Rightarrow> int) \<Rightarrow> bool \<times> epoll_request option" where
  "ep_Remove p handle rc =
     (if \<not> ep_IsOpen p then (False, None)
      else let req = (EPOLL_CTL_DEL, handle, None) in (\<not> rc req < 0, Some req))"

text \<open>
  \<open>wait\<close> is what \<open>epoll_wait\<close> does when it is given room for that many events and that time limit: its
  result, the events it stored and whether \<open>errno\<close> is \<open>EINTR\<close>. A call that blocks for ever, which a negative
  limit allows, has no result. The result of \<open>Poll\<close> is the count and the array \<open>out\<close>.
\<close>

definition translate_event :: "epoll_event \<Rightarrow> PollEvent" where
  "translate_event e = \<lparr>pe_handle = ee_fd e, pe_mask = FromEpoll (ee_events e)\<rparr>"

definition Poll ::
  "EventPoller \<Rightarrow> PollEvent list \<Rightarrow> int \<Rightarrow> (nat \<Rightarrow> int \<Rightarrow> int \<times> epoll_event list \<times> bool) \<Rightarrow>
   int \<times> PollEvent list \<times> EventPoller" where
  "Poll p out timeout_ms wait =
     (if \<not> ep_IsOpen p then (- 1, out, p)
      else if out = [] then (0, out, p)
      else
        let required_bytes = length out * 12;
            p = (if native_bytes p < required_bytes then p\<lparr>native_bytes := required_bytes\<rparr> else p);
            (ready, events, interrupted) = wait (length out) timeout_ms in
        if ready < 0 then (if interrupted then (0, out, p) else (- 1, out, p))
        else (ready, write_at 0 (map translate_event (take (nat ready) events)) out, p))"

section \<open>Properties\<close>

lemma bit_flag: "n < 32 \<Longrightarrow> bit (push_bit n 1 :: u32) k \<longleftrightarrow> k = n"
  by (auto simp: bit_simps)

lemmas flags = Readable_def Writable_def Error_mask_def Hangup_def EPOLLIN_def EPOLLOUT_def
  EPOLLERR_def EPOLLHUP_def

lemma flag_bits:
  "bit Readable k \<longleftrightarrow> k = 0" "bit Writable k \<longleftrightarrow> k = 1" "bit Error_mask k \<longleftrightarrow> k = 2"
  "bit Hangup k \<longleftrightarrow> k = 3" "bit EPOLLIN k \<longleftrightarrow> k = 0" "bit EPOLLOUT k \<longleftrightarrow> k = 2"
  "bit EPOLLERR k \<longleftrightarrow> k = 3" "bit EPOLLHUP k \<longleftrightarrow> k = 4"
  using bit_flag [of 0 k] bit_flag [of 1 k] bit_flag [of 2 k] bit_flag [of 3 k] bit_flag [of 4 k]
  unfolding flags by simp_all

lemma and_nonzero: "m AND w \<noteq> 0 \<longleftrightarrow> (\<exists>k. bit m k \<and> bit w k)" for m :: "'w::len word"
proof -
  have "k < LENGTH('w)" if "bit m k" for k using bit_imp_le_length [OF that] by simp
  then show ?thesis unfolding bit_eq_iff bit_and_iff by auto
qed

lemma bit_set_if: "bit (if b then w OR f else w) n \<longleftrightarrow> bit w n \<or> b \<and> bit f n" for w :: "'w::len word"
  by (auto simp: bit_or_iff)

lemma bit_FromEpoll: "bit (FromEpoll ep) n \<longleftrightarrow>
  n = 0 \<and> bit ep 0 \<or> n = 1 \<and> bit ep 2 \<or> n = 2 \<and> bit ep 3 \<or> n = 3 \<and> bit ep 4"
  unfolding FromEpoll_def Let_def bit_set_if and_nonzero flag_bits by auto

lemma bit_ToEpoll: "bit (ToEpoll m) n \<longleftrightarrow>
  n = 0 \<and> bit m 0 \<or> n = 2 \<and> bit m 1 \<or> n = 3 \<and> bit m 2 \<or> n = 4 \<and> bit m 3"
  unfolding ToEpoll_def Let_def bit_set_if and_nonzero flag_bits by auto

lemma FromEpoll_ToEpoll: "FromEpoll (ToEpoll m) = m AND 0x0F"
proof (rule bit_word_eqI)
  fix n assume "n < LENGTH(32)"
  have low: "(0x0F :: u32) = mask 4" by (simp add: mask_eq_exp_minus_1)
  have "n < 4 \<longleftrightarrow> n = 0 \<or> n = 1 \<or> n = 2 \<or> n = 3" by linarith
  then show "bit (FromEpoll (ToEpoll m)) n \<longleftrightarrow> bit (m AND 0x0F) n"
    unfolding low bit_and_iff bit_mask_iff bit_FromEpoll bit_ToEpoll
    using \<open>n < LENGTH(32)\<close> by (cases "n < 4") auto
qed

text \<open>
  The poller reports exactly what the kernel says: an event is readable, writable, an error
  or a hang-up exactly when the kernel's bit for it is set; interests survive the round trip;
  a poll writes the translated events to the front of the caller's array and nothing else,
  after making room for a full array; an interrupted wait counts as no event, an error as
  minus one, and a closed poller asks the kernel for nothing.
\<close>

lemma poll_reports_events:
  "(let ev = translate_event e in
     IsReadable ev = bit (ee_events e) 0 \<and> IsWritable ev = bit (ee_events e) 2 \<and>
     IsError ev = bit (ee_events e) 3 \<and> IsHangup ev = bit (ee_events e) 4 \<and>
     pe_handle ev = ee_fd e) \<and>
   FromEpoll (ToEpoll m) = m AND 0x0F \<and>
   (case Poll p out timeout_ms wait of (n, out', p') \<Rightarrow>
     (case wait (length out) timeout_ms of (ready, events, interrupted) \<Rightarrow>
       (if \<not> ep_IsOpen p then n = - 1 \<and> out' = out
        else if out = [] then n = 0 \<and> out' = out
        else native_bytes p' \<ge> 12 * length out \<and>
          (if ready < 0 then out' = out \<and> n = (if interrupted then 0 else - 1)
           else n = ready \<and> out' = map translate_event (take (nat ready) events) @
             drop (min (nat ready) (length events)) out)))) \<and>
   ep_Add EventPoller_init fd m rc = (False, None) \<and>
   ep_Modify EventPoller_init fd m rc = (False, None) \<and>
   ep_Remove EventPoller_init fd rc = (False, None)"
proof (intro conjI)
  show "let ev = translate_event e in
     IsReadable ev = bit (ee_events e) 0 \<and> IsWritable ev = bit (ee_events e) 2 \<and>
     IsError ev = bit (ee_events e) 3 \<and> IsHangup ev = bit (ee_events e) 4 \<and>
     pe_handle ev = ee_fd e"
    by (auto simp: translate_event_def Let_def IsReadable_def IsWritable_def IsError_def IsHangup_def
        and_nonzero flag_bits bit_FromEpoll)
  show "case Poll p out timeout_ms wait of (n, out', p') \<Rightarrow>
     (case wait (length out) timeout_ms of (ready, events, interrupted) \<Rightarrow>
       (if \<not> ep_IsOpen p then n = - 1 \<and> out' = out
        else if out = [] then n = 0 \<and> out' = out
        else native_bytes p' \<ge> 12 * length out \<and>
          (if ready < 0 then out' = out \<and> n = (if interrupted then 0 else - 1)
           else n = ready \<and> out' = map translate_event (take (nat ready) events) @
             drop (min (nat ready) (length events)) out)))"
    by (cases "wait (length out) timeout_ms") (auto simp: Poll_def Let_def write_at_def min.commute)
qed (simp_all add: FromEpoll_ToEpoll ep_Add_def ep_Modify_def ep_Remove_def ep_IsOpen_def
    EventPoller_init_def)

section \<open>The poller as a descriptor\<close>

definition ep_held :: "EventPoller \<Rightarrow> int list" where
  "ep_held p = (if ep_IsOpen p then [poller_handle p] else [])"

definition ep_api :: "(int, EventPoller) handle_api" where
  "ep_api = \<lparr>ha_open = (\<lambda>fd p. (snd (ep_Open p fd), [])),
     ha_gets = (\<lambda>fd p. if \<not> ep_IsOpen p \<and> 0 \<le> fd then [fd] else []),
     ha_close = (\<lambda>p. case ep_Close p of (p, c) \<Rightarrow> (p, some_list c)),
     ha_move = (\<lambda>p q. case ep_move_assign p q of (p, q, c) \<Rightarrow> (p, q, some_list c))\<rparr>"

interpretation epd: descriptor ep_api ep_held EventPoller_init
  by unfold_locales
    (auto simp: ep_api_def ep_held_def EventPoller_init_def ep_Open_def ep_Close_def ep_move_assign_def
      some_list_def ep_IsOpen_def kInvalidHandle_def Let_def split: if_splits)

end
