(* ===== verification/MacOS.thy ===== *)
theory MacOS
  imports EventPoller
begin

text \<open>
  \<open>core/os/macos/\<close>: the back end of that system. Its socket is written as the Linux one but for
  \<open>SetNonBlocking\<close>; its poller is a wrapper of \<open>kqueue\<close>, which reports one event per filter, so that
  \<open>Poll\<close> has to merge what belongs to one handle. A \<open>struct kevent\<close> takes 32 bytes.
\<close>

section \<open>The socket\<close>

text \<open>The arguments stand for the results of the system calls, as in \<open>UdpSocket\<close>.\<close>

definition mac_Open :: "UDPSocket \<Rightarrow> int \<Rightarrow> bool \<times> UDPSocket" where
  "mac_Open s fd =
     (if UdpSocket.IsOpen s then (False, s)
      else let s = s\<lparr>handle_of := fd\<rparr> in
        if handle_of s < 0 then (False, s\<lparr>handle_of := kInvalidHandle\<rparr>) else (True, s))"

definition mac_address :: "IPv4 \<Rightarrow> Port \<Rightarrow> sockaddr_in option" where
  "mac_address ip port =
     (case inet_pton4 (IPv4_ToString ip) of
        None \<Rightarrow> None
      | Some a \<Rightarrow> Some \<lparr>sin_addr = a, sin_port = htons port\<rparr>)"

definition mac_Bind :: "UDPSocket \<Rightarrow> IPv4 \<Rightarrow> Port \<Rightarrow> (int \<Rightarrow> sockaddr_in \<Rightarrow> int) \<Rightarrow> bool" where
  "mac_Bind s ip port rc =
     (if \<not> UdpSocket.IsOpen s then False
      else case mac_address ip port of
        None \<Rightarrow> False
      | Some addr \<Rightarrow> if rc (handle_of s) addr < 0 then False else True)"

definition mac_Close :: "UDPSocket \<Rightarrow> UDPSocket \<times> int option" where
  "mac_Close s =
     (if UdpSocket.IsOpen s then let closed = handle_of s in (s\<lparr>handle_of := kInvalidHandle\<rparr>, Some closed) else (s, None))"

definition mac_move_assign :: "UDPSocket \<Rightarrow> UDPSocket \<Rightarrow> UDPSocket \<times> UDPSocket \<times> int option" where
  "mac_move_assign s other =
     (let (s, closed) = mac_Close s;
          (taken, other) = (handle_of other, other\<lparr>handle_of := kInvalidHandle\<rparr>) in
      (s\<lparr>handle_of := taken\<rparr>, other, closed))"

definition mac_SendTo ::
  "UDPSocket \<Rightarrow> Endpoint \<Rightarrow> bytes \<Rightarrow> int \<Rightarrow> int \<times> (sockaddr_in \<times> bytes) option" where
  "mac_SendTo s destination data sent =
     (if \<not> UdpSocket.IsOpen s then (- 1, None)
      else case mac_address (ep_ip destination) (ep_port destination) of
        None \<Rightarrow> (- 1, None)
      | Some addr \<Rightarrow> (sent, Some (addr, data)))"

definition mac_ReceiveFrom :: "UDPSocket \<Rightarrow> int \<Rightarrow> sockaddr_in \<Rightarrow> ReceiveResult option" where
  "mac_ReceiveFrom s received addr =
     (if \<not> UdpSocket.IsOpen s then None
      else if received < 0 then None
      else
        let ip_buffer = inet_ntop4 (sin_addr addr) in
        Some \<lparr>bytes_read = nat received,
          rr_sender = \<lparr>ep_ip = IPv4_dotted ip_buffer, ep_port = ntohs (sin_port addr)\<rparr>\<rparr>)"

definition mac_GetLocalEndpoint :: "UDPSocket \<Rightarrow> int \<Rightarrow> sockaddr_in \<Rightarrow> Endpoint option" where
  "mac_GetLocalEndpoint s rc addr =
     (if \<not> UdpSocket.IsOpen s then None
      else if rc < 0 then None
      else
        let ip_buf = inet_ntop4 (sin_addr addr) in
        Some \<lparr>ep_ip = IPv4_dotted ip_buf, ep_port = ntohs (sin_port addr)\<rparr>)"

text \<open>The flag's value on that system.\<close>

definition mac_O_NONBLOCK :: "32 word" where "mac_O_NONBLOCK = 0x4"

text \<open>\<open>SetNonBlocking\<close> of \<open>udp_socket.cpp\<close>, with the arguments of the Linux model.\<close>

definition mac_SetNonBlocking ::
  "UDPSocket \<Rightarrow> bool \<Rightarrow> 32 word \<Rightarrow> (32 word \<Rightarrow> int) \<Rightarrow> bool \<times> 32 word option" where
  "mac_SetNonBlocking s do_not_block flags rc =
     (if \<not> UdpSocket.IsOpen s then (False, None)
      else if sint flags < 0 then (False, None)
      else
        let flags = (if do_not_block then flags OR mac_O_NONBLOCK else flags AND NOT mac_O_NONBLOCK) in
        if rc flags < 0 then (False, Some flags)
        else (True, Some flags))"

section \<open>Opening and closing the poller\<close>

text \<open>\<open>fd\<close> is what \<open>kqueue\<close> returns.\<close>

definition mac_poller_Open :: "EventPoller \<Rightarrow> int \<Rightarrow> bool \<times> EventPoller" where
  "mac_poller_Open p fd =
     (if ep_IsOpen p then (False, p)
      else let p = p\<lparr>poller_handle := fd\<rparr> in
        if poller_handle p < 0 then (False, p\<lparr>poller_handle := kInvalidHandle\<rparr>) else (True, p))"

definition mac_poller_Close :: "EventPoller \<Rightarrow> EventPoller \<times> int option" where
  "mac_poller_Close p =
     (if ep_IsOpen p
      then let closed = poller_handle p in (p\<lparr>poller_handle := kInvalidHandle, native_bytes := 0\<rparr>, Some closed)
      else (p, None))"

definition mac_poller_move_assign :: "EventPoller \<Rightarrow> EventPoller \<Rightarrow> EventPoller \<times> EventPoller \<times> int option" where
  "mac_poller_move_assign p other =
     (let (p, closed) = mac_poller_Close p;
          (taken, other) = (poller_handle other, other\<lparr>poller_handle := kInvalidHandle\<rparr>);
          p = p\<lparr>poller_handle := taken\<rparr>;
          (events, other) = (native_bytes other, other\<lparr>native_bytes := 0\<rparr>) in
      (p\<lparr>native_bytes := events\<rparr>, other, closed))"

section \<open>Change requests\<close>

datatype kfilter = EVFILT_READ | EVFILT_WRITE | EVFILT_other int

definition EV_ADD :: u16 where "EV_ADD = 0x0001"
definition EV_DELETE :: u16 where "EV_DELETE = 0x0002"
definition EV_ENABLE :: u16 where "EV_ENABLE = 0x0004"
definition EV_ERROR :: u16 where "EV_ERROR = 0x4000"
definition EV_EOF :: u16 where "EV_EOF = 0x8000"

record kevent =
  ke_ident :: int
  ke_filter :: kfilter
  ke_flags :: u16

definition EV_SET :: "int \<Rightarrow> kfilter \<Rightarrow> u16 \<Rightarrow> kevent" where
  "EV_SET ident flt flags = \<lparr>ke_ident = ident, ke_filter = flt, ke_flags = flags\<rparr>"

text \<open>
  \<open>rc\<close> is what \<open>kevent\<close> returns for a list of changes and whether \<open>errno\<close> is then \<open>ENOENT\<close>; the second
  component of the results is the list handed to it.
\<close>

definition mac_Add :: "EventPoller \<Rightarrow> int \<Rightarrow> u32 \<Rightarrow> (kevent list \<Rightarrow> int \<times> bool) \<Rightarrow> bool \<times> kevent list option" where
  "mac_Add p handle interest_mask rc =
     (if \<not> ep_IsOpen p then (False, None)
      else
        let changes = [];
            changes = (if interest_mask AND Readable \<noteq> 0
              then changes @ [EV_SET handle EVFILT_READ (EV_ADD OR EV_ENABLE)] else changes);
            changes = (if interest_mask AND Writable \<noteq> 0
              then changes @ [EV_SET handle EVFILT_WRITE (EV_ADD OR EV_ENABLE)] else changes) in
        if changes = [] then (True, None)
        else (\<not> fst (rc changes) < 0, Some changes))"

definition mac_Modify :: "EventPoller \<Rightarrow> int \<Rightarrow> u32 \<Rightarrow> (kevent list \<Rightarrow> int \<times> bool) \<Rightarrow> bool \<times> kevent list option" where
  "mac_Modify p handle interest_mask rc =
     (if \<not> ep_IsOpen p then (False, None)
      else
        let changes =
          [EV_SET handle EVFILT_READ (if interest_mask AND Readable \<noteq> 0 then EV_ADD OR EV_ENABLE else EV_DELETE),
           EV_SET handle EVFILT_WRITE (if interest_mask AND Writable \<noteq> 0 then EV_ADD OR EV_ENABLE else EV_DELETE)] in
        case rc changes of (r, no_entry) \<Rightarrow> (\<not> (r < 0 \<and> \<not> no_entry), Some changes))"

definition mac_Remove :: "EventPoller \<Rightarrow> int \<Rightarrow> (kevent list \<Rightarrow> int \<times> bool) \<Rightarrow> bool \<times> kevent list option" where
  "mac_Remove p handle rc =
     (if \<not> ep_IsOpen p then (False, None)
      else
        let changes = [EV_SET handle EVFILT_READ EV_DELETE, EV_SET handle EVFILT_WRITE EV_DELETE] in
        case rc changes of (r, no_entry) \<Rightarrow> (\<not> (r < 0 \<and> \<not> no_entry), Some changes))"

section \<open>Poll\<close>

definition kevent_mask :: "kevent \<Rightarrow> u32" where
  "kevent_mask e =
     (let mask = 0;
          mask = (if ke_filter e = EVFILT_READ then mask OR Readable else mask);
          mask = (if ke_filter e = EVFILT_WRITE then mask OR Writable else mask);
          mask = (if ke_flags e AND EV_ERROR \<noteq> 0 then mask OR Error_mask else mask);
          mask = (if ke_flags e AND EV_EOF \<noteq> 0 then mask OR Hangup else mask) in
      mask)"

text \<open>The inner loop: the first of the slots in use that holds the handle.\<close>

fun find_slot :: "int \<Rightarrow> nat \<Rightarrow> PollEvent list \<Rightarrow> nat option" where
  "find_slot h j [] = None"
| "find_slot h j (ev # evs) = (if pe_handle ev = h then Some j else find_slot h (Suc j) evs)"

text \<open>One round of the loop over the native events; the state is \<open>out\<close> and \<open>out_count\<close>.\<close>

definition merge_event :: "PollEvent list \<times> nat \<Rightarrow> kevent \<Rightarrow> PollEvent list \<times> nat" where
  "merge_event st e =
     (case st of (out, out_count) \<Rightarrow>
        let h = ke_ident e; mask = kevent_mask e in
        case find_slot h 0 (take out_count out) of
          Some j \<Rightarrow> (out[j := (out ! j)\<lparr>pe_mask := pe_mask (out ! j) OR mask\<rparr>], out_count)
        | None \<Rightarrow>
            if out_count < length out
            then (out[out_count := \<lparr>pe_handle = h, pe_mask = mask\<rparr>], Suc out_count)
            else (out, out_count))"

text \<open>\<open>None\<close> is a null pointer: wait for ever.\<close>

definition poll_timespec :: "int \<Rightarrow> (int \<times> int) option" where
  "poll_timespec timeout_ms =
     (if timeout_ms \<ge> 0 then Some (timeout_ms div 1000, timeout_ms mod 1000 * 1000000) else None)"

definition mac_Poll ::
  "EventPoller \<Rightarrow> PollEvent list \<Rightarrow> int \<Rightarrow> (nat \<Rightarrow> (int \<times> int) option \<Rightarrow> int \<times> kevent list \<times> bool) \<Rightarrow>
   int \<times> PollEvent list \<times> EventPoller" where
  "mac_Poll p out timeout_ms wait =
     (if \<not> ep_IsOpen p then (- 1, out, p)
      else if out = [] then (0, out, p)
      else
        let max_native = length out * 2;
            required_bytes = max_native * 32;
            p = (if native_bytes p < required_bytes then p\<lparr>native_bytes := required_bytes\<rparr> else p);
            (ready, events, interrupted) = wait max_native (poll_timespec timeout_ms) in
        if ready < 0 then (if interrupted then (0, out, p) else (- 1, out, p))
        else
          let (out, out_count) = foldl merge_event (out, 0) (take (nat ready) events) in
          (int out_count, out, p))"

section \<open>What merging yields\<close>

text \<open>The handles in the order in which they first appear, and all that is reported for one.\<close>

definition firsts :: "'x list \<Rightarrow> 'x list" where
  "firsts xs = rev (remdups (rev xs))"

definition all_masks :: "int \<Rightarrow> kevent list \<Rightarrow> u32" where
  "all_masks h es = foldl (OR) 0 (map kevent_mask (filter (\<lambda>e. ke_ident e = h) es))"

lemma firsts_simps [simp]:
  "firsts [] = []" "firsts (xs @ [x]) = (if x \<in> set xs then firsts xs else firsts xs @ [x])"
  "set (firsts xs) = set xs" "distinct (firsts xs)"
  by (simp_all add: firsts_def)

lemma all_masks_simps [simp]:
  "all_masks h [] = 0"
  "all_masks h (es @ [e]) = (if ke_ident e = h then all_masks h es OR kevent_mask e else all_masks h es)"
  by (simp_all add: all_masks_def)

lemma all_masks_absent: "h \<notin> ke_ident ` set es \<Longrightarrow> all_masks h es = 0"
  by (induction es rule: rev_induct) auto

lemma find_slot_None: "find_slot h j evs = None \<longleftrightarrow> h \<notin> pe_handle ` set evs"
  by (induction evs arbitrary: j) auto

lemma find_slot_Some: "find_slot h j evs = Some k \<Longrightarrow> j \<le> k \<and> k - j < length evs \<and> pe_handle (evs ! (k - j)) = h"
proof (induction evs arbitrary: j)
  case (Cons ev evs)
  show ?case
  proof (cases "pe_handle ev = h")
    case False
    then have "find_slot h (Suc j) evs = Some k" using Cons.prems by simp
    from Cons.IH [OF this] show ?thesis by (auto simp: Suc_diff_le nth_Cons' )
  qed (use Cons.prems in simp)
qed simp

lemma slot_update:
  "distinct hs \<Longrightarrow> j < length hs \<Longrightarrow> (map f hs)[j := y] = map (\<lambda>x. if x = hs ! j then y else f x) hs"
  by (auto simp: list_eq_iff_nth_eq nth_list_update nth_eq_iff_index_eq)

definition merged :: "PollEvent list \<Rightarrow> kevent list \<Rightarrow> PollEvent list \<times> nat \<Rightarrow> bool" where
  "merged out es st = (case st of (out', n) \<Rightarrow>
     let hs = take (length out) (firsts (map ke_ident es)) in
     n = length hs \<and> out' = map (\<lambda>h. \<lparr>pe_handle = h, pe_mask = all_masks h es\<rparr>) hs @ drop n out)"

lemma merged_step: "merged out es st \<Longrightarrow> merged out (es @ [e]) (merge_event st e)"
proof -
  assume m: "merged out es st"
  let ?hs = "take (length out) (firsts (map ke_ident es))" and ?h = "ke_ident e"
  obtain out' n where st: "st = (out', n)" by (cases st)
  have n: "n = length ?hs" and out': "out' = map (\<lambda>h. \<lparr>pe_handle = h, pe_mask = all_masks h es\<rparr>) ?hs @ drop n out"
    using m by (simp_all add: merged_def st Let_def)
  have used: "take n out' = map (\<lambda>h. \<lparr>pe_handle = h, pe_mask = all_masks h es\<rparr>) ?hs" using n out' by simp
  have d: "distinct ?hs" by simp
  show ?thesis
  proof (cases "?h \<in> set ?hs")
    case True
    have "find_slot ?h 0 (take n out') \<noteq> None" using True by (simp add: find_slot_None used image_image)
    then obtain j where j: "find_slot ?h 0 (take n out') = Some j" by blast
    have jn: "j < n" "?hs ! j = ?h" using find_slot_Some [OF j] n used by auto
    have "?h \<in> ke_ident ` set es" using True set_take_subset by fastforce
    then have hs: "take (length out) (firsts (map ke_ident (es @ [e]))) = ?hs" by simp
    have upd: "(map (\<lambda>h. \<lparr>pe_handle = h, pe_mask = all_masks h es\<rparr>) ?hs)
          [j := \<lparr>pe_handle = ?h, pe_mask = all_masks ?h es OR kevent_mask e\<rparr>] =
        map (\<lambda>h. \<lparr>pe_handle = h, pe_mask = all_masks h (es @ [e])\<rparr>) ?hs"
      using slot_update [OF d, of j "\<lambda>h. \<lparr>pe_handle = h, pe_mask = all_masks h es\<rparr>"
          "\<lparr>pe_handle = ?h, pe_mask = all_masks ?h es OR kevent_mask e\<rparr>"] jn n
      by (auto simp: map_eq_conv)
    have at_j: "out' ! j = \<lparr>pe_handle = ?h, pe_mask = all_masks ?h es\<rparr>"
      unfolding out' using jn n by (simp add: nth_append)
    have "out'[j := (out' ! j)\<lparr>pe_mask := pe_mask (out' ! j) OR kevent_mask e\<rparr>] =
        map (\<lambda>h. \<lparr>pe_handle = h, pe_mask = all_masks h (es @ [e])\<rparr>) ?hs @ drop n out"
      unfolding at_j upd [symmetric] unfolding out' using jn(1) n by (simp add: list_update_append)
    then show ?thesis using j hs n by (simp add: merge_event_def st merged_def Let_def)
  next
    case False
    then have none: "find_slot ?h 0 (take n out') = None" by (simp add: find_slot_None used image_image)
    have keep: "map (\<lambda>h. \<lparr>pe_handle = h, pe_mask = all_masks h (es @ [e])\<rparr>) ?hs =
        map (\<lambda>h. \<lparr>pe_handle = h, pe_mask = all_masks h es\<rparr>) ?hs" using False by auto
    show ?thesis
    proof (cases "n < length out")
      case True
      then have full: "?hs = firsts (map ke_ident es)" using n by simp
      then have new: "?h \<notin> ke_ident ` set es" using False by auto
      have "take (length out) (firsts (map ke_ident (es @ [e]))) = ?hs @ [?h]"
        using new True n full by (auto simp: image_iff)
      moreover have "out'[n := \<lparr>pe_handle = ?h, pe_mask = kevent_mask e\<rparr>] =
          map (\<lambda>h. \<lparr>pe_handle = h, pe_mask = all_masks h es\<rparr>) ?hs @ [\<lparr>pe_handle = ?h, pe_mask = kevent_mask e\<rparr>] @ drop (Suc n) out"
        unfolding out' using True n by (simp add: list_update_append Cons_nth_drop_Suc [symmetric])
      ultimately show ?thesis
        using none True n keep all_masks_absent [OF new] out' by (simp add: merge_event_def st merged_def Let_def)
    next
      case False
      then have "length (firsts (map ke_ident es)) \<ge> length out" using n by simp
      then have "take (length out) (firsts (map ke_ident (es @ [e]))) = ?hs" by simp
      moreover have "n = length out" "length out' = length out" using False n out' by auto
      ultimately show ?thesis using none n keep out' by (simp add: merge_event_def st merged_def Let_def)
    qed
  qed
qed

lemma merged_all: "merged out es (foldl merge_event (out, 0) es)"
  by (induction es rule: rev_induct) (simp add: merged_def, simp add: merged_step)

section \<open>Properties\<close>

lemma foldl_or_bit: "bit (foldl (OR) a ws) k \<longleftrightarrow> bit a k \<or> (\<exists>w\<in>set ws. bit w k)" for a :: u32
  by (induction ws arbitrary: a) (auto simp: bit_or_iff)

lemma bit_all_masks: "bit (all_masks h es) k \<longleftrightarrow> (\<exists>e\<in>set es. ke_ident e = h \<and> bit (kevent_mask e) k)"
  by (auto simp: all_masks_def foldl_or_bit)

lemma bit_kevent_mask: "bit (kevent_mask e) k \<longleftrightarrow>
  k = 0 \<and> ke_filter e = EVFILT_READ \<or> k = 1 \<and> ke_filter e = EVFILT_WRITE \<or>
  k = 2 \<and> ke_flags e AND EV_ERROR \<noteq> 0 \<or> k = 3 \<and> ke_flags e AND EV_EOF \<noteq> 0"
  unfolding kevent_mask_def Let_def bit_set_if flag_bits by auto

text \<open>What a caller reads off the event of one handle.\<close>

definition summary :: "int \<Rightarrow> kevent list \<Rightarrow> PollEvent" where
  "summary h es = \<lparr>pe_handle = h, pe_mask = all_masks h es\<rparr>"

lemma summary_reads:
  "IsReadable (summary h es) \<longleftrightarrow> (\<exists>e\<in>set es. ke_ident e = h \<and> ke_filter e = EVFILT_READ)"
  "IsWritable (summary h es) \<longleftrightarrow> (\<exists>e\<in>set es. ke_ident e = h \<and> ke_filter e = EVFILT_WRITE)"
  "IsError (summary h es) \<longleftrightarrow> (\<exists>e\<in>set es. ke_ident e = h \<and> ke_flags e AND EV_ERROR \<noteq> 0)"
  "IsHangup (summary h es) \<longleftrightarrow> (\<exists>e\<in>set es. ke_ident e = h \<and> ke_flags e AND EV_EOF \<noteq> 0)"
  by (simp_all add: summary_def IsReadable_def IsWritable_def IsError_def IsHangup_def and_nonzero
      flag_bits bit_all_masks bit_kevent_mask)

lemma timespec_exact: "case poll_timespec t of
    None \<Rightarrow> t < 0
  | Some (sec, nsec) \<Rightarrow> sec * 1000000000 + nsec = t * 1000000 \<and> nsec \<in> {0..<1000000000} \<and> sec \<ge> 0"
proof -
  have "t div 1000 * 1000000000 + t mod 1000 * 1000000 = (t div 1000 * 1000 + t mod 1000) * 1000000"
    unfolding distrib_right by simp
  then have "t div 1000 * 1000000000 + t mod 1000 * 1000000 = t * 1000000" unfolding div_mult_mod_eq .
  then show ?thesis by (simp add: poll_timespec_def pos_imp_zdiv_nonneg_iff)
qed

text \<open>
  C31. The macOS poller shows its caller what the Linux one does although the kernel reports each filter
  separately: the result has one entry for each handle, in the order in which handles first appear, as
  many as fit; an entry is readable, writable, an error or a hang-up exactly when one of the kernel's
  events for that handle says so, however many there are and wherever they stand; the rest of the
  array is left alone, and the wait is exactly the time asked for.
\<close>

theorem mac_poll_merges:
  "(case mac_Poll p out timeout_ms wait of (n, out', p') \<Rightarrow>
     (case wait (length out * 2) (poll_timespec timeout_ms) of (ready, events, interrupted) \<Rightarrow>
       let es = take (nat ready) events; hs = take (length out) (firsts (map ke_ident es)) in
       (if \<not> ep_IsOpen p then n = - 1 \<and> out' = out
        else if out = [] then n = 0 \<and> out' = out
        else if ready < 0 then out' = out \<and> n = (if interrupted then 0 else - 1)
        else n = int (length hs) \<and> distinct hs \<and>
          out' = map (\<lambda>h. summary h es) hs @ drop (length hs) out))) \<and>
   IsReadable (summary h es) = (\<exists>e\<in>set es. ke_ident e = h \<and> ke_filter e = EVFILT_READ) \<and>
   IsWritable (summary h es) = (\<exists>e\<in>set es. ke_ident e = h \<and> ke_filter e = EVFILT_WRITE) \<and>
   IsError (summary h es) = (\<exists>e\<in>set es. ke_ident e = h \<and> ke_flags e AND EV_ERROR \<noteq> 0) \<and>
   IsHangup (summary h es) = (\<exists>e\<in>set es. ke_ident e = h \<and> ke_flags e AND EV_EOF \<noteq> 0) \<and>
   (case poll_timespec timeout_ms of
      None \<Rightarrow> timeout_ms < 0
    | Some (sec, nsec) \<Rightarrow>
        sec * 1000000000 + nsec = timeout_ms * 1000000 \<and> nsec \<in> {0..<1000000000} \<and> sec \<ge> 0)"
proof (intro conjI timespec_exact)
  obtain ready events interrupted where w: "wait (length out * 2) (poll_timespec timeout_ms) = (ready, events, interrupted)"
    by (cases "wait (length out * 2) (poll_timespec timeout_ms)")
  obtain out' n where f: "foldl merge_event (out, 0) (take (nat ready) events) = (out', n)"
    by (cases "foldl merge_event (out, 0) (take (nat ready) events)")
  have "merged out (take (nat ready) events) (out', n)"
    using merged_all [of out "take (nat ready) events"] by (simp add: f)
  then show "case mac_Poll p out timeout_ms wait of (n, out', p') \<Rightarrow>
     (case wait (length out * 2) (poll_timespec timeout_ms) of (ready, events, interrupted) \<Rightarrow>
       let es = take (nat ready) events; hs = take (length out) (firsts (map ke_ident es)) in
       (if \<not> ep_IsOpen p then n = - 1 \<and> out' = out
        else if out = [] then n = 0 \<and> out' = out
        else if ready < 0 then out' = out \<and> n = (if interrupted then 0 else - 1)
        else n = int (length hs) \<and> distinct hs \<and>
          out' = map (\<lambda>h. summary h es) hs @ drop (length hs) out))"
    by (simp add: mac_Poll_def w f merged_def Let_def summary_def)
qed (simp_all add: summary_reads)

section \<open>Socket and poller as descriptors\<close>

lemma mac_socket_as_linux:
  "mac_Open = udp_Open" "mac_Close = udp_Close" "mac_move_assign = udp_move_assign" "mac_address = socket_address"
  "mac_Bind = Bind" "mac_SendTo = SendTo" "mac_ReceiveFrom = ReceiveFrom" "mac_GetLocalEndpoint = GetLocalEndpoint"
proof -
  show close: "mac_Close = udp_Close" and addr: "mac_address = socket_address"
    by (intro ext; simp add: mac_Close_def udp_Close_def mac_address_def socket_address_def)+
  show "mac_Open = udp_Open" "mac_ReceiveFrom = ReceiveFrom" "mac_GetLocalEndpoint = GetLocalEndpoint"
    by (intro ext; simp add: mac_Open_def udp_Open_def mac_ReceiveFrom_def ReceiveFrom_def mac_GetLocalEndpoint_def
        GetLocalEndpoint_def endpoint_of_def Let_def)+
  show "mac_move_assign = udp_move_assign"
    by (intro ext) (simp add: mac_move_assign_def udp_move_assign_def close split: prod.split)
  show "mac_Bind = Bind" "mac_SendTo = SendTo"
    by (intro ext; simp add: mac_Bind_def Bind_def mac_SendTo_def SendTo_def addr split: option.split)+
qed

lemma mac_poller_as_linux:
  "mac_poller_Open = ep_Open" "mac_poller_Close = ep_Close" "mac_poller_move_assign = ep_move_assign"
proof -
  show close: "mac_poller_Close = ep_Close" and "mac_poller_Open = ep_Open"
    by (intro ext; simp add: mac_poller_Close_def ep_Close_def mac_poller_Open_def ep_Open_def)+
  show "mac_poller_move_assign = ep_move_assign"
    by (intro ext) (simp add: mac_poller_move_assign_def ep_move_assign_def close split: prod.split)
qed

definition mac_udp_api :: "(int, UDPSocket) handle_api" where
  "mac_udp_api = \<lparr>ha_open = (\<lambda>fd s. (snd (mac_Open s fd), [])),
     ha_gets = (\<lambda>fd s. if \<not> UdpSocket.IsOpen s \<and> 0 \<le> fd then [fd] else []),
     ha_close = (\<lambda>s. case mac_Close s of (s, c) \<Rightarrow> (s, some_list c)),
     ha_move = (\<lambda>s t. case mac_move_assign s t of (s, t, c) \<Rightarrow> (s, t, some_list c))\<rparr>"

definition mac_poller_api :: "(int, EventPoller) handle_api" where
  "mac_poller_api = \<lparr>ha_open = (\<lambda>fd p. (snd (mac_poller_Open p fd), [])),
     ha_gets = (\<lambda>fd p. if \<not> ep_IsOpen p \<and> 0 \<le> fd then [fd] else []),
     ha_close = (\<lambda>p. case mac_poller_Close p of (p, c) \<Rightarrow> (p, some_list c)),
     ha_move = (\<lambda>p q. case mac_poller_move_assign p q of (p, q, c) \<Rightarrow> (p, q, some_list c))\<rparr>"

lemma mac_apis: "mac_udp_api = udp_api" "mac_poller_api = ep_api"
  by (simp_all add: mac_udp_api_def udp_api_def mac_poller_api_def ep_api_def mac_socket_as_linux mac_poller_as_linux)

interpretation mac_udp: descriptor mac_udp_api udp_held UDPSocket_init
  unfolding mac_apis by (rule udp.descriptor_axioms)

interpretation mac_epd: descriptor mac_poller_api ep_held EventPoller_init
  unfolding mac_apis by (rule epd.descriptor_axioms)

end
