(* ===== verification/Windows.thy ===== *)
theory Windows
  imports EventPoller
begin

text \<open>
  \<open>core/os/windows/\<close>: the socket over Winsock and the poller over \<open>WSAPoll\<close>. A \<open>SOCKET\<close> is an
  unsigned 64-bit number, kept in a 32-bit handle; calls fail with \<open>SOCKET_ERROR\<close>, minus one. The
  poller keeps its registrations itself, as an array of \<open>WSAPOLLFD\<close> in \<open>native_events_\<close>.
\<close>

section \<open>The socket\<close>

definition INVALID_SOCKET :: u64 where "INVALID_SOCKET = - 1"
definition SOCKET_ERROR :: int where "SOCKET_ERROR = - 1"

text \<open>\<open>static_cast<Handle>\<close> of a socket, and the way back, which extends the sign.\<close>

definition to_Handle :: "u64 \<Rightarrow> int" where
  "to_Handle s = sint (ucast s :: 32 word)"

definition to_SOCKET :: "int \<Rightarrow> u64" where
  "to_SOCKET handle = word_of_int handle"

definition win_Open :: "UDPSocket \<Rightarrow> u64 \<Rightarrow> bool \<times> UDPSocket" where
  "win_Open s sock =
     (if UdpSocket.IsOpen s then (False, s)
      else if sock = INVALID_SOCKET then (False, s)
      else (True, s\<lparr>handle_of := to_Handle sock\<rparr>))"

definition win_Bind :: "UDPSocket \<Rightarrow> IPv4 \<Rightarrow> Port \<Rightarrow> (u64 \<Rightarrow> sockaddr_in \<Rightarrow> int) \<Rightarrow> bool" where
  "win_Bind s ip port rc =
     (if \<not> UdpSocket.IsOpen s then False
      else case socket_address ip port of
        None \<Rightarrow> False
      | Some addr \<Rightarrow> rc (to_SOCKET (handle_of s)) addr \<noteq> SOCKET_ERROR)"

definition win_Close :: "UDPSocket \<Rightarrow> UDPSocket \<times> u64 option" where
  "win_Close s =
     (if UdpSocket.IsOpen s then (s\<lparr>handle_of := kInvalidHandle\<rparr>, Some (to_SOCKET (handle_of s))) else (s, None))"

definition win_move_assign :: "UDPSocket \<Rightarrow> UDPSocket \<Rightarrow> UDPSocket \<times> UDPSocket \<times> u64 option" where
  "win_move_assign s other =
     (let (s, closed) = win_Close s in
      (s\<lparr>handle_of := handle_of other\<rparr>, other\<lparr>handle_of := kInvalidHandle\<rparr>, closed))"

text \<open>\<open>rc\<close> is the result of \<open>ioctlsocket\<close> for the mode it is given, which is returned too.\<close>

definition win_SetNonBlocking :: "UDPSocket \<Rightarrow> bool \<Rightarrow> (u32 \<Rightarrow> int) \<Rightarrow> bool \<times> u32 option" where
  "win_SetNonBlocking s do_not_block rc =
     (if \<not> UdpSocket.IsOpen s then (False, None)
      else let mode = (if do_not_block then 1 else 0) in
        if rc mode = SOCKET_ERROR then (False, Some mode) else (True, Some mode))"

definition win_SendTo ::
  "UDPSocket \<Rightarrow> Endpoint \<Rightarrow> bytes \<Rightarrow> int \<Rightarrow> int \<times> (sockaddr_in \<times> bytes) option" where
  "win_SendTo s destination data sent =
     (if \<not> UdpSocket.IsOpen s then (- 1, None)
      else case socket_address (ep_ip destination) (ep_port destination) of
        None \<Rightarrow> (- 1, None)
      | Some addr \<Rightarrow> (if sent = SOCKET_ERROR then (- 1, Some (addr, data)) else (sent, Some (addr, data))))"

definition win_ReceiveFrom :: "UDPSocket \<Rightarrow> int \<Rightarrow> sockaddr_in \<Rightarrow> ReceiveResult option" where
  "win_ReceiveFrom s received addr =
     (if \<not> UdpSocket.IsOpen s then None
      else if received = SOCKET_ERROR then None
      else Some \<lparr>bytes_read = nat received, rr_sender = endpoint_of addr\<rparr>)"

definition win_GetLocalEndpoint :: "UDPSocket \<Rightarrow> int \<Rightarrow> sockaddr_in \<Rightarrow> Endpoint option" where
  "win_GetLocalEndpoint s rc addr =
     (if \<not> UdpSocket.IsOpen s then None
      else if rc = SOCKET_ERROR then None else Some (endpoint_of addr))"

section \<open>The poller\<close>

definition POLLRDNORM :: u16 where "POLLRDNORM = 0x0100"
definition POLLWRNORM :: u16 where "POLLWRNORM = 0x0010"
definition POLLERR :: u16 where "POLLERR = 0x0001"
definition POLLHUP :: u16 where "POLLHUP = 0x0002"

definition ToWSA :: "u32 \<Rightarrow> u16" where
  "ToWSA interest =
     (let ev = 0;
          ev = (if interest AND Readable \<noteq> 0 then ev OR POLLRDNORM else ev);
          ev = (if interest AND Writable \<noteq> 0 then ev OR POLLWRNORM else ev);
          ev = (if interest AND Error_mask \<noteq> 0 then ev OR POLLERR else ev);
          ev = (if interest AND Hangup \<noteq> 0 then ev OR POLLHUP else ev) in
      ev)"

definition FromWSA :: "u16 \<Rightarrow> u32" where
  "FromWSA revents =
     (let mask = 0;
          mask = (if revents AND POLLRDNORM \<noteq> 0 then mask OR Readable else mask);
          mask = (if revents AND POLLWRNORM \<noteq> 0 then mask OR Writable else mask);
          mask = (if revents AND POLLERR \<noteq> 0 then mask OR Error_mask else mask);
          mask = (if revents AND POLLHUP \<noteq> 0 then mask OR Hangup else mask) in
      mask)"

record WSAPOLLFD =
  wp_fd :: u64
  wp_events :: u16
  wp_revents :: u16

record WinPoller =
  wpo_handle :: int
  wpo_fds :: "WSAPOLLFD list"

definition WinPoller_init :: WinPoller where
  "WinPoller_init = \<lparr>wpo_handle = kInvalidHandle, wpo_fds = []\<rparr>"

definition wpo_IsOpen :: "WinPoller \<Rightarrow> bool" where
  "wpo_IsOpen p \<longleftrightarrow> wpo_handle p \<noteq> kInvalidHandle"

text \<open>The handle is taken from a global counter, a 32-bit atomic.\<close>

definition wpo_Open :: "32 word \<Rightarrow> WinPoller \<Rightarrow> bool \<times> WinPoller \<times> 32 word" where
  "wpo_Open counter p =
     (if wpo_IsOpen p then (False, p, counter)
      else (True, p\<lparr>wpo_handle := sint counter, wpo_fds := []\<rparr>, counter + 1))"

definition wpo_Close :: "WinPoller \<Rightarrow> WinPoller" where
  "wpo_Close p = (if wpo_IsOpen p then p\<lparr>wpo_fds := [], wpo_handle := kInvalidHandle\<rparr> else p)"

definition wpo_move_assign :: "WinPoller \<Rightarrow> WinPoller \<Rightarrow> WinPoller \<times> WinPoller" where
  "wpo_move_assign p other =
     (let p = wpo_Close p in
      (p\<lparr>wpo_handle := wpo_handle other, wpo_fds := wpo_fds other\<rparr>, other\<lparr>wpo_handle := kInvalidHandle, wpo_fds := []\<rparr>))"

text \<open>The search all three operations on registrations begin with.\<close>

fun find_fd :: "u64 \<Rightarrow> nat \<Rightarrow> WSAPOLLFD list \<Rightarrow> nat option" where
  "find_fd s i [] = None"
| "find_fd s i (f # fs) = (if wp_fd f = s then Some i else find_fd s (Suc i) fs)"

definition wpo_Add :: "WinPoller \<Rightarrow> int \<Rightarrow> u32 \<Rightarrow> bool \<times> WinPoller" where
  "wpo_Add p handle interest_mask =
     (if \<not> wpo_IsOpen p then (False, p)
      else if find_fd (to_SOCKET handle) 0 (wpo_fds p) \<noteq> None then (False, p)
      else (True, p\<lparr>wpo_fds := wpo_fds p @
        [\<lparr>wp_fd = to_SOCKET handle, wp_events = ToWSA interest_mask, wp_revents = 0\<rparr>]\<rparr>))"

definition wpo_Modify :: "WinPoller \<Rightarrow> int \<Rightarrow> u32 \<Rightarrow> bool \<times> WinPoller" where
  "wpo_Modify p handle interest_mask =
     (if \<not> wpo_IsOpen p then (False, p)
      else case find_fd (to_SOCKET handle) 0 (wpo_fds p) of
        None \<Rightarrow> (False, p)
      | Some i \<Rightarrow> (True, p\<lparr>wpo_fds := (wpo_fds p)[i := (wpo_fds p ! i)\<lparr>wp_events := ToWSA interest_mask\<rparr>]\<rparr>))"

text \<open>The last entry takes the place of the removed one.\<close>

definition wpo_Remove :: "WinPoller \<Rightarrow> int \<Rightarrow> bool \<times> WinPoller" where
  "wpo_Remove p handle =
     (if \<not> wpo_IsOpen p then (False, p)
      else case find_fd (to_SOCKET handle) 0 (wpo_fds p) of
        None \<Rightarrow> (False, p)
      | Some i \<Rightarrow>
          let n = length (wpo_fds p);
              fds = (if i < n - 1 then (wpo_fds p)[i := wpo_fds p ! (n - 1)] else wpo_fds p) in
          (True, p\<lparr>wpo_fds := take (n - 1) fds\<rparr>))"

text \<open>The loop that fills \<open>out\<close>: entries whose \<open>revents\<close> is not zero, while there is room.\<close>

definition wsa_events :: "nat \<Rightarrow> WSAPOLLFD list \<Rightarrow> PollEvent list" where
  "wsa_events room fds =
     take room (map (\<lambda>f. \<lparr>pe_handle = to_Handle (wp_fd f), pe_mask = FromWSA (wp_revents f)\<rparr>)
       (filter (\<lambda>f. wp_revents f \<noteq> 0) fds))"

text \<open>
  \<open>wsa\<close> is what \<open>WSAPoll\<close> does with the array: its result and the \<open>revents\<close> it leaves in the
  entry of each position.
\<close>

definition wpo_Poll ::
  "WinPoller \<Rightarrow> PollEvent list \<Rightarrow> (WSAPOLLFD list \<Rightarrow> int \<times> (nat \<Rightarrow> u16)) \<Rightarrow> int \<times> PollEvent list \<times> WinPoller" where
  "wpo_Poll p out wsa =
     (if \<not> wpo_IsOpen p then (- 1, out, p)
      else if out = [] then (0, out, p)
      else if wpo_fds p = [] then (0, out, p)
      else
        let fds = map (\<lambda>f. f\<lparr>wp_revents := 0\<rparr>) (wpo_fds p);
            (ready, revents) = wsa fds in
        if ready = SOCKET_ERROR then (- 1, out, p\<lparr>wpo_fds := fds\<rparr>)
        else
          let fds = map2 (\<lambda>f i. f\<lparr>wp_revents := revents i\<rparr>) fds [0..<length fds];
              events = wsa_events (length out) fds in
          (int (length events), write_at 0 events out, p\<lparr>wpo_fds := fds\<rparr>))"

section \<open>Registrations\<close>

text \<open>What the array stands for: the events each socket is registered for.\<close>

definition regs :: "WinPoller \<Rightarrow> u64 \<Rightarrow> u16 option" where
  "regs p = map_of (map (\<lambda>f. (wp_fd f, wp_events f)) (wpo_fds p))"

definition poller_ok :: "WinPoller \<Rightarrow> bool" where
  "poller_ok p \<longleftrightarrow> wpo_IsOpen p \<and> distinct (map wp_fd (wpo_fds p))"

text \<open>A move takes the registrations along and leaves a closed poller behind.\<close>

lemma wpo_move_regs:
  "poller_ok q \<Longrightarrow> wpo_move_assign p q = (p', q') \<Longrightarrow>
   poller_ok p' \<and> regs p' = regs q \<and> \<not> wpo_IsOpen q' \<and> regs q' = Map.empty"
  by (auto simp: wpo_move_assign_def Let_def poller_ok_def regs_def wpo_IsOpen_def)

datatype poller_op =
  Op_Add int u32
| Op_Modify int u32
| Op_Remove int
| Op_Poll "PollEvent list" "WSAPOLLFD list \<Rightarrow> int \<times> (nat \<Rightarrow> u16)"

fun wpo_step :: "poller_op \<Rightarrow> WinPoller \<Rightarrow> bool \<times> WinPoller" where
  "wpo_step (Op_Add h m) p = wpo_Add p h m"
| "wpo_step (Op_Modify h m) p = wpo_Modify p h m"
| "wpo_step (Op_Remove h) p = wpo_Remove p h"
| "wpo_step (Op_Poll out wsa) p = (case wpo_Poll p out wsa of (n, out, p) \<Rightarrow> (n \<ge> 0, p))"

text \<open>The specification: a finite map, in which a poll changes nothing.\<close>

fun reg_step :: "poller_op \<Rightarrow> (u64 \<Rightarrow> u16 option) \<Rightarrow> u64 \<Rightarrow> u16 option" where
  "reg_step (Op_Add h m) r = (if r (to_SOCKET h) = None then r(to_SOCKET h \<mapsto> ToWSA m) else r)"
| "reg_step (Op_Modify h m) r = (if r (to_SOCKET h) = None then r else r(to_SOCKET h \<mapsto> ToWSA m))"
| "reg_step (Op_Remove h) r = r(to_SOCKET h := None)"
| "reg_step (Op_Poll out wsa) r = r"

text \<open>When an operation on registrations is accepted.\<close>

fun reg_accepts :: "poller_op \<Rightarrow> (u64 \<Rightarrow> u16 option) \<Rightarrow> bool" where
  "reg_accepts (Op_Add h m) r \<longleftrightarrow> r (to_SOCKET h) = None"
| "reg_accepts (Op_Modify h m) r \<longleftrightarrow> r (to_SOCKET h) \<noteq> None"
| "reg_accepts (Op_Remove h) r \<longleftrightarrow> r (to_SOCKET h) \<noteq> None"
| "reg_accepts (Op_Poll out wsa) r \<longleftrightarrow> True"

lemma find_fd_None: "find_fd s i fds = None \<longleftrightarrow> s \<notin> wp_fd ` set fds"
  by (induction fds arbitrary: i) auto

lemma find_fd_Some:
  "find_fd s i fds = Some k \<Longrightarrow>
   \<exists>us f vs. fds = us @ f # vs \<and> wp_fd f = s \<and> s \<notin> wp_fd ` set us \<and> k = i + length us"
proof (induction fds arbitrary: i)
  case (Cons f fds)
  show ?case
  proof (cases "wp_fd f = s")
    case True
    then show ?thesis using Cons.prems by (intro exI [of _ "[]"]) auto
  next
    case False
    then have "find_fd s (Suc i) fds = Some k" using Cons.prems by simp
    from Cons.IH [OF this] obtain us g vs where
      "fds = us @ g # vs" "wp_fd g = s" "s \<notin> wp_fd ` set us" "k = Suc i + length us" by blast
    then show ?thesis using False by (intro exI [of _ "f # us"]) auto
  qed
qed simp

lemma regs_None: "regs p s = None \<longleftrightarrow> find_fd s 0 (wpo_fds p) = None"
  by (simp add: regs_def find_fd_None map_of_eq_None_iff image_image)

lemma map_of_split:
  "distinct (map fst (us @ x # vs)) \<Longrightarrow> map_of (us @ x # vs) = (map_of (us @ vs))(fst x \<mapsto> snd x)"
proof (induction us)
  case (Cons u us)
  then have "fst u \<noteq> fst x" by auto
  then show ?case using Cons by (auto simp del: map_of_append simp: fun_eq_iff)
qed simp

text \<open>What an entry contributes, wherever it stands.\<close>

lemma regs_split:
  assumes "poller_ok p" "wpo_fds p = us @ f # vs"
  shows "regs p = (regs (p\<lparr>wpo_fds := us @ vs\<rparr>))(wp_fd f \<mapsto> wp_events f)"
    "regs (p\<lparr>wpo_fds := us @ vs\<rparr>) (wp_fd f) = None" "distinct (map wp_fd (us @ vs))"
proof -
  let ?g = "\<lambda>f. (wp_fd f, wp_events f)"
  have d: "distinct (map wp_fd (us @ f # vs))" using assms by (simp add: poller_ok_def)
  then have "distinct (map fst (map ?g us @ ?g f # map ?g vs))" by (simp add: comp_def)
  from map_of_split [OF this] show "regs p = (regs (p\<lparr>wpo_fds := us @ vs\<rparr>))(wp_fd f \<mapsto> wp_events f)"
    using assms(2) by (simp add: regs_def)
  show "regs (p\<lparr>wpo_fds := us @ vs\<rparr>) (wp_fd f) = None"
    using d by (auto simp: regs_None find_fd_None)
  show "distinct (map wp_fd (us @ vs))" using d by auto
qed

text \<open>The order of the entries does not matter.\<close>

lemma regs_rotate:
  "distinct (map wp_fd (us @ vs @ [f])) \<Longrightarrow> regs (p\<lparr>wpo_fds := us @ f # vs\<rparr>) = regs (p\<lparr>wpo_fds := us @ vs @ [f]\<rparr>)"
  unfolding regs_def by (simp del: map_of_append, subst map_of_inject_set) (auto simp: comp_def)

text \<open>One operation keeps the invariant, does to the map what the specification says and is
  accepted as it says.\<close>

definition step_ok :: "poller_op \<Rightarrow> WinPoller \<Rightarrow> bool" where
  "step_ok a p \<longleftrightarrow> (case wpo_step a p of (accepted, p') \<Rightarrow>
     poller_ok p' \<and> regs p' = reg_step a (regs p) \<and>
     (case a of Op_Poll out wsa \<Rightarrow> True | _ \<Rightarrow> accepted = reg_accepts a (regs p)))"

lemma add_ok:
  assumes ok: "poller_ok p"
  shows "step_ok (Op_Add h m) p"
proof -
  have isopen: "wpo_IsOpen p" using ok by (simp add: poller_ok_def)
  show ?thesis
  proof (cases "find_fd (to_SOCKET h) 0 (wpo_fds p)")
    case None
    then have r: "regs p (to_SOCKET h) = None" by (simp add: regs_None)
    from None have "to_SOCKET h \<notin> wp_fd ` set (wpo_fds p)" by (simp add: find_fd_None)
    then have ok': "poller_ok (snd (wpo_Add p h m))"
      using ok None by (auto simp: step_ok_def wpo_Add_def poller_ok_def wpo_IsOpen_def)
    have "wpo_fds (snd (wpo_Add p h m)) = wpo_fds p @ \<lparr>wp_fd = to_SOCKET h, wp_events = ToWSA m, wp_revents = 0\<rparr> # []"
      using None isopen by (simp add: step_ok_def wpo_Add_def)
    from regs_split(1) [OF ok' this] show ?thesis using ok' None isopen r by (simp add: step_ok_def wpo_Add_def regs_def)
  next
    case (Some i)
    then have "regs p (to_SOCKET h) \<noteq> None" by (simp add: regs_None)
    then show ?thesis using Some ok isopen by (auto simp: step_ok_def wpo_Add_def)
  qed
qed

lemma modify_ok:
  assumes ok: "poller_ok p"
  shows "step_ok (Op_Modify h m) p"
proof -
  have isopen: "wpo_IsOpen p" using ok by (simp add: poller_ok_def)
  show ?thesis
  proof (cases "find_fd (to_SOCKET h) 0 (wpo_fds p)")
    case None
    then have r: "regs p (to_SOCKET h) = None" by (simp add: regs_None)
    then show ?thesis using None ok isopen by (simp add: step_ok_def wpo_Modify_def)
  next
    case (Some i)
    then have r: "regs p (to_SOCKET h) \<noteq> None" by (simp add: regs_None)
    from find_fd_Some [OF Some] obtain us f vs where
      f: "wpo_fds p = us @ f # vs" "wp_fd f = to_SOCKET h" "i = length us" by auto
    let ?f = "f\<lparr>wp_events := ToWSA m\<rparr>"
    let ?p = "p\<lparr>wpo_fds := us @ ?f # vs\<rparr>"
    have st: "wpo_Modify p h m = (True, ?p)" using Some isopen f by (simp add: step_ok_def wpo_Modify_def)
    have ok': "poller_ok ?p" using ok f by (simp add: poller_ok_def wpo_IsOpen_def)
    have "regs ?p = (regs p)(to_SOCKET h \<mapsto> ToWSA m)"
      using regs_split(1) [OF ok f(1)] regs_split(1) [OF ok', of us ?f vs] f(2) by simp
    then show ?thesis using st ok' r by (auto simp: step_ok_def)
  qed
qed

lemma remove_ok:
  assumes ok: "poller_ok p"
  shows "step_ok (Op_Remove h) p"
proof -
  have isopen: "wpo_IsOpen p" using ok by (simp add: poller_ok_def)
  show ?thesis
  proof (cases "find_fd (to_SOCKET h) 0 (wpo_fds p)")
    case None
    then have r: "regs p (to_SOCKET h) = None" by (simp add: regs_None)
    then show ?thesis using None ok isopen by (auto simp: step_ok_def wpo_Remove_def)
  next
    case (Some i)
    then have r: "regs p (to_SOCKET h) \<noteq> None" by (simp add: regs_None)
    from find_fd_Some [OF Some] obtain us f vs where
      f: "wpo_fds p = us @ f # vs" "wp_fd f = to_SOCKET h" "i = length us" by auto
    note split = regs_split [OF ok f(1)]
    have rest: "regs (p\<lparr>wpo_fds := us @ vs\<rparr>) = (regs p)(to_SOCKET h := None)"
      using split(1,2) f(2) by (auto simp: fun_eq_iff)
    show ?thesis
    proof (cases vs rule: rev_cases)
      case Nil
      have "wpo_Remove p h = (True, p\<lparr>wpo_fds := us @ vs\<rparr>)"
        using Some isopen f Nil by (simp add: step_ok_def wpo_Remove_def)
      then show ?thesis using rest split(3) isopen r by (auto simp: step_ok_def poller_ok_def wpo_IsOpen_def)
    next
      case (snoc ws l)
      have st: "wpo_Remove p h = (True, p\<lparr>wpo_fds := us @ l # ws\<rparr>)"
        using Some isopen f snoc by (simp add: step_ok_def wpo_Remove_def nth_append)
      have "distinct (map wp_fd (us @ ws @ [l]))" using split(3) snoc by simp
      note rot = regs_rotate [OF this, of p] and this
      then show ?thesis using st rest snoc isopen r by (auto simp: step_ok_def poller_ok_def wpo_IsOpen_def)
    qed
  qed
qed

lemma map_fst_of_zip: "length xs = length ys \<Longrightarrow> map (\<lambda>z. g (fst z)) (zip xs ys) = map g xs"
  by (induction rule: list_induct2) auto

lemma poll_keeps:
  "wpo_handle (snd (snd (wpo_Poll p out wsa))) = wpo_handle p"
  "map wp_fd (wpo_fds (snd (snd (wpo_Poll p out wsa)))) = map wp_fd (wpo_fds p)"
  "map wp_events (wpo_fds (snd (snd (wpo_Poll p out wsa)))) = map wp_events (wpo_fds p)"
  by (simp_all add: wpo_Poll_def Let_def zip_map1 comp_def split_def map_fst_of_zip)

lemma regs_zip: "regs p = map_of (zip (map wp_fd (wpo_fds p)) (map wp_events (wpo_fds p)))"
  by (simp add: regs_def zip_map1 zip_map2 zip_same_conv_map comp_def split_def)

lemma poll_ok:
  assumes ok: "poller_ok p"
  shows "step_ok (Op_Poll out wsa) p"
proof -
  obtain n out' p' where poll: "wpo_Poll p out wsa = (n, out', p')" by (cases "wpo_Poll p out wsa")
  have "poller_ok p'" "regs p' = regs p"
    using ok poll_keeps [of p out wsa] unfolding poll poller_ok_def regs_zip wpo_IsOpen_def by simp_all
  then show ?thesis by (simp add: step_ok_def poll)
qed

lemma step_ok: "poller_ok p \<Longrightarrow> step_ok a p"
  by (cases a) (simp_all add: add_ok modify_ok remove_ok poll_ok)

section \<open>Event bits\<close>

lemma wsa_bits:
  "bit POLLERR k \<longleftrightarrow> k = 0" "bit POLLHUP k \<longleftrightarrow> k = 1" "bit POLLWRNORM k \<longleftrightarrow> k = 4" "bit POLLRDNORM k \<longleftrightarrow> k = 8"
proof -
  have "bit (push_bit n 1 :: u16) k \<longleftrightarrow> k = n" if "n < 16" for n using that by (auto simp: bit_simps)
  from this [of 0] this [of 1] this [of 4] this [of 8] show
    "bit POLLERR k \<longleftrightarrow> k = 0" "bit POLLHUP k \<longleftrightarrow> k = 1" "bit POLLWRNORM k \<longleftrightarrow> k = 4" "bit POLLRDNORM k \<longleftrightarrow> k = 8"
    unfolding POLLERR_def POLLHUP_def POLLWRNORM_def POLLRDNORM_def by simp_all
qed

lemma bit_ToWSA: "bit (ToWSA m) n \<longleftrightarrow>
  n = 8 \<and> bit m 0 \<or> n = 4 \<and> bit m 1 \<or> n = 0 \<and> bit m 2 \<or> n = 1 \<and> bit m 3"
  unfolding ToWSA_def Let_def bit_set_if and_nonzero flag_bits wsa_bits by auto

lemma bit_FromWSA: "bit (FromWSA w) n \<longleftrightarrow>
  n = 0 \<and> bit w 8 \<or> n = 1 \<and> bit w 4 \<or> n = 2 \<and> bit w 0 \<or> n = 3 \<and> bit w 1"
  unfolding FromWSA_def Let_def bit_set_if and_nonzero flag_bits wsa_bits by auto

lemma FromWSA_ToWSA: "FromWSA (ToWSA m) = m AND 0x0F"
  unfolding FromEpoll_ToEpoll [symmetric]
  by (rule bit_eqI) (auto simp: bit_FromWSA bit_ToWSA bit_FromEpoll bit_ToEpoll)

lemma to_Handle_to_SOCKET: "to_Handle (to_SOCKET (sint h)) = sint h" for h :: "32 word"
proof -
  have "(ucast (word_of_int (sint h) :: u64) :: 32 word) = h"
    by (rule bit_word_eqI) (simp add: bit_simps)
  then show ?thesis by (simp add: to_Handle_def to_SOCKET_def)
qed

section \<open>Properties\<close>

lemma run_ok:
  "poller_ok p \<Longrightarrow> poller_ok (fold (\<lambda>a p. snd (wpo_step a p)) ops p) \<and>
   regs (fold (\<lambda>a p. snd (wpo_step a p)) ops p) = fold reg_step ops (regs p)"
proof (induction ops arbitrary: p)
  case (Cons a ops)
  have "poller_ok (snd (wpo_step a p))" "regs (snd (wpo_step a p)) = reg_step a (regs p)"
    using step_ok [OF Cons.prems, of a] by (auto simp: step_ok_def split_def)
  then show ?case using Cons.IH by simp
qed simp

lemma regs_dom: "{s. regs p s \<noteq> None} = wp_fd ` set (wpo_fds p)"
  by (auto simp: regs_None find_fd_None)

lemma wsa_events_registered: "pe_handle ` set (wsa_events k fds) \<subseteq> to_Handle ` set (map wp_fd fds)"
  by (auto simp: wsa_events_def dest!: in_set_takeD)

lemma poll_cases:
  assumes "wpo_Poll p out wsa = (n, out', p')"
  shows "n \<le> 0 \<and> out' = out \<or>
    n = int (length (wsa_events (length out) (wpo_fds p'))) \<and> out' = write_at 0 (wsa_events (length out) (wpo_fds p')) out"
  using assms by (auto simp: wpo_Poll_def Let_def split: if_splits prod.splits)

lemma poll_registered:
  assumes poll: "wpo_Poll p out wsa = (n, out', p')"
  shows "n \<le> int (length out) \<and> length out' = length out \<and> drop (nat n) out' = drop (nat n) out \<and>
    pe_handle ` set (take (nat n) out') \<subseteq> to_Handle ` {s. regs p s \<noteq> None}"
proof -
  have "wp_fd ` set (wpo_fds p') = wp_fd ` set (wpo_fds p)"
    using arg_cong [OF poll_keeps(2) [of p out wsa], of set] by (simp add: poll)
  moreover have "length (wsa_events k fds) \<le> k" for k fds by (simp add: wsa_events_def)
  ultimately show ?thesis using poll_cases [OF poll] wsa_events_registered [of "length out" "wpo_fds p'"]
    unfolding regs_dom by (auto simp: write_at_def)
qed

text \<open>
  C30. The Windows poller keeps a finite map from sockets to events in its array: after any history of
  registrations, changes, removals and polls it holds what the map specification holds, no socket twice;
  a socket can be added exactly when it is not registered, and changed or removed exactly when it is,
  removal by moving the last entry up included; a poll reports registered sockets only, at most as many
  as fit, and leaves the rest of the array alone; handles and interests survive the conversions to
  Winsock and back; and a poller that is not open refuses everything.
\<close>

theorem registrations_refine_map:
  assumes "counter \<noteq> - 1"
  shows "let p = fold (\<lambda>a p. snd (wpo_step a p)) ops (fst (snd (wpo_Open counter WinPoller_init)));
      r = fold reg_step ops (\<lambda>s. None) in
    regs p = r \<and> distinct (map wp_fd (wpo_fds p)) \<and> wpo_IsOpen p \<and>
    fst (wpo_Add p h m) = (r (to_SOCKET h) = None) \<and>
    fst (wpo_Modify p h m) = (r (to_SOCKET h) \<noteq> None) \<and>
    fst (wpo_Remove p h) = (r (to_SOCKET h) \<noteq> None) \<and>
    (case wpo_Poll p out wsa of (n, out', p') \<Rightarrow>
       n \<le> int (length out) \<and> length out' = length out \<and> drop (nat n) out' = drop (nat n) out \<and>
       pe_handle ` set (take (nat n) out') \<subseteq> to_Handle ` {s. r s \<noteq> None}) \<and>
    to_Handle (to_SOCKET (sint (h32 :: 32 word))) = sint h32 \<and> FromWSA (ToWSA m) = m AND 0x0F \<and>
    wpo_Add WinPoller_init h m = (False, WinPoller_init) \<and> wpo_Modify WinPoller_init h m = (False, WinPoller_init) \<and>
    wpo_Remove WinPoller_init h = (False, WinPoller_init) \<and>
    wpo_Poll WinPoller_init out wsa = (- 1, out, WinPoller_init)"
proof -
  let ?p0 = "fst (snd (wpo_Open counter WinPoller_init))"
  define p where "p = fold (\<lambda>a p. snd (wpo_step a p)) ops ?p0"
  define r where "r = fold reg_step ops (\<lambda>s. None)"
  have "sint counter \<noteq> - 1" using assms(1) by (metis signed_minus_1 signed_word_eqI)
  then have "poller_ok ?p0" "regs ?p0 = (\<lambda>s. None)"
    by (simp_all add: wpo_Open_def WinPoller_init_def wpo_IsOpen_def kInvalidHandle_def poller_ok_def regs_def)
  then have ok: "poller_ok p" and r: "regs p = r" using run_ok [of ?p0 ops] by (simp_all add: p_def r_def)
  have "case wpo_Poll p out wsa of (n, out', p') \<Rightarrow>
       n \<le> int (length out) \<and> length out' = length out \<and> drop (nat n) out' = drop (nat n) out \<and>
       pe_handle ` set (take (nat n) out') \<subseteq> to_Handle ` {s. r s \<noteq> None}"
    using poll_registered [of p out wsa] unfolding r by (auto split: prod.splits)
  moreover have "fst (wpo_Add p h m) = (r (to_SOCKET h) = None)"
    "fst (wpo_Modify p h m) = (r (to_SOCKET h) \<noteq> None)" "fst (wpo_Remove p h) = (r (to_SOCKET h) \<noteq> None)"
    using step_ok [OF ok, of "Op_Add h m"] step_ok [OF ok, of "Op_Modify h m"] step_ok [OF ok, of "Op_Remove h"]
    by (simp_all add: step_ok_def r split_def)
  moreover have "wpo_Add WinPoller_init h m = (False, WinPoller_init)" "wpo_Modify WinPoller_init h m = (False, WinPoller_init)"
    "wpo_Remove WinPoller_init h = (False, WinPoller_init)" "wpo_Poll WinPoller_init out wsa = (- 1, out, WinPoller_init)"
    by (simp_all add: wpo_Add_def wpo_Modify_def wpo_Remove_def wpo_Poll_def wpo_IsOpen_def WinPoller_init_def)
  ultimately show ?thesis unfolding Let_def p_def [symmetric] r_def [symmetric]
    using ok by (simp add: r poller_ok_def to_Handle_to_SOCKET FromWSA_ToWSA)
qed

lemma registrations_refine_map_witness:
  "regs (fold (\<lambda>a p. snd (wpo_step a p)) [Op_Add 3 1, Op_Add 4 1, Op_Remove 3]
     (fst (snd (wpo_Open 0 WinPoller_init)))) = [to_SOCKET 4 \<mapsto> ToWSA 1]"
proof -
  have "(0 :: 32 word) \<noteq> - 1" by simp
  from registrations_refine_map [OF this, of "[Op_Add 3 1, Op_Add 4 1, Op_Remove 3]"]
  show ?thesis by (simp add: Let_def to_SOCKET_def fun_eq_iff)
qed

end
