(* ===== verification/Platforms.thy ===== *)
theory Platforms
  imports MacOS Windows
begin

text \<open>
  The three back ends of the socket side by side. \<open>outcome\<close> is the result of a system call that counts
  bytes or fails with minus one, \<open>status\<close> that of one which only succeeds or fails.
\<close>

fun outcome :: "nat option \<Rightarrow> int" where
  "outcome None = - 1"
| "outcome (Some n) = int n"

definition status :: "bool \<Rightarrow> int" where
  "status ok = (if ok then 0 else - 1)"

lemma to_Handle_small: "to_Handle (ucast n) = uint n" "ucast n \<noteq> INVALID_SOCKET" for n :: "31 word"
proof -
  have "sint (ucast (ucast n :: u64) :: 32 word) = uint n"
    by (rule bit_eqI) (auto simp: bit_simps min_def dest: bit_imp_le_length)
  then show "to_Handle (ucast n) = uint n" by (simp add: to_Handle_def)
  have "\<not> bit (ucast n :: u64) 63" by (simp add: bit_simps) (use bit_imp_le_length in force)
  then show "ucast n \<noteq> INVALID_SOCKET" by (auto simp: INVALID_SOCKET_def)
qed

lemma outcome_bounds: "outcome r \<ge> - 1" "outcome r = - 1 \<longleftrightarrow> r = None" "outcome r < 0 \<longleftrightarrow> r = None"
  by (cases r; simp)+

text \<open>The Windows socket is a descriptor too, under the kernel's name for it, a \<open>SOCKET\<close> that fits an int.\<close>

definition win_held :: "UDPSocket \<Rightarrow> int list" where
  "win_held s = (if UdpSocket.IsOpen s then [uint (to_SOCKET (handle_of s))] else [])"

definition win_udp_api :: "(31 word, UDPSocket) handle_api" where
  "win_udp_api = \<lparr>ha_open = (\<lambda>sock s. (snd (win_Open s (ucast sock)), [])),
     ha_gets = (\<lambda>sock s. if \<not> UdpSocket.IsOpen s then [uint sock] else []),
     ha_close = (\<lambda>s. case win_Close s of (s, c) \<Rightarrow> (s, map uint (some_list c))),
     ha_move = (\<lambda>s t. case win_move_assign s t of (s, t, c) \<Rightarrow> (s, t, map uint (some_list c)))\<rparr>"

lemma to_SOCKET_small: "uint (to_SOCKET (uint n)) = uint n" "uint n \<noteq> - 1" for n :: "31 word"
proof -
  have "to_SOCKET (uint n) = ucast n" unfolding to_SOCKET_def by transfer simp
  then show "uint (to_SOCKET (uint n)) = uint n" by (simp add: uint_up_ucast is_up)
  show "uint n \<noteq> - 1" using uint_ge_0 [of n] by linarith
qed

interpretation win_udp: descriptor win_udp_api win_held UDPSocket_init
  by unfold_locales
    (auto simp: win_udp_api_def win_held_def UDPSocket_init_def win_Open_def win_Close_def win_move_assign_def
      to_Handle_small to_SOCKET_small some_list_def UdpSocket.IsOpen_def kInvalidHandle_def Let_def split: if_splits)

text \<open>The cast of a \<open>SOCKET\<close> to a handle and back loses the number unless it fits an int.\<close>

lemma cast_back: "to_SOCKET (to_Handle sock) = sock \<longleftrightarrow> sint sock \<in> {- (2 ^ 31)..<2 ^ 31}"
proof -
  have h: "to_Handle sock = signed_take_bit 31 (sint sock)"
    by (rule bit_eqI) (auto simp: to_Handle_def bit_simps min_def not_less)
  have range: "- (2 ^ 31) \<le> to_Handle sock" "to_Handle sock < 2 ^ 31"
    unfolding h by (rule signed_take_bit_int_greater_eq_minus_exp, rule signed_take_bit_int_less_exp)
  have "sint (to_SOCKET (to_Handle sock)) = to_Handle sock"
    unfolding to_SOCKET_def sint_sbintrunc' using range by (simp add: signed_take_bit_int_eq_self_iff)
  then have "to_SOCKET (to_Handle sock) = sock \<longleftrightarrow> to_Handle sock = sint sock" by (metis signed_word_eqI)
  then show ?thesis by (simp add: h signed_take_bit_int_eq_self_iff)
qed

lemma handle_minus_one: "to_Handle sock = - 1 \<longleftrightarrow> (ucast sock :: 32 word) = - 1"
  unfolding to_Handle_def by (metis sint_n1 signed_word_eqI)

lemma win_Open_any:
  assumes "\<not> UdpSocket.IsOpen s" "sock \<noteq> INVALID_SOCKET"
  shows "case win_Open s sock of (ok, s1) \<Rightarrow> ok \<and> UdpSocket.IsOpen s1 = ((ucast sock :: 32 word) \<noteq> - 1) \<and>
    (snd (win_Close s1) = Some sock \<longleftrightarrow> sint sock \<in> {- (2 ^ 31)..<2 ^ 31})"
proof -
  have "sint sock \<notin> {- (2 ^ 31)..<2 ^ 31}" if "to_Handle sock = - 1"
  proof
    assume "sint sock \<in> {- (2 ^ 31)..<2 ^ 31}"
    then have "sock = to_SOCKET (- 1)" using that cast_back [of sock] by simp
    then show False using assms(2) by (simp add: to_SOCKET_def INVALID_SOCKET_def)
  qed
  then show ?thesis
    using assms cast_back [of sock]
    by (auto simp: win_Open_def win_Close_def UdpSocket.IsOpen_def kInvalidHandle_def handle_minus_one)
qed

text \<open>The flags on macOS: one bit is changed, and changed as asked.\<close>

lemma mac_flag: "bit mac_O_NONBLOCK k \<longleftrightarrow> k = 2"
  using bit_flag [of 2 k] by (simp add: mac_O_NONBLOCK_def)

lemma mac_flags_exact:
  "bit (if b then w OR mac_O_NONBLOCK else w AND NOT mac_O_NONBLOCK) k \<longleftrightarrow> (if k = 2 then b else bit w k)"
  by (auto simp: bit_simps mac_flag dest: bit_imp_le_length)

lemma linux_flags:
  "(flags OR NOT O_NONBLOCK) AND O_NONBLOCK = flags AND O_NONBLOCK" "(flags OR NOT O_NONBLOCK) OR O_NONBLOCK = - 1"
  by (rule bit_word_eqI, auto simp: bit_simps)+

text \<open>
  C22. The sockets of the three systems do the same, up to one operation and the width of a handle. For every
  outcome of the system calls, closing, moving, binding, sending, receiving and asking for the local address have
  the same result, state and arguments on Windows and on macOS as on Linux, and opening has on macOS. On Windows
  opening does what it does on Linux while the \<open>SOCKET\<close> is a number of 31 bits or the invalid one; of any other it
  keeps the low 32 bits and reports success, and then the socket is open unless these are all ones, and \<open>Close\<close>
  closes the one that was opened exactly when the number fits a signed int. \<open>SetNonBlocking\<close> does what it is
  asked on macOS, where exactly the flag's bit is changed, and on Windows; on Linux asking for blocking mode
  never clears the flag: the word handed to \<open>F_SETFL\<close> keeps it as it was and sets every other bit.
\<close>

theorem back_ends_agree_but_for_blocking:
  "win_Open s (ucast (fd :: 31 word)) = udp_Open s (uint fd) \<and>
   win_Open s INVALID_SOCKET = udp_Open s (- 1) \<and>
   (if UdpSocket.IsOpen s \<or> sock = INVALID_SOCKET then win_Open s sock = (False, s)
    else case win_Open s sock of (opened, s1) \<Rightarrow> opened \<and> UdpSocket.IsOpen s1 = ((ucast sock :: 32 word) \<noteq> - 1) \<and>
      (snd (win_Close s1) = Some sock \<longleftrightarrow> sint sock \<in> {- (2 ^ 31)..<2 ^ 31})) \<and>
   win_Close s = apsnd (map_option to_SOCKET) (udp_Close s) \<and>
   win_move_assign s s' = apsnd (apsnd (map_option to_SOCKET)) (udp_move_assign s s') \<and>
   win_Bind s ip port (\<lambda>h a. status (bound h a)) = Bind s ip port (\<lambda>h a. status (bound (to_SOCKET h) a)) \<and>
   win_SendTo s destination data (outcome r) = SendTo s destination data (outcome r) \<and>
   win_ReceiveFrom s (outcome r) addr = ReceiveFrom s (outcome r) addr \<and>
   win_GetLocalEndpoint s (status ok) addr = GetLocalEndpoint s (status ok) addr \<and>
   mac_Open s int_fd = udp_Open s int_fd \<and> mac_Close s = udp_Close s \<and>
   mac_move_assign s s' = udp_move_assign s s' \<and>
   mac_Bind s ip port bind_rc = Bind s ip port bind_rc \<and> mac_SendTo s destination data n = SendTo s destination data n \<and>
   mac_ReceiveFrom s n addr = ReceiveFrom s n addr \<and> mac_GetLocalEndpoint s n addr = GetLocalEndpoint s n addr \<and>
   (case SetNonBlocking s b flags rc of
      (res, None) \<Rightarrow> \<not> res
    | (res, Some w) \<Rightarrow> res = (rc w \<ge> 0) \<and>
        (if b then w = flags OR O_NONBLOCK
         else w AND O_NONBLOCK = flags AND O_NONBLOCK \<and> w OR O_NONBLOCK = - 1)) \<and>
   (case mac_SetNonBlocking s b flags rc of
      (res, None) \<Rightarrow> \<not> res
    | (res, Some w) \<Rightarrow> res = (rc w \<ge> 0) \<and> bit w k = (if k = 2 then b else bit flags k)) \<and>
   (case win_SetNonBlocking s b (\<lambda>mode. status (works mode)) of
      (res, None) \<Rightarrow> \<not> res
    | (res, Some mode) \<Rightarrow> res = works mode \<and> (mode \<noteq> 0) = b)"
proof (intro conjI)
  show "win_Open s (ucast fd) = udp_Open s (uint fd)"
    by (auto simp: win_Open_def udp_Open_def to_Handle_small)
  show "win_Open s INVALID_SOCKET = udp_Open s (- 1)"
    by (cases s) (auto simp: win_Open_def udp_Open_def UdpSocket.IsOpen_def kInvalidHandle_def)
  show "if UdpSocket.IsOpen s \<or> sock = INVALID_SOCKET then win_Open s sock = (False, s)
    else case win_Open s sock of (opened, s1) \<Rightarrow> opened \<and> UdpSocket.IsOpen s1 = ((ucast sock :: 32 word) \<noteq> - 1) \<and>
      (snd (win_Close s1) = Some sock \<longleftrightarrow> sint sock \<in> {- (2 ^ 31)..<2 ^ 31})"
    using win_Open_any [of s sock] by (auto simp: win_Open_def)
  show "win_Close s = apsnd (map_option to_SOCKET) (udp_Close s)"
    by (simp add: win_Close_def udp_Close_def)
  show "win_move_assign s s' = apsnd (apsnd (map_option to_SOCKET)) (udp_move_assign s s')"
    by (simp add: win_move_assign_def udp_move_assign_def win_Close_def udp_Close_def)
  show "win_Bind s ip port (\<lambda>h a. status (bound h a)) = Bind s ip port (\<lambda>h a. status (bound (to_SOCKET h) a))"
    by (auto simp: win_Bind_def Bind_def status_def SOCKET_ERROR_def split: option.splits)
  show "win_SendTo s destination data (outcome r) = SendTo s destination data (outcome r)"
    by (cases r) (auto simp: win_SendTo_def SendTo_def SOCKET_ERROR_def split: option.splits)
  show "win_ReceiveFrom s (outcome r) addr = ReceiveFrom s (outcome r) addr"
    by (cases r) (auto simp: win_ReceiveFrom_def ReceiveFrom_def SOCKET_ERROR_def)
  show "win_GetLocalEndpoint s (status ok) addr = GetLocalEndpoint s (status ok) addr"
    by (auto simp: win_GetLocalEndpoint_def GetLocalEndpoint_def SOCKET_ERROR_def status_def)
  show "case SetNonBlocking s b flags rc of (res, None) \<Rightarrow> \<not> res
    | (res, Some w) \<Rightarrow> res = (rc w \<ge> 0) \<and>
        (if b then w = flags OR O_NONBLOCK
         else w AND O_NONBLOCK = flags AND O_NONBLOCK \<and> w OR O_NONBLOCK = - 1)"
    by (simp add: SetNonBlocking_def Let_def linux_flags)
  show "case mac_SetNonBlocking s b flags rc of (res, None) \<Rightarrow> \<not> res
    | (res, Some w) \<Rightarrow> res = (rc w \<ge> 0) \<and> bit w k = (if k = 2 then b else bit flags k)"
    using mac_flags_exact [of b flags k] by (simp add: mac_SetNonBlocking_def Let_def)
  show "case win_SetNonBlocking s b (\<lambda>mode. status (works mode)) of (res, None) \<Rightarrow> \<not> res
    | (res, Some mode) \<Rightarrow> res = works mode \<and> (mode \<noteq> 0) = b"
    by (simp add: win_SetNonBlocking_def Let_def status_def SOCKET_ERROR_def)
qed (simp_all add: mac_socket_as_linux)

end
