(* ===== verification/TextFile.thy ===== *)
theory TextFile
  imports IPv4 BitUtils
begin

text \<open>
  Text files as the configuration code reads and writes them: the lines \<open>std::getline\<close> returns,
  the parser of one \<open>key = value\<close> line, which four functions contain word for word, and
  \<open>std::stoi\<close>. A directory maps names to contents; a file that cannot be read counts as absent.
\<close>

type_synonym files = "string \<rightharpoonup> string"

text \<open>
  What an \<open>ofstream\<close> did: it did not open, everything reached the file, or the stream reported
  \<open>good\<close> or not and some text reached the file. The stream is asked before it is flushed.
\<close>

datatype write_outcome = Refused | Complete | Partial (says_good: bool) (on_disk: string)

definition write_file :: "write_outcome \<Rightarrow> string \<Rightarrow> string \<Rightarrow> files \<Rightarrow> bool \<times> files" where
  "write_file outcome path txt fs =
     (case outcome of
        Refused \<Rightarrow> (False, fs)
      | Complete \<Rightarrow> (True, fs(path \<mapsto> txt))
      | Partial ok part \<Rightarrow> (ok, fs(path \<mapsto> part)))"

abbreviation nl :: char where "nl \<equiv> CHR 0x0A"
abbreviation tab :: char where "tab \<equiv> CHR 0x09"
abbreviation cr :: char where "cr \<equiv> CHR 0x0D"

section \<open>Lines\<close>

text \<open>\<open>while (std::getline(f, line))\<close>: what follows the last newline is a line unless it is empty.\<close>

function getlines :: "string \<Rightarrow> string list" where
  "getlines s =
     (if s = [] then []
      else takeWhile (\<lambda>c. c \<noteq> nl) s # getlines (drop 1 (dropWhile (\<lambda>c. c \<noteq> nl) s)))"
  by auto

termination getlines
proof (relation "measure length")
  fix s :: string assume "s \<noteq> []"
  then have "length (dropWhile (\<lambda>c. c \<noteq> nl) s) \<le> length s" "0 < length s"
    by (simp_all add: length_dropWhile_le)
  then have "length (drop 1 (dropWhile (\<lambda>c. c \<noteq> nl) s)) < length s" unfolding length_drop by linarith
  then show "(drop 1 (dropWhile (\<lambda>c. c \<noteq> nl) s), s) \<in> measure length" by simp
qed simp

declare getlines.simps [simp del]

text \<open>
  \<open>find_first_not_of\<close> and \<open>find_last_not_of\<close> with the guards around them: a string of such
  characters only is left alone.
\<close>

definition trim_front :: "string \<Rightarrow> string \<Rightarrow> string" where
  "trim_front cs s = (if set s \<subseteq> set cs then s else dropWhile (\<lambda>c. c \<in> set cs) s)"

definition trim_back :: "string \<Rightarrow> string \<Rightarrow> string" where
  "trim_back cs s = (if set s \<subseteq> set cs then s else rev (dropWhile (\<lambda>c. c \<in> set cs) (rev s)))"

text \<open>One line: \<open>None\<close> is a \<open>continue\<close>.\<close>

definition parse_line :: "string \<Rightarrow> (string \<times> string) option" where
  "parse_line line =
     (case dropWhile (\<lambda>c. c \<in> {CHR '' '', tab, cr}) line of
        [] \<Rightarrow> None
      | c # rest \<Rightarrow>
          if c = CHR ''#'' then None
          else
            let line = c # rest in
            if CHR ''='' \<notin> set line then None
            else
              let key = trim_back [CHR '' '', tab] (takeWhile (\<lambda>c. c \<noteq> CHR ''='') line);
                  val = drop 1 (dropWhile (\<lambda>c. c \<noteq> CHR ''='') line);
                  val = trim_front [CHR '' '', tab] val;
                  val = trim_back [CHR '' '', tab, cr, nl] val in
              Some (key, val))"

section \<open>\<open>std::stoi\<close>\<close>

definition is_space :: "char \<Rightarrow> bool" where
  "is_space c \<longleftrightarrow> c \<in> {CHR '' '', tab, nl, CHR 0x0B, CHR 0x0C, cr}"

definition is_digit :: "char \<Rightarrow> bool" where
  "is_digit c \<longleftrightarrow> 48 \<le> (of_char c :: nat) \<and> (of_char c :: nat) \<le> 57"

definition digits_value :: "string \<Rightarrow> nat" where
  "digits_value s = foldl (\<lambda>n c. n * 10 + (of_char c - 48)) 0 s"

text \<open>\<open>None\<close> is an exception: no digits, or a value that is not an \<open>int\<close>.\<close>

definition stoi :: "string \<Rightarrow> int option" where
  "stoi s =
     (let s = dropWhile is_space s;
          (negative, s) = (case s of [] \<Rightarrow> (False, s)
            | c # rest \<Rightarrow> if c = CHR ''-'' then (True, rest) else if c = CHR ''+'' then (False, rest) else (False, s));
          ds = takeWhile is_digit s;
          v = (if negative then - int (digits_value ds) else int (digits_value ds)) in
      if ds = [] then None
      else if v < - (2 ^ 31) \<or> v \<ge> 2 ^ 31 then None
      else Some v)"

section \<open>Facts\<close>

lemma getlines_Nil [simp]: "getlines [] = []"
  by (simp add: getlines.simps)

lemma getlines_line: "nl \<notin> set l \<Longrightarrow> getlines (l @ nl # rest) = l # getlines rest"
proof -
  assume "nl \<notin> set l"
  then have "takeWhile (\<lambda>c. c \<noteq> nl) (l @ nl # rest) = l" "dropWhile (\<lambda>c. c \<noteq> nl) (l @ nl # rest) = nl # rest"
    by (induction l) auto
  then show ?thesis by (subst getlines.simps) simp
qed

lemma dropWhile_front: "set ys \<subseteq> A \<Longrightarrow> set xs \<inter> A = {} \<Longrightarrow> dropWhile (\<lambda>c. c \<in> A) (ys @ xs) = xs"
  by (induction ys) (cases xs; auto)+

lemma trim_front_eq:
  "set ys \<subseteq> set cs \<Longrightarrow> xs \<noteq> [] \<Longrightarrow> set xs \<inter> set cs = {} \<Longrightarrow> trim_front cs (ys @ xs) = xs"
  by (cases xs) (auto simp: trim_front_def dropWhile_front)

lemma trim_back_eq:
  "set ys \<subseteq> set cs \<Longrightarrow> xs \<noteq> [] \<Longrightarrow> set xs \<inter> set cs = {} \<Longrightarrow> trim_back cs (xs @ ys) = xs"
  using dropWhile_front [of "rev ys" "set cs" "rev xs"] by (cases xs) (auto simp: trim_back_def)

lemma parse_line_entry:
  assumes "name \<noteq> []" and "hd name \<noteq> CHR ''#''" and name: "set name \<inter> {CHR ''='', CHR '' '', tab, cr} = {}"
    and sp: "set spaces \<subseteq> {CHR '' ''}" and val: "val \<noteq> []" "set val \<inter> {CHR '' '', tab, cr, nl} = {}"
  shows "parse_line (name @ spaces @ ''= '' @ val) = Some (name, val)"
proof -
  let ?line = "name @ spaces @ ''= '' @ val"
  obtain c cs where c: "name = c # cs" using assms(1) by (cases name) auto
  then have start: "dropWhile (\<lambda>c. c \<in> {CHR '' '', tab, cr}) ?line = ?line" using name by auto
  have eq: "takeWhile (\<lambda>c. c \<noteq> CHR ''='') ?line = name @ spaces"
    "dropWhile (\<lambda>c. c \<noteq> CHR ''='') ?line = ''= '' @ val"
    using name sp by (auto simp: takeWhile_append dropWhile_append subset_iff)
  have "trim_back [CHR '' '', tab] (name @ spaces) = name"
    using name sp assms(1) by (intro trim_back_eq) auto
  moreover have "trim_front [CHR '' '', tab] (CHR '' '' # val) = val"
    using trim_front_eq [of "'' ''" "[CHR '' '', tab]" val] val by auto
  moreover have "trim_back [CHR '' '', tab, cr, nl] val = val"
    using trim_back_eq [of "[]" "[CHR '' '', tab, cr, nl]" val] val by auto
  ultimately show ?thesis
    using c start eq assms(2) by (simp add: parse_line_def)
qed

lemma parse_line_comment: "parse_line (CHR ''#'' # l) = None"
  by (simp add: parse_line_def)

lemma parse_line_blank: "parse_line [] = None"
  by (simp add: parse_line_def)

end
