(* ===== verification/KeyConfig.thy ===== *)
theory KeyConfig
  imports TextFile ToyCrypto
begin

text \<open>
  \<open>core/config/key_config.cpp\<close>: the four key strings of a node, the file they are kept in, and the
  public file the server hands out. What the file system does with a write is an argument.
\<close>

record KeyConfig =
  kc_x25519_priv :: bytes
  kc_x25519_pub :: bytes
  kc_mlkem_dk :: bytes
  kc_mlkem_ek :: bytes

definition KeyConfig_init :: KeyConfig where
  "KeyConfig_init = \<lparr>kc_x25519_priv = zeros 32, kc_x25519_pub = zeros 32, kc_mlkem_dk = zeros 2400,
     kc_mlkem_ek = zeros 1184\<rparr>"

text \<open>The text of the key file; the second line of its comment holds a dash outside ASCII.\<close>

definition keys_text :: "KeyConfig \<Rightarrow> string" where
  "keys_text keys =
     ''# PostQuantumVPN Keys'' @ [nl] @
     (''# Keep this file private '' @ [CHR 0xE2, CHR 0x80, CHR 0x94] @ '' it contains secret keys.'') @ [nl] @
     ''# Share x25519_public and mlkem_ek with peers.'' @ [nl] @ [nl] @
     (''x25519_private = '' @ ToHex (kc_x25519_priv keys)) @ [nl] @
     (''x25519_public = '' @ ToHex (kc_x25519_pub keys)) @ [nl] @
     (''mlkem_dk = '' @ ToHex (kc_mlkem_dk keys)) @ [nl] @
     (''mlkem_ek = '' @ ToHex (kc_mlkem_ek keys)) @ [nl]"

definition SaveKeys :: "write_outcome \<Rightarrow> string \<Rightarrow> KeyConfig \<Rightarrow> files \<Rightarrow> bool \<times> files" where
  "SaveKeys outcome path keys fs = write_file outcome path (keys_text keys) fs"

text \<open>The body of the loop: the four flags \<open>got\<close> and the structure filled in.\<close>

definition LoadKeys_line :: "bool list \<times> KeyConfig \<Rightarrow> string \<Rightarrow> bool list \<times> KeyConfig" where
  "LoadKeys_line st line =
     (case st of (got, out) \<Rightarrow>
      case parse_line line of
        None \<Rightarrow> (got, out)
      | Some (key, val) \<Rightarrow>
          if key = ''x25519_private'' then
            (case FromHex val (kc_x25519_priv out) of (ok, b) \<Rightarrow> (got[0 := ok], out\<lparr>kc_x25519_priv := b\<rparr>))
          else if key = ''x25519_public'' then
            (case FromHex val (kc_x25519_pub out) of (ok, b) \<Rightarrow> (got[1 := ok], out\<lparr>kc_x25519_pub := b\<rparr>))
          else if key = ''mlkem_dk'' then
            (case FromHex val (kc_mlkem_dk out) of (ok, b) \<Rightarrow> (got[2 := ok], out\<lparr>kc_mlkem_dk := b\<rparr>))
          else if key = ''mlkem_ek'' then
            (case FromHex val (kc_mlkem_ek out) of (ok, b) \<Rightarrow> (got[3 := ok], out\<lparr>kc_mlkem_ek := b\<rparr>))
          else (got, out))"

definition LoadKeys :: "string \<Rightarrow> files \<Rightarrow> KeyConfig \<Rightarrow> bool \<times> KeyConfig" where
  "LoadKeys path fs out =
     (case fs path of
        None \<Rightarrow> (False, out)
      | Some txt \<Rightarrow>
          let (got, out) = foldl LoadKeys_line (replicate 4 False, out) (getlines txt) in
          (got ! 0 \<and> got ! 1 \<and> got ! 2 \<and> got ! 3, out))"

definition LoadOrGenerateKeys ::
  "'k crypto \<Rightarrow> bytes \<Rightarrow> bytes \<Rightarrow> write_outcome \<Rightarrow> string \<Rightarrow> files \<Rightarrow> KeyConfig option \<times> files" where
  "LoadOrGenerateKeys lib x25519_seed mlkem_seed outcome path fs =
     (let keys = KeyConfig_init in
      if fs path \<noteq> None then
        (case LoadKeys path fs keys of (ok, keys) \<Rightarrow> (if ok then Some keys else None, fs))
      else
        case x25519_GenerateKeyPair lib x25519_seed of
          None \<Rightarrow> (None, fs)
        | Some (priv, pub) \<Rightarrow>
            (case mlkem_GenerateKeyPair lib ML_KEM_768 mlkem_seed of
               None \<Rightarrow> (None, fs)
             | Some kp \<Rightarrow>
                 if octet_len lib ''priv'' (pkey kp) \<noteq> Some 2400 then (None, fs)
                 else
                   (case octet_get lib ''priv'' (pkey kp) 2400 of
                      None \<Rightarrow> (None, fs)
                    | Some dk \<Rightarrow>
                        let keys = keys\<lparr>kc_mlkem_dk := copy_into (kc_mlkem_dk keys) dk, kc_x25519_priv := priv,
                              kc_x25519_pub := pub, kc_mlkem_ek := copy_into (kc_mlkem_ek keys) (public_key kp)\<rparr>;
                            (saved, fs) = SaveKeys outcome path keys fs in
                        if \<not> saved then (None, fs) else (Some keys, fs))))"

text \<open>What \<open>PrintPublicKeys\<close> writes to the standard output.\<close>

definition PrintPublicKeys :: "KeyConfig \<Rightarrow> string" where
  "PrintPublicKeys keys =
     [nl] @ ''=== Public Keys (share these with peers) ==='' @ [nl] @
     ''x25519_public = '' @ ToHex (kc_x25519_pub keys) @ [nl] @
     ''mlkem_ek = '' @ ToHex (kc_mlkem_ek keys) @ [nl] @
     ''============================================'' @ [nl] @ [nl]"

definition public_keys_text :: "KeyConfig \<Rightarrow> string" where
  "public_keys_text keys =
     ''# PostQuantumVPN Server Public Keys'' @ [nl] @
     ''# Copy this file to the client machine.'' @ [nl] @ [nl] @
     (''x25519_public = '' @ ToHex (kc_x25519_pub keys)) @ [nl] @
     (''mlkem_ek = '' @ ToHex (kc_mlkem_ek keys)) @ [nl]"

definition SavePublicKeys :: "write_outcome \<Rightarrow> string \<Rightarrow> KeyConfig \<Rightarrow> files \<Rightarrow> bool \<times> files" where
  "SavePublicKeys outcome path keys fs = write_file outcome path (public_keys_text keys) fs"

section \<open>Reading back\<close>

lemma ToHex_chars: "set (ToHex bs) \<subseteq> set kHex_lower"
proof (induction bs)
  case (Cons b bs)
  have "unat (drop_bit 4 b) < length kHex_lower" "unat (b AND 15) < length kHex_lower"
    using unat_high_nibble [of b] unat_low_nibble [of b] by (simp_all add: kHex_lower_def)
  then show ?case using Cons nth_mem by simp
qed simp

lemma hex_load: "length out = length bs \<Longrightarrow> FromHex (ToHex bs) out = (True, bs)"
  by (simp add: FromHex_def from_hex_loop_ToHex)

lemma nl_ToHex: "nl \<notin> set (ToHex bs)"
  using ToHex_chars [of bs] by (auto simp: kHex_lower_def)

lemma hex_entry:
  assumes "name \<noteq> []" and "hd name \<noteq> CHR ''#''" and "set name \<inter> {CHR ''='', CHR '' '', tab, cr} = {}" and "bs \<noteq> []"
  shows "parse_line (name @ '' = '' @ ToHex bs) = Some (name, ToHex bs)"
proof -
  have "ToHex bs \<noteq> []" using assms(4) by (cases bs) simp_all
  then show ?thesis
    using parse_line_entry [OF assms(1-3), of "'' ''" "ToHex bs"] ToHex_chars [of bs] by (auto simp: kHex_lower_def)
qed

text \<open>The arrays have their declared lengths.\<close>

definition wf_KeyConfig :: "KeyConfig \<Rightarrow> bool" where
  "wf_KeyConfig k \<longleftrightarrow> length (kc_x25519_priv k) = 32 \<and> length (kc_x25519_pub k) = 32 \<and>
     length (kc_mlkem_dk k) = 2400 \<and> length (kc_mlkem_ek k) = 1184"

lemma LoadKeys_line_entry:
  assumes "length bs = 32" and "length (kc_x25519_priv out) = 32" and "length (kc_x25519_pub out) = 32"
  shows "LoadKeys_line (got, out) (''x25519_private = '' @ ToHex bs) = (got[0 := True], out\<lparr>kc_x25519_priv := bs\<rparr>)"
    and "LoadKeys_line (got, out) (''x25519_public = '' @ ToHex bs) = (got[1 := True], out\<lparr>kc_x25519_pub := bs\<rparr>)"
proof -
  have "bs \<noteq> []" using assms(1) by auto
  then show "LoadKeys_line (got, out) (''x25519_private = '' @ ToHex bs) = (got[0 := True], out\<lparr>kc_x25519_priv := bs\<rparr>)"
    and "LoadKeys_line (got, out) (''x25519_public = '' @ ToHex bs) = (got[1 := True], out\<lparr>kc_x25519_pub := bs\<rparr>)"
    using assms hex_entry [of "''x25519_private''" bs] hex_entry [of "''x25519_public''" bs]
    by (simp_all add: LoadKeys_line_def hex_load)
qed

lemma LoadKeys_line_mlkem:
  shows "length bs = 2400 \<Longrightarrow> length (kc_mlkem_dk out) = 2400 \<Longrightarrow>
      LoadKeys_line (got, out) (''mlkem_dk = '' @ ToHex bs) = (got[2 := True], out\<lparr>kc_mlkem_dk := bs\<rparr>)"
    and "length bs = 1184 \<Longrightarrow> length (kc_mlkem_ek out) = 1184 \<Longrightarrow>
      LoadKeys_line (got, out) (''mlkem_ek = '' @ ToHex bs) = (got[3 := True], out\<lparr>kc_mlkem_ek := bs\<rparr>)"
proof -
  have ne: "0 < length bs \<Longrightarrow> bs \<noteq> []" by auto
  show "length bs = 2400 \<Longrightarrow> length (kc_mlkem_dk out) = 2400 \<Longrightarrow>
      LoadKeys_line (got, out) (''mlkem_dk = '' @ ToHex bs) = (got[2 := True], out\<lparr>kc_mlkem_dk := bs\<rparr>)"
    using hex_entry [of "''mlkem_dk''" bs] ne by (simp add: LoadKeys_line_def hex_load)
  show "length bs = 1184 \<Longrightarrow> length (kc_mlkem_ek out) = 1184 \<Longrightarrow>
      LoadKeys_line (got, out) (''mlkem_ek = '' @ ToHex bs) = (got[3 := True], out\<lparr>kc_mlkem_ek := bs\<rparr>)"
    using hex_entry [of "''mlkem_ek''" bs] ne by (simp add: LoadKeys_line_def hex_load)
qed

text \<open>The lines of the two files.\<close>

lemma keys_lines:
  "getlines (keys_text k) =
     [''# PostQuantumVPN Keys'', ''# Keep this file private '' @ [CHR 0xE2, CHR 0x80, CHR 0x94] @ '' it contains secret keys.'',
      ''# Share x25519_public and mlkem_ek with peers.'', [],
      ''x25519_private = '' @ ToHex (kc_x25519_priv k), ''x25519_public = '' @ ToHex (kc_x25519_pub k),
      ''mlkem_dk = '' @ ToHex (kc_mlkem_dk k), ''mlkem_ek = '' @ ToHex (kc_mlkem_ek k)]"
proof -
  have step: "nl \<notin> set l \<Longrightarrow> getlines (l @ [nl] @ rest) = l # getlines rest" for l rest
    using getlines_line by simp
  have last: "nl \<notin> set l \<Longrightarrow> getlines (l @ [nl]) = [l]" for l
    using getlines_line [of l "[]"] by simp
  have blank: "getlines ([nl] @ rest) = [] # getlines rest" for rest
    using getlines_line [of "[]" rest] by simp
  show ?thesis unfolding keys_text_def
    by (subst step, simp, subst step, simp, subst step, simp, subst blank)
       (subst step, simp add: nl_ToHex, subst step, simp add: nl_ToHex, subst step, simp add: nl_ToHex,
        subst last, simp_all add: nl_ToHex)
qed

lemma LoadKeys_line_skip:
  "LoadKeys_line st (CHR ''#'' # l) = st" "LoadKeys_line st [] = st"
  by (simp_all add: LoadKeys_line_def parse_line_comment parse_line_blank split: prod.split)

lemma LoadKeys_saved:
  assumes "fs path = Some (keys_text k)" and "wf_KeyConfig k"
  shows "LoadKeys path fs KeyConfig_init = (True, k)"
proof -
  have k: "length (kc_x25519_priv k) = 32" "length (kc_x25519_pub k) = 32" "length (kc_mlkem_dk k) = 2400"
    "length (kc_mlkem_ek k) = 1184" using assms(2) by (simp_all add: wf_KeyConfig_def)
  let ?i = KeyConfig_init
  have i: "length (kc_x25519_priv ?i) = 32" "length (kc_x25519_pub ?i) = 32" "length (kc_mlkem_dk ?i) = 2400"
    "length (kc_mlkem_ek ?i) = 1184" by (simp_all add: KeyConfig_init_def)
  let ?k1 = "?i\<lparr>kc_x25519_priv := kc_x25519_priv k\<rparr>"
  let ?k2 = "?k1\<lparr>kc_x25519_pub := kc_x25519_pub k\<rparr>"
  let ?k3 = "?k2\<lparr>kc_mlkem_dk := kc_mlkem_dk k\<rparr>"
  have "foldl LoadKeys_line (replicate 4 False, ?i) (getlines (keys_text k)) =
      (replicate 4 True, ?k3\<lparr>kc_mlkem_ek := kc_mlkem_ek k\<rparr>)"
    unfolding keys_lines foldl_Cons foldl_Nil append_Cons LoadKeys_line_skip
    using LoadKeys_line_entry(1) [of "kc_x25519_priv k" ?i "replicate 4 False"]
      LoadKeys_line_entry(2) [of "kc_x25519_pub k" ?k1 "[True, False, False, False]"]
      LoadKeys_line_mlkem(1) [of "kc_mlkem_dk k" ?k2 "[True, True, False, False]"]
      LoadKeys_line_mlkem(2) [of "kc_mlkem_ek k" ?k3 "[True, True, True, False]"] k i
    by (simp add: numeral_eq_Suc)
  then show ?thesis by (simp add: LoadKeys_def assms(1))
qed

text \<open>What a first start leaves behind.\<close>

lemma first_start:
  assumes laws: "crypto_laws lib" and "fs path = None"
  obtains k where "LoadOrGenerateKeys lib xs ms Complete path fs = (Some k, fs(path \<mapsto> keys_text k))"
    and "wf_KeyConfig k" and "x25519_pair lib (kc_x25519_priv k) (kc_x25519_pub k)"
    and "mlkem_pair lib (kc_mlkem_dk k) (kc_mlkem_ek k)"
proof -
  obtain a A where x: "x25519_GenerateKeyPair lib xs = Some (a, A)" "x25519_pair lib a A"
    by (rule x25519_keygen_laws [OF laws])
  obtain p dk ek where m: "mlkem_GenerateKeyPair lib ML_KEM_768 ms = Some \<lparr>pkey = p, public_key = ek\<rparr>"
    "octet_len lib ''priv'' p = Some 2400" "octet_get lib ''priv'' p 2400 = Some dk" "mlkem_pair lib dk ek"
    by (rule mlkem_generate_laws [OF laws])
  have l: "length a = 32" "length A = 32" "length dk = 2400" "length ek = 1184"
    using x(2) m(4) by (simp_all add: x25519_pair_def mlkem_pair_def)
  let ?k = "\<lparr>kc_x25519_priv = a, kc_x25519_pub = A, kc_mlkem_dk = dk, kc_mlkem_ek = ek\<rparr>"
  show thesis
    by (rule that [of ?k])
      (simp_all add: LoadOrGenerateKeys_def assms(2) x m l KeyConfig_init_def SaveKeys_def write_file_def wf_KeyConfig_def
        Let_def)
qed

lemma later_start:
  assumes "fs path = Some (keys_text k)" and "wf_KeyConfig k"
  shows "LoadOrGenerateKeys lib xs ms w path fs = (Some k, fs)"
  by (simp add: LoadOrGenerateKeys_def LoadKeys_saved [where fs = fs and path = path, OF assms] assms(1))

section \<open>Property\<close>

text \<open>
  C32. A node keeps its identity. When there is no key file, the first start makes a matching pair of
  X25519 keys and a matching pair of ML-KEM keys and writes them down; every later start, with
  whatever library, random source and disk, returns the same keys and leaves the file alone.
\<close>

theorem keys_persist:
  assumes "crypto_laws lib" and "fs path = None"
  shows "\<exists>k fs'. LoadOrGenerateKeys lib xs ms Complete path fs = (Some k, fs') \<and>
    x25519_pair lib (kc_x25519_priv k) (kc_x25519_pub k) \<and> mlkem_pair lib (kc_mlkem_dk k) (kc_mlkem_ek k) \<and>
    LoadOrGenerateKeys lib' xs' ms' outcome path fs' = (Some k, fs')"
proof -
  obtain k where k: "LoadOrGenerateKeys lib xs ms Complete path fs = (Some k, fs(path \<mapsto> keys_text k))"
    "wf_KeyConfig k" "x25519_pair lib (kc_x25519_priv k) (kc_x25519_pub k)"
    "mlkem_pair lib (kc_mlkem_dk k) (kc_mlkem_ek k)"
    by (rule first_start [where fs = fs and path = path, OF assms])
  then show ?thesis using later_start [of "fs(path \<mapsto> keys_text k)" path k] by auto
qed

theorem keys_persist_witness:
  "\<exists>k fs'. LoadOrGenerateKeys toy [1] [2] Complete ''server_keys.conf'' (\<lambda>_. None) = (Some k, fs') \<and>
    LoadOrGenerateKeys toy [3] [4] Refused ''server_keys.conf'' fs' = (Some k, fs')"
  using keys_persist [OF toy_crypto_laws, of "\<lambda>_. None" "''server_keys.conf''" "[1]" "[2]" toy "[3]" "[4]" Refused]
  by blast

end
