(* ===== verification/NodeConfig.thy ===== *)
theory NodeConfig
  imports TextFile UdpSocket
begin

text \<open>
  \<open>client/client_config.cpp\<close> and \<open>server/server_config.cpp\<close>: two settings each, read from a file of
  \<open>key = value\<close> lines that is written with the defaults when it is missing.
\<close>

section \<open>The client's settings\<close>

record ClientConfig =
  cc_server_ip :: string
  cc_server_port :: Port

definition ClientConfig_init :: ClientConfig where
  "ClientConfig_init = \<lparr>cc_server_ip = ''127.0.0.1'', cc_server_port = 51820\<rparr>"

definition client_defaults_text :: "ClientConfig \<Rightarrow> string" where
  "client_defaults_text cfg =
     ''# PostQuantumVPN Client Configuration'' @ [nl] @ [nl] @
     (''server_ip   = '' @ cc_server_ip cfg) @ [nl] @
     (''server_port = '' @ decimal (unat (cc_server_port cfg))) @ [nl]"

definition client_WriteDefaults :: "write_outcome \<Rightarrow> string \<Rightarrow> ClientConfig \<Rightarrow> files \<Rightarrow> bool \<times> files" where
  "client_WriteDefaults outcome path cfg fs = write_file outcome path (client_defaults_text cfg) fs"

definition ClientConfig_line :: "ClientConfig \<Rightarrow> string \<Rightarrow> ClientConfig" where
  "ClientConfig_line out line =
     (case parse_line line of
        None \<Rightarrow> out
      | Some (key, val) \<Rightarrow>
          if key = ''server_ip'' then out\<lparr>cc_server_ip := val\<rparr>
          else if key = ''server_port'' then
            (case stoi val of None \<Rightarrow> out | Some n \<Rightarrow> out\<lparr>cc_server_port := word_of_int n\<rparr>)
          else out)"

definition client_ParseFile :: "string \<Rightarrow> files \<Rightarrow> ClientConfig \<Rightarrow> bool \<times> ClientConfig" where
  "client_ParseFile path fs out =
     (case fs path of
        None \<Rightarrow> (False, out)
      | Some txt \<Rightarrow> (True, foldl ClientConfig_line out (getlines txt)))"

definition client_Parse :: "write_outcome \<Rightarrow> string \<Rightarrow> files \<Rightarrow> ClientConfig option \<times> files" where
  "client_Parse outcome path fs =
     (if fs path = None then
        let defaults = ClientConfig_init;
            (ok, fs) = client_WriteDefaults outcome path defaults fs in
        (if \<not> ok then None else Some defaults, fs)
      else
        let (ok, cfg) = client_ParseFile path fs ClientConfig_init in
        (if \<not> ok then None else Some cfg, fs))"

section \<open>The server's settings\<close>

record ServerConfig =
  sc_bind_ip :: string
  sc_port :: Port

definition ServerConfig_init :: ServerConfig where
  "ServerConfig_init = \<lparr>sc_bind_ip = ''0.0.0.0'', sc_port = 51820\<rparr>"

definition server_defaults_text :: "ServerConfig \<Rightarrow> string" where
  "server_defaults_text cfg =
     ''# PostQuantumVPN Server Configuration'' @ [nl] @ [nl] @
     (''bind_ip = '' @ sc_bind_ip cfg) @ [nl] @
     (''port    = '' @ decimal (unat (sc_port cfg))) @ [nl]"

definition server_WriteDefaults :: "write_outcome \<Rightarrow> string \<Rightarrow> ServerConfig \<Rightarrow> files \<Rightarrow> bool \<times> files" where
  "server_WriteDefaults outcome path cfg fs = write_file outcome path (server_defaults_text cfg) fs"

definition ServerConfig_line :: "ServerConfig \<Rightarrow> string \<Rightarrow> ServerConfig" where
  "ServerConfig_line out line =
     (case parse_line line of
        None \<Rightarrow> out
      | Some (key, val) \<Rightarrow>
          if key = ''bind_ip'' then out\<lparr>sc_bind_ip := val\<rparr>
          else if key = ''port'' then
            (case stoi val of None \<Rightarrow> out | Some n \<Rightarrow> out\<lparr>sc_port := word_of_int n\<rparr>)
          else out)"

definition server_ParseFile :: "string \<Rightarrow> files \<Rightarrow> ServerConfig \<Rightarrow> bool \<times> ServerConfig" where
  "server_ParseFile path fs out =
     (case fs path of
        None \<Rightarrow> (False, out)
      | Some txt \<Rightarrow> (True, foldl ServerConfig_line out (getlines txt)))"

definition server_Parse :: "write_outcome \<Rightarrow> string \<Rightarrow> files \<Rightarrow> ServerConfig option \<times> files" where
  "server_Parse outcome path fs =
     (if fs path = None then
        let defaults = ServerConfig_init;
            (ok, fs) = server_WriteDefaults outcome path defaults fs in
        (if \<not> ok then None else Some defaults, fs)
      else
        let (ok, cfg) = server_ParseFile path fs ServerConfig_init in
        (if \<not> ok then None else Some cfg, fs))"

section \<open>What a file means\<close>

text \<open>The values given to a key, in order; the specification takes the last good one.\<close>

definition settings :: "string \<Rightarrow> string list \<Rightarrow> string list" where
  "settings key ls = map snd (filter (\<lambda>(k, v). k = key) (List.map_filter parse_line ls))"

definition ports :: "string \<Rightarrow> string list \<Rightarrow> Port list" where
  "ports key ls = map word_of_int (List.map_filter stoi (settings key ls))"

lemma settings_Cons:
  "settings key [] = []"
  "settings key (l # ls) = (case parse_line l of None \<Rightarrow> settings key ls
     | Some (k, v) \<Rightarrow> if k = key then v # settings key ls else settings key ls)"
  by (auto simp: settings_def List.map_filter_def split: option.split)

lemma ports_Cons:
  "ports key [] = []"
  "ports key (l # ls) = (case parse_line l of None \<Rightarrow> ports key ls
     | Some (k, v) \<Rightarrow> if k = key then (case stoi v of None \<Rightarrow> ports key ls | Some n \<Rightarrow> word_of_int n # ports key ls)
       else ports key ls)"
  by (auto simp: ports_def settings_Cons List.map_filter_def split: option.split)

lemma client_lines:
  "foldl ClientConfig_line out ls = \<lparr>cc_server_ip = last (cc_server_ip out # settings ''server_ip'' ls),
     cc_server_port = last (cc_server_port out # ports ''server_port'' ls)\<rparr>"
  by (induction ls arbitrary: out)
     (auto simp: settings_Cons ports_Cons ClientConfig_line_def split: option.split)

lemma server_lines:
  "foldl ServerConfig_line out ls = \<lparr>sc_bind_ip = last (sc_bind_ip out # settings ''bind_ip'' ls),
     sc_port = last (sc_port out # ports ''port'' ls)\<rparr>"
  by (induction ls arbitrary: out)
     (auto simp: settings_Cons ports_Cons ServerConfig_line_def split: option.split)

lemma default_port: "decimal 51820 = ''51820''" "stoi ''51820'' = Some 51820"
  by (simp add: decimal.simps, code_simp, simp add: stoi_def is_space_def is_digit_def digits_value_def)

lemma client_defaults:
  "foldl ClientConfig_line ClientConfig_init (getlines (client_defaults_text ClientConfig_init)) = ClientConfig_init"
proof -
  have "getlines (client_defaults_text ClientConfig_init) = [''# PostQuantumVPN Client Configuration'', [],
      ''server_ip   = 127.0.0.1'', ''server_port = 51820'']"
    by (simp add: client_defaults_text_def ClientConfig_init_def default_port getlines.simps)
  moreover have "parse_line ''server_ip   = 127.0.0.1'' = Some (''server_ip'', ''127.0.0.1'')"
    "parse_line ''server_port = 51820'' = Some (''server_port'', ''51820'')"
    using parse_line_entry [of "''server_ip''" "''   ''" "''127.0.0.1''"]
      parse_line_entry [of "''server_port''" "'' ''" "''51820''"] by simp_all
  ultimately show ?thesis unfolding client_lines
    by (simp add: settings_Cons ports_Cons parse_line_comment parse_line_blank default_port ClientConfig_init_def)
qed

lemma server_defaults:
  "foldl ServerConfig_line ServerConfig_init (getlines (server_defaults_text ServerConfig_init)) = ServerConfig_init"
proof -
  have "getlines (server_defaults_text ServerConfig_init) = [''# PostQuantumVPN Server Configuration'', [],
      ''bind_ip = 0.0.0.0'', ''port    = 51820'']"
    by (simp add: server_defaults_text_def ServerConfig_init_def default_port getlines.simps)
  moreover have "parse_line ''bind_ip = 0.0.0.0'' = Some (''bind_ip'', ''0.0.0.0'')"
    "parse_line ''port    = 51820'' = Some (''port'', ''51820'')"
    using parse_line_entry [of "''bind_ip''" "'' ''" "''0.0.0.0''"]
      parse_line_entry [of "''port''" "''    ''" "''51820''"] by simp_all
  ultimately show ?thesis unfolding server_lines
    by (simp add: settings_Cons ports_Cons parse_line_comment parse_line_blank default_port ServerConfig_init_def)
qed

text \<open>
  C33. What a configuration file means. Any file is accepted and left alone; of several values for a
  setting the last one counts, of several ports the last that \<open>stoi\<close> accepts, cut to sixteen
  bits; a setting not given has its default; and the file written when there is none reads
  back as the defaults.
\<close>

theorem configs_exact:
  "(case client_Parse w path (fs(path \<mapsto> txt)) of (cfg, fs') \<Rightarrow> fs' = fs(path \<mapsto> txt) \<and>
      cfg = Some \<lparr>cc_server_ip = last (''127.0.0.1'' # settings ''server_ip'' (getlines txt)),
        cc_server_port = last (51820 # ports ''server_port'' (getlines txt))\<rparr>) \<and>
   (case server_Parse w path (fs(path \<mapsto> txt)) of (cfg, fs') \<Rightarrow> fs' = fs(path \<mapsto> txt) \<and>
      cfg = Some \<lparr>sc_bind_ip = last (''0.0.0.0'' # settings ''bind_ip'' (getlines txt)),
        sc_port = last (51820 # ports ''port'' (getlines txt))\<rparr>) \<and>
   (case client_Parse Complete path (fs(path := None)) of (cfg, fs') \<Rightarrow>
      cfg = Some ClientConfig_init \<and> client_Parse w path fs' = (cfg, fs')) \<and>
   (case server_Parse Complete path (fs(path := None)) of (cfg, fs') \<Rightarrow>
      cfg = Some ServerConfig_init \<and> server_Parse w path fs' = (cfg, fs'))"
proof (intro conjI)
  note defs = client_Parse_def server_Parse_def client_ParseFile_def server_ParseFile_def
    client_WriteDefaults_def server_WriteDefaults_def write_file_def
  show "case client_Parse w path (fs(path \<mapsto> txt)) of (cfg, fs') \<Rightarrow> fs' = fs(path \<mapsto> txt) \<and>
      cfg = Some \<lparr>cc_server_ip = last (''127.0.0.1'' # settings ''server_ip'' (getlines txt)),
        cc_server_port = last (51820 # ports ''server_port'' (getlines txt))\<rparr>"
    by (simp add: defs client_lines) (simp add: ClientConfig_init_def)
  show "case server_Parse w path (fs(path \<mapsto> txt)) of (cfg, fs') \<Rightarrow> fs' = fs(path \<mapsto> txt) \<and>
      cfg = Some \<lparr>sc_bind_ip = last (''0.0.0.0'' # settings ''bind_ip'' (getlines txt)),
        sc_port = last (51820 # ports ''port'' (getlines txt))\<rparr>"
    by (simp add: defs server_lines) (simp add: ServerConfig_init_def)
qed (simp_all add: client_defaults server_defaults client_Parse_def server_Parse_def client_ParseFile_def
    server_ParseFile_def client_WriteDefaults_def server_WriteDefaults_def write_file_def)

end
