(* ===== verification/VpnNode.thy ===== *)
theory VpnNode
  imports SessionManager HandshakeProcessor EventPoller TunDevice
begin

text \<open>
  What \<open>client/client.cpp\<close> and \<open>server/server.cpp\<close> share: the readings of clocks and random
  sources a handler makes, the results of the system calls of \<open>Init\<close>, and the message
  around a sealed packet that both build in the same lines.
\<close>

text \<open>
  One handler's draws: the handshake's, the two clocks, the random jitter of a new session and
  the addresses of the objects it allocates. A handler reads each clock once.
\<close>

record node_env =
  ne_hs :: hs_env
  ne_sys_now :: time_point
  ne_now :: time_point
  ne_jitter :: u32
  ne_keypair_addr :: nat
  ne_peer_addr :: nat

text \<open>The results of the system calls an \<open>Init\<close> makes.\<close>

record init_sys =
  is_socket_fd :: int
  is_bind :: "int \<Rightarrow> sockaddr_in \<Rightarrow> int"
  is_sock_flags :: "32 word"
  is_sock_setfl :: "32 word \<Rightarrow> int"
  is_epoll_fd :: int
  is_epoll_ctl :: "epoll_request \<Rightarrow> int"
  is_euid :: u32
  is_tun_fd :: int
  is_tun_ioctl :: "string \<Rightarrow> int"
  is_shell :: "string \<Rightarrow> int"

text \<open>What the reads of one readable event return: \<open>recvfrom\<close> on the socket, \<open>read\<close> on the device.\<close>

record node_io =
  io_received :: int
  io_datagram :: bytes
  io_sender :: sockaddr_in
  io_tun_len :: int
  io_tun_packet :: bytes

text \<open>
  One round of an event loop: what the poll returned, what the reads of its events return and
  what the tick draws.
\<close>

record poll_round =
  pr_wait :: "nat \<Rightarrow> int \<Rightarrow> int \<times> epoll_event list \<times> bool"
  pr_io :: "nat \<Rightarrow> node_env \<times> node_io"
  pr_tick :: node_env

type_synonym datagram = "sockaddr_in \<times> bytes"

text \<open>
  A datagram given to the kernel by \<open>SendTo\<close>, whose result both programs ignore; and a packet
  given to the tunnel device by \<open>Write\<close>, whose result they ignore too.
\<close>

definition emitted :: "UDPSocket \<Rightarrow> Endpoint \<Rightarrow> bytes \<Rightarrow> datagram list" where
  "emitted s destination data =
     (case snd (SendTo s destination data 0) of None \<Rightarrow> [] | Some d \<Rightarrow> [d])"

definition written :: "TunDevice \<Rightarrow> bytes \<Rightarrow> bytes list" where
  "written t packet = (case snd (tun_Write t packet 0 False) of None \<Rightarrow> [] | Some p \<Rightarrow> [p])"

text \<open>
  The transport message around what \<open>Seal\<close> returned; \<open>session\<close> is the session after the call,
  so the counter used is the one before its next.
\<close>

definition transport_wire :: "Session \<Rightarrow> bytes \<Rightarrow> bytes" where
  "transport_wire session sealed_bytes =
     (let counter = ss_send_nonce session - 1 in
      SerializeTransport \<lparr>tm_receiver_index = ss_receiver_index session, tm_counter = counter,
        tm_encrypted_payload = sealed_bytes\<rparr>)"

text \<open>
  The keepalives of one tick: every due session still in the table sends an empty packet to
  where \<open>dest\<close> says.
\<close>

definition send_keepalive ::
  "'k crypto \<Rightarrow> time_point \<Rightarrow> UDPSocket \<Rightarrow> (Session \<Rightarrow> Endpoint) \<Rightarrow>
   SessionTable \<times> datagram list \<Rightarrow> u32 \<Rightarrow> SessionTable \<times> datagram list" where
  "send_keepalive lib now sock dest st idx =
     (case st of (sessions, out) \<Rightarrow>
       case sm_Lookup sessions idx of
         None \<Rightarrow> (sessions, out)
       | Some s \<Rightarrow>
           let (ka, s) = CreateKeepalive lib now s in
           case ka of
             None \<Rightarrow> (sm_store sessions idx s, out)
           | Some ct \<Rightarrow>
               (sm_store sessions idx (s\<lparr>ss_last_sent_time := now\<rparr>),
                out @ emitted sock (dest s) (transport_wire s ct)))"

definition send_keepalives ::
  "'k crypto \<Rightarrow> time_point \<Rightarrow> UDPSocket \<Rightarrow> (Session \<Rightarrow> Endpoint) \<Rightarrow>
   SessionTable \<Rightarrow> SessionTable \<times> datagram list" where
  "send_keepalives lib now sock dest sessions =
     foldl (send_keepalive lib now sock dest) (sessions, []) (GetKeepaliveDue now sessions)"

section \<open>Facts\<close>

definition endpoint_sockaddr :: "Endpoint \<Rightarrow> sockaddr_in" where
  "endpoint_sockaddr ep = \<lparr>sin_addr = Unpack (ip_addr (ep_ip ep)), sin_port = htons (ep_port ep)\<rparr>"

lemma emitted_eq:
  "emitted s dest data = (if UdpSocket.IsOpen s then [(endpoint_sockaddr dest, data)] else [])"
  by (simp add: emitted_def SendTo_def socket_address_total endpoint_sockaddr_def)

lemma written_eq: "written t packet = (if tun_IsOpen t then [packet] else [])"
  by (simp add: written_def tun_Write_def)

text \<open>The table stays well formed, and the same indices are in use.\<close>

lemma sm_Lookup_store: "sm_Lookup (sm_store t i s) j = (if j = i then Some s else sm_Lookup t j)"
  by (simp add: sm_store_def sm.look_put)

lemma keepalive_step:
  assumes "table_ok t"
  shows "table_ok (fst (send_keepalive lib now sock dest (t, out) i)) \<and>
    sm.keys_of (fst (send_keepalive lib now sock dest (t, out) i)) = sm.keys_of t"
proof (cases "sm_Lookup t i")
  case (Some s)
  then have s: "ss_sender_index s = i" "session_ok s" using assms table_ok_Lookup by blast+
  obtain r s' where r: "CreateKeepalive lib now s = (r, s')" by fastforce
  then have "ss_sender_index s' = i" "session_ok s'"
    using s index_Seal [of lib now s "[]"] session_ok_Seal [of s lib now "[]"]
    by (simp_all add: CreateKeepalive_def)
  then show ?thesis
    using Some r assms
    by (auto simp: send_keepalive_def sm.keys_of_def sm_Lookup_store session_ok_def split: option.split
        intro!: table_ok_store)
qed (use assms in \<open>simp add: send_keepalive_def\<close>)

lemma keepalives_ok:
  assumes "table_ok t"
  shows "table_ok (fst (send_keepalives lib now sock dest t)) \<and>
    sm.keys_of (fst (send_keepalives lib now sock dest t)) = sm.keys_of t"
proof -
  have "table_ok (fst st) \<Longrightarrow> table_ok (fst (foldl (send_keepalive lib now sock dest) st is)) \<and>
      sm.keys_of (fst (foldl (send_keepalive lib now sock dest) st is)) = sm.keys_of (fst st)" for st "is"
  proof (induction "is" arbitrary: st)
    case (Cons i "is")
    then show ?case using keepalive_step [of "fst st" lib now sock dest "snd st" i] by simp
  qed simp
  then show ?thesis using assms by (simp add: send_keepalives_def)
qed

lemma keepalive_destination:
  assumes "\<And>s. dest s = d"
  shows "set (snd (send_keepalives lib now sock dest t)) \<subseteq> range (\<lambda>w. (endpoint_sockaddr d, w))"
proof -
  have step: "set (snd (send_keepalive lib now sock dest st i)) \<subseteq>
      set (snd st) \<union> range (\<lambda>w. (endpoint_sockaddr d, w))" for st i
    by (cases st) (auto simp: send_keepalive_def emitted_eq assms Let_def split: option.split prod.split)
  have "set (snd (foldl (send_keepalive lib now sock dest) st is)) \<subseteq>
      set (snd st) \<union> range (\<lambda>w. (endpoint_sockaddr d, w))" for st "is"
  proof (induction "is" arbitrary: st)
    case (Cons i "is")
    then show ?case using step [of st i] by fastforce
  qed simp
  then show ?thesis by (fastforce simp: send_keepalives_def)
qed

section \<open>Indices\<close>

text \<open>The indices taken in a table, and those a handler's random source offers.\<close>

definition used_indices :: "IndexTable \<Rightarrow> u32 set" where
  "used_indices t = {i. t i \<noteq> None}"

definition offered :: "node_env \<Rightarrow> u32 set" where
  "offered env = {i. i \<noteq> 0 \<and> Some i \<in> set (ev_index_draws (ne_hs env))}"

lemma used_Swap [simp]: "used_indices (SwapHandshakeToKeypair t i k) = used_indices t"
  by (auto simp: used_indices_def SwapHandshakeToKeypair_def split: option.split if_splits)

lemma used_Derive: "DeriveSessionKeys lib now a p t b = (ok, p', t') \<Longrightarrow> used_indices t' = used_indices t"
  by (auto simp: DeriveSessionKeys_def Let_def split: if_splits option.splits)

lemma offered_free:
  assumes "card (used_indices t) < card (offered env)"
  obtains free where "Some free \<in> set (ev_index_draws (ne_hs env))" "free \<noteq> 0" "t free = None"
proof -
  have "\<not> offered env \<subseteq> used_indices t" using assms card_mono [of "used_indices t" "offered env"] by auto
  then show thesis using that by (auto simp: offered_def used_indices_def)
qed

lemma keys_of_store: "sm.keys_of (sm_store t i s) = insert i (sm.keys_of t)"
  by (auto simp: sm.keys_of_def sm_Lookup_store)

lemma keys_of_Sweep: "sm.keys_of (snd (SweepExpired now t)) \<subseteq> sm.keys_of t"
  by (auto simp: sm.keys_of_def sm_Lookup_def SweepExpired_def dest!: map_of_SomeD)
    (metis map_of_eq_None_iff image_eqI fst_conv option.distinct(1) not_None_eq)

lemma Sweep_none: "SweepExpired now t = (0, t') \<Longrightarrow> t' = t"
  by (auto simp: SweepExpired_def filter_empty_conv intro!: filter_True)

section \<open>Descriptors and examples\<close>

lemmas open_defs = UdpSocket.IsOpen_def ep_IsOpen_def tun_IsOpen_def udp_Open_def ep_Open_def
  tun_Open_def udp_Close_def ep_Close_def tun_Close_def ep_Add_def SetNonBlocking_def kInvalidHandle_def

definition example_sys :: init_sys where
  "example_sys = \<lparr>is_socket_fd = 3, is_bind = (\<lambda>_ _. 0), is_sock_flags = 2, is_sock_setfl = (\<lambda>_. 0),
     is_epoll_fd = 4, is_epoll_ctl = (\<lambda>_. 0), is_euid = 0, is_tun_fd = 5, is_tun_ioctl = (\<lambda>_. 0),
     is_shell = (\<lambda>_. 0)\<rparr>"

definition example_env :: "u32 list \<Rightarrow> node_env" where
  "example_env is = \<lparr>ne_hs = \<lparr>ev_x25519_seed = [5], ev_mlkem_seed = [6], ev_encap_seed = [7],
     ev_encap_seed2 = [8], ev_now = 1, ev_index_draws = map Some is\<rparr>,
     ne_sys_now = 1, ne_now = 1, ne_jitter = 0, ne_keypair_addr = 7, ne_peer_addr = 8\<rparr>"

definition example_round :: poll_round where
  "example_round = \<lparr>pr_wait = (\<lambda>n t. (int (min n 1), [\<lparr>ee_events = EPOLLHUP, ee_fd = 3\<rparr>], False)),
     pr_io = (\<lambda>_. (example_env [4, 5, 6, 7, 8, 9, 10, 11, 12, 13, 14], \<lparr>io_received = 0, io_datagram = [],
       io_sender = \<lparr>sin_addr = [10, 0, 0, 1], sin_port = [0, 1]\<rparr>, io_tun_len = 0, io_tun_packet = []\<rparr>)),
     pr_tick = example_env [4, 5, 6, 7, 8, 9, 10, 11, 12, 13, 14]\<rparr>"

lemma offered_example [simp]: "offered (example_env is) = set is - {0}"
  by (auto simp: offered_def example_env_def)

section \<open>Property\<close>

text \<open>
  C34. No descriptor is lost and none is closed twice. Take any number of sockets, pollers or tunnel
  devices and any sequence of opens, closes and move assignments, whatever the kernel answers:
  the descriptors the kernel handed out are, counted with multiplicity, exactly those that
  have been closed and those an object still holds.
\<close>

theorem descriptors_balanced:
  "(case handle_run udp_api ops (replicate n UDPSocket_init) of (ds, got, closed) \<Rightarrow>
      mset got = mset closed + mset (concat (map udp_held ds))) \<and>
   (case handle_run ep_api ops' (replicate n EventPoller_init) of (ds, got, closed) \<Rightarrow>
      mset got = mset closed + mset (concat (map ep_held ds))) \<and>
   (case handle_run tun_api ops'' (replicate n TunDevice_init) of (ds, got, closed) \<Rightarrow>
      mset got = mset closed + mset (concat (map tun_held ds)))"
  by (intro conjI udp.run_balanced epd.run_balanced tund.run_balanced)

end
