(* ===== verification/Client.thy ===== *)
theory Client
  imports VpnNode
begin

text \<open>
  \<open>client/client.hpp\<close> and \<open>client/client.cpp\<close>: the client's state, its initialisation, the four
  message handlers, the tunnel reader, the periodic work and the event loop. What the client
  hands to the kernel is kept in two logs at the end of its state: datagrams and tunnel
  packets. The generator of time stamps, a static of \<open>CreateMessageInitiation\<close>, is part of it.
\<close>

record Client =
  cl_socket :: UDPSocket
  cl_poller :: EventPoller
  cl_tun :: TunDevice
  cl_recv_buffer :: bytes
  cl_tun_buffer :: bytes
  cl_server_endpoint :: Endpoint
  cl_local_x25519_priv :: bytes
  cl_local_x25519_pub :: bytes
  cl_local_mlkem_dk :: bytes
  cl_local_mlkem_ek :: bytes
  cl_server_x25519_pub :: bytes
  cl_server_mlkem_ek :: bytes
  cl_peer :: Peer
  cl_index_table :: IndexTable
  cl_sessions :: SessionTable
  cl_active_session_index :: u32
  cl_has_session :: bool
  cl_tun_ifname :: string
  cl_use_tun :: bool
  cl_running :: bool
  cl_initialized :: bool
  cl_stopped :: bool
  cl_bytes_sent :: u64
  cl_bytes_recv :: u64
  cl_last_stats_time :: time_point
  cl_tai :: bytes
  cl_sent :: "datagram list"
  cl_tun_out :: "bytes list"

definition Client_init :: Client where
  "Client_init = \<lparr>cl_socket = UDPSocket_init, cl_poller = EventPoller_init, cl_tun = TunDevice_init,
     cl_recv_buffer = zeros 4096, cl_tun_buffer = zeros 4096,
     cl_server_endpoint = \<lparr>ep_ip = IPv4_default, ep_port = 0\<rparr>,
     cl_local_x25519_priv = zeros 32, cl_local_x25519_pub = zeros 32,
     cl_local_mlkem_dk = zeros 2400, cl_local_mlkem_ek = zeros 1184,
     cl_server_x25519_pub = zeros 32, cl_server_mlkem_ek = zeros 1184,
     cl_peer = Peer_init, cl_index_table = IndexTable_init, cl_sessions = SessionManager_init,
     cl_active_session_index = 0, cl_has_session = False, cl_tun_ifname = ''tun0'',
     cl_use_tun = False, cl_running = False, cl_initialized = False, cl_stopped = False,
     cl_bytes_sent = 0, cl_bytes_recv = 0, cl_last_stats_time = 0, cl_tai = Tai64nStamp 0 0,
     cl_sent = [], cl_tun_out = []\<rparr>"

text \<open>The address of the member \<open>peer_\<close>.\<close>

definition client_peer_addr :: nat where "client_peer_addr = 1"

definition cl_SetTunInterface :: "string \<Rightarrow> Client \<Rightarrow> Client" where
  "cl_SetTunInterface ifname c = c\<lparr>cl_tun_ifname := ifname\<rparr>"

definition cl_SetStaticKeys :: "bytes \<Rightarrow> bytes \<Rightarrow> bytes \<Rightarrow> bytes \<Rightarrow> Client \<Rightarrow> Client" where
  "cl_SetStaticKeys x25519_priv x25519_pub mlkem_dk mlkem_ek c =
     c\<lparr>cl_local_x25519_priv := x25519_priv, cl_local_x25519_pub := x25519_pub,
       cl_local_mlkem_dk := mlkem_dk, cl_local_mlkem_ek := mlkem_ek\<rparr>"

definition cl_SetServerStaticKeys :: "bytes \<Rightarrow> bytes \<Rightarrow> Client \<Rightarrow> Client" where
  "cl_SetServerStaticKeys server_x25519_pub server_mlkem_ek c =
     c\<lparr>cl_server_x25519_pub := server_x25519_pub, cl_server_mlkem_ek := server_mlkem_ek\<rparr>"

section \<open>Init\<close>

text \<open>The optional part: the tunnel device. The poller of a client is open here.\<close>

definition cl_init_tun :: "init_sys \<Rightarrow> Client \<Rightarrow> bool \<times> Client" where
  "cl_init_tun sys c =
     (if \<not> HasRequiredPrivileges (is_euid sys) then (True, c)
      else case tun_Open (cl_tun c) (cl_tun_ifname c) (is_tun_fd sys) (is_tun_ioctl sys) of
        (opened, tun, closed) \<Rightarrow>
          let c = c\<lparr>cl_tun := tun\<rparr> in
          if \<not> opened then (True, c)
          else if \<not> fst (ep_Add (cl_poller c) (tun_handle (cl_tun c)) Readable (is_epoll_ctl sys)) then
            (False, c\<lparr>cl_tun := fst (tun_Close (cl_tun c)), cl_poller := fst (ep_Close (cl_poller c)),
               cl_socket := fst (udp_Close (cl_socket c))\<rparr>)
          else (True, c\<lparr>cl_use_tun := True\<rparr>))"

definition cl_Init :: "init_sys \<Rightarrow> string \<Rightarrow> Port \<Rightarrow> Client \<Rightarrow> bool \<times> Client" where
  "cl_Init sys server_ip server_port c =
     (if cl_initialized c then (False, c)
      else
        let ip = IPv4_dotted server_ip in
        if \<not> IsValid ip then (False, c)
        else
          let c = c\<lparr>cl_server_endpoint := \<lparr>ep_ip = ip, ep_port = server_port\<rparr>\<rparr>;
              (opened, sock) = udp_Open (cl_socket c) (is_socket_fd sys);
              c = c\<lparr>cl_socket := sock\<rparr> in
          if \<not> opened then (False, c)
          else if \<not> fst (SetNonBlocking (cl_socket c) True (is_sock_flags sys) (is_sock_setfl sys)) then
            (False, c\<lparr>cl_socket := fst (udp_Close (cl_socket c))\<rparr>)
          else
            let (opened, poller) = ep_Open (cl_poller c) (is_epoll_fd sys);
                c = c\<lparr>cl_poller := poller\<rparr> in
            if \<not> opened then (False, c\<lparr>cl_socket := fst (udp_Close (cl_socket c))\<rparr>)
            else if \<not> fst (ep_Add (cl_poller c) (handle_of (cl_socket c)) Readable (is_epoll_ctl sys)) then
              (False, c\<lparr>cl_poller := fst (ep_Close (cl_poller c)),
                 cl_socket := fst (udp_Close (cl_socket c))\<rparr>)
            else
              let (ok, c) = cl_init_tun sys c in
              if \<not> ok then (False, c) else (True, c\<lparr>cl_initialized := True\<rparr>))"

section \<open>Handlers\<close>

definition client_send :: "Client \<Rightarrow> bytes \<Rightarrow> Client" where
  "client_send c wire =
     c\<lparr>cl_sent := cl_sent c @ emitted (cl_socket c) (cl_server_endpoint c) wire\<rparr>"

text \<open>\<open>SendInitiation\<close>: \<open>None\<close> is a call still drawing an index.\<close>

definition configured_peer :: "Client \<Rightarrow> Peer" where
  "configured_peer c = (Peer_Clear (cl_peer c))\<lparr>
     local_static_x25519_private := cl_local_x25519_priv c,
     local_static_x25519_public := cl_local_x25519_pub c,
     local_static_mlkem_dk := cl_local_mlkem_dk c,
     local_static_mlkem_ek := cl_local_mlkem_ek c,
     remote_static_x25519 := cl_server_x25519_pub c,
     remote_static_mlkem_ek := cl_server_mlkem_ek c,
     endpoint_ip := ep_ip (cl_server_endpoint c),
     endpoint_port := ep_port (cl_server_endpoint c)\<rparr>"

definition SendInitiation :: "'k crypto \<Rightarrow> hs_constants \<Rightarrow> node_env \<Rightarrow> Client \<Rightarrow> Client option" where
  "SendInitiation lib g env c =
     (let c = c\<lparr>cl_peer := configured_peer c\<rparr> in
      case DeriveSharedSecret lib (cl_local_x25519_priv c) (cl_server_x25519_pub c) of
        None \<Rightarrow> Some c
      | Some ss \<Rightarrow>
          let c = c\<lparr>cl_peer := (cl_peer c)\<lparr>precomputed_static_static := ss\<rparr>\<rparr> in
          case DeriveMac1Key lib (cl_server_x25519_pub c) of
            None \<Rightarrow> Some c
          | Some key \<Rightarrow>
              let c = c\<lparr>cl_peer := (cl_peer c)\<lparr>mac1_key := key\<rparr>\<rparr> in
              do {
                (initiation, peer, table, tai) \<leftarrow> CreateMessageInitiation lib g (ne_hs env)
                  client_peer_addr (cl_peer c) (cl_index_table c) (cl_tai c);
                let c = c\<lparr>cl_peer := peer, cl_index_table := table, cl_tai := tai\<rparr>;
                case initiation of
                  None \<Rightarrow> Some c
                | Some wire \<Rightarrow> Some (client_send c wire)
              })"

definition cl_HandleInitiation :: "bytes \<Rightarrow> Endpoint \<Rightarrow> Client \<Rightarrow> Client" where
  "cl_HandleInitiation data sender c = c"

definition cl_HandleResponse ::
  "'k crypto \<Rightarrow> node_env \<Rightarrow> bytes \<Rightarrow> Endpoint \<Rightarrow> Client \<Rightarrow> Client" where
  "cl_HandleResponse lib env data sender c =
     (if length data < kResponseSize then c
      else
        let (ok, peer) = ConsumeMessageResponse lib data client_peer_addr (cl_peer c) (cl_index_table c);
            c = c\<lparr>cl_peer := peer\<rparr> in
        if \<not> ok then c
        else
          let (ok, peer, table) = DeriveSessionKeys lib (ne_sys_now env) (ne_keypair_addr env)
                (cl_peer c) (cl_index_table c) True;
              c = c\<lparr>cl_peer := peer, cl_index_table := table\<rparr> in
          if \<not> ok then c
          else case Current (keypairs (cl_peer c)) of
            None \<Rightarrow> c
          | Some kp \<Rightarrow>
              let secrets = \<lparr>sec_send_key = send_key kp, sec_recv_key = receive_key kp,
                    sec_sender_index = kp_local_index kp, sec_receiver_index = kp_remote_index kp,
                    sec_is_initiator = True\<rparr>;
                  (session, sessions) = ActivateSession (ne_sys_now env) (ne_jitter env)
                    (cl_sessions c) secrets sender;
                  c = c\<lparr>cl_sessions := sessions\<rparr> in
              case session of
                None \<Rightarrow> c
              | Some s \<Rightarrow> c\<lparr>cl_active_session_index := sec_sender_index secrets,
                  cl_has_session := True\<rparr>)"

definition cl_HandleCookie :: "bytes \<Rightarrow> Endpoint \<Rightarrow> Client \<Rightarrow> Client" where
  "cl_HandleCookie data sender c = c"

definition cl_HandleTransport :: "'k crypto \<Rightarrow> node_env \<Rightarrow> bytes \<Rightarrow> Client \<Rightarrow> Client" where
  "cl_HandleTransport lib env data c =
     (case DeserializeTransport data of
        None \<Rightarrow> c
      | Some msg \<Rightarrow>
          (case sm_Lookup (cl_sessions c) (tm_receiver_index msg) of
             None \<Rightarrow> c
           | Some session \<Rightarrow>
               let (plaintext, session) =
                     Open lib (ne_now env) session (tm_counter msg) (tm_encrypted_payload msg);
                   c = c\<lparr>cl_sessions := sm_store (cl_sessions c) (tm_receiver_index msg) session\<rparr> in
               case plaintext of
                 None \<Rightarrow> c
               | Some p \<Rightarrow>
                   if p = [] then c
                   else if \<not> cl_use_tun c \<or> \<not> tun_IsOpen (cl_tun c) then c
                   else c\<lparr>cl_tun_out := cl_tun_out c @ written (cl_tun c) p,
                     cl_bytes_recv := cl_bytes_recv c + of_nat (length p)\<rparr>))"

text \<open>\<open>SendTransport\<close> on the session filed under \<open>idx\<close>.\<close>

definition cl_SendTransport ::
  "'k crypto \<Rightarrow> node_env \<Rightarrow> u32 \<Rightarrow> Session \<Rightarrow> bytes \<Rightarrow> Client \<Rightarrow> Client" where
  "cl_SendTransport lib env idx session plaintext c =
     (let (r, session) = Seal lib (ne_now env) session plaintext in
      case r of
        None \<Rightarrow> c\<lparr>cl_sessions := sm_store (cl_sessions c) idx session\<rparr>
      | Some ct \<Rightarrow>
          let c = client_send c (transport_wire session ct);
              session = session\<lparr>ss_last_sent_time := ne_now env\<rparr> in
          c\<lparr>cl_sessions := sm_store (cl_sessions c) idx session,
            cl_bytes_sent := cl_bytes_sent c + of_nat (length plaintext)\<rparr>)"

definition cl_HandleTunRead :: "'k crypto \<Rightarrow> node_env \<Rightarrow> node_io \<Rightarrow> Client \<Rightarrow> Client" where
  "cl_HandleTunRead lib env io c =
     (let (n, buf) = tun_Read (cl_tun c) (cl_tun_buffer c) (io_tun_len io) (io_tun_packet io);
          c = c\<lparr>cl_tun_buffer := buf\<rparr> in
      if n \<le> 0 then c
      else if \<not> cl_has_session c then c
      else case sm_Lookup (cl_sessions c) (cl_active_session_index c) of
        None \<Rightarrow> c\<lparr>cl_has_session := False\<rparr>
      | Some session \<Rightarrow>
          let pkt = read_at 0 (nat n) (cl_tun_buffer c) in
          cl_SendTransport lib env (cl_active_session_index c) session pkt c)"

section \<open>TimerTick\<close>

definition cl_stats :: "time_point \<Rightarrow> Client \<Rightarrow> Client" where
  "cl_stats now c =
     (if now - cl_last_stats_time c \<ge> chrono_seconds 1
      then c\<lparr>cl_bytes_sent := 0, cl_bytes_recv := 0, cl_last_stats_time := now\<rparr> else c)"

definition cl_TimerTick :: "'k crypto \<Rightarrow> hs_constants \<Rightarrow> node_env \<Rightarrow> Client \<Rightarrow> Client option" where
  "cl_TimerTick lib g env c =
     (let c = cl_stats (ne_now env) c;
          (sessions, out) = send_keepalives lib (ne_now env) (cl_socket c)
            (\<lambda>s. cl_server_endpoint c) (cl_sessions c);
          c = c\<lparr>cl_sessions := sessions, cl_sent := cl_sent c @ out\<rparr>;
          (swept, sessions) = SweepExpired (ne_sys_now env) (cl_sessions c);
          c = c\<lparr>cl_sessions := sessions\<rparr> in
      if swept > 0 \<and> cl_has_session c \<and> sm_Lookup (cl_sessions c) (cl_active_session_index c) = None
      then SendInitiation lib g env (c\<lparr>cl_has_session := False\<rparr>)
      else Some c)"

section \<open>The event loop\<close>

definition cl_receive :: "'k crypto \<Rightarrow> node_env \<Rightarrow> node_io \<Rightarrow> Client \<Rightarrow> Client" where
  "cl_receive lib env io c =
     (case ReceiveFrom (cl_socket c) (io_received io) (io_sender io) of
        None \<Rightarrow> c
      | Some result \<Rightarrow>
          if bytes_read result = 0 then c
          else
            let c = c\<lparr>cl_recv_buffer := write_at 0 (take (bytes_read result) (io_datagram io)) (cl_recv_buffer c)\<rparr>;
                payload = read_at 0 (bytes_read result) (cl_recv_buffer c);
                type = ucast (cl_recv_buffer c ! 0) in
            if type = message_code Initiation then cl_HandleInitiation payload (rr_sender result) c
            else if type = message_code Response then cl_HandleResponse lib env payload (rr_sender result) c
            else if type = message_code Cookie then cl_HandleCookie payload (rr_sender result) c
            else if type = message_code Transport then cl_HandleTransport lib env payload c
            else c)"

text \<open>The inner loop over the events of one poll; \<open>ios\<close> says what the reads of each return.\<close>

fun cl_events :: "'k crypto \<Rightarrow> (PollEvent \<times> node_env \<times> node_io) list \<Rightarrow> Client \<Rightarrow> Client" where
  "cl_events lib [] c = c"
| "cl_events lib ((ev, env, io) # rest) c =
     (if IsError ev \<or> IsHangup ev then c\<lparr>cl_running := False\<rparr>
      else if \<not> IsReadable ev then cl_events lib rest c
      else if pe_handle ev = handle_of (cl_socket c) then cl_events lib rest (cl_receive lib env io c)
      else if cl_use_tun c \<and> tun_IsOpen (cl_tun c) \<and> pe_handle ev = tun_handle (cl_tun c)
      then cl_events lib rest (cl_HandleTunRead lib env io c)
      else cl_events lib rest c)"

text \<open>
  The loop runs on a list of rounds. The result says whether it has been left, which it is when
  its test finds the client stopped or the poll fails; when the rounds are used up before, it
  has not, and the state is the one at the loop's test.
\<close>

fun cl_loop ::
  "'k crypto \<Rightarrow> hs_constants \<Rightarrow> PollEvent list \<Rightarrow> poll_round list \<Rightarrow> Client \<Rightarrow> (bool \<times> Client) option" where
  "cl_loop lib g events [] c = Some (\<not> cl_running c, c)"
| "cl_loop lib g events (r # rs) c =
     (if \<not> cl_running c then Some (True, c)
      else
        let (ready, events, poller) = Poll (cl_poller c) events 250 (pr_wait r);
            c = c\<lparr>cl_poller := poller\<rparr> in
        if ready < 0 then Some (True, c)
        else do {
          let c = cl_events lib (map (\<lambda>i. (events ! i, pr_io r i)) [0..<nat ready]) c;
          c \<leftarrow> cl_TimerTick lib g (pr_tick r) c;
          cl_loop lib g events rs c
        })"

definition cl_Run ::
  "'k crypto \<Rightarrow> hs_constants \<Rightarrow> node_env \<Rightarrow> poll_round list \<Rightarrow> Client \<Rightarrow> (bool \<times> Client) option" where
  "cl_Run lib g env rounds c =
     (if \<not> cl_initialized c \<or> cl_stopped c then Some (True, c)
      else do {
        let c = c\<lparr>cl_running := True, cl_last_stats_time := ne_now env\<rparr>;
        c \<leftarrow> SendInitiation lib g env c;
        cl_loop lib g (replicate 4 PollEvent_init) rounds c
      })"

definition cl_Stop :: "Client \<Rightarrow> Client" where
  "cl_Stop c = c\<lparr>cl_stopped := True, cl_running := False\<rparr>"

definition cl_Shutdown :: "Client \<Rightarrow> Client" where
  "cl_Shutdown c =
     (let c = cl_Stop c;
          c = (if cl_use_tun c then c\<lparr>cl_tun := fst (tun_Close (cl_tun c))\<rparr> else c);
          c = c\<lparr>cl_poller := fst (ep_Close (cl_poller c))\<rparr>;
          c = c\<lparr>cl_socket := fst (udp_Close (cl_socket c))\<rparr> in
      c\<lparr>cl_initialized := False, cl_stopped := False, cl_use_tun := False\<rparr>)"

definition cl_destroy :: "Client \<Rightarrow> Client" where
  "cl_destroy c = cl_Shutdown c"

definition FormatEndpoint :: "Endpoint \<Rightarrow> string" where
  "FormatEndpoint ep = IPv4_ToString (ep_ip ep) @ '':'' @ decimal (unat (ep_port ep))"

section \<open>The invariant\<close>

text \<open>
  The session table is well formed, the active session exists while the client says it has
  one, and every datagram so far went to the configured server.
\<close>

definition client_ok :: "Client \<Rightarrow> bool" where
  "client_ok c \<longleftrightarrow> table_ok (cl_sessions c) \<and>
     (cl_has_session c \<longrightarrow> cl_active_session_index c \<in> sm.keys_of (cl_sessions c)) \<and>
     fst ` set (cl_sent c) \<subseteq> {endpoint_sockaddr (cl_server_endpoint c)}"

lemma client_ok_send: "client_ok c \<Longrightarrow> client_ok (client_send c wire)"
  by (auto simp: client_ok_def client_send_def emitted_eq)

text \<open>Only the fields named here matter to the invariant.\<close>

lemma client_ok_cong:
  assumes "client_ok c" and "cl_sessions c' = cl_sessions c" and "cl_has_session c' \<longrightarrow> cl_has_session c"
    and "cl_active_session_index c' = cl_active_session_index c" and "cl_sent c' = cl_sent c"
    and "cl_server_endpoint c' = cl_server_endpoint c"
  shows "client_ok c'"
  using assms by (auto simp: client_ok_def)

lemma client_ok_SendInitiation:
  assumes "client_ok c" and "SendInitiation lib g env c = Some c'"
  shows "client_ok c'"
proof -
  consider d where "c' = c\<lparr>cl_peer := d\<rparr>"
    | p t i where "c' = c\<lparr>cl_peer := p, cl_index_table := t, cl_tai := i\<rparr>"
    | p t i w where "c' = client_send (c\<lparr>cl_peer := p, cl_index_table := t, cl_tai := i\<rparr>) w"
    using assms(2)
    by (auto simp: SendInitiation_def Let_def bind_eq_Some_conv split: option.splits)
  then show ?thesis
  proof cases
    case 3
    have "client_ok (c\<lparr>cl_peer := p, cl_index_table := t, cl_tai := i\<rparr>)"
      by (rule client_ok_cong [OF assms(1)]) simp_all
    then show ?thesis using 3 client_ok_send by blast
  qed (auto intro: client_ok_cong [OF assms(1)])
qed

lemma client_ok_store:
  assumes "client_ok c" and "ss_sender_index s = i" and "session_ok s"
  shows "client_ok (c\<lparr>cl_sessions := sm_store (cl_sessions c) i s\<rparr>)"
  using assms by (auto simp: client_ok_def keys_of_store intro: table_ok_store)

lemma client_ok_HandleResponse: 
  assumes "client_ok c" shows "client_ok (cl_HandleResponse lib env data sender c)"
proof -
  have act: "client_ok (d\<lparr>cl_sessions := t, cl_active_session_index := j, cl_has_session := True\<rparr>)"
    if "client_ok d" and "ActivateSession now r (cl_sessions d) \<lparr>sec_send_key = sk, sec_recv_key = rk,
      sec_sender_index = j, sec_receiver_index = q, sec_is_initiator = b\<rparr> peer = (Some s, t)"
    for d t s now r peer j sk rk q b
    using that table_ok_Activate [of "cl_sessions d" now r "\<lparr>sec_send_key = sk, sec_recv_key = rk,
      sec_sender_index = j, sec_receiver_index = q, sec_is_initiator = b\<rparr>" peer]
    by (auto simp: client_ok_def ActivateSession_eq keys_of_store simp flip: sm_store_def split: if_splits)
  have none: "client_ok (d\<lparr>cl_sessions := t\<rparr>)"
    if "client_ok d" and "ActivateSession now r (cl_sessions d) sec peer = (None, t)" for d t now r sec peer
    using that by (auto simp: ActivateSession_eq split: if_splits intro: client_ok_cong)
  have peer: "client_ok (c\<lparr>cl_peer := p\<rparr>)" "client_ok (c\<lparr>cl_peer := p, cl_index_table := t\<rparr>)" for p t
    by (rule client_ok_cong [OF assms]; simp)+
  show ?thesis
    using assms peer act [OF peer(2)] none [OF peer(2)]
    by (auto simp: cl_HandleResponse_def Let_def split: prod.split option.split)
qed

lemma client_ok_HandleTransport:
  assumes "client_ok c" shows "client_ok (cl_HandleTransport lib env data c)"
proof -
  have "client_ok (c\<lparr>cl_sessions := sm_store (cl_sessions c) i (snd (Open lib now s ctr ct))\<rparr>)"
    if "sm_Lookup (cl_sessions c) i = Some s" for i s now ctr ct
  proof -
    have "ss_sender_index s = i \<and> session_ok s"
      using that assms by (auto simp: client_ok_def dest: table_ok_Lookup)
    then show ?thesis by (intro client_ok_store [OF assms]) (simp_all add: session_ok_Open)
  qed
  note store = this
  have out: "client_ok d \<Longrightarrow> client_ok (d\<lparr>cl_tun_out := x, cl_bytes_recv := y\<rparr>)" for d x y
    by (rule client_ok_cong) simp_all
  have "client_ok (c\<lparr>cl_sessions := sm_store (cl_sessions c) i s'\<rparr>)"
    if "sm_Lookup (cl_sessions c) i = Some s" "Open lib now s ctr ct = (r, s')" for i s s' r now ctr ct
    using store [OF that(1), of now ctr ct] that(2) by simp
  then show ?thesis
    using assms out by (auto simp: cl_HandleTransport_def Let_def split: prod.split option.split)
qed

lemma client_ok_HandleTunRead:
  assumes "client_ok c" shows "client_ok (cl_HandleTunRead lib env io c)"
proof -
  have tr: "client_ok (cl_SendTransport lib env i s p d)"
    if d: "client_ok d" and l: "sm_Lookup (cl_sessions d) i = Some s" for i s p d
  proof -
    obtain r s' where seal: "Seal lib (ne_now env) s p = (r, s')" by fastforce
    have "ss_sender_index s = i \<and> session_ok s" using d l table_ok_Lookup by (auto simp: client_ok_def)
    then have s': "ss_sender_index s' = i" "session_ok s'"
      using index_Seal [of lib "ne_now env" s p] session_ok_Seal [of s lib "ne_now env" p] seal by simp_all
    have "client_ok ((client_send d w)\<lparr>cl_sessions := sm_store (cl_sessions (client_send d w)) i
        (s'\<lparr>ss_last_sent_time := t\<rparr>)\<rparr>)" for w t
      using s' by (intro client_ok_store client_ok_send d) (simp_all add: session_ok_def)
    then have "client_ok ((client_send d w)\<lparr>cl_sessions := sm_store (cl_sessions (client_send d w)) i
        (s'\<lparr>ss_last_sent_time := t\<rparr>), cl_bytes_sent := b\<rparr>)" for w t b
      by (rule client_ok_cong) simp_all
    then show ?thesis
      using client_ok_store [OF d s'(1) s'(2)] by (simp add: cl_SendTransport_def seal Let_def split: option.split)
  qed
  have buf: "client_ok (c\<lparr>cl_tun_buffer := b\<rparr>)" "client_ok (c\<lparr>cl_tun_buffer := b, cl_has_session := False\<rparr>)" for b
    by (rule client_ok_cong [OF assms]; simp)+
  show ?thesis
    using buf tr [OF buf(1)] by (auto simp: cl_HandleTunRead_def Let_def split: prod.split option.split)
qed

lemma client_ok_receive: "client_ok c \<Longrightarrow> client_ok (cl_receive lib env io c)"
proof -
  assume c: "client_ok c"
  then have "client_ok (c\<lparr>cl_recv_buffer := b\<rparr>)" for b by (rule client_ok_cong) simp_all
  then show ?thesis
    using c by (auto simp: cl_receive_def Let_def cl_HandleInitiation_def cl_HandleCookie_def
        split: option.split intro: client_ok_HandleResponse client_ok_HandleTransport)
qed

lemma client_ok_events: "client_ok c \<Longrightarrow> client_ok (cl_events lib evs c)"
proof (induction lib evs c rule: cl_events.induct)
  case (2 lib ev env io rest c)
  then show ?case
    using client_ok_cong [OF 2(5), of "c\<lparr>cl_running := False\<rparr>"]
    by (simp add: client_ok_receive client_ok_HandleTunRead)
qed simp

lemma client_ok_TimerTick:
  assumes "client_ok c" and "cl_TimerTick lib g env c = Some c'"
  shows "client_ok c'"
proof -
  let ?c = "cl_stats (ne_now env) c"
  have c: "client_ok ?c" by (rule client_ok_cong [OF assms(1)]) (simp_all add: cl_stats_def)
  obtain t out where ka: "send_keepalives lib (ne_now env) (cl_socket ?c) (\<lambda>s. cl_server_endpoint ?c)
      (cl_sessions ?c) = (t, out)" by fastforce
  obtain n t' where sw: "SweepExpired (ne_sys_now env) t = (n, t')" by fastforce
  have t: "table_ok t" "sm.keys_of t = sm.keys_of (cl_sessions ?c)"
    using keepalives_ok [of "cl_sessions ?c" lib "ne_now env" "cl_socket ?c" "\<lambda>s. cl_server_endpoint ?c"]
      c ka by (simp_all add: client_ok_def)
  have out: "fst ` set out \<subseteq> {endpoint_sockaddr (cl_server_endpoint ?c)}"
    using keepalive_destination [of "\<lambda>s. cl_server_endpoint ?c" "cl_server_endpoint ?c" lib "ne_now env"
        "cl_socket ?c" "cl_sessions ?c"] ka by auto
  have t': "table_ok t'" using table_ok_Sweep [OF t(1), of "ne_sys_now env"] sw by simp
  have same: "n = 0 \<Longrightarrow> t' = t" using sw Sweep_none by blast
  let ?d = "?c\<lparr>cl_sent := cl_sent ?c @ out, cl_sessions := t'\<rparr>"
  have gone: "client_ok (?d\<lparr>cl_has_session := False\<rparr>)"
    using t' c out by (auto simp: client_ok_def)
  have live: "sm_Lookup t (cl_active_session_index ?c) \<noteq> None" if "cl_has_session ?c"
  proof -
    have "cl_active_session_index ?c \<in> sm.keys_of t" using that c t(2) by (simp add: client_ok_def)
    then show ?thesis by (simp add: sm.keys_of_def)
  qed
  have kept: "client_ok ?d" if "\<not> (n > 0 \<and> cl_has_session ?c \<and> sm_Lookup t' (cl_active_session_index ?c) = None)"
    using that t' c out same live by (auto simp: client_ok_def sm.keys_of_def)
  show ?thesis
    using assms(2) kept client_ok_SendInitiation [OF gone]
    by (auto simp: cl_TimerTick_def Let_def ka sw split: if_splits)
qed

lemma client_ok_loop: "client_ok c \<Longrightarrow> cl_loop lib g events rs c = Some (left, c') \<Longrightarrow> client_ok c'"
proof (induction lib g events rs c rule: cl_loop.induct)
  case (2 lib g events r rs c)
  have "client_ok (c\<lparr>cl_poller := p\<rparr>)" for p by (rule client_ok_cong [OF 2(2)]) simp_all
  then show ?case
    using 2 client_ok_events client_ok_TimerTick
    by (auto simp: Let_def bind_eq_Some_conv split: if_splits prod.splits) blast
qed simp

section \<open>Starting and stopping\<close>

definition client_closed :: "Client \<Rightarrow> bool" where
  "client_closed c \<longleftrightarrow> \<not> UdpSocket.IsOpen (cl_socket c) \<and> \<not> ep_IsOpen (cl_poller c) \<and>
     \<not> tun_IsOpen (cl_tun c) \<and> \<not> cl_use_tun c \<and> \<not> cl_initialized c"

definition client_started :: "Client \<Rightarrow> bool" where
  "client_started c \<longleftrightarrow> UdpSocket.IsOpen (cl_socket c) \<and> ep_IsOpen (cl_poller c) \<and>
     cl_use_tun c = tun_IsOpen (cl_tun c) \<and> cl_initialized c"

lemma cl_init_tun_result:
  assumes "ep_IsOpen (cl_poller c)" and "UdpSocket.IsOpen (cl_socket c)" and "\<not> tun_IsOpen (cl_tun c)"
    and "\<not> cl_use_tun c" and "\<not> cl_initialized c"
  shows "case cl_init_tun sys c of (ok, c') \<Rightarrow> cl_initialized c' = cl_initialized c \<and>
    cl_server_endpoint c' = cl_server_endpoint c \<and>
    (if ok then UdpSocket.IsOpen (cl_socket c') \<and> ep_IsOpen (cl_poller c') \<and> cl_use_tun c' = tun_IsOpen (cl_tun c')
     else client_closed c')"
  using assms
  by (auto simp: cl_init_tun_def Let_def client_closed_def open_defs split: if_splits)

lemma Init_result:
  assumes "client_closed c"
  shows "case cl_Init sys ip port c of (ok, c') \<Rightarrow>
    (if ok then client_started c' \<and>
       (\<exists>v. cl_server_endpoint c' = \<lparr>ep_ip = IPv4_host_order v, ep_port = port\<rparr> \<and>
         c_str ip = IPv4_ToString (IPv4_host_order v))
     else client_closed c')"
proof (cases "IsValid (IPv4_dotted ip)")
  case True
  then obtain v where v: "inet_pton4 ip = Some (Unpack v)" using IPv4_dotted_eq by blast
  then have ip: "IPv4_dotted ip = IPv4_host_order v" "c_str ip = IPv4_ToString (IPv4_host_order v)"
    using IPv4_dotted_eq inet_pton4_text by blast+
  let ?c = "c\<lparr>cl_server_endpoint := \<lparr>ep_ip = IPv4_dotted ip, ep_port = port\<rparr>,
    cl_socket := (cl_socket c)\<lparr>handle_of := is_socket_fd sys\<rparr>,
    cl_poller := (cl_poller c)\<lparr>poller_handle := is_epoll_fd sys\<rparr>\<rparr>"
  obtain ok d where t: "cl_init_tun sys ?c = (ok, d)" by fastforce
  have "0 \<le> is_socket_fd sys \<Longrightarrow> 0 \<le> is_epoll_fd sys \<Longrightarrow>
      case cl_init_tun sys ?c of (ok, c') \<Rightarrow> cl_initialized c' = cl_initialized ?c \<and>
        cl_server_endpoint c' = cl_server_endpoint ?c \<and>
        (if ok then UdpSocket.IsOpen (cl_socket c') \<and> ep_IsOpen (cl_poller c') \<and> cl_use_tun c' = tun_IsOpen (cl_tun c')
         else client_closed c')"
    using assms by (intro cl_init_tun_result) (auto simp: client_closed_def open_defs)
  then show ?thesis
    using True assms t ip
    by (auto simp: cl_Init_def Let_def client_closed_def client_started_def open_defs split: if_splits)
qed (use assms in \<open>simp add: cl_Init_def client_closed_def\<close>)

text \<open>
  A client that can run: everything a step of the loop needs to terminate is that the random
  source yields a free index when the client initiates a handshake.
\<close>

lemma CreateMessageInitiation_total:
  assumes "Some free \<in> set (ev_index_draws ev)" and "free \<noteq> 0" and "table free = None"
  shows "\<exists>r. CreateMessageInitiation lib g ev self p table tai = Some r"
proof -
  obtain i where "NewIndex table (ev_index_draws ev) (Some self) (Some self) =
      Some (i, table(i \<mapsto> \<lparr>e_peer = Some self, e_handshake = Some self, e_keypair = None\<rparr>))"
    by (rule NewIndex_total [of free "ev_index_draws ev" table, OF assms])
  then show ?thesis by (auto simp: CreateMessageInitiation_def Let_def split: option.split prod.split)
qed

lemma SendInitiation_total:
  assumes "Some free \<in> set (ev_index_draws (ne_hs env))" and "free \<noteq> 0" and "cl_index_table c free = None"
  shows "\<exists>c'. SendInitiation lib g env c = Some c'"
proof (cases "DeriveSharedSecret lib (cl_local_x25519_priv c) (cl_server_x25519_pub c)")
  case (Some ss)
  show ?thesis
  proof (cases "DeriveMac1Key lib (cl_server_x25519_pub c)")
    case (Some key)
    let ?p = "(configured_peer c)\<lparr>precomputed_static_static := ss, mac1_key := key\<rparr>"
    obtain r where "CreateMessageInitiation lib g (ne_hs env) client_peer_addr ?p
        (cl_index_table c) (cl_tai c) = Some r"
      using CreateMessageInitiation_total [where table = "cl_index_table c", OF assms] by blast
    then show ?thesis
      using \<open>_ = Some ss\<close> Some
      by (auto simp: SendInitiation_def Let_def split: option.split prod.split)
  qed (use Some in \<open>simp add: SendInitiation_def\<close>)
qed (simp add: SendInitiation_def)

text \<open>
  A handshake takes one index, the handlers none. So a run comes back when every tick's random
  source offers more indices than can be taken by then.
\<close>

lemma used_CreateInitiation:
  "CreateMessageInitiation lib g ev self p t tai = Some (r, p', t', tai') \<Longrightarrow>
   \<exists>i. used_indices t' \<subseteq> insert i (used_indices t)"
  by (auto simp: CreateMessageInitiation_def Let_def bind_eq_Some_conv used_indices_def
      split: option.splits prod.splits if_splits dest!: NewIndex_Some(3))

lemma used_SendInitiation:
  assumes "SendInitiation lib g env c = Some c'"
  shows "card (used_indices (cl_index_table c')) \<le> card (used_indices (cl_index_table c)) + 1"
proof -
  have "\<exists>i. used_indices (cl_index_table c') \<subseteq> insert i (used_indices (cl_index_table c))"
    using assms used_CreateInitiation
    by (auto simp: SendInitiation_def Let_def bind_eq_Some_conv client_send_def split: option.splits) blast+
  then obtain i where "used_indices (cl_index_table c') \<subseteq> insert i (used_indices (cl_index_table c))" ..
  then have "card (used_indices (cl_index_table c')) \<le> card (insert i (used_indices (cl_index_table c)))"
    by (intro card_mono) simp_all
  then show ?thesis using card_insert_le_m1 [of "Suc (card (used_indices (cl_index_table c)))"
      "used_indices (cl_index_table c)" i] by simp
qed

lemma used_handlers:
  "used_indices (cl_index_table (cl_HandleResponse lib env data sender c)) = used_indices (cl_index_table c)"
  "cl_index_table (cl_HandleTransport lib env data c) = cl_index_table c"
  "cl_index_table (cl_HandleTunRead lib env io c) = cl_index_table c"
  by (auto simp: cl_HandleResponse_def cl_HandleTransport_def cl_HandleTunRead_def cl_SendTransport_def
      client_send_def Let_def used_Derive split: option.split prod.split)

lemma used_events: "used_indices (cl_index_table (cl_events lib evs c)) = used_indices (cl_index_table c)"
proof (induction lib evs c rule: cl_events.induct)
  case (2 lib ev env io rest c)
  have "used_indices (cl_index_table (cl_receive lib env io c)) = used_indices (cl_index_table c)"
    by (auto simp: cl_receive_def Let_def used_handlers cl_HandleInitiation_def cl_HandleCookie_def
        split: option.split)
  then show ?case using 2 by (simp add: used_handlers)
qed simp

lemma TimerTick_total:
  assumes "card (used_indices (cl_index_table c)) < card (offered env)"
  shows "\<exists>c'. cl_TimerTick lib g env c = Some c' \<and>
    card (used_indices (cl_index_table c')) \<le> card (used_indices (cl_index_table c)) + 1"
proof -
  obtain free where f: "Some free \<in> set (ev_index_draws (ne_hs env))" "free \<noteq> 0"
    "cl_index_table c free = None" using offered_free [OF assms] .
  have "\<exists>c'. SendInitiation lib g env d = Some c' \<and>
      card (used_indices (cl_index_table c')) \<le> card (used_indices (cl_index_table c)) + 1"
    if "cl_index_table d = cl_index_table c" for d
    using SendInitiation_total [OF f(1,2), of d lib g] used_SendInitiation [of lib g env d] f(3) that
    by fastforce
  then show ?thesis
    by (auto simp: cl_TimerTick_def Let_def cl_stats_def split: prod.split)
qed

lemma loop_total:
  assumes "\<forall>r \<in> set rs. card (used_indices (cl_index_table c)) + length rs < card (offered (pr_tick r))"
  shows "\<exists>left c'. cl_loop lib g events rs c = Some (left, c')"
  using assms
proof (induction rs arbitrary: c events)
  case (Cons r rs)
  obtain n evs p where poll: "Poll (cl_poller c) events 250 (pr_wait r) = (n, evs, p)" by (cases "Poll (cl_poller c) events 250 (pr_wait r)")
  let ?d = "cl_events lib (map (\<lambda>i. (evs ! i, pr_io r i)) [0..<nat n]) (c\<lparr>cl_poller := p\<rparr>)"
  have used: "used_indices (cl_index_table ?d) = used_indices (cl_index_table c)" by (simp add: used_events)
  have "card (used_indices (cl_index_table ?d)) < card (offered (pr_tick r))"
    using Cons.prems used by simp
  then obtain e where e: "cl_TimerTick lib g (pr_tick r) ?d = Some e"
    "card (used_indices (cl_index_table e)) \<le> card (used_indices (cl_index_table c)) + 1"
    using TimerTick_total [of ?d "pr_tick r" lib g] used by auto
  have "\<exists>left c'. cl_loop lib g evs rs e = Some (left, c')"
    using Cons.prems e(2) by (intro Cons.IH) fastforce
  then show ?case using poll e(1) by (auto simp: Let_def)
qed simp

section \<open>Properties\<close>

text \<open>
  C35. The life of a client. \<open>Init\<close> either brings everything up (socket and poller open, the
  tunnel marked in use exactly when its device is open) for the server named by a valid
  dotted address, or leaves every descriptor closed again; a second \<open>Init\<close> is refused and
  changes nothing; \<open>Run\<close> does nothing before \<open>Init\<close> or after \<open>Stop\<close>; and \<open>Shutdown\<close> of a
  started client closes everything, may be called again, and leaves nothing for the destructor to do.
\<close>

theorem client_lifecycle:
  assumes "client_closed c" and "client_started d"
  shows "(case cl_Init sys ip port c of (ok, c') \<Rightarrow>
      (if ok then client_started c' \<and>
         (\<exists>v. cl_server_endpoint c' = \<lparr>ep_ip = IPv4_host_order v, ep_port = port\<rparr> \<and>
           c_str ip = IPv4_ToString (IPv4_host_order v))
       else client_closed c')) \<and>
    cl_Init sys ip port d = (False, d) \<and>
    cl_Run lib g env rounds c = Some (True, c) \<and> cl_Run lib g env rounds (cl_Stop d) = Some (True, cl_Stop d) \<and>
    client_closed (cl_Shutdown d) \<and> \<not> cl_running (cl_Shutdown d) \<and>
    cl_Shutdown (cl_Shutdown d) = cl_Shutdown d \<and> cl_destroy (cl_Shutdown d) = cl_Shutdown d"
proof (intro conjI)
  show "case cl_Init sys ip port c of (ok, c') \<Rightarrow>
      (if ok then client_started c' \<and>
         (\<exists>v. cl_server_endpoint c' = \<lparr>ep_ip = IPv4_host_order v, ep_port = port\<rparr> \<and>
           c_str ip = IPv4_ToString (IPv4_host_order v))
       else client_closed c')"
    using assms(1) by (rule Init_result)
  show "cl_Init sys ip port d = (False, d)" using assms(2) by (simp add: cl_Init_def client_started_def)
  show "cl_Run lib g env rounds c = Some (True, c)" "cl_Run lib g env rounds (cl_Stop d) = Some (True, cl_Stop d)"
    using assms(1) by (simp_all add: cl_Run_def client_closed_def cl_Stop_def)
  show "client_closed (cl_Shutdown d)" "\<not> cl_running (cl_Shutdown d)"
    using assms(2)
    by (auto simp: cl_Shutdown_def cl_Stop_def Let_def client_started_def client_closed_def open_defs)
  show "cl_Shutdown (cl_Shutdown d) = cl_Shutdown d"
    using assms(2)
    by (auto simp: cl_Shutdown_def cl_Stop_def Let_def client_started_def open_defs)
  then show "cl_destroy (cl_Shutdown d) = cl_Shutdown d" by (simp add: cl_destroy_def)
qed

definition example_client :: Client where
  "example_client = Client_init\<lparr>cl_socket := \<lparr>handle_of = 3\<rparr>,
     cl_poller := \<lparr>poller_handle = 4, native_bytes = 0\<rparr>, cl_tun := \<lparr>tun_handle = 5, tun_ifname = ''tun0''\<rparr>,
     cl_use_tun := True, cl_initialized := True\<rparr>"

lemma example_client_started: "client_started example_client"
  by (simp add: client_started_def example_client_def open_defs)

theorem client_lifecycle_witness:
  "(case cl_Init example_sys ''10.0.0.1'' 51820 Client_init of (ok, c') \<Rightarrow>
      if ok then client_started c' else client_closed c') \<and>
   client_closed (cl_Shutdown example_client)"
proof -
  have "client_closed Client_init"
    by (simp add: client_closed_def Client_init_def UDPSocket_init_def EventPoller_init_def
        TunDevice_init_def open_defs)
  from client_lifecycle [OF this example_client_started, where sys = example_sys
      and ip = "''10.0.0.1''" and port = 51820 and lib = toy and rounds = "[]" and g = g and env = env]
  show ?thesis by (auto split: prod.splits if_splits)
qed

text \<open>
  A run of the client comes back after its rounds whenever the random source offers enough
  indices, whatever the network and the kernel do; and after every run of a client in good
  order the session table is well formed, a client that believes it has a session has it in
  its table (the branch for a missing active session is never taken), and every datagram it
  sent went to the configured server.
\<close>

lemma client_run_invariant:
  assumes "client_ok c" and "client_started c" and "\<not> cl_stopped c"
    and "\<forall>e \<in> set (env # map pr_tick rounds).
      card (used_indices (cl_index_table c)) + length rounds + 1 < card (offered e)"
  shows "\<exists>left c'. cl_Run lib g env rounds c = Some (left, c') \<and> client_ok c'"
proof -
  let ?c = "c\<lparr>cl_running := True, cl_last_stats_time := ne_now env\<rparr>"
  have ok: "client_ok ?c" by (rule client_ok_cong [OF assms(1)]) simp_all
  have "card (used_indices (cl_index_table ?c)) < card (offered env)" using assms(4) by simp
  then obtain free where "Some free \<in> set (ev_index_draws (ne_hs env))" "free \<noteq> 0"
    "cl_index_table ?c free = None" by (rule offered_free)
  then obtain d where d: "SendInitiation lib g env ?c = Some d" using SendInitiation_total by blast
  have "card (used_indices (cl_index_table d)) \<le> card (used_indices (cl_index_table c)) + 1"
    using used_SendInitiation [OF d] by simp
  then have "\<exists>left c'. cl_loop lib g (replicate 4 PollEvent_init) rounds d = Some (left, c')"
    using assms(4) by (intro loop_total) fastforce
  then obtain left c' where c': "cl_loop lib g (replicate 4 PollEvent_init) rounds d = Some (left, c')" by blast
  have "client_ok c'" by (rule client_ok_loop [OF client_ok_SendInitiation [OF ok d] c'])
  then show ?thesis
    using assms(2,3) d c' by (auto simp: cl_Run_def client_started_def)
qed

lemma client_run_invariant_witness:
  "\<exists>left c'. cl_Run toy hs_constants_start (example_env [4, 5, 6]) [example_round] example_client = Some (left, c') \<and>
     client_ok c'"
proof (rule client_run_invariant)
  show "client_ok example_client"
    by (simp add: client_ok_def example_client_def Client_init_def table_ok_init)
  show "client_started example_client" by (rule example_client_started)
  show "\<not> cl_stopped example_client" by (simp add: example_client_def Client_init_def)
  have "used_indices (cl_index_table example_client) = {}"
    by (simp add: used_indices_def example_client_def Client_init_def IndexTable_init_def)
  then show "\<forall>e \<in> set (example_env [4, 5, 6] # map pr_tick [example_round]).
      card (used_indices (cl_index_table example_client)) + length [example_round] + 1 < card (offered e)"
    by (simp add: example_round_def)
qed

end
