(* ===== verification/Server.thy ===== *)
theory Server
  imports VpnNode
begin

text \<open>
  \<open>server/server.hpp\<close> and \<open>server/server.cpp\<close>: the server's state, its initialisation, the message
  handlers, the routing from tunnel addresses to sessions, the periodic work and the event
  loop, which the code runs in its own thread. As for the client, what is handed to the kernel
  is kept in two logs. The mutexes protect maps that only the event loop touches.
\<close>

record Server =
  sv_bind_ip :: IPv4
  sv_port :: Port
  sv_poll_timeout_ms :: int
  sv_tun_ifname :: string
  sv_tun_ip :: IPv4
  sv_use_tun :: bool
  sv_local_x25519_priv :: bytes
  sv_local_x25519_pub :: bytes
  sv_local_mlkem_dk :: bytes
  sv_local_mlkem_ek :: bytes
  sv_socket :: UDPSocket
  sv_poller :: EventPoller
  sv_tun :: TunDevice
  sv_recv_buffer :: bytes
  sv_tun_buffer :: bytes
  sv_index_table :: IndexTable
  sv_sessions :: SessionTable
  sv_peers :: "u32 \<rightharpoonup> nat \<times> Peer"
  sv_ip_to_session :: "u32 \<rightharpoonup> u32"
  sv_running :: bool
  sv_initialized :: bool
  sv_stopped :: bool
  sv_worker :: bool
  sv_sent :: "datagram list"
  sv_tun_out :: "bytes list"

definition Server_init :: Server where
  "Server_init = \<lparr>sv_bind_ip = IPv4_default, sv_port = 0, sv_poll_timeout_ms = 250,
     sv_tun_ifname = ''pqvpn0'', sv_tun_ip = IPv4_default, sv_use_tun = False,
     sv_local_x25519_priv = zeros 32, sv_local_x25519_pub = zeros 32,
     sv_local_mlkem_dk = zeros 2400, sv_local_mlkem_ek = zeros 1184,
     sv_socket = UDPSocket_init, sv_poller = EventPoller_init, sv_tun = TunDevice_init,
     sv_recv_buffer = zeros 4096, sv_tun_buffer = zeros 4096, sv_index_table = IndexTable_init,
     sv_sessions = SessionManager_init, sv_peers = (\<lambda>_. None), sv_ip_to_session = (\<lambda>_. None),
     sv_running = False, sv_initialized = False, sv_stopped = False, sv_worker = False,
     sv_sent = [], sv_tun_out = []\<rparr>"

definition sv_SetBindAddress :: "IPv4 \<Rightarrow> Server \<Rightarrow> Server" where
  "sv_SetBindAddress ip s = s\<lparr>sv_bind_ip := ip\<rparr>"

definition sv_SetPort :: "Port \<Rightarrow> Server \<Rightarrow> Server" where
  "sv_SetPort port s = s\<lparr>sv_port := port\<rparr>"

definition sv_SetPollTimeoutMs :: "int \<Rightarrow> Server \<Rightarrow> Server" where
  "sv_SetPollTimeoutMs ms s = s\<lparr>sv_poll_timeout_ms := ms\<rparr>"

definition sv_SetTunInterface :: "string \<Rightarrow> IPv4 \<Rightarrow> Server \<Rightarrow> Server" where
  "sv_SetTunInterface ifname tun_ip s =
     s\<lparr>sv_tun_ifname := ifname, sv_tun_ip := tun_ip, sv_use_tun := True\<rparr>"

definition sv_SetStaticKeys :: "bytes \<Rightarrow> bytes \<Rightarrow> bytes \<Rightarrow> bytes \<Rightarrow> Server \<Rightarrow> Server" where
  "sv_SetStaticKeys x25519_priv x25519_pub mlkem_dk mlkem_ek s =
     s\<lparr>sv_local_x25519_priv := x25519_priv, sv_local_x25519_pub := x25519_pub,
       sv_local_mlkem_dk := mlkem_dk, sv_local_mlkem_ek := mlkem_ek\<rparr>"

section \<open>Init\<close>

definition CleanupResources :: "Server \<Rightarrow> Server" where
  "CleanupResources s =
     (let s = (if sv_use_tun s \<and> tun_IsOpen (sv_tun s) then s\<lparr>sv_tun := fst (tun_Close (sv_tun s))\<rparr> else s);
          s = (if ep_IsOpen (sv_poller s) then s\<lparr>sv_poller := fst (ep_Close (sv_poller s))\<rparr> else s) in
      if UdpSocket.IsOpen (sv_socket s) then s\<lparr>sv_socket := fst (udp_Close (sv_socket s))\<rparr> else s)"

text \<open>The optional tunnel device.\<close>

definition sv_init_tun :: "init_sys \<Rightarrow> Server \<Rightarrow> bool \<times> Server" where
  "sv_init_tun sys s =
     (if \<not> sv_use_tun s then (True, s)
      else if \<not> HasRequiredPrivileges (is_euid sys) then (True, s\<lparr>sv_use_tun := False\<rparr>)
      else case tun_Open (sv_tun s) (sv_tun_ifname s) (is_tun_fd sys) (is_tun_ioctl sys) of
        (opened, tun, closed) \<Rightarrow>
          let s = s\<lparr>sv_tun := tun\<rparr> in
          if \<not> opened then (True, s\<lparr>sv_use_tun := False\<rparr>)
          else if \<not> fst (BringUp (sv_tun s) (sv_tun_ip s) (is_shell sys)) then
            (True, s\<lparr>sv_tun := fst (tun_Close (sv_tun s)), sv_use_tun := False\<rparr>)
          else if \<not> fst (ep_Add (sv_poller s) (tun_handle (sv_tun s)) Readable (is_epoll_ctl sys)) then
            (False, CleanupResources s)
          else (True, s))"

text \<open>The last thing a successful \<open>Init\<close> does is to set up the constants of the handshake.\<close>

definition sv_Init ::
  "'k crypto \<Rightarrow> hs_constants \<Rightarrow> init_sys \<Rightarrow> Server \<Rightarrow> bool \<times> Server \<times> hs_constants" where
  "sv_Init lib g sys s =
     (if sv_initialized s then (False, s, g)
      else if \<not> IsValid (sv_bind_ip s) then (False, s, g)
      else if all_zero (sv_local_x25519_priv s) then (False, s, g)
      else
        let (opened, sock) = udp_Open (sv_socket s) (is_socket_fd sys);
            s = s\<lparr>sv_socket := sock\<rparr> in
        if \<not> opened then (False, s, g)
        else if \<not> Bind (sv_socket s) (sv_bind_ip s) (sv_port s) (is_bind sys) then
          (False, CleanupResources s, g)
        else if \<not> fst (SetNonBlocking (sv_socket s) True (is_sock_flags sys) (is_sock_setfl sys)) then
          (False, CleanupResources s, g)
        else
          let (opened, poller) = ep_Open (sv_poller s) (is_epoll_fd sys);
              s = s\<lparr>sv_poller := poller\<rparr> in
          if \<not> opened then (False, CleanupResources s, g)
          else if \<not> fst (ep_Add (sv_poller s) (handle_of (sv_socket s)) Readable (is_epoll_ctl sys)) then
            (False, CleanupResources s, g)
          else
            let (ok, s) = sv_init_tun sys s in
            if \<not> ok then (False, s, g)
            else (True, s\<lparr>sv_initialized := True\<rparr>, InitHandshakeConstants lib g))"

section \<open>Handlers\<close>

definition server_send :: "Server \<Rightarrow> Endpoint \<Rightarrow> bytes \<Rightarrow> Server" where
  "server_send s dest wire = s\<lparr>sv_sent := sv_sent s @ emitted (sv_socket s) dest wire\<rparr>"

text \<open>\<open>HandleInitiation\<close> makes a new peer for every datagram; \<open>None\<close> is a call still drawing an index.\<close>

definition fresh_peer :: "Server \<Rightarrow> Endpoint \<Rightarrow> Peer" where
  "fresh_peer s sender = Peer_init\<lparr>
     local_static_x25519_private := sv_local_x25519_priv s,
     local_static_x25519_public := sv_local_x25519_pub s,
     local_static_mlkem_dk := sv_local_mlkem_dk s,
     local_static_mlkem_ek := sv_local_mlkem_ek s,
     endpoint_ip := ep_ip sender, endpoint_port := ep_port sender\<rparr>"

definition sv_activate :: "node_env \<Rightarrow> Endpoint \<Rightarrow> Peer \<Rightarrow> Server \<Rightarrow> Server" where
  "sv_activate env sender peer s =
     (case Next (keypairs peer) of
        None \<Rightarrow> s
      | Some kp \<Rightarrow>
          let secrets = \<lparr>sec_send_key = send_key kp, sec_recv_key = receive_key kp,
                sec_sender_index = kp_local_index kp, sec_receiver_index = kp_remote_index kp,
                sec_is_initiator = False\<rparr>;
              local_idx = kp_local_index kp;
              (session, sessions) = ActivateSession (ne_sys_now env) (ne_jitter env)
                (sv_sessions s) secrets sender;
              s = s\<lparr>sv_sessions := sessions\<rparr> in
          case session of
            None \<Rightarrow> s
          | Some p \<Rightarrow> s\<lparr>sv_peers := (sv_peers s)(local_idx \<mapsto> (ne_peer_addr env, peer))\<rparr>)"

definition sv_HandleInitiation ::
  "'k crypto \<Rightarrow> hs_constants \<Rightarrow> node_env \<Rightarrow> bytes \<Rightarrow> Endpoint \<Rightarrow> Server \<Rightarrow> Server option" where
  "sv_HandleInitiation lib g env data sender s =
     (if length data \<noteq> kInitiationSize then Some s
      else
        let peer = fresh_peer s sender;
            (ok, peer) = ConsumeMessageInitiation lib g (ne_sys_now env) data peer in
        if \<not> ok then Some s
        else do {
          (response_bytes, peer, table) \<leftarrow>
            CreateMessageResponse lib (ne_hs env) (ne_peer_addr env) peer (sv_index_table s);
          let s = s\<lparr>sv_index_table := table\<rparr>;
          case response_bytes of
            None \<Rightarrow> Some s
          | Some wire \<Rightarrow>
              let s = server_send s sender wire;
                  (ok, peer, table) = DeriveSessionKeys lib (ne_sys_now env) (ne_keypair_addr env)
                    peer (sv_index_table s) False;
                  s = s\<lparr>sv_index_table := table\<rparr> in
              if \<not> ok then Some s else Some (sv_activate env sender peer s)
        })"

definition sv_HandleResponse :: "bytes \<Rightarrow> Endpoint \<Rightarrow> Server \<Rightarrow> Server" where
  "sv_HandleResponse data sender s = s"

definition sv_HandleCookie :: "bytes \<Rightarrow> Endpoint \<Rightarrow> Server \<Rightarrow> Server" where
  "sv_HandleCookie data sender s = s"

text \<open>The source address of a decrypted packet is routed to the session it came through.\<close>

definition learn_route :: "u32 \<Rightarrow> bytes \<Rightarrow> Server \<Rightarrow> Server" where
  "learn_route idx plaintext s =
     (if length plaintext \<ge> 20 then
        (case ParseSrcIP plaintext of
           None \<Rightarrow> s
         | Some src_ip \<Rightarrow> s\<lparr>sv_ip_to_session := (sv_ip_to_session s)(ToHostOrder src_ip \<mapsto> idx)\<rparr>)
      else s)"

definition sv_HandleTransport :: "'k crypto \<Rightarrow> node_env \<Rightarrow> bytes \<Rightarrow> Endpoint \<Rightarrow> Server \<Rightarrow> Server" where
  "sv_HandleTransport lib env data sender s =
     (case DeserializeTransport data of
        None \<Rightarrow> s
      | Some msg \<Rightarrow>
          (case sm_Lookup (sv_sessions s) (tm_receiver_index msg) of
             None \<Rightarrow> s
           | Some session \<Rightarrow>
               let (plaintext, session) =
                     Open lib (ne_now env) session (tm_counter msg) (tm_encrypted_payload msg);
                   s = s\<lparr>sv_sessions := sm_store (sv_sessions s) (tm_receiver_index msg) session\<rparr> in
               case plaintext of
                 None \<Rightarrow> s
               | Some p \<Rightarrow>
                   if p = [] then s
                   else
                     let s = learn_route (tm_receiver_index msg) p s in
                     if sv_use_tun s \<and> tun_IsOpen (sv_tun s)
                     then s\<lparr>sv_tun_out := sv_tun_out s @ written (sv_tun s) p\<rparr> else s))"

text \<open>\<open>SendTransport\<close> on the session filed under \<open>idx\<close>.\<close>

definition sv_SendTransport ::
  "'k crypto \<Rightarrow> node_env \<Rightarrow> u32 \<Rightarrow> Session \<Rightarrow> bytes \<Rightarrow> Server \<Rightarrow> Server" where
  "sv_SendTransport lib env idx session plaintext s =
     (let (r, session) = Seal lib (ne_now env) session plaintext in
      case r of
        None \<Rightarrow> s\<lparr>sv_sessions := sm_store (sv_sessions s) idx session\<rparr>
      | Some ct \<Rightarrow>
          let s = server_send s (ss_peer session) (transport_wire session ct);
              session = session\<lparr>ss_last_sent_time := ne_now env\<rparr> in
          s\<lparr>sv_sessions := sm_store (sv_sessions s) idx session\<rparr>)"

definition sv_HandleTunRead :: "'k crypto \<Rightarrow> node_env \<Rightarrow> node_io \<Rightarrow> Server \<Rightarrow> Server" where
  "sv_HandleTunRead lib env io s =
     (let (n, buf) = tun_Read (sv_tun s) (sv_tun_buffer s) (io_tun_len io) (io_tun_packet io);
          s = s\<lparr>sv_tun_buffer := buf\<rparr> in
      if n \<le> 0 then s
      else
        let pkt = read_at 0 (nat n) (sv_tun_buffer s) in
        if length pkt < 20 then s
        else case ParseDstIP pkt of
          None \<Rightarrow> s
        | Some dst_ip \<Rightarrow>
            (case sv_ip_to_session s (ToHostOrder dst_ip) of
               None \<Rightarrow> s
             | Some session_idx \<Rightarrow>
                 (case sm_Lookup (sv_sessions s) session_idx of
                    None \<Rightarrow> s
                  | Some session \<Rightarrow> sv_SendTransport lib env session_idx session pkt s)))"

section \<open>TimerTick\<close>

definition prune_routes :: "SessionTable \<Rightarrow> (u32 \<rightharpoonup> u32) \<Rightarrow> u32 \<rightharpoonup> u32" where
  "prune_routes sessions routes ip =
     (case routes ip of
        None \<Rightarrow> None
      | Some idx \<Rightarrow> (case sm_Lookup sessions idx of None \<Rightarrow> None | Some _ \<Rightarrow> Some idx))"

definition sv_TimerTick :: "'k crypto \<Rightarrow> node_env \<Rightarrow> Server \<Rightarrow> Server" where
  "sv_TimerTick lib env s =
     (let (sessions, out) = send_keepalives lib (ne_now env) (sv_socket s) ss_peer (sv_sessions s);
          s = s\<lparr>sv_sessions := sessions, sv_sent := sv_sent s @ out\<rparr>;
          (n, sessions) = SweepExpired (ne_sys_now env) (sv_sessions s);
          s = s\<lparr>sv_sessions := sessions\<rparr> in
      if n > 0 then s\<lparr>sv_ip_to_session := prune_routes (sv_sessions s) (sv_ip_to_session s)\<rparr> else s)"

section \<open>The event loop\<close>

definition sv_receive ::
  "'k crypto \<Rightarrow> hs_constants \<Rightarrow> node_env \<Rightarrow> node_io \<Rightarrow> Server \<Rightarrow> Server option" where
  "sv_receive lib g env io s =
     (case ReceiveFrom (sv_socket s) (io_received io) (io_sender io) of
        None \<Rightarrow> Some s
      | Some result \<Rightarrow>
          if bytes_read result = 0 then Some s
          else
            let s = s\<lparr>sv_recv_buffer := write_at 0 (take (bytes_read result) (io_datagram io)) (sv_recv_buffer s)\<rparr>;
                payload = read_at 0 (bytes_read result) (sv_recv_buffer s);
                type = ucast (sv_recv_buffer s ! 0) in
            if type = message_code Initiation then sv_HandleInitiation lib g env payload (rr_sender result) s
            else if type = message_code Response then Some (sv_HandleResponse payload (rr_sender result) s)
            else if type = message_code Cookie then Some (sv_HandleCookie payload (rr_sender result) s)
            else if type = message_code Transport then Some (sv_HandleTransport lib env payload (rr_sender result) s)
            else Some s)"

fun sv_events ::
  "'k crypto \<Rightarrow> hs_constants \<Rightarrow> (PollEvent \<times> node_env \<times> node_io) list \<Rightarrow> Server \<Rightarrow> Server option" where
  "sv_events lib g [] s = Some s"
| "sv_events lib g ((ev, env, io) # rest) s =
     (if IsError ev \<or> IsHangup ev then Some (s\<lparr>sv_running := False\<rparr>)
      else if \<not> IsReadable ev then sv_events lib g rest s
      else if pe_handle ev = handle_of (sv_socket s)
      then do { s \<leftarrow> sv_receive lib g env io s; sv_events lib g rest s }
      else if sv_use_tun s \<and> tun_IsOpen (sv_tun s) \<and> pe_handle ev = tun_handle (sv_tun s)
      then sv_events lib g rest (sv_HandleTunRead lib env io s)
      else sv_events lib g rest s)"

text \<open>
  The loop runs on a list of rounds. The result says whether it has been left, which it is when
  its test finds \<open>running_\<close> cleared or the poll fails; when the rounds are used up before, it has
  not, and the state is the one at the loop's test.
\<close>

fun sv_EventLoop ::
  "'k crypto \<Rightarrow> hs_constants \<Rightarrow> PollEvent list \<Rightarrow> poll_round list \<Rightarrow> Server \<Rightarrow> (bool \<times> Server) option" where
  "sv_EventLoop lib g events [] s = Some (\<not> sv_running s, s)"
| "sv_EventLoop lib g events (r # rs) s =
     (if \<not> sv_running s then Some (True, s)
      else
        let (ready, events, poller) = Poll (sv_poller s) events (sv_poll_timeout_ms s) (pr_wait r);
            s = s\<lparr>sv_poller := poller\<rparr> in
        if ready < 0 then Some (True, s)
        else do {
          s \<leftarrow> sv_events lib g (map (\<lambda>i. (events ! i, pr_io r i)) [0..<nat ready]) s;
          sv_EventLoop lib g events rs (sv_TimerTick lib (pr_tick r) s)
        })"

definition sv_Run :: "Server \<Rightarrow> bool \<times> Server" where
  "sv_Run s =
     (if \<not> sv_initialized s then (False, s)
      else if sv_stopped s then (False, s)
      else if sv_running s then (False, s)
      else (True, s\<lparr>sv_running := True, sv_worker := True\<rparr>))"

definition sv_Stop :: "Server \<Rightarrow> Server" where
  "sv_Stop s = s\<lparr>sv_stopped := True, sv_running := False\<rparr>"

definition sv_Shutdown :: "Server \<Rightarrow> Server" where
  "sv_Shutdown s =
     (let s = sv_Stop s;
          s = (if sv_worker s then s\<lparr>sv_worker := False\<rparr> else s);
          s = CleanupResources s in
      s\<lparr>sv_initialized := False, sv_stopped := False\<rparr>)"

definition sv_destroy :: "Server \<Rightarrow> Server" where
  "sv_destroy s = sv_Shutdown s"

section \<open>The invariant\<close>

lemma server_send_simps [simp]:
  "sv_sessions (server_send s d w) = sv_sessions s" "sv_peers (server_send s d w) = sv_peers s"
  "sv_index_table (server_send s d w) = sv_index_table s" "sv_tun_out (server_send s d w) = sv_tun_out s"
  "sv_ip_to_session (server_send s d w) = sv_ip_to_session s" "sv_tun (server_send s d w) = sv_tun s"
  "sv_socket (server_send s d w) = sv_socket s" "sv_use_tun (server_send s d w) = sv_use_tun s"
  by (simp_all add: server_send_def)

text \<open>
  Every session belongs to a peer of its index, every peer's index is taken in the index
  table, and every route leads to a session in the table.
\<close>

definition server_ok :: "Server \<Rightarrow> bool" where
  "server_ok s \<longleftrightarrow> table_ok (sv_sessions s) \<and>
     sm.keys_of (sv_sessions s) \<subseteq> dom (sv_peers s) \<and>
     dom (sv_peers s) \<subseteq> used_indices (sv_index_table s) \<and>
     ran (sv_ip_to_session s) \<subseteq> sm.keys_of (sv_sessions s)"

lemma server_ok_cong:
  assumes "server_ok s" and "sv_sessions s' = sv_sessions s" and "sv_peers s' = sv_peers s"
    and "used_indices (sv_index_table s) \<subseteq> used_indices (sv_index_table s')"
    and "sv_ip_to_session s' = sv_ip_to_session s"
  shows "server_ok s'"
  using assms by (auto simp: server_ok_def)

lemma server_ok_store:
  assumes "server_ok s" and "sm_Lookup (sv_sessions s) i \<noteq> None" and "ss_sender_index x = i" and "session_ok x"
  shows "server_ok (s\<lparr>sv_sessions := sm_store (sv_sessions s) i x\<rparr>)"
proof -
  have "i \<in> sm.keys_of (sv_sessions s)" using assms(2) by (simp add: sm.keys_of_def)
  then have "sm.keys_of (sm_store (sv_sessions s) i x) = sm.keys_of (sv_sessions s)"
    by (auto simp: keys_of_store)
  then show ?thesis using assms by (simp add: server_ok_def table_ok_store)
qed

lemma CreateMessageResponse_cases:
  assumes "CreateMessageResponse lib ev self p t = Some (r, p', t')"
  obtains "r = None" "t' = t"
    | w i e where "r = Some w" "i \<noteq> 0" "t i = None" "t' = t(i \<mapsto> e)" "hs_local_index (handshake p') = i"
proof (cases "response_secrets lib ev p")
  case None
  then show ?thesis using assms that(1) by (simp add: CreateMessageResponse_def)
next
  case (Some x)
  obtain C H e ct1 ct2 m where x: "x = (C, H, e, ct1, ct2, m)" by (cases x) auto
  obtain i t2 where n: "NewIndex t (ev_index_draws ev) (Some self) (Some self) = Some (i, t2)"
    using assms Some by (auto simp: CreateMessageResponse_def x bind_eq_Some_conv)
  note ix = NewIndex_Some [OF n]
  have "\<exists>w. r = Some w" "t' = t2" "hs_local_index (handshake p') = i"
    using assms Some n by (auto simp: CreateMessageResponse_def x Let_def)
  then show ?thesis using that(2) ix by blast
qed

lemma DeriveSessionKeys_Next:
  assumes "DeriveSessionKeys lib now a p t False = (True, p', t')"
  shows "\<exists>kp. Next (keypairs p') = Some kp \<and> kp_local_index kp = hs_local_index (handshake p)"
  using assms
  by (auto simp: DeriveSessionKeys_def Let_def Next_def SetNext_def split: if_splits option.splits)

text \<open>
  What \<open>HandleInitiation\<close> may do: nothing to the sessions, or add one under an index that was
  free, with its peer. So no session is ever replaced by a handshake.
\<close>

lemma HandleInitiation_effect:
  assumes "sv_HandleInitiation lib g env data sender s = Some s'"
  shows "used_indices (sv_index_table s) \<subseteq> used_indices (sv_index_table s') \<and>
    card (used_indices (sv_index_table s')) \<le> card (used_indices (sv_index_table s)) + 1 \<and>
    sv_ip_to_session s' = sv_ip_to_session s \<and> sv_tun_out s' = sv_tun_out s \<and>
    (sv_sessions s' = sv_sessions s \<and> sv_peers s' = sv_peers s \<or>
     (\<exists>i x p. i \<notin> used_indices (sv_index_table s) \<and> i \<in> used_indices (sv_index_table s') \<and>
       ss_sender_index x = i \<and> session_ok x \<and> ss_replay_window x = ReplayWindow_init \<and> ss_send_nonce x = 0 \<and>
       ss_peer x = sender \<and>
       sv_sessions s' = sm_store (sv_sessions s) i x \<and> sv_peers s' = (sv_peers s)(i \<mapsto> p)))"
proof (cases "length data = kInitiationSize \<and> fst (ConsumeMessageInitiation lib g (ne_sys_now env) data (fresh_peer s sender))")
  case True
  then obtain p1 where c: "ConsumeMessageInitiation lib g (ne_sys_now env) data (fresh_peer s sender) = (True, p1)"
    by (cases "ConsumeMessageInitiation lib g (ne_sys_now env) data (fresh_peer s sender)") auto
  obtain r p2 t where m: "CreateMessageResponse lib (ne_hs env) (ne_peer_addr env) p1 (sv_index_table s) = Some (r, p2, t)"
    using assms True c by (auto simp: sv_HandleInitiation_def Let_def bind_eq_Some_conv)
  from m show ?thesis
  proof (cases rule: CreateMessageResponse_cases)
    case 1
    then have "s' = s" using assms True c m by (simp add: sv_HandleInitiation_def)
    then show ?thesis by simp
  next
    case (2 w i e)
    obtain ok p3 t3 where d: "DeriveSessionKeys lib (ne_sys_now env) (ne_keypair_addr env) p2 t False = (ok, p3, t3)"
      by (cases "DeriveSessionKeys lib (ne_sys_now env) (ne_keypair_addr env) p2 t False") auto
    have t3: "used_indices t3 = insert i (used_indices (sv_index_table s))"
      using used_Derive [OF d] 2(4) by (auto simp: used_indices_def)
    have new: "i \<notin> used_indices (sv_index_table s)" using 2(3) by (simp add: used_indices_def)
    let ?s = "(server_send (s\<lparr>sv_index_table := t\<rparr>) sender w)\<lparr>sv_index_table := t3\<rparr>"
    have s': "s' = (if ok then sv_activate env sender p3 ?s else ?s)"
      using assms True c m 2(1) d by (simp add: sv_HandleInitiation_def server_send_def Let_def split: if_splits)
    have same: "sv_sessions ?s = sv_sessions s" "sv_peers ?s = sv_peers s" "sv_index_table ?s = t3"
      "sv_ip_to_session ?s = sv_ip_to_session s" "sv_tun_out ?s = sv_tun_out s" by (simp_all add: server_send_def)
    have card: "card (used_indices t3) \<le> card (used_indices (sv_index_table s)) + 1"
      using new by (simp add: t3 card_insert_if)
    show ?thesis
    proof (cases ok)
      case True
      then obtain kp where kp: "Next (keypairs p3) = Some kp" "kp_local_index kp = i"
        using DeriveSessionKeys_Next [of lib "ne_sys_now env" "ne_keypair_addr env" p2 t p3 t3] d 2(5) by auto
      define sec where "sec = \<lparr>sec_send_key = send_key kp, sec_recv_key = receive_key kp,
        sec_sender_index = i, sec_receiver_index = kp_remote_index kp, sec_is_initiator = False\<rparr>"
      have i: "sec_sender_index sec = i" by (simp add: sec_def)
      let ?x = "new_session (ne_sys_now env) (ne_jitter env) sec sender"
      have act: "sv_activate env sender p3 ?s = (if usable sec then ?s\<lparr>sv_sessions := sm_store (sv_sessions s) i ?x,
          sv_peers := (sv_peers s)(i \<mapsto> (ne_peer_addr env, p3))\<rparr> else ?s)"
        using kp by (simp add: sv_activate_def ActivateSession_eq Let_def same sm_store_def flip: sec_def)
          (simp add: sec_def server_send_def)
      have x: "ss_sender_index ?x = i" "ss_replay_window ?x = ReplayWindow_init" "ss_send_nonce ?x = 0" "ss_peer ?x = sender"
        by (simp_all add: new_session_def Session_init_def sec_def)
      show ?thesis
      proof (cases "usable sec")
        case True
        have "i \<in> used_indices t3" by (simp add: t3)
        then have "\<exists>i' x' p'. i' \<notin> used_indices (sv_index_table s) \<and> i' \<in> used_indices t3 \<and>
            ss_sender_index x' = i' \<and> session_ok x' \<and> ss_replay_window x' = ReplayWindow_init \<and>
            ss_send_nonce x' = 0 \<and> ss_peer x' = sender \<and>
            sm_store (sv_sessions s) i ?x = sm_store (sv_sessions s) i' x' \<and>
            (sv_peers s)(i \<mapsto> (ne_peer_addr env, p3)) = (sv_peers s)(i' \<mapsto> p')"
          using new x new_session_ok [OF True, of "ne_sys_now env" "ne_jitter env" sender] by blast
        then show ?thesis unfolding s' act using \<open>ok\<close> True t3 card by auto
      qed (use s' act \<open>ok\<close> t3 card in auto)
    qed (use s' t3 card same in auto)
  qed
qed (use assms in \<open>auto simp: sv_HandleInitiation_def Let_def split: prod.splits if_splits\<close>)

lemma server_ok_HandleInitiation:
  assumes "server_ok s" and "sv_HandleInitiation lib g env data sender s = Some s'"
  shows "server_ok s'"
proof -
  note e = HandleInitiation_effect [OF assms(2)]
  then consider "sv_sessions s' = sv_sessions s" "sv_peers s' = sv_peers s"
    | i x p where "i \<in> used_indices (sv_index_table s')" "ss_sender_index x = i" "session_ok x"
      "sv_sessions s' = sm_store (sv_sessions s) i x" "sv_peers s' = (sv_peers s)(i \<mapsto> p)" by blast
  then show ?thesis
  proof cases
    case 1
    then show ?thesis using e by (intro server_ok_cong [OF assms(1)]) simp_all
  next
    case (2 i x p)
    then show ?thesis
      using assms(1) e by (auto simp: server_ok_def keys_of_store intro!: table_ok_store)
  qed
qed

lemma table_Open:
  assumes "table_ok t" and "sm_Lookup t i = Some x"
  shows "ss_sender_index (snd (Open lib now x c ct)) = i" and "session_ok (snd (Open lib now x c ct))"
    and "ss_sender_index (snd (Seal lib now x p)) = i" and "session_ok (snd (Seal lib now x p))"
  using table_ok_Lookup [OF assms] by (simp_all add: session_ok_Open session_ok_Seal)

lemma server_ok_HandleTransport:
  assumes "server_ok s" shows "server_ok (sv_HandleTransport lib env data sender s)"
proof (cases "DeserializeTransport data")
  case (Some msg)
  let ?i = "tm_receiver_index msg"
  show ?thesis
  proof (cases "sm_Lookup (sv_sessions s) ?i")
    case (Some x)
    obtain r x' where o: "Open lib (ne_now env) x (tm_counter msg) (tm_encrypted_payload msg) = (r, x')"
      by fastforce
    let ?s = "s\<lparr>sv_sessions := sm_store (sv_sessions s) ?i x'\<rparr>"
    have "table_ok (sv_sessions s)" using assms by (simp add: server_ok_def)
    then have x': "ss_sender_index x' = ?i" "session_ok x'"
      using table_Open(1,2) [OF _ Some, of lib "ne_now env" "tm_counter msg" "tm_encrypted_payload msg"] o by simp_all
    have s: "server_ok ?s" by (rule server_ok_store [OF assms _ x']) (simp add: Some)
    have "server_ok (?s\<lparr>sv_ip_to_session := (sv_ip_to_session s)(k \<mapsto> ?i)\<rparr>)" for k
      using s by (auto simp: server_ok_def keys_of_store ran_def)
    then have l: "server_ok (learn_route ?i p ?s)" for p
      using s by (auto simp: learn_route_def split: option.split)
    have "server_ok (t\<lparr>sv_tun_out := out\<rparr>)" if "server_ok t" for t out
      by (rule server_ok_cong [OF that]) simp_all
    then show ?thesis
      using \<open>DeserializeTransport data = Some msg\<close> Some o s l
      by (auto simp: sv_HandleTransport_def Let_def split: option.split)
  qed (use assms Some in \<open>simp add: sv_HandleTransport_def\<close>)
qed (use assms in \<open>simp add: sv_HandleTransport_def\<close>)

lemma server_ok_SendTransport:
  assumes "server_ok s" and "sm_Lookup (sv_sessions s) i = Some x"
  shows "server_ok (sv_SendTransport lib env i x p s)"
proof -
  obtain r x' where o: "Seal lib (ne_now env) x p = (r, x')" by fastforce
  have "table_ok (sv_sessions s)" using assms by (simp add: server_ok_def)
  then have x': "ss_sender_index x' = i" "session_ok x'"
    using table_Open(3,4) [OF _ assms(2), of lib "ne_now env" p] o by simp_all
  have send: "server_ok (server_send s d w)" for d w by (rule server_ok_cong [OF assms(1)]) simp_all
  have "server_ok ((server_send s d w)\<lparr>sv_sessions := sm_store (sv_sessions (server_send s d w)) i
      (x'\<lparr>ss_last_sent_time := t\<rparr>)\<rparr>)" for d w t
    using x' assms(2) by (intro server_ok_store send) (simp_all add: session_ok_def)
  moreover have "server_ok (s\<lparr>sv_sessions := sm_store (sv_sessions s) i x'\<rparr>)"
    using x' assms(2) by (intro server_ok_store assms(1)) simp_all
  ultimately show ?thesis by (auto simp: sv_SendTransport_def o Let_def split: option.split)
qed

lemma server_ok_HandleTunRead:
  assumes "server_ok s" shows "server_ok (sv_HandleTunRead lib env io s)"
proof -
  have "server_ok (s\<lparr>sv_tun_buffer := b\<rparr>)" for b by (rule server_ok_cong [OF assms]) simp_all
  then show ?thesis
    by (auto simp: sv_HandleTunRead_def Let_def split: prod.split option.split intro!: server_ok_SendTransport)
qed

lemma server_ok_TimerTick:
  assumes "server_ok s" shows "server_ok (sv_TimerTick lib env s)"
proof -
  obtain t out where ka: "send_keepalives lib (ne_now env) (sv_socket s) ss_peer (sv_sessions s) = (t, out)"
    by fastforce
  obtain n t' where sw: "SweepExpired (ne_sys_now env) t = (n, t')" by fastforce
  have t: "table_ok t" "sm.keys_of t = sm.keys_of (sv_sessions s)"
    using keepalives_ok [of "sv_sessions s" lib "ne_now env" "sv_socket s" ss_peer] assms ka
    by (simp_all add: server_ok_def)
  have t': "table_ok t'" "sm.keys_of t' \<subseteq> sm.keys_of (sv_sessions s)"
    using table_ok_Sweep [OF t(1), of "ne_sys_now env"] keys_of_Sweep [of "ne_sys_now env" t] sw t(2) by simp_all
  have pruned: "ran (prune_routes t' r) \<subseteq> sm.keys_of t'" for r
    by (auto simp: ran_def prune_routes_def sm.keys_of_def split: option.splits)
  have none: "t' = t" if "n = 0" using sw that Sweep_none by blast
  show ?thesis
    using assms t t' pruned none
    by (auto simp: sv_TimerTick_def Let_def ka sw server_ok_def)
qed

lemma server_ok_receive:
  assumes "server_ok s" and "sv_receive lib g env io s = Some s'" shows "server_ok s'"
proof -
  have "server_ok (s\<lparr>sv_recv_buffer := b\<rparr>)" for b by (rule server_ok_cong [OF assms(1)]) simp_all
  then show ?thesis
    using assms
    by (auto simp: sv_receive_def Let_def sv_HandleResponse_def sv_HandleCookie_def
        split: option.splits if_splits intro: server_ok_HandleTransport elim!: server_ok_HandleInitiation [rotated])
qed

lemma server_ok_events: "server_ok s \<Longrightarrow> sv_events lib g evs s = Some s' \<Longrightarrow> server_ok s'"
proof (induction lib g evs s rule: sv_events.induct)
  case (2 lib g ev env io rest s)
  have "server_ok (s\<lparr>sv_running := False\<rparr>)" by (rule server_ok_cong [OF 2(5)]) simp_all
  then show ?case
    using 2
    by (auto simp: bind_eq_Some_conv split: if_splits intro: server_ok_HandleTunRead server_ok_receive)
qed simp

lemma server_ok_EventLoop: "server_ok s \<Longrightarrow> sv_EventLoop lib g events rs s = Some (left, s') \<Longrightarrow> server_ok s'"
proof (induction rs arbitrary: events s)
  case (Cons r rs)
  have p: "server_ok (s\<lparr>sv_poller := q\<rparr>)" for q by (rule server_ok_cong [OF Cons.prems(1)]) simp_all
  obtain n evs q where poll: "Poll (sv_poller s) events (sv_poll_timeout_ms s) (pr_wait r) = (n, evs, q)"
    by (cases "Poll (sv_poller s) events (sv_poll_timeout_ms s) (pr_wait r)")
  show ?case
  proof (cases "sv_running s \<and> \<not> n < 0")
    case True
    then obtain d where d: "sv_events lib g (map (\<lambda>i. (evs ! i, pr_io r i)) [0..<nat n]) (s\<lparr>sv_poller := q\<rparr>) = Some d"
      "sv_EventLoop lib g evs rs (sv_TimerTick lib (pr_tick r) d) = Some (left, s')"
      using Cons.prems(2) poll by (auto simp: Let_def bind_eq_Some_conv)
    show ?thesis by (rule Cons.IH [OF server_ok_TimerTick [OF server_ok_events [OF p d(1)]] d(2)])
  qed (use Cons.prems poll p in \<open>auto simp: Let_def split: if_splits\<close>)
qed simp

section \<open>The loop comes back\<close>

lemma HandleInitiation_total:
  assumes "card (used_indices (sv_index_table s)) < card (offered env)"
  shows "\<exists>s'. sv_HandleInitiation lib g env data sender s = Some s'"
proof -
  obtain free where f: "Some free \<in> set (ev_index_draws (ne_hs env))" "free \<noteq> 0"
    "sv_index_table s free = None" using offered_free [OF assms] .
  have "\<exists>r. CreateMessageResponse lib (ne_hs env) self p (sv_index_table s) = Some r" for self p
  proof -
    obtain i where "NewIndex (sv_index_table s) (ev_index_draws (ne_hs env)) (Some self) (Some self) =
        Some (i, (sv_index_table s)(i \<mapsto> \<lparr>e_peer = Some self, e_handshake = Some self, e_keypair = None\<rparr>))"
      by (rule NewIndex_total [of free "ev_index_draws (ne_hs env)" "sv_index_table s", OF f])
    then show ?thesis by (auto simp: CreateMessageResponse_def Let_def split: option.split prod.split)
  qed
  note created = this
  obtain ok p where c: "ConsumeMessageInitiation lib g (ne_sys_now env) data (fresh_peer s sender) = (ok, p)"
    by fastforce
  obtain r where "CreateMessageResponse lib (ne_hs env) (ne_peer_addr env) p (sv_index_table s) = Some r"
    using created by blast
  then show ?thesis
    by (cases r) (simp add: sv_HandleInitiation_def c Let_def split: prod.split option.split)
qed

definition used :: "Server \<Rightarrow> nat" where
  "used s = card (used_indices (sv_index_table s))"

lemma receive_total:
  assumes "used s < card (offered env)"
  shows "\<exists>s'. sv_receive lib g env io s = Some s' \<and> used s' \<le> used s + 1"
proof -
  have init: "\<exists>s'. sv_HandleInitiation lib g env data sender t = Some s' \<and> used s' \<le> used s + 1"
    if "sv_index_table t = sv_index_table s" for t data sender
    using that HandleInitiation_total [of t env lib g data sender] HandleInitiation_effect assms
    by (fastforce simp: used_def)
  have "sv_index_table (sv_HandleTransport lib env data sender t) = sv_index_table t" for t data sender
    by (auto simp: sv_HandleTransport_def learn_route_def Let_def split: option.split prod.split)
  then show ?thesis
    using init by (auto simp: sv_receive_def Let_def used_def sv_HandleResponse_def sv_HandleCookie_def
        split: option.split)
qed

lemma events_total:
  assumes "\<forall>x \<in> set evs. used s + length evs \<le> card (offered (fst (snd x)))"
  shows "\<exists>s'. sv_events lib g evs s = Some s' \<and> used s' \<le> used s + length evs"
  using assms
proof (induction evs arbitrary: s)
  case (Cons x evs)
  obtain ev env io where x: "x = (ev, env, io)" by (cases x)
  have rest: "\<exists>s'. sv_events lib g evs t = Some s' \<and> used s' \<le> used s + length (x # evs)"
    if "used t \<le> used s + 1" for t
  proof -
    have "\<exists>s'. sv_events lib g evs t = Some s' \<and> used s' \<le> used t + length evs"
      using Cons.prems that by (intro Cons.IH) fastforce
    then show ?thesis using that by fastforce
  qed
  have "used s < card (offered env)" using Cons.prems x by simp
  then obtain t where t: "sv_receive lib g env io s = Some t" "used t \<le> used s + 1"
    using receive_total by blast
  have read: "used (sv_HandleTunRead lib env io s) = used s"
    by (auto simp: used_def sv_HandleTunRead_def sv_SendTransport_def Let_def split: option.split prod.split)
  show ?case
    using rest [of s] rest [OF t(2)] rest [of "sv_HandleTunRead lib env io s"] t(1) read
    by (simp add: x) (simp add: used_def)
qed simp

lemma used_TimerTick: "used (sv_TimerTick lib env s) = used s"
  by (auto simp: used_def sv_TimerTick_def Let_def split: prod.split)

text \<open>The kernel reports no more events than it was given room for.\<close>

definition kernel_bound :: "poll_round \<Rightarrow> bool" where
  "kernel_bound r \<longleftrightarrow> (\<forall>n t. fst (pr_wait r n t) \<le> int n)"

lemma Poll_bound:
  assumes "kernel_bound r" and "Poll p out t (pr_wait r) = (n, out', p')"
  shows "nat n \<le> length out \<and> length out' = length out"
proof -
  obtain ready es e where w: "pr_wait r (length out) t = (ready, es, e)" by (cases "pr_wait r (length out) t")
  have "fst (pr_wait r (length out) t) \<le> int (length out)" using assms(1) unfolding kernel_bound_def by blast
  then show ?thesis
    using assms(2) w by (auto simp: Poll_def Let_def split: if_splits)
qed

lemma EventLoop_total:
  assumes "\<forall>r \<in> set rs. kernel_bound r \<and>
      (\<forall>i. used s + length events * length rs \<le> card (offered (fst (pr_io r i))))"
  shows "\<exists>left s'. sv_EventLoop lib g events rs s = Some (left, s')"
  using assms
proof (induction rs arbitrary: s events)
  case (Cons r rs)
  obtain n evs q where poll: "Poll (sv_poller s) events (sv_poll_timeout_ms s) (pr_wait r) = (n, evs, q)"
    by (cases "Poll (sv_poller s) events (sv_poll_timeout_ms s) (pr_wait r)")
  have b: "nat n \<le> length events" "length evs = length events" using Poll_bound Cons.prems poll by auto
  let ?s = "s\<lparr>sv_poller := q\<rparr>" and ?evs = "map (\<lambda>i. (evs ! i, pr_io r i)) [0..<nat n]"
  have room: "used s + length events + length events * length rs \<le> card (offered (fst (pr_io x i)))"
    if "x \<in> set (r # rs)" for x i using Cons.prems that by (auto simp: add.assoc)
  have "used s + nat n \<le> card (offered (fst (pr_io r i)))" for i using room [of r i] b(1) by simp
  then have "\<exists>d. sv_events lib g ?evs ?s = Some d \<and> used d \<le> used ?s + length ?evs"
    by (intro events_total) (auto simp: used_def)
  then obtain d where d: "sv_events lib g ?evs ?s = Some d" "used d \<le> used s + length events"
    using b(1) by (auto simp: used_def)
  have "used d + length events * length rs \<le> card (offered (fst (pr_io x i)))" if "x \<in> set rs" for x i
    using room [of x i] that d(2) by simp
  then have "\<exists>left s'. sv_EventLoop lib g evs rs (sv_TimerTick lib (pr_tick r) d) = Some (left, s')"
    using Cons.prems b(2) by (intro Cons.IH) (simp add: used_TimerTick)
  then show ?case using poll d(1) by (auto simp: Let_def)
qed simp

section \<open>When the loop is left\<close>

text \<open>What no handler touches, and of the rest only an error or a hang-up clears \<open>running_\<close>.\<close>

definition sv_fixed where
  "sv_fixed s = ((sv_socket s, sv_tun s, sv_use_tun s), (sv_initialized s, sv_stopped s, sv_worker s),
     (sv_poller s, sv_poll_timeout_ms s), sv_running s)"

lemma sv_fixed_update:
  "sv_fixed (s\<lparr>sv_sessions := a\<rparr>) = sv_fixed s" "sv_fixed (s\<lparr>sv_index_table := b\<rparr>) = sv_fixed s"
  "sv_fixed (s\<lparr>sv_recv_buffer := d\<rparr>) = sv_fixed s" "sv_fixed (s\<lparr>sv_tun_out := e\<rparr>) = sv_fixed s"
  "sv_fixed (s\<lparr>sv_tun_buffer := d\<rparr>) = sv_fixed s"
  "sv_fixed (s\<lparr>sv_sessions := a, sv_sent := k\<rparr>) = sv_fixed s" "sv_fixed (server_send s dest wire) = sv_fixed s"
  "sv_fixed (learn_route idx p s) = sv_fixed s" "sv_fixed (sv_activate env sender peer s) = sv_fixed s"
  by (auto simp: sv_fixed_def server_send_def learn_route_def sv_activate_def Let_def split: option.split prod.split)

lemma sv_fixed_handlers:
  "sv_fixed (sv_HandleTransport lib env data sender s) = sv_fixed s"
  "sv_fixed (sv_SendTransport lib env idx session p s) = sv_fixed s"
  "sv_fixed (sv_TimerTick lib env s) = sv_fixed s"
  by (auto simp: sv_HandleTransport_def sv_SendTransport_def sv_TimerTick_def Let_def sv_fixed_update
      split: option.split prod.split) (auto simp: sv_fixed_def)

lemma sv_fixed_TunRead: "sv_fixed (sv_HandleTunRead lib env io s) = sv_fixed s"
  by (auto simp: sv_HandleTunRead_def Let_def sv_fixed_handlers sv_fixed_update split: option.split prod.split)

lemma sv_fixed_HandleInitiation:
  "sv_HandleInitiation lib g env data sender s = Some s' \<Longrightarrow> sv_fixed s' = sv_fixed s"
  by (auto simp: sv_HandleInitiation_def Let_def sv_fixed_update bind_eq_Some_conv split_beta
      split: option.split_asm if_split_asm)

lemma sv_fixed_receive: "sv_receive lib g env io s = Some s' \<Longrightarrow> sv_fixed s' = sv_fixed s"
  by (auto simp: sv_receive_def Let_def sv_HandleResponse_def sv_HandleCookie_def sv_fixed_handlers
      sv_fixed_update dest!: sv_fixed_HandleInitiation split: option.splits if_splits)

definition fatal_event :: "PollEvent \<Rightarrow> bool" where
  "fatal_event ev \<longleftrightarrow> IsError ev \<or> IsHangup ev"

lemma sv_fixed_stop: "sv_fixed a = sv_fixed b \<Longrightarrow> sv_fixed (a\<lparr>sv_running := False\<rparr>) = sv_fixed (b\<lparr>sv_running := False\<rparr>)"
  by (simp add: sv_fixed_def)

lemma sv_events_cases:
  assumes "sv_events lib g ((ev, env, io) # rest) s = Some s'" "\<not> fatal_event ev"
  obtains t where "sv_fixed t = sv_fixed s" "sv_events lib g rest t = Some s'"
proof -
  have e: "(if \<not> IsReadable ev then sv_events lib g rest s
      else if pe_handle ev = handle_of (sv_socket s)
      then do { s \<leftarrow> sv_receive lib g env io s; sv_events lib g rest s }
      else if sv_use_tun s \<and> tun_IsOpen (sv_tun s) \<and> pe_handle ev = tun_handle (sv_tun s)
      then sv_events lib g rest (sv_HandleTunRead lib env io s)
      else sv_events lib g rest s) = Some s'"
    using assms by (simp add: fatal_event_def)
  show thesis
    using e that [of s] that [OF sv_fixed_receive [of lib g env io s]] that [OF sv_fixed_TunRead [of lib env io s]]
    by (auto simp: bind_eq_Some_conv split: if_split_asm)
qed

lemma sv_fixed_events:
  "sv_events lib g evs s = Some s' \<Longrightarrow>
   sv_fixed s' = sv_fixed (if \<exists>x \<in> set evs. fatal_event (fst x) then s\<lparr>sv_running := False\<rparr> else s)"
proof (induction evs arbitrary: s)
  case (Cons x evs)
  obtain ev env io where x: "x = (ev, env, io)" by (cases x)
  show ?case
  proof (cases "fatal_event ev")
    case True
    then show ?thesis using Cons.prems by (simp add: x fatal_event_def)
  next
    case False
    obtain t where t: "sv_fixed t = sv_fixed s" "sv_events lib g evs t = Some s'"
      using Cons.prems unfolding x by (rule sv_events_cases [OF _ False])
    show ?thesis using Cons.IH [OF t(2)] sv_fixed_stop [OF t(1)] t(1) False by (simp add: x)
  qed
qed simp

text \<open>The kernel stores as many events as it says.\<close>

definition kernel_stores :: "poll_round \<Rightarrow> bool" where
  "kernel_stores r \<longleftrightarrow> (\<forall>n t. nat (fst (pr_wait r n t)) \<le> length (fst (snd (pr_wait r n t))))"

text \<open>A round in which the wait fails, or reports an error or a hang-up among its events.\<close>

definition fatal_round :: "nat \<Rightarrow> int \<Rightarrow> poll_round \<Rightarrow> bool" where
  "fatal_round n t r \<longleftrightarrow> (case pr_wait r n t of (ready, events, interrupted) \<Rightarrow>
     ready < 0 \<and> \<not> interrupted \<or> (\<exists>e \<in> set (take (nat ready) events). fatal_event (translate_event e)))"

lemma Poll_fatal:
  assumes "kernel_bound r" "kernel_stores r" "ep_IsOpen p" "out \<noteq> []" "Poll p out t (pr_wait r) = (n, out', p')"
  shows "fatal_round (length out) t r \<longleftrightarrow> n < 0 \<or> (\<exists>i < nat n. fatal_event (out' ! i))"
    and "ep_IsOpen p' = ep_IsOpen p"
proof -
  obtain ready es intr where w: "pr_wait r (length out) t = (ready, es, intr)" by (cases "pr_wait r (length out) t")
  have b: "ready \<le> int (length out)" "nat ready \<le> length es"
    using assms(1,2) w unfolding kernel_bound_def kernel_stores_def by (metis fst_conv snd_conv)+
  have "out' ! i = translate_event (es ! i)" if "i < nat ready" "out' = write_at 0 (map translate_event (take (nat ready) es)) out" for i
    using that b by (simp add: write_at_def nth_append)
  moreover have "(\<exists>e \<in> set (take (nat ready) es). P e) \<longleftrightarrow> (\<exists>i < nat ready. P (es ! i))" for P
    using b(2) by (auto simp: Bex_def in_set_conv_nth)
  ultimately show "fatal_round (length out) t r \<longleftrightarrow> n < 0 \<or> (\<exists>i < nat n. fatal_event (out' ! i))"
    using assms(3-5) w by (auto simp: Poll_def fatal_round_def Let_def split: if_splits)
  show "ep_IsOpen p' = ep_IsOpen p" using assms(5) by (auto simp: Poll_def Let_def ep_IsOpen_def split: if_splits prod.splits)
qed

lemma EventLoop_append:
  assumes "sv_EventLoop lib g events rs s = Some (left, s')"
  shows "left \<Longrightarrow> sv_EventLoop lib g events (rs @ later) s = Some (True, s')"
  using assms
proof (induction rs arbitrary: events s)
  case Nil
  then show ?case by (cases later) auto
next
  case (Cons r rs)
  obtain n evs q where poll: "Poll (sv_poller s) events (sv_poll_timeout_ms s) (pr_wait r) = (n, evs, q)"
    by (cases "Poll (sv_poller s) events (sv_poll_timeout_ms s) (pr_wait r)")
  then show ?case using Cons by (auto simp: Let_def bind_eq_Some_conv)
qed

text \<open>The loop is left exactly when its test fails, the poller is closed, or a round was fatal.\<close>

lemma EventLoop_left:
  assumes "sv_EventLoop lib g events rs s = Some (left, s')" "events \<noteq> []"
    and "\<forall>r \<in> set rs. kernel_bound r \<and> kernel_stores r"
  shows "left \<longleftrightarrow> \<not> sv_running s \<or> rs \<noteq> [] \<and> \<not> ep_IsOpen (sv_poller s) \<or>
    (\<exists>r \<in> set rs. fatal_round (length events) (sv_poll_timeout_ms s) r)"
  using assms
proof (induction rs arbitrary: events s)
  case (Cons r rs)
  obtain n evs q where poll: "Poll (sv_poller s) events (sv_poll_timeout_ms s) (pr_wait r) = (n, evs, q)"
    by (cases "Poll (sv_poller s) events (sv_poll_timeout_ms s) (pr_wait r)")
  show ?case
  proof (cases "sv_running s \<and> ep_IsOpen (sv_poller s)")
    case False
    then have left using Cons.prems(1) by (cases "sv_running s") (simp_all add: Poll_def)
    then show ?thesis using False by auto
  next
    case True
    have k: "kernel_bound r" "kernel_stores r" using Cons.prems(3) by simp_all
    note f = Poll_fatal [OF k conjunct2 [OF True] Cons.prems(2) poll]
    have len: "length evs = length events" using Poll_bound [OF k(1) poll] by simp
    show ?thesis
    proof (cases "n < 0")
      case False
      let ?xs = "map (\<lambda>i. (evs ! i, pr_io r i)) [0..<nat n]"
      obtain d where d: "sv_events lib g ?xs (s\<lparr>sv_poller := q\<rparr>) = Some d"
        "sv_EventLoop lib g evs rs (sv_TimerTick lib (pr_tick r) d) = Some (left, s')"
        using Cons.prems(1) poll True False by (auto simp: Let_def bind_eq_Some_conv)
      let ?t = "sv_TimerTick lib (pr_tick r) d"
      have bad: "(\<exists>x \<in> set ?xs. fatal_event (fst x)) \<longleftrightarrow> fatal_round (length events) (sv_poll_timeout_ms s) r"
        using f(1) False by auto
      have "sv_fixed ?t = sv_fixed (if fatal_round (length events) (sv_poll_timeout_ms s) r
          then s\<lparr>sv_poller := q, sv_running := False\<rparr> else s\<lparr>sv_poller := q\<rparr>)"
        using sv_fixed_events [OF d(1)] unfolding bad sv_fixed_handlers by simp
      then have t: "sv_running ?t \<longleftrightarrow> \<not> fatal_round (length events) (sv_poll_timeout_ms s) r"
        "ep_IsOpen (sv_poller ?t)" "sv_poll_timeout_ms ?t = sv_poll_timeout_ms s"
        using True f(2) by (auto simp: sv_fixed_def split: if_splits)
      have "evs \<noteq> []" using len Cons.prems(2) by auto
      from Cons.IH [OF d(2) this] Cons.prems(3)
      show ?thesis using t True by (auto simp: len)
    qed (use Cons.prems(1) poll True f(1) in \<open>auto simp: Let_def\<close>)
  qed
qed simp

section \<open>Starting and stopping\<close>

definition server_closed :: "Server \<Rightarrow> bool" where
  "server_closed s \<longleftrightarrow> \<not> UdpSocket.IsOpen (sv_socket s) \<and> \<not> ep_IsOpen (sv_poller s) \<and>
     \<not> tun_IsOpen (sv_tun s) \<and> \<not> sv_initialized s"

definition server_started :: "Server \<Rightarrow> bool" where
  "server_started s \<longleftrightarrow> UdpSocket.IsOpen (sv_socket s) \<and> ep_IsOpen (sv_poller s) \<and>
     sv_use_tun s = tun_IsOpen (sv_tun s) \<and> sv_initialized s"

lemma CleanupResources_closed:
  assumes "tun_IsOpen (sv_tun s) \<longrightarrow> sv_use_tun s" and "\<not> sv_initialized s"
  shows "server_closed (CleanupResources s)"
  using assms by (auto simp: CleanupResources_def server_closed_def Let_def open_defs)

lemma sv_init_tun_result:
  assumes "ep_IsOpen (sv_poller s)" and "UdpSocket.IsOpen (sv_socket s)" and "\<not> tun_IsOpen (sv_tun s)"
    and "\<not> sv_initialized s"
  shows "case sv_init_tun sys s of (ok, s') \<Rightarrow>
    if ok then server_started (s'\<lparr>sv_initialized := True\<rparr>) else server_closed s'"
proof -
  obtain opened tun closed where o: "tun_Open (sv_tun s) (sv_tun_ifname s) (is_tun_fd sys) (is_tun_ioctl sys) =
      (opened, tun, closed)" by (cases "tun_Open (sv_tun s) (sv_tun_ifname s) (is_tun_fd sys) (is_tun_ioctl sys)")
  have tun: "opened = tun_IsOpen tun" using o assms(3) by (auto simp: tun_Open_def tun_IsOpen_def kInvalidHandle_def split: if_splits)
  have clean: "server_closed (CleanupResources (s\<lparr>sv_tun := tun\<rparr>))" if "sv_use_tun s"
    using that assms(4) by (intro CleanupResources_closed) simp_all
  have shut: "\<not> tun_IsOpen (fst (tun_Close tun))" by (simp add: tun_Close_def tun_IsOpen_def kInvalidHandle_def)
  show ?thesis
    using assms o tun clean shut
    by (simp add: sv_init_tun_def Let_def server_started_def)
qed

lemma sv_Init_result:
  assumes "server_closed s"
  shows "case sv_Init lib g sys s of (ok, s', g') \<Rightarrow>
    if ok then server_started s' \<and> \<not> all_zero (sv_local_x25519_priv s) \<and> g' = InitHandshakeConstants lib g
    else server_closed s' \<and> g' = g"
proof -
  let ?sock = "(sv_socket s)\<lparr>handle_of := is_socket_fd sys\<rparr>"
  let ?poll = "(sv_poller s)\<lparr>poller_handle := is_epoll_fd sys\<rparr>"
  let ?s1 = "s\<lparr>sv_socket := ?sock\<rparr>" and ?s2 = "s\<lparr>sv_socket := ?sock, sv_poller := ?poll\<rparr>"
  let ?s0 = "?s1\<lparr>sv_poller := ?poll\<lparr>poller_handle := kInvalidHandle\<rparr>\<rparr>"
  have c: "\<not> UdpSocket.IsOpen (sv_socket s)" "\<not> ep_IsOpen (sv_poller s)" "\<not> tun_IsOpen (sv_tun s)"
    "\<not> sv_initialized s" using assms by (simp_all add: server_closed_def)
  have clean: "server_closed (CleanupResources ?s0)" "server_closed (CleanupResources ?s1)" "server_closed (CleanupResources ?s2)"
    using c by (intro CleanupResources_closed; simp)+
  have sock: "udp_Open (sv_socket s) (is_socket_fd sys) =
      (if is_socket_fd sys < 0 then (False, (sv_socket s)\<lparr>handle_of := kInvalidHandle\<rparr>) else (True, ?sock))"
    using c(1) by (simp add: udp_Open_def Let_def)
  have poll: "ep_Open (sv_poller s) (is_epoll_fd sys) =
      (if is_epoll_fd sys < 0 then (False, (sv_poller s)\<lparr>poller_handle := kInvalidHandle\<rparr>) else (True, ?poll))"
    using c(2) by (simp add: ep_Open_def Let_def)
  have none: "server_closed (s\<lparr>sv_socket := (sv_socket s)\<lparr>handle_of := kInvalidHandle\<rparr>\<rparr>)"
    using c by (simp add: server_closed_def UdpSocket.IsOpen_def)
  have tun: "case sv_init_tun sys ?s2 of (ok, s') \<Rightarrow>
      if ok then server_started (s'\<lparr>sv_initialized := True\<rparr>) else server_closed s'"
    if "\<not> is_socket_fd sys < 0" "\<not> is_epoll_fd sys < 0"
    using that c by (intro sv_init_tun_result) (auto simp: open_defs)
  show ?thesis
    using assms c clean tun none by (auto simp: sv_Init_def Let_def sock poll split: prod.split)
qed

lemma destroy_shutdown: "sv_destroy (sv_Shutdown s) = sv_Shutdown s"
proof -
  have fixed: "sv_Shutdown u = u" if "\<not> sv_running u" "\<not> sv_worker u" "\<not> sv_stopped u" "\<not> sv_initialized u"
      "\<not> (sv_use_tun u \<and> tun_IsOpen (sv_tun u))" "\<not> ep_IsOpen (sv_poller u)" "\<not> UdpSocket.IsOpen (sv_socket u)" for u
    using that by (cases u) (auto simp: sv_Shutdown_def sv_Stop_def CleanupResources_def Let_def)
  show ?thesis unfolding sv_destroy_def
    by (rule fixed) (simp_all add: sv_Shutdown_def sv_Stop_def CleanupResources_def Let_def open_defs)
qed

section \<open>Properties\<close>

text \<open>
  C36. The life of a server. \<open>Init\<close> refuses an all-zero private key, and either brings up socket,
  poller and (exactly when marked in use) the tunnel device, or leaves every descriptor
  closed; a second \<open>Init\<close> is refused; \<open>Run\<close> starts the loop once, and not before \<open>Init\<close> or
  after \<open>Stop\<close>; \<open>Shutdown\<close> closes everything and leaves nothing for the destructor to do.
\<close>

theorem server_lifecycle:
  assumes "server_closed s" and "server_started t" and "\<not> sv_running t" and "\<not> sv_stopped t"
  shows "(case sv_Init lib g sys s of (ok, s', g') \<Rightarrow>
      if ok then server_started s' \<and> \<not> all_zero (sv_local_x25519_priv s) \<and> g' = InitHandshakeConstants lib g
      else server_closed s' \<and> g' = g) \<and>
    sv_Init lib g sys t = (False, t, g) \<and> \<not> fst (sv_Run s) \<and>
    (let (ok, t') = sv_Run t in ok \<and> sv_running t' \<and> \<not> fst (sv_Run t') \<and> \<not> fst (sv_Run (sv_Stop t')) \<and>
      server_closed (sv_Shutdown t') \<and> \<not> sv_running (sv_Shutdown t') \<and> \<not> sv_worker (sv_Shutdown t') \<and>
      sv_destroy (sv_Shutdown t') = sv_Shutdown t')"
proof (intro conjI)
  show "case sv_Init lib g sys s of (ok, s', g') \<Rightarrow>
      if ok then server_started s' \<and> \<not> all_zero (sv_local_x25519_priv s) \<and> g' = InitHandshakeConstants lib g
      else server_closed s' \<and> g' = g"
    using assms(1) by (rule sv_Init_result)
  show "sv_Init lib g sys t = (False, t, g)" using assms(2) by (simp add: sv_Init_def server_started_def)
  show "\<not> fst (sv_Run s)" using assms(1) by (simp add: sv_Run_def server_closed_def)
  show "let (ok, t') = sv_Run t in ok \<and> sv_running t' \<and> \<not> fst (sv_Run t') \<and> \<not> fst (sv_Run (sv_Stop t')) \<and>
      server_closed (sv_Shutdown t') \<and> \<not> sv_running (sv_Shutdown t') \<and> \<not> sv_worker (sv_Shutdown t') \<and>
      sv_destroy (sv_Shutdown t') = sv_Shutdown t'"
    unfolding destroy_shutdown using assms(2-4)
    by (auto simp: sv_Run_def server_started_def sv_Stop_def sv_Shutdown_def CleanupResources_def
        server_closed_def Let_def open_defs)
qed

definition example_server :: Server where
  "example_server = Server_init\<lparr>sv_socket := \<lparr>handle_of = 3\<rparr>,
     sv_poller := \<lparr>poller_handle = 4, native_bytes = 0\<rparr>, sv_tun := \<lparr>tun_handle = 5, tun_ifname = ''tun0''\<rparr>,
     sv_use_tun := True, sv_initialized := True\<rparr>"

lemma example_server_started: "server_started example_server"
  by (simp add: server_started_def example_server_def open_defs)

theorem server_lifecycle_witness:
  "(case sv_Init toy hs_constants_start example_sys Server_init of (ok, s', g') \<Rightarrow> if ok then server_started s' else server_closed s') \<and>
   fst (sv_Run example_server)"
proof -
  have "server_closed Server_init"
    by (simp add: server_closed_def Server_init_def UDPSocket_init_def EventPoller_init_def TunDevice_init_def
        open_defs)
  moreover have "\<not> sv_running example_server" "\<not> sv_stopped example_server"
    by (simp_all add: example_server_def Server_init_def)
  ultimately show ?thesis
    using server_lifecycle [OF _ example_server_started, of Server_init toy hs_constants_start example_sys]
    by (auto split: prod.splits if_splits)
qed

text \<open>
  C37. Handshakes never disturb the sessions of others. Whatever datagram arrives, \<open>HandleInitiation\<close>
  leaves every existing session, every route and the tunnel as they are; at most it adds one
  session, under an index that was free in the index table, with a fresh replay window and
  counter, for the sender of the datagram, and registers its peer under that index.
\<close>

theorem initiation_only_adds:
  assumes "server_ok s" and "sv_HandleInitiation lib g env data sender s = Some s'"
  shows "(\<forall>i x. sm_Lookup (sv_sessions s) i = Some x \<longrightarrow> sm_Lookup (sv_sessions s') i = Some x) \<and>
    sv_ip_to_session s' = sv_ip_to_session s \<and> sv_tun_out s' = sv_tun_out s \<and>
    (\<forall>i x. sm_Lookup (sv_sessions s') i = Some x \<and> sm_Lookup (sv_sessions s) i = None \<longrightarrow>
      i \<notin> used_indices (sv_index_table s) \<and> i \<in> dom (sv_peers s') \<and> ss_peer x = sender \<and>
      ss_send_nonce x = 0 \<and> ss_replay_window x = ReplayWindow_init) \<and>
    card (sm.keys_of (sv_sessions s')) \<le> card (sm.keys_of (sv_sessions s)) + 1 \<and> server_ok s'"
proof -
  note e = HandleInitiation_effect [OF assms(2)]
  have ok: "server_ok s'" by (rule server_ok_HandleInitiation [OF assms])
  from e consider "sv_sessions s' = sv_sessions s"
    | i x p where "i \<notin> used_indices (sv_index_table s)" "ss_replay_window x = ReplayWindow_init"
      "ss_send_nonce x = 0" "ss_peer x = sender"
      "sv_sessions s' = sm_store (sv_sessions s) i x" "sv_peers s' = (sv_peers s)(i \<mapsto> p)" by blast
  then show ?thesis
  proof cases
    case 1
    then show ?thesis using e ok by auto
  next
    case (2 i x p)
    have "i \<notin> sm.keys_of (sv_sessions s)" using assms(1) 2(1) by (auto simp: server_ok_def)
    then have "sm_Lookup (sv_sessions s) i = None" by (simp add: sm.keys_of_def)
    then show ?thesis
      using 2 e ok by (auto simp: sm_Lookup_store keys_of_store card_insert_if)
  qed
qed

theorem initiation_only_adds_witness:
  "\<exists>s'. sv_HandleInitiation toy hs_constants_start (example_env [4]) (zeros kInitiationSize)
      \<lparr>ep_ip = IPv4_default, ep_port = 9\<rparr> example_server = Some s' \<and> server_ok s'"
proof -
  have ok: "server_ok example_server"
    by (simp add: server_ok_def example_server_def Server_init_def table_ok_init sm.keys_of_ops)
  have "card (used_indices (sv_index_table example_server)) < card (offered (example_env [4]))"
    by (simp add: example_server_def Server_init_def used_indices_def IndexTable_init_def)
  then obtain s' where s': "sv_HandleInitiation toy hs_constants_start (example_env [4])
      (zeros kInitiationSize) \<lparr>ep_ip = IPv4_default, ep_port = 9\<rparr> example_server = Some s'"
    using HandleInitiation_total by blast
  then show ?thesis using initiation_only_adds [OF ok s'] by blast
qed

text \<open>
  C39. The server's loop, round by round, whatever the network sends, if the kernel reports what it stores and
  no more than it has room for and the random source offers enough indices. Every round ends (no call
  goes on drawing an index for ever), with the bookkeeping consistent: the table of sessions is well formed,
  every session has its peer, every peer's index is taken, and every route leads to a live session, so that no
  packet from the tunnel is sent through a dangling route. And the loop is left exactly when it should be: when
  its test finds \<open>running_\<close> cleared, when a wait fails other than by a signal (a closed poller included), or after
  a round with an error or hang-up among its events; once left, no further rounds are run.
\<close>

theorem server_run_invariant:
  assumes "server_ok s" and "\<forall>r \<in> set rounds. kernel_bound r \<and> kernel_stores r \<and>
      (\<forall>i. used s + 8 * length rounds \<le> card (offered (fst (pr_io r i))))"
  shows "\<exists>left s'. sv_EventLoop lib g (replicate 8 PollEvent_init) rounds s = Some (left, s') \<and> server_ok s' \<and>
    (\<forall>ip i. sv_ip_to_session s' ip = Some i \<longrightarrow> sm_Lookup (sv_sessions s') i \<noteq> None) \<and>
    (left \<longleftrightarrow> \<not> sv_running s \<or> rounds \<noteq> [] \<and> \<not> ep_IsOpen (sv_poller s) \<or>
      (\<exists>r \<in> set rounds. fatal_round 8 (sv_poll_timeout_ms s) r)) \<and>
    (left \<longrightarrow> (\<forall>later. sv_EventLoop lib g (replicate 8 PollEvent_init) (rounds @ later) s = Some (True, s')))"
proof -
  obtain left s' where s': "sv_EventLoop lib g (replicate 8 PollEvent_init) rounds s = Some (left, s')"
    using EventLoop_total [of rounds s "replicate 8 PollEvent_init" lib g] assms(2) by auto
  have ok: "server_ok s'" by (rule server_ok_EventLoop [OF assms(1) s'])
  have "sm_Lookup (sv_sessions s') i \<noteq> None" if "sv_ip_to_session s' ip = Some i" for ip i
    using that ok by (auto simp: server_ok_def sm.keys_of_def ran_def)
  then show ?thesis
    using s' ok EventLoop_left [OF s'] EventLoop_append [OF s'] assms(2) by fastforce
qed

theorem server_run_invariant_witness:
  "\<exists>s'. (\<forall>later. sv_EventLoop toy hs_constants_start (replicate 8 PollEvent_init) (example_round # later)
     (snd (sv_Run example_server)) = Some (True, s')) \<and> server_ok s'"
proof -
  let ?s = "snd (sv_Run example_server)"
  have "server_ok ?s"
    by (simp add: server_ok_def example_server_def Server_init_def sv_Run_def table_ok_init sm.keys_of_ops)
  moreover have "\<forall>r \<in> set [example_round]. kernel_bound r \<and> kernel_stores r \<and>
      (\<forall>i. used ?s + 8 * length [example_round] \<le> card (offered (fst (pr_io r i))))"
    by (simp add: kernel_bound_def kernel_stores_def example_round_def used_def example_server_def Server_init_def
        sv_Run_def used_indices_def IndexTable_init_def)
  moreover have "\<exists>r \<in> set [example_round]. fatal_round 8 (sv_poll_timeout_ms ?s) r"
    by (simp add: fatal_round_def example_round_def fatal_event_def translate_event_def IsHangup_def FromEpoll_def
        flags Let_def)
  ultimately show ?thesis
    using server_run_invariant [of ?s "[example_round]" toy hs_constants_start] by fastforce
qed

end
