(* ===== verification/Tunnel.thy ===== *)
theory Tunnel
  imports Client Server HandshakeAgreement
begin

text \<open>
  Client and server together: what their transport handlers accept, that an established pair of
  sessions carries packets both ways unchanged, that the handlers establish such a pair from
  scratch, and what a replayed first message does to the server.
\<close>

section \<open>What a transport handler accepts\<close>

text \<open>
  The specification both handlers share: a datagram is accepted when it parses, names a
  session, carries a counter the window has not seen and opens under the session's key.
\<close>

definition accepted_packet :: "'k crypto \<Rightarrow> SessionTable \<Rightarrow> bytes \<Rightarrow> (u32 \<times> u64 \<times> bytes) option" where
  "accepted_packet lib t data = do {
     msg \<leftarrow> DeserializeTransport data;
     x \<leftarrow> sm_Lookup t (tm_receiver_index msg);
     require (Check (ss_replay_window x) (tm_counter msg));
     p \<leftarrow> authentic lib (ss_recv_key x) (tm_counter msg) (tm_encrypted_payload msg);
     Some (tm_receiver_index msg, tm_counter msg, p)
   }"

definition after_packet :: "time_point \<Rightarrow> SessionTable \<Rightarrow> u32 \<Rightarrow> u64 \<Rightarrow> SessionTable" where
  "after_packet now t i n =
     (case sm_Lookup t i of None \<Rightarrow> t
      | Some x \<Rightarrow> sm_store t i (x\<lparr>ss_replay_window := Accept (ss_replay_window x) n, ss_last_received_time := now\<rparr>))"

lemma sm_store_same: "sm_Lookup t i = Some x \<Longrightarrow> sm_store t i x = t"
  by (simp add: sm_store_def sm_Lookup_def update_triv)

lemma cl_HandleTransport_eq:
  "cl_HandleTransport lib env data c =
    (case accepted_packet lib (cl_sessions c) data of
       None \<Rightarrow> c
     | Some (i, n, p) \<Rightarrow>
         let c = c\<lparr>cl_sessions := after_packet (ne_now env) (cl_sessions c) i n\<rparr> in
         if p \<noteq> [] \<and> cl_use_tun c \<and> tun_IsOpen (cl_tun c)
         then c\<lparr>cl_tun_out := cl_tun_out c @ [p], cl_bytes_recv := cl_bytes_recv c + of_nat (length p)\<rparr>
         else c)"
proof (cases "DeserializeTransport data")
  case msg: (Some msg)
  let ?i = "tm_receiver_index msg" and ?n = "tm_counter msg" and ?ct = "tm_encrypted_payload msg"
  show ?thesis
  proof (cases "sm_Lookup (cl_sessions c) ?i")
    case x: (Some x)
    let ?a = "authentic lib (ss_recv_key x) ?n ?ct"
    show ?thesis
    proof (cases "Check (ss_replay_window x) ?n")
      case True
      show ?thesis
      proof (cases ?a)
        case None
        then have o: "Open lib (ne_now env) x ?n ?ct = (None, x)" by (simp add: Open_authentic)
        show ?thesis using True None
          by (simp add: cl_HandleTransport_def accepted_packet_def msg x o sm_store_same [OF x])
      next
        case (Some p)
        then have o: "Open lib (ne_now env) x ?n ?ct = (Some p, x\<lparr>ss_replay_window :=
            Accept (ss_replay_window x) ?n, ss_last_received_time := ne_now env\<rparr>)"
          using True by (simp add: Open_authentic)
        show ?thesis using True Some
          by (simp add: cl_HandleTransport_def accepted_packet_def after_packet_def msg x o written_eq Let_def)
      qed
    next
      case False
      then have o: "Open lib (ne_now env) x ?n ?ct = (None, x)" by (simp add: Open_authentic)
      show ?thesis using False
        by (simp add: cl_HandleTransport_def accepted_packet_def msg x o sm_store_same [OF x])
    qed
  qed (simp add: cl_HandleTransport_def accepted_packet_def msg)
qed (simp add: cl_HandleTransport_def accepted_packet_def)

lemma sv_HandleTransport_eq:
  "sv_HandleTransport lib env data sender s =
    (case accepted_packet lib (sv_sessions s) data of
       None \<Rightarrow> s
     | Some (i, n, p) \<Rightarrow>
         let s = s\<lparr>sv_sessions := after_packet (ne_now env) (sv_sessions s) i n\<rparr> in
         if p = [] then s
         else let s = learn_route i p s in
           if sv_use_tun s \<and> tun_IsOpen (sv_tun s) then s\<lparr>sv_tun_out := sv_tun_out s @ [p]\<rparr> else s)"
proof (cases "DeserializeTransport data")
  case msg: (Some msg)
  let ?i = "tm_receiver_index msg" and ?n = "tm_counter msg" and ?ct = "tm_encrypted_payload msg"
  show ?thesis
  proof (cases "sm_Lookup (sv_sessions s) ?i")
    case x: (Some x)
    let ?a = "authentic lib (ss_recv_key x) ?n ?ct"
    show ?thesis
    proof (cases "Check (ss_replay_window x) ?n")
      case True
      show ?thesis
      proof (cases ?a)
        case None
        then have o: "Open lib (ne_now env) x ?n ?ct = (None, x)" by (simp add: Open_authentic)
        show ?thesis using True None
          by (simp add: sv_HandleTransport_def accepted_packet_def msg x o sm_store_same [OF x])
      next
        case (Some p)
        then have o: "Open lib (ne_now env) x ?n ?ct = (Some p, x\<lparr>ss_replay_window :=
            Accept (ss_replay_window x) ?n, ss_last_received_time := ne_now env\<rparr>)"
          using True by (simp add: Open_authentic)
        show ?thesis using True Some
          by (simp add: sv_HandleTransport_def accepted_packet_def after_packet_def msg x o written_eq Let_def)
      qed
    next
      case False
      then have o: "Open lib (ne_now env) x ?n ?ct = (None, x)" by (simp add: Open_authentic)
      show ?thesis using False
        by (simp add: sv_HandleTransport_def accepted_packet_def msg x o sm_store_same [OF x])
    qed
  qed (simp add: sv_HandleTransport_def accepted_packet_def msg)
qed (simp add: sv_HandleTransport_def accepted_packet_def)

lemma Check_Accept_same:
  assumes "Check w c" shows "\<not> Check (Accept w c) c"
proof (cases "rw_last w < c")
  case True
  then have "bit (rw_bitmap (Accept w c)) 0" using Accept_bit(1) [of w c 0] by simp
  then show ?thesis using True by (simp add: Check_def Accept_last)
next
  case False
  then have "unat (rw_last w - c) < 2048"
    using assms word_le_add_iff(1) [of c "rw_last w"] by (simp add: Check_def not_less split: if_splits)
  then have "bit (rw_bitmap (Accept w c)) (unat (rw_last w - c))" using Accept_bit(2) [OF False] by simp
  then show ?thesis using False by (simp add: Check_def Accept_last)
qed

lemma not_accepted_again:
  assumes "accepted_packet lib t data = Some (i, n, p)"
  shows "accepted_packet lib (after_packet now t i n) data = None"
proof -
  obtain msg x where msg: "DeserializeTransport data = Some msg" "i = tm_receiver_index msg" "n = tm_counter msg"
    and x: "sm_Lookup t i = Some x" "Check (ss_replay_window x) n"
    using assms by (auto simp: accepted_packet_def bind_eq_Some_conv)
  let ?w = "Accept (ss_replay_window x) n"
  have "\<not> Check ?w n"
    using Check_Accept_same x(2) by blast
  then show ?thesis
    using msg x by (simp add: accepted_packet_def after_packet_def sm_Lookup_store)
qed

section \<open>Linked sessions\<close>

text \<open>
  What one session seals the other will open: the keys agree and the receiver's window has
  only seen counters below the sender's next one.
\<close>

definition send_link :: "Session \<Rightarrow> Session \<Rightarrow> bool" where
  "send_link x y \<longleftrightarrow> ss_recv_key y = ss_send_key x \<and>
     (rw_last (ss_replay_window y) < ss_send_nonce x \<or>
      ss_send_nonce x = 0 \<and> ss_replay_window y = ReplayWindow_init)"

text \<open>The two sessions after a packet.\<close>

definition sealed_one :: "time_point \<Rightarrow> Session \<Rightarrow> Session" where
  "sealed_one now x = x\<lparr>ss_send_nonce := ss_send_nonce x + 1, ss_last_sent_time := now\<rparr>"

definition opened_one :: "time_point \<Rightarrow> u64 \<Rightarrow> Session \<Rightarrow> Session" where
  "opened_one now n y = y\<lparr>ss_replay_window := Accept (ss_replay_window y) n, ss_last_received_time := now\<rparr>"

lemma nonce_step:
  assumes "unat (n :: u64) + Suc k \<le> unat kRejectAfterMessages"
  shows "n < kRejectAfterMessages" and "unat (n + 1) = unat n + 1" and "n < n + 1"
proof -
  show "n < kRejectAfterMessages" using assms by (simp add: word_less_nat_alt)
  have "unat n + 1 < 2 ^ 64" using assms by (simp add: kReject_value)
  then show u: "unat (n + 1) = unat n + 1" by (simp add: unat_word_ariths)
  show "n < n + 1" by (simp add: word_less_nat_alt u)
qed

lemma send_link_Check: "send_link x y \<Longrightarrow> Check (ss_replay_window y) (ss_send_nonce x)"
  by (auto simp: send_link_def Check_def ReplayWindow_init_def kWindowSize_def)

lemma send_link_step:
  assumes "send_link x y" and "unat (ss_send_nonce x) + Suc k \<le> unat kRejectAfterMessages"
  shows "send_link (sealed_one now x) (opened_one now' (ss_send_nonce x) y)"
proof -
  have "rw_last (ss_replay_window y) \<le> ss_send_nonce x"
    using assms(1) by (auto simp: send_link_def ReplayWindow_init_def)
  then have "rw_last (Accept (ss_replay_window y) (ss_send_nonce x)) = ss_send_nonce x"
    by (simp add: Accept_last max_def)
  then show ?thesis
    using assms(1) nonce_step(3) [OF assms(2)] by (simp add: send_link_def sealed_one_def opened_one_def)
qed

lemma send_link_back: "send_link y x \<Longrightarrow> send_link (opened_one now n y) (sealed_one now' x)"
  by (simp add: send_link_def sealed_one_def opened_one_def)

text \<open>The packet itself.\<close>

definition packet :: "'k crypto \<Rightarrow> Session \<Rightarrow> bytes \<Rightarrow> bytes" where
  "packet lib x p = SerializeTransport \<lparr>tm_receiver_index = ss_receiver_index x,
     tm_counter = ss_send_nonce x,
     tm_encrypted_payload = sealed lib (ss_send_key x) (CounterToNonce (ss_send_nonce x)) [] p\<rparr>"

lemma Seal_packet:
  assumes "crypto_laws lib" and "unat (ss_send_nonce x) + Suc k \<le> unat kRejectAfterMessages"
  shows "\<exists>ct x'. Seal lib now x p = (Some ct, x') \<and> transport_wire x' ct = packet lib x p \<and>
    x'\<lparr>ss_last_sent_time := now\<rparr> = sealed_one now x \<and> ss_peer x' = ss_peer x"
  using nonce_step(1) [OF assms(2)]
  by (simp add: Seal_laws [OF assms(1)] not_le transport_wire_def packet_def sealed_one_def)

lemma packet_accepted:
  assumes "crypto_laws lib" and "send_link x y" and "sm_Lookup t (ss_receiver_index x) = Some y"
    and "ss_send_nonce x < kRejectAfterMessages"
  shows "accepted_packet lib t (packet lib x p) = Some (ss_receiver_index x, ss_send_nonce x, p)"
proof -
  have "ss_recv_key y = ss_send_key x" using assms(2) by (simp add: send_link_def)
  moreover have "16 \<le> length (sealed lib (ss_send_key x) (CounterToNonce (ss_send_nonce x)) [] p)"
    using length_sealed [OF assms(1)] by simp
  ultimately show ?thesis
    using assms(3) send_link_Check [OF assms(2)] authentic_sealed [OF assms(1,4)]
    by (simp add: accepted_packet_def packet_def Transport_roundtrip wf_TransportDataMsg_def)
qed

section \<open>A connected client and server\<close>

text \<open>
  Sessions under \<open>i\<close> at the client and \<open>j\<close> at the server, linked both ways, with room for \<open>k\<close>
  more packets in each direction, and the descriptors open.
\<close>

definition connected :: "u32 \<Rightarrow> u32 \<Rightarrow> nat \<Rightarrow> Client \<Rightarrow> Server \<Rightarrow> bool" where
  "connected i j k c s \<longleftrightarrow>
     cl_has_session c \<and> cl_active_session_index c = i \<and> length (cl_tun_buffer c) = 4096 \<and>
     length (sv_tun_buffer s) = 4096 \<and> length (cl_recv_buffer c) = 4096 \<and> length (sv_recv_buffer s) = 4096 \<and>
     UdpSocket.IsOpen (cl_socket c) \<and> UdpSocket.IsOpen (sv_socket s) \<and>
     cl_use_tun c \<and> tun_IsOpen (cl_tun c) \<and> sv_use_tun s \<and> tun_IsOpen (sv_tun s) \<and>
     (\<exists>x y. sm_Lookup (cl_sessions c) i = Some x \<and> sm_Lookup (sv_sessions s) j = Some y \<and>
        ss_receiver_index x = j \<and> ss_receiver_index y = i \<and> send_link x y \<and> send_link y x \<and>
        unat (ss_send_nonce x) + k \<le> unat kRejectAfterMessages \<and>
        unat (ss_send_nonce y) + k \<le> unat kRejectAfterMessages)"

text \<open>
  One packet through the tunnel: read from one side's device, the datagrams this sends arriving
  at the other side's socket, whose buffer takes 4096 bytes. \<open>from\<close> is the address the server
  sees; each side has its own clocks.
\<close>

datatype traffic = Up bytes | Down bytes

definition tun_io :: "bytes \<Rightarrow> node_io" where
  "tun_io p = \<lparr>io_received = 0, io_datagram = [], io_sender = \<lparr>sin_addr = [], sin_port = []\<rparr>,
     io_tun_len = int (length p), io_tun_packet = p\<rparr>"

definition datagram_io :: "sockaddr_in \<Rightarrow> bytes \<Rightarrow> node_io" where
  "datagram_io a w = \<lparr>io_received = int (min 4096 (length w)), io_datagram = w, io_sender = a,
     io_tun_len = 0, io_tun_packet = []\<rparr>"

fun sv_arrivals :: "'k crypto \<Rightarrow> hs_constants \<Rightarrow> node_env \<Rightarrow> sockaddr_in \<Rightarrow> datagram list \<Rightarrow> Server \<Rightarrow> Server option" where
  "sv_arrivals lib g env from [] s = Some s"
| "sv_arrivals lib g env from ((a, w) # ds) s =
     sv_receive lib g env (datagram_io from w) s \<bind> sv_arrivals lib g env from ds"

fun cl_arrivals :: "'k crypto \<Rightarrow> node_env \<Rightarrow> sockaddr_in \<Rightarrow> datagram list \<Rightarrow> Client \<Rightarrow> Client" where
  "cl_arrivals lib env from [] c = c"
| "cl_arrivals lib env from ((a, w) # ds) c =
     cl_arrivals lib env from ds (cl_receive lib env (datagram_io from w) c)"

fun relay ::
  "'k crypto \<Rightarrow> hs_constants \<Rightarrow> sockaddr_in \<Rightarrow> node_env \<Rightarrow> node_env \<Rightarrow> traffic \<Rightarrow> Client \<times> Server \<Rightarrow>
   (Client \<times> Server) option" where
  "relay lib g from ec es (Up p) (c, s) =
     (let c' = cl_HandleTunRead lib ec (tun_io p) c in
      do { s' \<leftarrow> sv_arrivals lib g es from (drop (length (cl_sent c)) (cl_sent c')) s; Some (c', s') })"
| "relay lib g from ec es (Down p) (c, s) =
     (let s' = sv_HandleTunRead lib es (tun_io p) s in
      Some (cl_arrivals lib ec (endpoint_sockaddr (cl_server_endpoint c))
        (drop (length (sv_sent s)) (sv_sent s')) c, s'))"

fun relay_all ::
  "'k crypto \<Rightarrow> hs_constants \<Rightarrow> sockaddr_in \<Rightarrow> (node_env \<times> node_env \<times> traffic) list \<Rightarrow> Client \<times> Server \<Rightarrow>
   (Client \<times> Server) option" where
  "relay_all lib g from [] st = Some st"
| "relay_all lib g from ((ec, es, t) # ts) st = relay lib g from ec es t st \<bind> relay_all lib g from ts"

definition learned :: "(u32 \<rightharpoonup> u32) \<Rightarrow> u32 \<Rightarrow> bytes \<Rightarrow> u32 \<rightharpoonup> u32" where
  "learned routes j p = (case ParseSrcIP p of None \<Rightarrow> routes | Some a \<Rightarrow> routes(ToHostOrder a \<mapsto> j))"

text \<open>
  What comes out. A packet of one to 4064 bytes also fits the receiver's buffer when sealed. What goes down is sent
  only to a learnt address. An empty read sends nothing.
\<close>

definition passes :: "bytes \<Rightarrow> bool" where
  "passes p \<longleftrightarrow> p \<noteq> [] \<and> length p \<le> 4064"

definition routed :: "(u32 \<rightharpoonup> u32) \<Rightarrow> bytes \<Rightarrow> u32 option" where
  "routed routes p = ParseDstIP p \<bind> (\<lambda>a. routes (ToHostOrder a))"

fun routes_after :: "(u32 \<rightharpoonup> u32) \<Rightarrow> u32 \<Rightarrow> traffic \<Rightarrow> u32 \<rightharpoonup> u32" where
  "routes_after routes j (Up p) = (if passes p then learned routes j p else routes)"
| "routes_after routes j (Down p) = routes"

fun ups :: "traffic list \<Rightarrow> bytes list" where
  "ups [] = []"
| "ups (Up p # ts) = (if passes p then p # ups ts else ups ts)"
| "ups (Down p # ts) = ups ts"

fun downs :: "(u32 \<rightharpoonup> u32) \<Rightarrow> u32 \<Rightarrow> traffic list \<Rightarrow> bytes list" where
  "downs routes j [] = []"
| "downs routes j (Up p # ts) = downs (routes_after routes j (Up p)) j ts"
| "downs routes j (Down p # ts) =
     (if passes p \<and> routed routes p = Some j then p # downs routes j ts else downs routes j ts)"

text \<open>
  What the devices may hand over: up to the 4096 bytes of the buffers, and nothing that goes down to the address
  of another session.
\<close>

fun packet_of :: "traffic \<Rightarrow> bytes" where "packet_of (Up p) = p" | "packet_of (Down p) = p"

fun ours :: "(u32 \<rightharpoonup> u32) \<Rightarrow> u32 \<Rightarrow> traffic list \<Rightarrow> bool" where
  "ours routes j [] = True"
| "ours routes j (t # ts) \<longleftrightarrow> length (packet_of t) \<le> 4096 \<and>
     (case t of Up p \<Rightarrow> True | Down p \<Rightarrow> routed routes p \<in> {None, Some j}) \<and> ours (routes_after routes j t) j ts"

text \<open>
  A longer packet is sealed and sent, and arrives without its last bytes: what is left of it, the header and 4080
  bytes, is not what the sender sealed. That it does not pass for it under the sessions' keys is asked of the
  cipher for the packets at hand.
\<close>

type_synonym link_keys = "bytes option \<times> bytes option"

definition link_keys :: "u32 \<Rightarrow> u32 \<Rightarrow> Client \<Rightarrow> Server \<Rightarrow> link_keys" where
  "link_keys i j c s = (map_option ss_send_key (sm_Lookup (cl_sessions c) i),
     map_option ss_send_key (sm_Lookup (sv_sessions s) j))"

definition cut_refused :: "'k crypto \<Rightarrow> link_keys \<Rightarrow> bytes \<Rightarrow> bool" where
  "cut_refused lib ks p \<longleftrightarrow> (\<forall>K n. Some K \<in> {fst ks, snd ks} \<longrightarrow>
     authentic lib K n (take 4080 (sealed lib K (CounterToNonce n) [] p)) = None)"

lemma tun_read_packet:
  assumes "tun_IsOpen t" and "length buf = 4096" and "length p \<le> 4096"
  shows "tun_Read t buf (io_tun_len (tun_io p)) (io_tun_packet (tun_io p)) = (int (length p), write_at 0 p buf)"
    and "read_at 0 (length p) (write_at 0 p buf) = p" and "length (write_at 0 p buf) = 4096"
  using assms by (simp_all add: tun_Read_def tun_io_def read_at_write_at_same)

lemma learn_route_eq: "learn_route j p s = s\<lparr>sv_ip_to_session := learned (sv_ip_to_session s) j p\<rparr>"
  by (simp add: learn_route_def learned_def ParseSrcIP_def)

lemma after_packet_Lookup:
  "sm_Lookup t i = Some y \<Longrightarrow> sm_Lookup (after_packet now t i n) k = (if k = i then Some (opened_one now n y) else sm_Lookup t k)"
  by (simp add: after_packet_def opened_one_def sm_Lookup_store)

lemma client_reads:
  assumes "crypto_laws lib" and "cl_has_session c" and "sm_Lookup (cl_sessions c) (cl_active_session_index c) = Some x"
    and "unat (ss_send_nonce x) + Suc k \<le> unat kRejectAfterMessages" and "tun_IsOpen (cl_tun c)"
    and "length (cl_tun_buffer c) = 4096" and "0 < length p" "length p \<le> 4096" and "UdpSocket.IsOpen (cl_socket c)"
  shows "cl_HandleTunRead lib env (tun_io p) c = c\<lparr>cl_tun_buffer := write_at 0 p (cl_tun_buffer c),
    cl_sent := cl_sent c @ [(endpoint_sockaddr (cl_server_endpoint c), packet lib x p)],
    cl_sessions := sm_store (cl_sessions c) (cl_active_session_index c) (sealed_one (ne_now env) x),
    cl_bytes_sent := cl_bytes_sent c + of_nat (length p)\<rparr>"
proof -
  obtain ct x' where seal: "Seal lib (ne_now env) x p = (Some ct, x')" "transport_wire x' ct = packet lib x p"
    "x'\<lparr>ss_last_sent_time := ne_now env\<rparr> = sealed_one (ne_now env) x"
    using Seal_packet [OF assms(1,4)] by blast
  note r = tun_read_packet [OF assms(5,6,8)]
  show ?thesis
    using assms(2,3,7,9) r seal
    by (simp add: cl_HandleTunRead_def cl_SendTransport_def client_send_def emitted_eq Let_def)
qed

lemma server_reads:
  assumes "crypto_laws lib" and "sm_Lookup (sv_sessions s) j = Some y"
    and "unat (ss_send_nonce y) + Suc k \<le> unat kRejectAfterMessages" and "tun_IsOpen (sv_tun s)"
    and "length (sv_tun_buffer s) = 4096" and "length p \<le> 4096" and "UdpSocket.IsOpen (sv_socket s)"
    and "ParseDstIP p = Some a" and "sv_ip_to_session s (ToHostOrder a) = Some j"
  shows "sv_HandleTunRead lib env (tun_io p) s = s\<lparr>sv_tun_buffer := write_at 0 p (sv_tun_buffer s),
    sv_sent := sv_sent s @ [(endpoint_sockaddr (ss_peer y), packet lib y p)],
    sv_sessions := sm_store (sv_sessions s) j (sealed_one (ne_now env) y)\<rparr>"
proof -
  obtain ct x' where seal: "Seal lib (ne_now env) y p = (Some ct, x')" "transport_wire x' ct = packet lib y p"
    "x'\<lparr>ss_last_sent_time := ne_now env\<rparr> = sealed_one (ne_now env) y" "ss_peer x' = ss_peer y"
    using Seal_packet [OF assms(1,3)] by blast
  have len: "20 \<le> length p" using assms(8) by (simp add: ParseDstIP_def not_less split: if_splits)
  then have "p \<noteq> []" by auto
  note r = tun_read_packet [OF assms(4,5,6)]
  show ?thesis
    using assms(2,7,8,9) r seal len \<open>p \<noteq> []\<close>
    by (simp add: sv_HandleTunRead_def sv_SendTransport_def server_send_def emitted_eq Let_def not_less)
qed

text \<open>C8. The two transport handlers do exactly what the shared specification says, and what they
  have accepted they do not accept again.\<close>

theorem transport_handlers_exact:
  "cl_HandleTransport lib env data c =
     (case accepted_packet lib (cl_sessions c) data of
        None \<Rightarrow> c
      | Some (i, n, p) \<Rightarrow>
          let c = c\<lparr>cl_sessions := after_packet (ne_now env) (cl_sessions c) i n\<rparr> in
          if p \<noteq> [] \<and> cl_use_tun c \<and> tun_IsOpen (cl_tun c)
          then c\<lparr>cl_tun_out := cl_tun_out c @ [p], cl_bytes_recv := cl_bytes_recv c + of_nat (length p)\<rparr>
          else c) \<and>
   sv_HandleTransport lib env data sender s =
     (case accepted_packet lib (sv_sessions s) data of
        None \<Rightarrow> s
      | Some (i, n, p) \<Rightarrow>
          let s = s\<lparr>sv_sessions := after_packet (ne_now env) (sv_sessions s) i n\<rparr> in
          if p = [] then s
          else let s = learn_route i p s in
            if sv_use_tun s \<and> tun_IsOpen (sv_tun s) then s\<lparr>sv_tun_out := sv_tun_out s @ [p]\<rparr> else s) \<and>
   (case accepted_packet lib t data of None \<Rightarrow> True
    | Some (i, n, p) \<Rightarrow> accepted_packet lib (after_packet now t i n) data = None)"
  by (intro conjI cl_HandleTransport_eq sv_HandleTransport_eq)
     (simp split: option.split add: not_accepted_again)

lemma length_packet: "crypto_laws lib \<Longrightarrow> length (packet lib x p) = length p + 32"
  by (simp add: packet_def SerializeTransport_concat length_sealed)

lemma code_byte: "(ucast ((le_bytes 4 k @ rest) ! 0) :: u32) = take_bit 8 k"
  proof -
  have "le_bytes 4 k = ucast k # le_bytes 3 (drop_bit 8 k)" by (simp add: numeral_eq_Suc)
  then show ?thesis by (simp add: unsigned_ucast_eq)
qed

lemma packet_code: "(ucast (packet lib x p ! 0) :: u32) = message_code Transport"
  by (simp add: packet_def SerializeTransport_concat code_byte)

lemma receive_io:
  assumes "UdpSocket.IsOpen k" and "length buf = 4096" and "w \<noteq> []" and "length w \<le> 4096"
  shows "ReceiveFrom k (io_received (datagram_io a w)) (io_sender (datagram_io a w)) =
      Some \<lparr>bytes_read = length w, rr_sender = endpoint_of a\<rparr>"
    and "take (length w) (io_datagram (datagram_io a w)) = w"
    and "read_at 0 (length w) (write_at 0 w buf) = w" and "write_at 0 w buf ! 0 = w ! 0"
    and "length (write_at 0 w buf) = 4096"
  using assms by (simp_all add: datagram_io_def ReceiveFrom_def read_at_write_at_same)
    (simp add: write_at_def nth_append)

lemma sv_receive_datagram:
  assumes "UdpSocket.IsOpen (sv_socket s)" and "length (sv_recv_buffer s) = 4096"
    and "w \<noteq> []" and "length w \<le> 4096"
  shows "ucast (w ! 0) = message_code Transport \<Longrightarrow> sv_receive lib g env (datagram_io a w) s =
      Some (sv_HandleTransport lib env w (endpoint_of a) (s\<lparr>sv_recv_buffer := write_at 0 w (sv_recv_buffer s)\<rparr>))"
    and "ucast (w ! 0) = message_code Initiation \<Longrightarrow> sv_receive lib g env (datagram_io a w) s =
      sv_HandleInitiation lib g env w (endpoint_of a) (s\<lparr>sv_recv_buffer := write_at 0 w (sv_recv_buffer s)\<rparr>)"
  using receive_io [OF assms] assms(3) by (simp_all add: sv_receive_def Let_def)

lemma cl_receive_datagram:
  assumes "UdpSocket.IsOpen (cl_socket c)" and "length (cl_recv_buffer c) = 4096"
    and "w \<noteq> []" and "length w \<le> 4096"
  shows "ucast (w ! 0) = message_code Transport \<Longrightarrow> cl_receive lib env (datagram_io a w) c =
      cl_HandleTransport lib env w (c\<lparr>cl_recv_buffer := write_at 0 w (cl_recv_buffer c)\<rparr>)"
    and "ucast (w ! 0) = message_code Response \<Longrightarrow> cl_receive lib env (datagram_io a w) c =
      cl_HandleResponse lib env w (endpoint_of a) (c\<lparr>cl_recv_buffer := write_at 0 w (cl_recv_buffer c)\<rparr>)"
  using receive_io [OF assms] assms(3) by (simp_all add: cl_receive_def Let_def)

text \<open>A sealed packet that is too long for the receiver's buffer.\<close>

lemma cut_packet:
  assumes "crypto_laws lib" and "4064 < length p"
  shows "take 4096 (packet lib x p) = SerializeTransport \<lparr>tm_receiver_index = ss_receiver_index x,
     tm_counter = ss_send_nonce x,
     tm_encrypted_payload = take 4080 (sealed lib (ss_send_key x) (CounterToNonce (ss_send_nonce x)) [] p)\<rparr>"
  by (simp add: packet_def SerializeTransport_concat)

lemma cut_not_accepted:
  assumes laws: "crypto_laws lib" and l: "send_link x y" and y: "sm_Lookup t (ss_receiver_index x) = Some y"
    and long: "4064 < length p"
    and cut: "authentic lib (ss_send_key x) (ss_send_nonce x)
      (take 4080 (sealed lib (ss_send_key x) (CounterToNonce (ss_send_nonce x)) [] p)) = None"
  shows "accepted_packet lib t (take 4096 (packet lib x p)) = None"
proof -
  have "ss_recv_key y = ss_send_key x" using l by (simp add: send_link_def)
  moreover have "16 \<le> length (take 4080 (sealed lib (ss_send_key x) (CounterToNonce (ss_send_nonce x)) [] p))"
    using long by (simp add: length_sealed [OF laws])
  ultimately show ?thesis
    using y cut by (simp add: cut_packet [OF laws long] accepted_packet_def Transport_roundtrip wf_TransportDataMsg_def)
qed

lemma receive_cut:
  assumes "UdpSocket.IsOpen k" and "length buf = 4096" and "4096 < length w"
  shows "ReceiveFrom k (io_received (datagram_io a w)) (io_sender (datagram_io a w)) =
      Some \<lparr>bytes_read = 4096, rr_sender = endpoint_of a\<rparr>"
    and "read_at 0 4096 (write_at 0 (take 4096 w) buf) = take 4096 w" and "write_at 0 (take 4096 w) buf ! 0 = w ! 0"
    and "io_datagram (datagram_io a w) = w" and "length (write_at 0 (take 4096 w) buf) = 4096"
  using assms by (simp_all add: datagram_io_def ReceiveFrom_def read_at_write_at_same)
    (simp add: write_at_def nth_append)

lemma sv_receive_cut:
  assumes "UdpSocket.IsOpen (sv_socket s)" and "length (sv_recv_buffer s) = 4096" and "4096 < length w"
    and "ucast (w ! 0) = message_code Transport" and "accepted_packet lib (sv_sessions s) (take 4096 w) = None"
  shows "sv_receive lib g env (datagram_io a w) s = Some (s\<lparr>sv_recv_buffer := write_at 0 (take 4096 w) (sv_recv_buffer s)\<rparr>)"
  using receive_cut [OF assms(1-3)] assms(4,5) by (simp add: sv_receive_def Let_def sv_HandleTransport_eq)

lemma cl_receive_cut:
  assumes "UdpSocket.IsOpen (cl_socket c)" and "length (cl_recv_buffer c) = 4096" and "4096 < length w"
    and "ucast (w ! 0) = message_code Transport" and "accepted_packet lib (cl_sessions c) (take 4096 w) = None"
  shows "cl_receive lib env (datagram_io a w) c = c\<lparr>cl_recv_buffer := write_at 0 (take 4096 w) (cl_recv_buffer c)\<rparr>"
  using receive_cut [OF assms(1-3)] assms(4,5) by (simp add: cl_receive_def Let_def cl_HandleTransport_eq)

text \<open>What \<open>connected\<close> says, taken apart.\<close>

lemma connectedE:
  assumes "connected i j k c s"
  obtains x y where "sm_Lookup (cl_sessions c) i = Some x" "sm_Lookup (sv_sessions s) j = Some y"
    "ss_receiver_index x = j" "ss_receiver_index y = i" "send_link x y" "send_link y x"
    "unat (ss_send_nonce x) + k \<le> unat kRejectAfterMessages" "unat (ss_send_nonce y) + k \<le> unat kRejectAfterMessages"
    "cl_has_session c" "cl_active_session_index c = i" "length (cl_tun_buffer c) = 4096"
    "length (sv_tun_buffer s) = 4096" "UdpSocket.IsOpen (cl_socket c)" "UdpSocket.IsOpen (sv_socket s)"
    "cl_use_tun c" "tun_IsOpen (cl_tun c)" "sv_use_tun s" "tun_IsOpen (sv_tun s)"
    "length (cl_recv_buffer c) = 4096" "length (sv_recv_buffer s) = 4096"
  using assms unfolding connected_def by blast

lemma connected_less: "connected i j (Suc k) c s \<Longrightarrow> connected i j k c s"
  by (elim connectedE) (auto simp: connected_def)

lemma send_link_lost: "send_link x y \<Longrightarrow> unat (ss_send_nonce x) + Suc k \<le> unat kRejectAfterMessages \<Longrightarrow>
    send_link (sealed_one now x) y"
  using nonce_step(3) [of "ss_send_nonce x" k]
  by (auto simp: send_link_def sealed_one_def ReplayWindow_init_def)

lemma send_link_lost_back: "send_link y x \<Longrightarrow> send_link y (sealed_one now x)"
  by (simp add: send_link_def sealed_one_def)

lemma up_step:
  assumes laws: "crypto_laws lib" and con: "connected i j (Suc k) c s" and p: "0 < length p" "length p \<le> 4064"
  shows "\<exists>c' s'. relay lib g from ec es (Up p) (c, s) = Some (c', s') \<and> connected i j k c' s' \<and>
    sv_tun_out s' = sv_tun_out s @ [p] \<and> cl_tun_out c' = cl_tun_out c \<and>
    sv_ip_to_session s' = learned (sv_ip_to_session s) j p \<and> link_keys i j c' s' = link_keys i j c s"
proof -
  obtain x y where x: "sm_Lookup (cl_sessions c) i = Some x" and y: "sm_Lookup (sv_sessions s) j = Some y"
    and ix: "ss_receiver_index x = j" "ss_receiver_index y = i" and l: "send_link x y" "send_link y x"
    and n: "unat (ss_send_nonce x) + Suc k \<le> unat kRejectAfterMessages"
      "unat (ss_send_nonce y) + Suc k \<le> unat kRejectAfterMessages"
    and c: "cl_has_session c" "cl_active_session_index c = i" "length (cl_tun_buffer c) = 4096"
      "length (sv_tun_buffer s) = 4096" "UdpSocket.IsOpen (cl_socket c)" "UdpSocket.IsOpen (sv_socket s)"
      "cl_use_tun c" "tun_IsOpen (cl_tun c)" "sv_use_tun s" "tun_IsOpen (sv_tun s)"
      "length (cl_recv_buffer c) = 4096" "length (sv_recv_buffer s) = 4096"
    using con by (rule connectedE)
  let ?w = "packet lib x p"
  have rd: "cl_HandleTunRead lib ec (tun_io p) c = c\<lparr>cl_tun_buffer := write_at 0 p (cl_tun_buffer c),
    cl_sent := cl_sent c @ [(endpoint_sockaddr (cl_server_endpoint c), ?w)],
    cl_sessions := sm_store (cl_sessions c) i (sealed_one (ne_now ec) x),
    cl_bytes_sent := cl_bytes_sent c + of_nat (length p)\<rparr>"
    using client_reads [OF laws c(1) _ n(1) c(8) c(3) p(1) _ c(5)] p(2) x c(2) by simp
  have w: "?w \<noteq> []" "length ?w \<le> 4096" using length_packet [OF laws, of x p] p(2) by auto
  note rcv = sv_receive_datagram(1) [OF c(6,12) w packet_code]
  have acc: "accepted_packet lib (sv_sessions s) ?w = Some (j, ss_send_nonce x, p)"
    using packet_accepted [OF laws l(1)] y ix(1) nonce_step(1) [OF n(1)] by simp
  have lk: "send_link (sealed_one (ne_now ec) x) (opened_one (ne_now es) (ss_send_nonce x) y)"
    "send_link (opened_one (ne_now es) (ss_send_nonce x) y) (sealed_one (ne_now ec) x)"
    using send_link_step [OF l(1) n(1)] send_link_back [OF l(2)] by auto
  show ?thesis
    using c n nonce_step(2) [OF n(1)] lk ix tun_read_packet(3) [OF c(8,3)] p receive_io(5) [OF c(6,12) w]
    by (simp add: rd rcv sv_HandleTransport_eq acc connected_def learn_route_eq after_packet_Lookup [OF y]
        sm_Lookup_store link_keys_def x y Let_def)
       (simp add: sealed_one_def opened_one_def)
qed

lemma down_step:
  assumes laws: "crypto_laws lib" and con: "connected i j (Suc k) c s" and p: "length p \<le> 4064"
    "ParseDstIP p = Some a" "sv_ip_to_session s (ToHostOrder a) = Some j"
  shows "\<exists>c' s'. relay lib g from ec es (Down p) (c, s) = Some (c', s') \<and> connected i j k c' s' \<and>
    sv_tun_out s' = sv_tun_out s \<and> cl_tun_out c' = cl_tun_out c @ [p] \<and>
    sv_ip_to_session s' = sv_ip_to_session s \<and> link_keys i j c' s' = link_keys i j c s"
proof -
  obtain x y where x: "sm_Lookup (cl_sessions c) i = Some x" and y: "sm_Lookup (sv_sessions s) j = Some y"
    and ix: "ss_receiver_index x = j" "ss_receiver_index y = i" and l: "send_link x y" "send_link y x"
    and n: "unat (ss_send_nonce x) + Suc k \<le> unat kRejectAfterMessages"
      "unat (ss_send_nonce y) + Suc k \<le> unat kRejectAfterMessages"
    and c: "cl_has_session c" "cl_active_session_index c = i" "length (cl_tun_buffer c) = 4096"
      "length (sv_tun_buffer s) = 4096" "UdpSocket.IsOpen (cl_socket c)" "UdpSocket.IsOpen (sv_socket s)"
      "cl_use_tun c" "tun_IsOpen (cl_tun c)" "sv_use_tun s" "tun_IsOpen (sv_tun s)"
      "length (cl_recv_buffer c) = 4096" "length (sv_recv_buffer s) = 4096"
    using con by (rule connectedE)
  let ?w = "packet lib y p"
  have rd: "sv_HandleTunRead lib es (tun_io p) s = s\<lparr>sv_tun_buffer := write_at 0 p (sv_tun_buffer s),
    sv_sent := sv_sent s @ [(endpoint_sockaddr (ss_peer y), ?w)],
    sv_sessions := sm_store (sv_sessions s) j (sealed_one (ne_now es) y)\<rparr>"
    using p(1) by (intro server_reads [OF laws y n(2) c(10) c(4) _ c(6) p(2,3)]) simp
  have w: "?w \<noteq> []" "length ?w \<le> 4096" using length_packet [OF laws, of y p] p(1) by auto
  note rcv = cl_receive_datagram(1) [OF c(5,11) w packet_code]
  have acc: "accepted_packet lib (cl_sessions c) ?w = Some (i, ss_send_nonce y, p)"
    using packet_accepted [OF laws l(2)] x ix(2) nonce_step(1) [OF n(2)] by simp
  have lk: "send_link (sealed_one (ne_now es) y) (opened_one (ne_now ec) (ss_send_nonce y) x)"
    "send_link (opened_one (ne_now ec) (ss_send_nonce y) x) (sealed_one (ne_now es) y)"
    using send_link_step [OF l(2) n(2)] send_link_back [OF l(1)] by auto
  have "p \<noteq> []" using p(2) by (auto simp: ParseDstIP_def split: if_splits)
  then show ?thesis
    using c n nonce_step(2) [OF n(2)] lk ix tun_read_packet(3) [OF c(10,4)] p(1) receive_io(5) [OF c(5,11) w]
    by (simp add: rd rcv cl_HandleTransport_eq acc connected_def after_packet_Lookup [OF x]
        sm_Lookup_store link_keys_def x y Let_def)
       (simp add: sealed_one_def opened_one_def)
qed

text \<open>Packets that are sent and do not come out.\<close>

lemma up_lost:
  assumes laws: "crypto_laws lib" and con: "connected i j (Suc k) c s" and p: "4064 < length p" "length p \<le> 4096"
    and cut: "cut_refused lib (link_keys i j c s) p"
  shows "\<exists>c' s'. relay lib g from ec es (Up p) (c, s) = Some (c', s') \<and> connected i j k c' s' \<and>
    sv_tun_out s' = sv_tun_out s \<and> cl_tun_out c' = cl_tun_out c \<and>
    sv_ip_to_session s' = sv_ip_to_session s \<and> link_keys i j c' s' = link_keys i j c s"
proof -
  obtain x y where x: "sm_Lookup (cl_sessions c) i = Some x" and y: "sm_Lookup (sv_sessions s) j = Some y"
    and ix: "ss_receiver_index x = j" "ss_receiver_index y = i" and l: "send_link x y" "send_link y x"
    and n: "unat (ss_send_nonce x) + Suc k \<le> unat kRejectAfterMessages"
      "unat (ss_send_nonce y) + Suc k \<le> unat kRejectAfterMessages"
    and c: "cl_has_session c" "cl_active_session_index c = i" "length (cl_tun_buffer c) = 4096"
      "length (sv_tun_buffer s) = 4096" "UdpSocket.IsOpen (cl_socket c)" "UdpSocket.IsOpen (sv_socket s)"
      "cl_use_tun c" "tun_IsOpen (cl_tun c)" "sv_use_tun s" "tun_IsOpen (sv_tun s)"
      "length (cl_recv_buffer c) = 4096" "length (sv_recv_buffer s) = 4096"
    using con by (rule connectedE)
  let ?w = "packet lib x p"
  have "0 < length p" using p(1) by linarith
  then have rd: "cl_HandleTunRead lib ec (tun_io p) c = c\<lparr>cl_tun_buffer := write_at 0 p (cl_tun_buffer c),
    cl_sent := cl_sent c @ [(endpoint_sockaddr (cl_server_endpoint c), ?w)],
    cl_sessions := sm_store (cl_sessions c) i (sealed_one (ne_now ec) x),
    cl_bytes_sent := cl_bytes_sent c + of_nat (length p)\<rparr>"
    using client_reads [OF laws c(1) _ n(1) c(8) c(3) _ p(2) c(5)] x c(2) by simp
  have w: "4096 < length ?w" using length_packet [OF laws, of x p] p(1) by simp
  have "accepted_packet lib (sv_sessions s) (take 4096 ?w) = None"
    by (rule cut_not_accepted [OF laws l(1) _ p(1)]) (use y ix(1) cut x in \<open>simp_all add: cut_refused_def link_keys_def\<close>)
  note rcv = sv_receive_cut [OF c(6,12) w packet_code this]
  show ?thesis
    using c n nonce_step(2) [OF n(1)] send_link_lost [OF l(1) n(1)] send_link_lost_back [OF l(2)] ix
      tun_read_packet(3) [OF c(8,3) p(2)] receive_cut(5) [OF c(6,12) w]
    by (simp add: rd rcv connected_def sm_Lookup_store link_keys_def x y Let_def) (simp add: sealed_one_def)
qed

lemma down_lost:
  assumes laws: "crypto_laws lib" and con: "connected i j (Suc k) c s" and p: "4064 < length p" "length p \<le> 4096"
    "ParseDstIP p = Some a" "sv_ip_to_session s (ToHostOrder a) = Some j"
    and cut: "cut_refused lib (link_keys i j c s) p"
  shows "\<exists>c' s'. relay lib g from ec es (Down p) (c, s) = Some (c', s') \<and> connected i j k c' s' \<and>
    sv_tun_out s' = sv_tun_out s \<and> cl_tun_out c' = cl_tun_out c \<and>
    sv_ip_to_session s' = sv_ip_to_session s \<and> link_keys i j c' s' = link_keys i j c s"
proof -
  obtain x y where x: "sm_Lookup (cl_sessions c) i = Some x" and y: "sm_Lookup (sv_sessions s) j = Some y"
    and ix: "ss_receiver_index x = j" "ss_receiver_index y = i" and l: "send_link x y" "send_link y x"
    and n: "unat (ss_send_nonce x) + Suc k \<le> unat kRejectAfterMessages"
      "unat (ss_send_nonce y) + Suc k \<le> unat kRejectAfterMessages"
    and c: "cl_has_session c" "cl_active_session_index c = i" "length (cl_tun_buffer c) = 4096"
      "length (sv_tun_buffer s) = 4096" "UdpSocket.IsOpen (cl_socket c)" "UdpSocket.IsOpen (sv_socket s)"
      "cl_use_tun c" "tun_IsOpen (cl_tun c)" "sv_use_tun s" "tun_IsOpen (sv_tun s)"
      "length (cl_recv_buffer c) = 4096" "length (sv_recv_buffer s) = 4096"
    using con by (rule connectedE)
  let ?w = "packet lib y p"
  note rd = server_reads [OF laws y n(2) c(10) c(4) p(2) c(6) p(3,4)]
  have w: "4096 < length ?w" using length_packet [OF laws, of y p] p(1) by simp
  have "accepted_packet lib (cl_sessions c) (take 4096 ?w) = None"
    by (rule cut_not_accepted [OF laws l(2) _ p(1)]) (use x ix(2) cut y in \<open>simp_all add: cut_refused_def link_keys_def\<close>)
  note rcv = cl_receive_cut [OF c(5,11) w packet_code this]
  show ?thesis
    using c n nonce_step(2) [OF n(2)] send_link_lost [OF l(2) n(2)] send_link_lost_back [OF l(1)] ix
      tun_read_packet(3) [OF c(10,4) p(2)] receive_cut(5) [OF c(5,11) w]
    by (simp add: rd rcv connected_def sm_Lookup_store link_keys_def x y Let_def) (simp add: sealed_one_def)
qed

text \<open>Packets that are not sent: nothing read, or no learnt destination.\<close>

lemma not_sent:
  assumes con: "connected i j (Suc k) c s" and p: "length p \<le> 4096"
  shows "p = [] \<Longrightarrow> \<exists>c'. relay lib g from ec es (Up p) (c, s) = Some (c', s) \<and> connected i j k c' s \<and>
      cl_tun_out c' = cl_tun_out c \<and> link_keys i j c' s = link_keys i j c s"
    and "routed (sv_ip_to_session s) p = None \<Longrightarrow>
      \<exists>s'. relay lib g from ec es (Down p) (c, s) = Some (c, s') \<and> connected i j k c s' \<and>
      sv_tun_out s' = sv_tun_out s \<and> sv_ip_to_session s' = sv_ip_to_session s \<and> link_keys i j c s' = link_keys i j c s"
proof -
  note con' = connected_less [OF con]
  have o: "tun_IsOpen (cl_tun c)" "tun_IsOpen (sv_tun s)" "length (cl_tun_buffer c) = 4096" "length (sv_tun_buffer s) = 4096"
    using con by (simp_all add: connected_def)
  note rc = tun_read_packet [OF o(1,3) p] and rs = tun_read_packet [OF o(2,4) p]
  show "\<exists>c'. relay lib g from ec es (Up p) (c, s) = Some (c', s) \<and> connected i j k c' s \<and>
      cl_tun_out c' = cl_tun_out c \<and> link_keys i j c' s = link_keys i j c s" if "p = []"
  proof -
    have "cl_HandleTunRead lib ec (tun_io p) c = c\<lparr>cl_tun_buffer := write_at 0 p (cl_tun_buffer c)\<rparr>"
      using rc(1) that by (simp add: cl_HandleTunRead_def Let_def)
    then show ?thesis using con' rc(3) by (simp add: connected_def link_keys_def)
  qed
  show "\<exists>s'. relay lib g from ec es (Down p) (c, s) = Some (c, s') \<and> connected i j k c s' \<and>
      sv_tun_out s' = sv_tun_out s \<and> sv_ip_to_session s' = sv_ip_to_session s \<and> link_keys i j c s' = link_keys i j c s"
    if r: "routed (sv_ip_to_session s) p = None"
  proof -
    have "sv_HandleTunRead lib es (tun_io p) s = s\<lparr>sv_tun_buffer := write_at 0 p (sv_tun_buffer s)\<rparr>"
      using rs r by (cases "ParseDstIP p") (simp_all add: sv_HandleTunRead_def routed_def Let_def)
    then show ?thesis using con' rs(3) by (simp add: connected_def link_keys_def)
  qed
qed

lemma relay_step:
  assumes laws: "crypto_laws lib" and con: "connected i j (Suc k) c s" and our: "ours (sv_ip_to_session s) j (t # ts)"
    and cut: "4064 < length (packet_of t) \<Longrightarrow> cut_refused lib (link_keys i j c s) (packet_of t)"
  shows "\<exists>c' s'. relay lib g from ec es t (c, s) = Some (c', s') \<and> connected i j k c' s' \<and>
    sv_tun_out s' = sv_tun_out s @ ups [t] \<and> cl_tun_out c' = cl_tun_out c @ downs (sv_ip_to_session s) j [t] \<and>
    sv_ip_to_session s' = routes_after (sv_ip_to_session s) j t \<and> link_keys i j c' s' = link_keys i j c s"
proof (cases t)
  case (Up p)
  consider "passes p" | "p = []" | "4064 < length p"
    by (cases "p = []"; cases "length p \<le> 4064") (auto simp: passes_def)
  then show ?thesis
  proof cases
    case 1
    then show ?thesis using up_step [OF laws con, of p g "from" ec es] by (auto simp: Up passes_def)
  next
    case 2
    then show ?thesis using not_sent(1) [OF con, of p lib g "from" ec es] by (auto simp: Up passes_def)
  next
    case 3
    then show ?thesis using up_lost [OF laws con, of p g "from" ec es] our cut by (auto simp: Up passes_def)
  qed
next
  case (Down p)
  have p: "length p \<le> 4096" "routed (sv_ip_to_session s) p \<in> {None, Some j}" using our by (simp_all add: Down)
  show ?thesis
  proof (cases "routed (sv_ip_to_session s) p")
    case None
    then show ?thesis using not_sent(2) [OF con p(1), of lib g "from" ec es] by (auto simp: Down)
  next
    case (Some k)
    then obtain a where a: "ParseDstIP p = Some a" "sv_ip_to_session s (ToHostOrder a) = Some j" "k = j"
      using p(2) by (auto simp: routed_def bind_eq_Some_conv)
    have "p \<noteq> []" using a(1) by (auto simp: ParseDstIP_def split: if_splits)
    then show ?thesis
      using down_step [OF laws con _ a(1,2), of g "from" ec es] down_lost [OF laws con _ p(1) a(1,2), of g "from" ec es] cut Some a(3)
      by (cases "length p \<le> 4064") (auto simp: Down passes_def)
  qed
qed

text \<open>
  C3. What an established tunnel does with any packets its devices hand over, in both directions and in any
  interleaving, until the message limit. Every packet of up to 4064 bytes comes out of the other end's device
  unchanged, once and in order, if it comes from the client, or from the server and is addressed to a source
  the client has used before. Nothing else comes out: not a packet from the server for an address it has not
  learnt, and none of the packets of 4065 to 4096 bytes the devices also take: they are sealed and sent, but reach
  the other end cut off, which the cipher is asked to notice for those packets, and their loss does not
  disturb the rest. Packets for the address of another session are left out.
\<close>

theorem tunnel_delivers:
  assumes "crypto_laws lib" and "connected i j (length hs) c s"
    and "ours (sv_ip_to_session s) j (map (snd \<circ> snd) hs)"
    and "\<forall>t \<in> set (map (snd \<circ> snd) hs). 4064 < length (packet_of t) \<longrightarrow>
      cut_refused lib (link_keys i j c s) (packet_of t)"
  shows "\<exists>c' s'. relay_all lib g from hs (c, s) = Some (c', s') \<and>
    sv_tun_out s' = sv_tun_out s @ ups (map (snd \<circ> snd) hs) \<and>
    cl_tun_out c' = cl_tun_out c @ downs (sv_ip_to_session s) j (map (snd \<circ> snd) hs) \<and> connected i j 0 c' s'"
  using assms(2-4)
proof (induction hs arbitrary: c s)
  case (Cons h hs)
  obtain ec es t where h: "h = (ec, es, t)" by (cases h) auto
  let ?r = "sv_ip_to_session s"
  obtain c1 s1 where one: "relay lib g from ec es t (c, s) = Some (c1, s1)" "connected i j (length hs) c1 s1"
    "sv_tun_out s1 = sv_tun_out s @ ups [t]" "cl_tun_out c1 = cl_tun_out c @ downs ?r j [t]"
    "sv_ip_to_session s1 = routes_after ?r j t" "link_keys i j c1 s1 = link_keys i j c s"
  proof -
    have "connected i j (Suc (length hs)) c s" "ours ?r j (t # map (snd \<circ> snd) hs)"
      "4064 < length (packet_of t) \<Longrightarrow> cut_refused lib (link_keys i j c s) (packet_of t)"
      using Cons.prems by (simp_all add: h comp_def)
    from relay_step [OF assms(1) this, of g "from" ec es] show thesis using that by blast
  qed
  have "ours (sv_ip_to_session s1) j (map (snd \<circ> snd) hs)" using Cons.prems(2) one(5) by (simp add: h comp_def)
  from Cons.IH [OF one(2) this] Cons.prems(3)
  obtain c' s' where rest: "relay_all lib g from hs (c1, s1) = Some (c', s')" "connected i j 0 c' s'"
    "sv_tun_out s' = sv_tun_out s1 @ ups (map (snd \<circ> snd) hs)"
    "cl_tun_out c' = cl_tun_out c1 @ downs (routes_after ?r j t) j (map (snd \<circ> snd) hs)"
    by (auto simp: one(5,6) comp_def)
  have "ups [t] @ ups ts = ups (t # ts)" "downs ?r j [t] @ downs (routes_after ?r j t) j ts = downs ?r j (t # ts)" for ts
    by (cases t; simp)+
  then show ?case using one(1,3,4) rest by (simp add: h comp_def)
qed simp

text \<open>Example: sessions 4 and 9, linked.\<close>

definition linked_session :: "bytes \<Rightarrow> bytes \<Rightarrow> u32 \<Rightarrow> u32 \<Rightarrow> Session" where
  "linked_session sk rk i j = Session_init\<lparr>ss_send_key := sk, ss_recv_key := rk,
     ss_sender_index := i, ss_receiver_index := j\<rparr>"

definition linked_client :: Client where
  "linked_client = example_client\<lparr>cl_has_session := True, cl_active_session_index := 4,
     cl_sessions := sm_store SessionManager_init 4 (linked_session [1] [2] 4 9)\<rparr>"

definition linked_server :: Server where
  "linked_server = example_server\<lparr>sv_sessions := sm_store SessionManager_init 9 (linked_session [2] [1] 9 4)\<rparr>"

definition ping :: bytes where
  "ping = replicate 12 0 @ [10, 0, 0, 2] @ [10, 0, 0, 1]"

definition pong :: bytes where
  "pong = replicate 12 0 @ [10, 0, 0, 1] @ [10, 0, 0, 2]"

lemma linked_connected: "connected 4 9 4 linked_client linked_server"
  by (simp add: connected_def linked_client_def linked_server_def example_client_def example_server_def
      Client_init_def Server_init_def sm_Lookup_store open_defs linked_session_def send_link_def
      Session_init_def kReject_value)

lemma linked_ours: "ours (sv_ip_to_session linked_server) 9 [Down pong, Up ping, Up (zeros 4096), Down pong]"
    "ups [Down pong, Up ping, Up (zeros 4096), Down pong] = [ping]"
    "downs (sv_ip_to_session linked_server) 9 [Down pong, Up ping, Up (zeros 4096), Down pong] = [pong]"
proof -
  have p: "passes ping" "passes pong" "\<not> passes (zeros 4096)" "length ping = 20" "length pong = 20"
    by (simp_all add: passes_def ping_def pong_def)
  have r: "routed (sv_ip_to_session linked_server) pong = None"
    "routed (learned (sv_ip_to_session linked_server) 9 ping) pong = Some 9"
    by (simp_all add: routed_def learned_def ping_def pong_def ParseSrcIP_def ParseDstIP_def nth_append numeral_eq_Suc
        linked_server_def example_server_def Server_init_def)
  show "ours (sv_ip_to_session linked_server) 9 [Down pong, Up ping, Up (zeros 4096), Down pong]"
    "ups [Down pong, Up ping, Up (zeros 4096), Down pong] = [ping]"
    "downs (sv_ip_to_session linked_server) 9 [Down pong, Up ping, Up (zeros 4096), Down pong] = [pong]"
    using p r by simp_all
qed

lemma toy_cut:
  assumes "key \<noteq> []" "hd key \<noteq> 0" shows "authentic toy key n (take 4080 (sealed toy key m [] (zeros 4096))) = None"
proof -
  have c: "take 4080 (sealed toy key m [] (zeros 4096)) = zeros 4080" by (simp add: sealed_def toy_def zeros_def)
  have "pad_to 16 (key @ x) \<noteq> zeros 16" for x
    using assms by (cases key) (simp_all add: pad_to_def zeros_def numeral_eq_Suc)
  then have "zeros 16 \<noteq> pad_to 16 (key @ x)" for x by metis
  then show ?thesis unfolding c
    by (simp add: authentic_def Decrypt_def toy_def kTagBytes_def read_at_def zeros_def)
qed

theorem tunnel_delivers_witness:
  "\<exists>c' s'. relay_all toy hs_constants_start \<lparr>sin_addr = [10, 0, 0, 9], sin_port = [0, 1]\<rparr>
      (map (\<lambda>t. (example_env [], example_env [], t)) [Down pong, Up ping, Up (zeros 4096), Down pong])
      (linked_client, linked_server) = Some (c', s') \<and>
    sv_tun_out s' = [ping] \<and> cl_tun_out c' = [pong]"
proof -
  let ?ts = "[Down pong, Up ping, Up (zeros 4096), Down pong]"
  have l: "length ping = 20" "length pong = 20" by (simp_all add: ping_def pong_def)
  have k: "link_keys 4 9 linked_client linked_server = (Some [1], Some [2])"
    by (simp add: link_keys_def linked_client_def linked_server_def sm_Lookup_store linked_session_def)
  have "cut_refused toy (link_keys 4 9 linked_client linked_server) (zeros 4096)"
    by (auto simp: k cut_refused_def toy_cut)
  then have "\<forall>t \<in> set ?ts. 4064 < length (packet_of t) \<longrightarrow>
      cut_refused toy (link_keys 4 9 linked_client linked_server) (packet_of t)"
    using l by simp
  moreover have hs: "map (snd \<circ> snd) (map (\<lambda>t. (example_env [], example_env [], t)) ?ts) = ?ts"
    "length (map (\<lambda>t. (example_env [], example_env [], t)) ?ts) = 4" by simp_all
  moreover have "sv_tun_out linked_server = []" "cl_tun_out linked_client = []"
    by (simp_all add: linked_client_def linked_server_def example_client_def example_server_def
        Client_init_def Server_init_def)
  ultimately show ?thesis
    using tunnel_delivers [OF toy_crypto_laws, of 4 9 "map (\<lambda>t. (example_env [], example_env [], t)) ?ts"
      linked_client linked_server hs_constants_start "\<lparr>sin_addr = [10, 0, 0, 9], sin_port = [0, 1]\<rparr>"]
      linked_connected linked_ours
    unfolding hs linked_ours(2,3) by auto
qed

end
