(* ===== verification/Establish.thy ===== *)
theory Establish
  imports Tunnel
begin

text \<open>
  How client and server get connected: the client's first message, the server's handler and the
  client's handler of the answer, run through both sockets, and what happens when the first
  message arrives again.
\<close>

section \<open>Configured nodes\<close>

text \<open>The client knows the server's keys; the stored key lengths are those of the arrays.\<close>

definition nodes_match :: "'k crypto \<Rightarrow> Client \<Rightarrow> Server \<Rightarrow> bool" where
  "nodes_match lib c s \<longleftrightarrow>
     x25519_pair lib (cl_local_x25519_priv c) (cl_local_x25519_pub c) \<and>
     mlkem_pair lib (cl_local_mlkem_dk c) (cl_local_mlkem_ek c) \<and>
     x25519_pair lib (sv_local_x25519_priv s) (sv_local_x25519_pub s) \<and>
     mlkem_pair lib (sv_local_mlkem_dk s) (sv_local_mlkem_ek s) \<and>
     cl_server_x25519_pub c = sv_local_x25519_pub s \<and> cl_server_mlkem_ek c = sv_local_mlkem_ek s \<and>
     length (preshared_key (cl_peer c)) = 32"

text \<open>The client's peer when its first message is built.\<close>

definition initiator_peer :: "'k crypto \<Rightarrow> Client \<Rightarrow> Peer" where
  "initiator_peer lib c = (configured_peer c)\<lparr>
     precomputed_static_static := dh lib (cl_local_x25519_priv c) (cl_server_x25519_pub c),
     mac1_key := blake3_out lib (string_bytes kLabelMac1 @ cl_server_x25519_pub c) 32\<rparr>"

lemma nodes_peers_match:
  assumes "crypto_laws lib" and "nodes_match lib c s"
  shows "peers_match lib (initiator_peer lib c) (fresh_peer s sender)"
    and "DeriveSharedSecret lib (cl_local_x25519_priv c) (cl_server_x25519_pub c) =
      Some (dh lib (cl_local_x25519_priv c) (cl_server_x25519_pub c))"
    and "wf_Peer (fresh_peer s sender)"
proof -
  have m: "x25519_pair lib (cl_local_x25519_priv c) (cl_local_x25519_pub c)"
    "x25519_pair lib (sv_local_x25519_priv s) (cl_server_x25519_pub c)"
    using assms(2) by (simp_all add: nodes_match_def)
  show d: "DeriveSharedSecret lib (cl_local_x25519_priv c) (cl_server_x25519_pub c) =
      Some (dh lib (cl_local_x25519_priv c) (cl_server_x25519_pub c))"
    by (rule dh_laws(1) [OF assms(1) m])
  show "peers_match lib (initiator_peer lib c) (fresh_peer s sender)"
    using assms(2) d
    by (simp add: nodes_match_def peers_match_def initiator_peer_def fresh_peer_def configured_peer_def
        Peer_Clear_def Peer_init_def secure_zero_def)
  show "wf_Peer (fresh_peer s sender)"
    using assms(2) by (simp add: nodes_match_def wf_Peer_def fresh_peer_def Peer_init_def
        x25519_pair_def mlkem_pair_def)
qed

lemma be_nat_zeros: "be_nat (zeros n) = 0"
  by (induction n) (simp_all add: zeros_def)

text \<open>A first message is never stale for the peer the server makes for it.\<close>

lemma fresh_for_server:
  assumes "length tai = 12" and "tai_secs_nat tai + 1 < 2 ^ 64"
  shows "fresh_initiation (fst (tai_Now now tai)) now' (fresh_peer s sender)"
proof -
  note t = tai_Now_greater [OF assms, of now]
  have "memcmp_less (zeros 12) (fst (tai_Now now tai))"
    using t(1,2) by (simp add: memcmp_less_be_nat be_nat_zeros)
  then show ?thesis by (simp add: fresh_initiation_def fresh_peer_def Peer_init_def HandshakeState_init_def)
qed

section \<open>The server answers\<close>

text \<open>The session either side files for the chaining key \<open>C\<close>.\<close>

definition new_keys :: "'k crypto \<Rightarrow> bytes \<Rightarrow> bool \<Rightarrow> u32 \<Rightarrow> u32 \<Rightarrow> SessionSecrets" where
  "new_keys lib C b i r = \<lparr>sec_send_key = kdf_chain lib C [] (if b then 1 else 2),
     sec_recv_key = kdf_chain lib C [] (if b then 2 else 1), sec_sender_index = i,
     sec_receiver_index = r, sec_is_initiator = b\<rparr>"

definition good_key :: "'k crypto \<Rightarrow> bytes \<Rightarrow> bool" where
  "good_key lib C \<longleftrightarrow> \<not> all_zero (kdf_chain lib C [] 1) \<and> \<not> all_zero (kdf_chain lib C [] 2)"

lemma usable_new_keys [simp]: "usable (new_keys lib C b i r) \<longleftrightarrow> good_key lib C"
  by (auto simp: usable_def new_keys_def good_key_def simp del: kdf_chain.simps)

lemma activate_new_keys:
  "ActivateSession now r t (new_keys lib C b i q) peer =
     (if good_key lib C then (Some i, sm_store t i (new_session now r (new_keys lib C b i q) peer)) else (None, t))"
proof -
  have "sec_sender_index (new_keys lib C b i q) = i" by (simp add: new_keys_def)
  then show ?thesis by (simp add: ActivateSession_eq sm_store_def)
qed

lemma new_keys_cases:
  "new_keys lib C True i r = \<lparr>sec_send_key = kdf_chain lib C [] 1, sec_recv_key = kdf_chain lib C [] 2,
     sec_sender_index = i, sec_receiver_index = r, sec_is_initiator = True\<rparr>"
  "new_keys lib C False i r = \<lparr>sec_send_key = kdf_chain lib C [] 2, sec_recv_key = kdf_chain lib C [] 1,
     sec_sender_index = i, sec_receiver_index = r, sec_is_initiator = False\<rparr>"
  by (simp_all add: new_keys_def)

lemma sv_activate_derived:
  assumes "km_next (keypairs p) = Some (derived_keypair lib C now addr j i False)"
  shows "sv_activate env sender p s =
    s\<lparr>sv_sessions := snd (ActivateSession (ne_sys_now env) (ne_jitter env) (sv_sessions s)
        (new_keys lib C False j i) sender),
      sv_peers := if good_key lib C then (sv_peers s)(j \<mapsto> (ne_peer_addr env, p)) else sv_peers s\<rparr>"
  using assms
  by (simp add: sv_activate_def Next_def derived_keypair_def activate_new_keys
      flip: new_keys_cases del: kdf_chain.simps One_nat_def)

text \<open>
  The chaining key the server's handler ends with when it answers this datagram: \<open>ConsumeMessageInitiation\<close>
  on the peer made for it, and the secrets of \<open>CreateMessageResponse\<close>. It depends on nothing of the
  server but its static keys. The two transport keys of a session are derived from it.
\<close>

definition answer_key ::
  "'k crypto \<Rightarrow> hs_constants \<Rightarrow> node_env \<Rightarrow> bytes \<Rightarrow> Endpoint \<Rightarrow> Server \<Rightarrow> bytes option" where
  "answer_key lib g env data sender s =
     (let (ok, peer) = ConsumeMessageInitiation lib g (ne_sys_now env) data (fresh_peer s sender) in
      if ok then map_option fst (response_secrets lib (ne_hs env) peer) else None)"

lemma CreateMessageResponse_key:
  assumes "CreateMessageResponse lib ev self p t = Some (Some wire, p', t')"
  shows "map_option fst (response_secrets lib ev p) = Some (hs_chaining_key (handshake p'))"
  using assms by (auto simp: CreateMessageResponse_def Let_def bind_eq_Some_conv split: option.splits prod.splits)

lemma server_answers:
  assumes laws: "crypto_laws lib" and match: "peers_match lib I (fresh_peer s sender)"
    and wf: "wf_Peer (fresh_peer s sender)" and view: "honest_view lib I (fresh_peer s sender) seed v e dk"
    and fresh: "fresh_initiation (iv_time v) (ne_sys_now env) (fresh_peer s sender)"
    and free: "Some free \<in> set (ev_index_draws (ne_hs env))" "free \<noteq> 0" "sv_index_table s free = None"
  obtains w e' j table peers where "honest_rview lib g (fresh_peer s sender) (ne_hs env) v e' w"
    and "answer_key lib g env (SerializeInitiation (initiation_msg lib g v i)) sender s = Some (rC6 lib w)"
    and "sv_index_table s j = None" and "sv_HandleInitiation lib g env (SerializeInitiation (initiation_msg lib g v i)) sender s = Some
      (s\<lparr>sv_sent := sv_sent s @ emitted (sv_socket s) sender (SerializeResponse (response_msg lib w j i)),
         sv_index_table := table, sv_peers := peers,
         sv_sessions := snd (ActivateSession (ne_sys_now env) (ne_jitter env) (sv_sessions s)
           (new_keys lib (rC6 lib w) False j i) sender)\<rparr>)"
proof -
  let ?R = "fresh_peer s sender"
  let ?R1 = "consumed lib g v (ne_sys_now env) i ?R"
  have len: "length (SerializeInitiation (initiation_msg lib g v i)) = kInitiationSize"
    using view wf_initiation_msg [OF laws]
    by (simp add: honest_view_def length_SerializeInitiation kInitiationSize_def)
  have c1: "ConsumeMessageInitiation lib g (ne_sys_now env) (SerializeInitiation (initiation_msg lib g v i)) ?R = (True, ?R1)"
    by (rule honest_consumption [OF laws match wf view fresh])
  obtain w e' j where rview: "honest_rview lib g ?R (ne_hs env) v e' w"
    and m2: "CreateMessageResponse lib (ne_hs env) (ne_peer_addr env) ?R1 (sv_index_table s) =
      Some (Some (SerializeResponse (response_msg lib w j i)), responded lib w j ?R1,
        (sv_index_table s)(j \<mapsto> \<lparr>e_peer = Some (ne_peer_addr env), e_handshake = Some (ne_peer_addr env), e_keypair = None\<rparr>))"
    using honest_response [OF laws match view, where free = free and table = "sv_index_table s", OF free] .
  let ?R2 = "responded lib w j ?R1"
  let ?t = "(sv_index_table s)(j \<mapsto> \<lparr>e_peer = Some (ne_peer_addr env), e_handshake = Some (ne_peer_addr env), e_keypair = None\<rparr>)"
  have st: "hs_state (handshake ?R2) = ResponseCreated" "hs_local_index (handshake ?R2) = j"
    "hs_remote_index (handshake ?R2) = i" "hs_chaining_key (handshake ?R2) = rC6 lib w"
    by (simp_all add: responded_def consumed_def)
  obtain R3 where R3: "DeriveSessionKeys lib (ne_sys_now env) (ne_keypair_addr env) ?R2 ?t False =
      (True, R3, SwapHandshakeToKeypair ?t j (Some (ne_keypair_addr env)))"
    "km_next (keypairs R3) = Some (derived_keypair lib (rC6 lib w) (ne_sys_now env) (ne_keypair_addr env) j i False)"
    using DeriveSessionKeys_result [OF laws, of ?R2 False "ne_sys_now env" "ne_keypair_addr env" ?t] st by auto
  have j: "sv_index_table s j = None"
    using m2 by (cases rule: CreateMessageResponse_cases) (simp_all add: st)
  have key: "answer_key lib g env (SerializeInitiation (initiation_msg lib g v i)) sender s = Some (rC6 lib w)"
    using c1 CreateMessageResponse_key [OF m2] st(4) by (simp add: answer_key_def)
  show thesis
    by (rule that [OF rview key j, where table = "SwapHandshakeToKeypair ?t j (Some (ne_keypair_addr env))"
          and peers = "if good_key lib (rC6 lib w) then (sv_peers s)(j \<mapsto> (ne_peer_addr env, R3)) else sv_peers s"])
      (simp add: sv_HandleInitiation_def len c1 m2 R3 server_send_def sv_activate_derived [OF R3(2)] Let_def)
qed

section \<open>The client's two steps\<close>

lemma client_initiates:
  assumes laws: "crypto_laws lib" and match: "nodes_match lib c s"
    and tai: "length (cl_tai c) = 12" "tai_secs_nat (cl_tai c) + 1 < 2 ^ 64"
    and free: "Some free \<in> set (ev_index_draws (ne_hs env))" "free \<noteq> 0" "cl_index_table c free = None"
    and op: "UdpSocket.IsOpen (cl_socket c)"
  obtains v e dk i where
    "honest_view lib (initiator_peer lib c) (fresh_peer s sender) (ev_encap_seed (ne_hs env)) v e dk"
    and "iv_time v = fst (tai_Now (ev_now (ne_hs env)) (cl_tai c))"
    and "SendInitiation lib g env c = Some (c\<lparr>
      cl_peer := initiated lib g v e dk i (initiator_peer lib c),
      cl_index_table := (cl_index_table c)(i \<mapsto> \<lparr>e_peer = Some client_peer_addr,
        e_handshake = Some client_peer_addr, e_keypair = None\<rparr>),
      cl_tai := fst (tai_Now (ev_now (ne_hs env)) (cl_tai c)),
      cl_sent := cl_sent c @ [(endpoint_sockaddr (cl_server_endpoint c),
        SerializeInitiation (initiation_msg lib g v i))]\<rparr>)"
proof -
  note m = nodes_peers_match [OF laws match]
  obtain v e dk i where
    view: "honest_view lib (initiator_peer lib c) (fresh_peer s sender) (ev_encap_seed (ne_hs env)) v e dk"
    and time: "iv_time v = fst (tai_Now (ev_now (ne_hs env)) (cl_tai c))"
    and m1: "CreateMessageInitiation lib g (ne_hs env) client_peer_addr (initiator_peer lib c)
        (cl_index_table c) (cl_tai c) =
      Some (Some (SerializeInitiation (initiation_msg lib g v i)), initiated lib g v e dk i (initiator_peer lib c),
        (cl_index_table c)(i \<mapsto> \<lparr>e_peer = Some client_peer_addr, e_handshake = Some client_peer_addr, e_keypair = None\<rparr>),
        fst (tai_Now (ev_now (ne_hs env)) (cl_tai c)))"
    using honest_initiation [OF laws m(1) tai, where free = free and table = "cl_index_table c", OF free] .
  have peer: "(configured_peer c)\<lparr>precomputed_static_static := dh lib (cl_local_x25519_priv c) (cl_server_x25519_pub c),
      mac1_key := blake3_out lib (string_bytes kLabelMac1 @ cl_server_x25519_pub c) 32\<rparr> = initiator_peer lib c"
    by (simp add: initiator_peer_def)
  show thesis
    by (rule that [OF view time, where i = i])
      (simp add: SendInitiation_def m(2) DeriveKey_total peer m1 client_send_def emitted_eq op Let_def)
qed

lemma index_new_keys [simp]: "sec_sender_index (new_keys lib C b i r) = i"
  by (simp add: new_keys_def)

lemma client_finishes:
  assumes laws: "crypto_laws lib" and match: "peers_match lib I R"
    and view: "honest_view lib I R seed v e dk" and rview: "honest_rview lib g R ev v e' w"
    and peer: "cl_peer c = initiated lib g v e dk i I"
    and entry: "cl_index_table c i = Some \<lparr>e_peer = Some client_peer_addr, e_handshake = Some client_peer_addr, e_keypair = None\<rparr>"
  shows "\<exists>p t. cl_HandleResponse lib env (SerializeResponse (response_msg lib w j i)) sender c =
    c\<lparr>cl_peer := p, cl_index_table := t,
      cl_sessions := snd (ActivateSession (ne_sys_now env) (ne_jitter env) (cl_sessions c)
        (new_keys lib (rC6 lib w) True i j) sender),
      cl_active_session_index := if good_key lib (rC6 lib w) then i else cl_active_session_index c,
      cl_has_session := good_key lib (rC6 lib w) \<or> cl_has_session c\<rparr>"
proof -
  let ?I2 = "finished lib w j (initiated lib g v e dk i I)"
  have len: "length (SerializeResponse (response_msg lib w j i)) = kResponseSize"
    using rview wf_response_msg [OF laws]
    by (simp add: honest_rview_def length_SerializeResponse kResponseSize_def)
  have c2: "ConsumeMessageResponse lib (SerializeResponse (response_msg lib w j i)) client_peer_addr
      (cl_peer c) (cl_index_table c) = (True, ?I2)"
    unfolding peer by (rule honest_finish [OF laws match view rview, where
        entry = "\<lparr>e_peer = Some client_peer_addr, e_handshake = Some client_peer_addr, e_keypair = None\<rparr>"])
      (simp_all add: Lookup_def entry)
  have st: "hs_state (handshake ?I2) = ResponseConsumed" "hs_local_index (handshake ?I2) = i"
    "hs_remote_index (handshake ?I2) = j" "hs_chaining_key (handshake ?I2) = rC6 lib w"
    by (simp_all add: finished_def initiated_def)
  let ?k = "derived_keypair lib (rC6 lib w) (ne_sys_now env) (ne_keypair_addr env) i j True"
  obtain I3 where I3: "DeriveSessionKeys lib (ne_sys_now env) (ne_keypair_addr env) ?I2 (cl_index_table c) True =
      (True, I3, SwapHandshakeToKeypair (cl_index_table c) i (Some (ne_keypair_addr env)))"
    "km_current (keypairs I3) = Some ?k"
    using DeriveSessionKeys_result [OF laws, of ?I2 True "ne_sys_now env" "ne_keypair_addr env" "cl_index_table c"] st by auto
  show ?thesis
    by (rule exI [of _ I3], rule exI [of _ "SwapHandshakeToKeypair (cl_index_table c) i (Some (ne_keypair_addr env))"])
      (simp add: cl_HandleResponse_def len c2 I3 Current_def derived_keypair_def activate_new_keys Let_def
        flip: new_keys_cases del: kdf_chain.simps One_nat_def)
qed

section \<open>From nothing to a tunnel\<close>

text \<open>Open sockets and devices, buffers of their declared size.\<close>

definition nodes_ready :: "Client \<Rightarrow> Server \<Rightarrow> bool" where
  "nodes_ready c s \<longleftrightarrow>
     length (cl_tun_buffer c) = 4096 \<and> length (sv_tun_buffer s) = 4096 \<and>
     length (cl_recv_buffer c) = 4096 \<and> length (sv_recv_buffer s) = 4096 \<and>
     UdpSocket.IsOpen (cl_socket c) \<and> UdpSocket.IsOpen (sv_socket s) \<and>
     cl_use_tun c \<and> tun_IsOpen (cl_tun c) \<and> sv_use_tun s \<and> tun_IsOpen (sv_tun s)"

text \<open>
  The first message goes out, arrives at the server's socket, and what the server sends back
  arrives at the client's.
\<close>

definition connect_nodes ::
  "'k crypto \<Rightarrow> hs_constants \<Rightarrow> sockaddr_in \<Rightarrow> node_env \<Rightarrow> node_env \<Rightarrow> node_env \<Rightarrow> Client \<times> Server \<Rightarrow>
   (Client \<times> Server) option" where
  "connect_nodes lib g from e1 e2 e3 st = (case st of (c, s) \<Rightarrow> do {
     c1 \<leftarrow> SendInitiation lib g e1 c;
     s1 \<leftarrow> sv_arrivals lib g e2 from (drop (length (cl_sent c)) (cl_sent c1)) s;
     Some (cl_arrivals lib e3 (endpoint_sockaddr (cl_server_endpoint c))
       (drop (length (sv_sent s)) (sv_sent s1)) c1, s1)
   })"

lemma message_codes:
  "wf_InitiationMsg m \<Longrightarrow> (ucast (SerializeInitiation m ! 0) :: u32) = message_code Initiation"
  "wf_ResponseMsg r \<Longrightarrow> (ucast (SerializeResponse r ! 0) :: u32) = message_code Response"
  by (simp_all add: SerializeInitiation_concat SerializeResponse_concat code_byte)

text \<open>Both messages as they arrive at the sockets.\<close>

lemma server_receives_initiation:
  assumes laws: "crypto_laws lib" and match: "nodes_match lib c s" and ready: "nodes_ready c s"
    and view: "honest_view lib (initiator_peer lib c) (fresh_peer s (endpoint_of a)) seed v e dk"
    and fresh: "fresh_initiation (iv_time v) (ne_sys_now env) (fresh_peer s (endpoint_of a))"
    and free: "Some free \<in> set (ev_index_draws (ne_hs env))" "free \<noteq> 0" "sv_index_table s free = None"
  obtains w e' j table peers buf where "honest_rview lib g (fresh_peer s (endpoint_of a)) (ne_hs env) v e' w"
    and "answer_key lib g env (SerializeInitiation (initiation_msg lib g v i)) (endpoint_of a) s = Some (rC6 lib w)"
    and "length buf = 4096"
    and "sv_receive lib g env (datagram_io a (SerializeInitiation (initiation_msg lib g v i))) s = Some
      (s\<lparr>sv_recv_buffer := buf, sv_sent := sv_sent s @ [(endpoint_sockaddr (endpoint_of a),
           SerializeResponse (response_msg lib w j i))],
         sv_index_table := table, sv_peers := peers,
         sv_sessions := snd (ActivateSession (ne_sys_now env) (ne_jitter env) (sv_sessions s)
           (new_keys lib (rC6 lib w) False j i) (endpoint_of a))\<rparr>)"
proof -
  let ?m = "SerializeInitiation (initiation_msg lib g v i)"
  let ?s = "s\<lparr>sv_recv_buffer := write_at 0 ?m (sv_recv_buffer s)\<rparr>" and ?R = "fresh_peer s (endpoint_of a)"
  have R: "fresh_peer ?s (endpoint_of a) = ?R" by (simp add: fresh_peer_def)
  have r: "UdpSocket.IsOpen (sv_socket s)" "length (sv_recv_buffer s) = 4096" using ready by (simp_all add: nodes_ready_def)
  have K: "answer_key lib g env data b ?s = answer_key lib g env data b s" for data b
    by (simp add: answer_key_def fresh_peer_def)
  note m = nodes_peers_match [OF laws match]
  have wf: "wf_InitiationMsg (initiation_msg lib g v i)"
    using view by (simp add: honest_view_def wf_initiation_msg [OF laws])
  have len: "length ?m = 3620" by (rule length_SerializeInitiation [OF wf])
  then have w: "?m \<noteq> []" "length ?m \<le> 4096" by auto
  have rcv: "sv_receive lib g env (datagram_io a ?m) s = sv_HandleInitiation lib g env ?m (endpoint_of a) ?s"
    by (rule sv_receive_datagram(2) [OF r w message_codes(1) [OF wf]])
  have s1: "peers_match lib (initiator_peer lib c) (fresh_peer ?s (endpoint_of a))" "wf_Peer (fresh_peer ?s (endpoint_of a))"
    "honest_view lib (initiator_peer lib c) (fresh_peer ?s (endpoint_of a)) seed v e dk"
    "fresh_initiation (iv_time v) (ne_sys_now env) (fresh_peer ?s (endpoint_of a))" "sv_index_table ?s free = None"
    using m(1,3) view fresh free(3) by (simp_all add: R)
  show thesis
    by (rule server_answers [OF laws s1(1-4) free(1,2) s1(5), where g = g and i = i])
      (rule that [where buf = "write_at 0 ?m (sv_recv_buffer s)"],
        simp_all add: R K rcv emitted_eq r receive_io(5) [OF r w])
qed

lemma client_receives_response:
  assumes laws: "crypto_laws lib" and match: "peers_match lib I R"
    and view: "honest_view lib I R seed v e dk" and rview: "honest_rview lib g R ev v e' w"
    and op: "UdpSocket.IsOpen (cl_socket c)" "length (cl_recv_buffer c) = 4096"
    and peer: "cl_peer c = initiated lib g v e dk i I"
    and entry: "cl_index_table c i = Some \<lparr>e_peer = Some client_peer_addr, e_handshake = Some client_peer_addr, e_keypair = None\<rparr>"
  shows "\<exists>p t buf. length buf = 4096 \<and>
    cl_receive lib env (datagram_io a (SerializeResponse (response_msg lib w j i))) c =
      c\<lparr>cl_recv_buffer := buf, cl_peer := p, cl_index_table := t,
        cl_sessions := snd (ActivateSession (ne_sys_now env) (ne_jitter env) (cl_sessions c)
          (new_keys lib (rC6 lib w) True i j) (endpoint_of a)),
        cl_active_session_index := if good_key lib (rC6 lib w) then i else cl_active_session_index c,
        cl_has_session := good_key lib (rC6 lib w) \<or> cl_has_session c\<rparr>"
proof -
  let ?m = "SerializeResponse (response_msg lib w j i)"
  let ?c = "c\<lparr>cl_recv_buffer := write_at 0 ?m (cl_recv_buffer c)\<rparr>"
  have wf: "wf_ResponseMsg (response_msg lib w j i)"
    using rview by (simp add: honest_rview_def wf_response_msg [OF laws])
  have len: "length ?m = 2268" by (rule length_SerializeResponse [OF wf])
  then have w: "?m \<noteq> []" "length ?m \<le> 4096" by auto
  have rcv: "cl_receive lib env (datagram_io a ?m) c = cl_HandleResponse lib env ?m (endpoint_of a) ?c"
    by (rule cl_receive_datagram(2) [OF op w message_codes(2) [OF wf]])
  have "cl_peer ?c = initiated lib g v e dk i I" "cl_index_table ?c i =
      Some \<lparr>e_peer = Some client_peer_addr, e_handshake = Some client_peer_addr, e_keypair = None\<rparr>"
    using peer entry by simp_all
  from client_finishes [OF laws match view rview this, of env j "endpoint_of a"]
  obtain p t where "cl_HandleResponse lib env ?m (endpoint_of a) ?c = ?c\<lparr>cl_peer := p, cl_index_table := t,
      cl_sessions := snd (ActivateSession (ne_sys_now env) (ne_jitter env) (cl_sessions ?c)
        (new_keys lib (rC6 lib w) True i j) (endpoint_of a)),
      cl_active_session_index := if good_key lib (rC6 lib w) then i else cl_active_session_index ?c,
      cl_has_session := good_key lib (rC6 lib w) \<or> cl_has_session ?c\<rparr>" by blast
  then show ?thesis
    using receive_io(5) [OF op w]
    by (intro exI [of _ p] exI [of _ t] exI [of _ "write_at 0 ?m (cl_recv_buffer c)"]) (simp add: rcv)
qed

lemma link_new_sessions:
  "send_link (new_session n r (new_keys lib C True i j) p) (new_session n' r' (new_keys lib C False j i) p')"
  "send_link (new_session n' r' (new_keys lib C False j i) p') (new_session n r (new_keys lib C True i j) p)"
  by (simp_all add: send_link_def new_session_def new_keys_def Session_init_def)

lemma new_session_simps:
  "ss_receiver_index (new_session n r (new_keys lib C b i j) p) = j"
  "ss_send_nonce (new_session n r (new_keys lib C b i j) p) = 0"
  by (simp_all add: new_session_def new_keys_def Session_init_def)

lemma nodes_get_connected:
  assumes laws: "crypto_laws lib" and match: "nodes_match lib c s" and ready: "nodes_ready c s"
    and tai: "length (cl_tai c) = 12" "tai_secs_nat (cl_tai c) + 1 < 2 ^ 64"
    and fc: "Some fc \<in> set (ev_index_draws (ne_hs e1))" "fc \<noteq> 0" "cl_index_table c fc = None"
    and fs: "Some fs \<in> set (ev_index_draws (ne_hs e2))" "fs \<noteq> 0" "sv_index_table s fs = None"
  shows "\<exists>c1 d data C c' s'. SendInitiation lib g e1 c = Some c1 \<and> cl_sent c1 = cl_sent c @ [(d, data)] \<and>
    answer_key lib g e2 data (endpoint_of from) s = Some C \<and>
    connect_nodes lib g from e1 e2 e3 (c, s) = Some (c', s') \<and>
    (if good_key lib C
     then \<exists>j. connected (cl_active_session_index c') j (unat kRejectAfterMessages) c' s'
     else cl_sessions c' = cl_sessions c \<and> sv_sessions s' = sv_sessions s)"
proof -
  have r: "UdpSocket.IsOpen (cl_socket c)" "length (cl_recv_buffer c) = 4096" using ready by (simp_all add: nodes_ready_def)
  let ?srv = "endpoint_sockaddr (cl_server_endpoint c)" and ?I = "initiator_peer lib c"
  note m = nodes_peers_match(1) [OF laws match, of "endpoint_of from"]
  obtain v e dk i where
    view: "honest_view lib ?I (fresh_peer s (endpoint_of from)) (ev_encap_seed (ne_hs e1)) v e dk"
    and time: "iv_time v = fst (tai_Now (ev_now (ne_hs e1)) (cl_tai c))"
    and send: "SendInitiation lib g e1 c = Some (c\<lparr>cl_peer := initiated lib g v e dk i ?I,
      cl_index_table := (cl_index_table c)(i \<mapsto> \<lparr>e_peer = Some client_peer_addr,
        e_handshake = Some client_peer_addr, e_keypair = None\<rparr>),
      cl_tai := fst (tai_Now (ev_now (ne_hs e1)) (cl_tai c)),
      cl_sent := cl_sent c @ [(?srv, SerializeInitiation (initiation_msg lib g v i))]\<rparr>)" (is "_ = Some ?c1")
    by (rule client_initiates [OF laws match tai fc r(1), where sender = "endpoint_of from" and g = g])
  have fresh: "fresh_initiation (iv_time v) (ne_sys_now e2) (fresh_peer s (endpoint_of from))"
    using fresh_for_server [OF tai] time by simp
  obtain w e' j table peers buf where rview: "honest_rview lib g (fresh_peer s (endpoint_of from)) (ne_hs e2) v e' w"
    and key: "answer_key lib g e2 (SerializeInitiation (initiation_msg lib g v i)) (endpoint_of from) s = Some (rC6 lib w)"
    and buf: "length buf = 4096"
    and answer: "sv_receive lib g e2 (datagram_io from (SerializeInitiation (initiation_msg lib g v i))) s = Some
      (s\<lparr>sv_recv_buffer := buf, sv_sent := sv_sent s @ [(endpoint_sockaddr (endpoint_of from),
           SerializeResponse (response_msg lib w j i))],
         sv_index_table := table, sv_peers := peers,
         sv_sessions := snd (ActivateSession (ne_sys_now e2) (ne_jitter e2) (sv_sessions s)
           (new_keys lib (rC6 lib w) False j i) (endpoint_of from))\<rparr>)"
    by (rule server_receives_initiation [OF laws match ready view fresh fs, where g = g and i = i])
  have "UdpSocket.IsOpen (cl_socket ?c1)" "length (cl_recv_buffer ?c1) = 4096"
    "cl_peer ?c1 = initiated lib g v e dk i ?I" "cl_index_table ?c1 i =
      Some \<lparr>e_peer = Some client_peer_addr, e_handshake = Some client_peer_addr, e_keypair = None\<rparr>"
    using r by simp_all
  note fin = client_receives_response [OF laws m view rview this, of e3 ?srv j]
  have "\<exists>c' s'. connect_nodes lib g from e1 e2 e3 (c, s) = Some (c', s') \<and>
    (if good_key lib (rC6 lib w)
     then \<exists>j. connected (cl_active_session_index c') j (unat kRejectAfterMessages) c' s'
     else cl_sessions c' = cl_sessions c \<and> sv_sessions s' = sv_sessions s)"
    using send answer fin buf ready
    by (cases "good_key lib (rC6 lib w)")
       (auto simp: connect_nodes_def nodes_ready_def activate_new_keys connected_def sm_Lookup_store new_session_simps
         link_new_sessions)
  with send key show ?thesis
    by - (rule exI [of _ ?c1], rule exI [of _ ?srv], rule exI [of _ "SerializeInitiation (initiation_msg lib g v i)"],
        rule exI [of _ "rC6 lib w"], simp)
qed

text \<open>
  C2. A client and a server configured for each other get connected: with libraries that behave as
  documented, a free index on either side and a time stamp that can still grow, the client sends
  one message, the server's handler derives a key from that message, and the client's first
  message, the server's handler and the client's handler of the answer, run through both
  sockets, end with sessions that are linked both ways, so that the tunnel works up to its
  message limit. The one exception is that this very key gives a transport key of zeros: then
  both ends refuse and their tables are as before.
\<close>

theorem tunnel_established:
  assumes "crypto_laws lib" and "nodes_match lib c s" and "nodes_ready c s"
    and "length (cl_tai c) = 12" "tai_secs_nat (cl_tai c) + 1 < 2 ^ 64"
    and "Some fc \<in> set (ev_index_draws (ne_hs e1))" "fc \<noteq> 0" "cl_index_table c fc = None"
    and "Some fs \<in> set (ev_index_draws (ne_hs e2))" "fs \<noteq> 0" "sv_index_table s fs = None"
  shows "\<exists>c1 d data C c' s'. SendInitiation lib g e1 c = Some c1 \<and> cl_sent c1 = cl_sent c @ [(d, data)] \<and>
    answer_key lib g e2 data (endpoint_of from) s = Some C \<and>
    connect_nodes lib g from e1 e2 e3 (c, s) = Some (c', s') \<and>
    (if good_key lib C
     then \<exists>j. connected (cl_active_session_index c') j (unat kRejectAfterMessages) c' s'
     else cl_sessions c' = cl_sessions c \<and> sv_sessions s' = sv_sessions s)"
  using assms by (rule nodes_get_connected)

text \<open>The example nodes with keys: those of the toy library.\<close>

definition keyed_client :: Client where
  "keyed_client = cl_SetServerStaticKeys (replicate 32 2) (replicate 1184 6)
     (cl_SetStaticKeys (replicate 32 1) (replicate 32 1) (replicate 2400 5) (replicate 1184 5) example_client)"

definition keyed_server :: Server where
  "keyed_server = sv_SetStaticKeys (replicate 32 2) (replicate 32 2) (replicate 2400 6) (replicate 1184 6) example_server"

lemmas keyed_defs = keyed_client_def keyed_server_def cl_SetServerStaticKeys_def cl_SetStaticKeys_def
  sv_SetStaticKeys_def example_client_def example_server_def Client_init_def Server_init_def

lemma keyed_match: "nodes_match toy keyed_client keyed_server"
  by (simp add: nodes_match_def keyed_defs toy_x25519_pair toy_mlkem_pair Peer_init_def)

lemma keyed_ready: "nodes_ready keyed_client keyed_server"
  by (simp add: nodes_ready_def keyed_defs open_defs)

lemma keyed_tai: "length (cl_tai keyed_client) = 12" "tai_secs_nat (cl_tai keyed_client) + 1 < 2 ^ 64"
  by (simp_all add: keyed_defs tai_secs_nat_def Tai64nStamp_bytes be_nat_rev le_nat_le_bytes)

lemma toy_good: "good_key toy C"
proof -
  have "\<not> all_zero (pad_to 32 (1 # xs))" for xs by (simp add: pad_to_def all_zero_def)
  then show ?thesis by (simp add: good_key_def toy_def numeral_2_eq_2 pad_to_def all_zero_def)
qed

theorem tunnel_established_witness:
  "\<exists>c' s' j. connect_nodes toy (InitHandshakeConstants toy hs_constants_start)
      \<lparr>sin_addr = [10, 0, 0, 9], sin_port = [0, 1]\<rparr> (example_env [4]) (example_env [9]) (example_env [])
      (keyed_client, keyed_server) = Some (c', s') \<and>
    connected (cl_active_session_index c') j (unat kRejectAfterMessages) c' s'"
proof -
  have "Some 4 \<in> set (ev_index_draws (ne_hs (example_env [4])))" "(4 :: u32) \<noteq> 0" "cl_index_table keyed_client 4 = None"
    "Some 9 \<in> set (ev_index_draws (ne_hs (example_env [9])))" "(9 :: u32) \<noteq> 0" "sv_index_table keyed_server 9 = None"
    by (simp_all add: example_env_def keyed_defs IndexTable_init_def)
  from tunnel_established [OF toy_crypto_laws keyed_match keyed_ready keyed_tai this]
  show ?thesis by (fastforce simp: toy_good)
qed

section \<open>The first message again\<close>

text \<open>The same datagram, over and over: each copy meets another reading of clocks and sources.\<close>

fun replays ::
  "'k crypto \<Rightarrow> hs_constants \<Rightarrow> bytes \<Rightarrow> (Endpoint \<times> node_env) list \<Rightarrow> Server \<Rightarrow> Server option" where
  "replays lib g data [] s = Some s"
| "replays lib g data ((a, e) # es) s = sv_HandleInitiation lib g e data a s \<bind> replays lib g data es"

definition same_keys :: "Server \<Rightarrow> Server \<Rightarrow> bool" where
  "same_keys s s' \<longleftrightarrow> sv_local_x25519_priv s' = sv_local_x25519_priv s \<and> sv_local_x25519_pub s' = sv_local_x25519_pub s \<and>
     sv_local_mlkem_dk s' = sv_local_mlkem_dk s \<and> sv_local_mlkem_ek s' = sv_local_mlkem_ek s"

lemma same_keys_match: "same_keys s s' \<Longrightarrow> nodes_match lib c s \<Longrightarrow> nodes_match lib c s'"
  by (simp add: same_keys_def nodes_match_def)

lemma same_keys_view:
  "same_keys s s' \<Longrightarrow> honest_view lib I (fresh_peer s a) seed v e dk \<Longrightarrow> honest_view lib I (fresh_peer s' b) seed v e dk"
  by (simp add: same_keys_def honest_view_def fresh_peer_def)

lemma same_keys_answer: "same_keys s s' \<Longrightarrow> answer_key lib g env data a s' = answer_key lib g env data a s"
  by (simp add: same_keys_def answer_key_def fresh_peer_def)

lemma replay_step:
  assumes laws: "crypto_laws lib" and match: "nodes_match lib c s" and ok: "server_ok s"
    and op: "UdpSocket.IsOpen (sv_socket s)"
    and view: "\<And>b. honest_view lib (initiator_peer lib c) (fresh_peer s b) seed v e dk"
    and tai: "length t = 12" "tai_secs_nat t + 1 < 2 ^ 64" and time: "iv_time v = fst (tai_Now now t)"
    and free: "card (used_indices (sv_index_table s)) < card (offered env)"
  shows "\<exists>s'. sv_HandleInitiation lib g env (SerializeInitiation (initiation_msg lib g v i)) a s = Some s' \<and>
    server_ok s' \<and> same_keys s s' \<and> sv_socket s' = sv_socket s \<and> length (sv_sent s') = length (sv_sent s) + 1 \<and>
    card (used_indices (sv_index_table s')) \<le> card (used_indices (sv_index_table s)) + 1 \<and>
    (\<exists>C. answer_key lib g env (SerializeInitiation (initiation_msg lib g v i)) a s = Some C \<and>
      card (sm.keys_of (sv_sessions s')) = card (sm.keys_of (sv_sessions s)) + (if good_key lib C then 1 else 0))"
proof -
  obtain f where f: "Some f \<in> set (ev_index_draws (ne_hs env))" "f \<noteq> 0" "sv_index_table s f = None"
    using free by (rule offered_free)
  note m = nodes_peers_match [OF laws match]
  have fresh: "fresh_initiation (iv_time v) (ne_sys_now env) (fresh_peer s a)"
    using fresh_for_server [OF tai] time by simp
  obtain w e' j table peers where
    key: "answer_key lib g env (SerializeInitiation (initiation_msg lib g v i)) a s = Some (rC6 lib w)" and
    j: "sv_index_table s j = None" and h:
    "sv_HandleInitiation lib g env (SerializeInitiation (initiation_msg lib g v i)) a s = Some
      (s\<lparr>sv_sent := sv_sent s @ emitted (sv_socket s) a (SerializeResponse (response_msg lib w j i)),
         sv_index_table := table, sv_peers := peers,
         sv_sessions := snd (ActivateSession (ne_sys_now env) (ne_jitter env) (sv_sessions s)
           (new_keys lib (rC6 lib w) False j i) a)\<rparr>)" (is "_ = Some ?s'")
    by (rule server_answers [OF laws m(1,3) view fresh f, where g = g and i = i])
  note eff = HandleInitiation_effect [OF h]
  have "j \<notin> sm.keys_of (sv_sessions s)" using ok j by (fastforce simp: server_ok_def used_indices_def)
  then have "card (sm.keys_of (sv_sessions ?s')) =
      card (sm.keys_of (sv_sessions s)) + (if good_key lib (rC6 lib w) then 1 else 0)"
    by (simp add: activate_new_keys keys_of_store)
  then show ?thesis
    using h op server_ok_HandleInitiation [OF ok h] eff key
    by (simp add: same_keys_def emitted_eq)
qed

lemma replays_accepted:
  assumes laws: "crypto_laws lib" and match: "nodes_match lib c s" and ok: "server_ok s"
    and op: "UdpSocket.IsOpen (sv_socket s)"
    and view: "\<And>b. honest_view lib (initiator_peer lib c) (fresh_peer s b) seed v e dk"
    and tai: "length t = 12" "tai_secs_nat t + 1 < 2 ^ 64" and time: "iv_time v = fst (tai_Now now t)"
    and free: "\<forall>e \<in> snd ` set es. card (used_indices (sv_index_table s)) + length es \<le> card (offered e)"
    and data: "data = SerializeInitiation (initiation_msg lib g v i)"
  shows "\<exists>s' Cs. replays lib g data es s = Some s' \<and> server_ok s' \<and>
    map (\<lambda>(a, e). answer_key lib g e data a s) es = map Some Cs \<and>
    length (sv_sent s') = length (sv_sent s) + length es \<and>
    card (sm.keys_of (sv_sessions s')) = card (sm.keys_of (sv_sessions s)) + length (filter (good_key lib) Cs)"
  using match ok op view free
proof (induction es arbitrary: s)
  case (Cons x es)
  obtain a env where x: "x = (a, env)" by (cases x)
  have "card (used_indices (sv_index_table s)) < card (offered env)" using Cons.prems(5) x by simp
  from replay_step [OF laws Cons.prems(1-4) tai time this, of g i a] data
  obtain s1 C where one: "sv_HandleInitiation lib g env data a s = Some s1"
    "server_ok s1" "same_keys s s1" "sv_socket s1 = sv_socket s" "length (sv_sent s1) = length (sv_sent s) + 1"
    "card (used_indices (sv_index_table s1)) \<le> card (used_indices (sv_index_table s)) + 1"
    "answer_key lib g env data a s = Some C"
    "card (sm.keys_of (sv_sessions s1)) = card (sm.keys_of (sv_sessions s)) + (if good_key lib C then 1 else 0)" by blast
  have "\<forall>e \<in> snd ` set es. card (used_indices (sv_index_table s1)) + length es \<le> card (offered e)"
    using Cons.prems(5) one(6) by fastforce
  from Cons.IH [OF same_keys_match [OF one(3) Cons.prems(1)] one(2) _ same_keys_view [OF one(3) Cons.prems(4)] this]
  obtain s' Cs where "replays lib g data es s1 = Some s'" "server_ok s'"
    "map (\<lambda>(a, e). answer_key lib g e data a s1) es = map Some Cs" "length (sv_sent s') = length (sv_sent s1) + length es"
    "card (sm.keys_of (sv_sessions s')) = card (sm.keys_of (sv_sessions s1)) + length (filter (good_key lib) Cs)"
    using one(4) Cons.prems(3) by auto
  then show ?case
    using one same_keys_answer [OF one(3), of lib g] by (intro exI [of _ s'] exI [of _ "C # Cs"]) (simp add: x)
qed simp

text \<open>
  C38. The server does not recognise a first message it has seen. However often the client's
  datagram arrives, from whatever addresses and at whatever times, the server answers every
  copy, and files one more session for each copy, except those for which the key it derives in
  answering gives a transport key of zeros: the time stamp and rate checks of the handshake
  compare with a peer made for this datagram alone.
\<close>

theorem initiation_replays_accepted:
  assumes "crypto_laws lib" and "nodes_match lib c s" and "server_ok s"
    and "UdpSocket.IsOpen (cl_socket c)" and "UdpSocket.IsOpen (sv_socket s)"
    and "length (cl_tai c) = 12" and "tai_secs_nat (cl_tai c) + 1 < 2 ^ 64"
    and "card (used_indices (cl_index_table c)) < card (offered e1)"
    and "\<forall>e \<in> snd ` set es. card (used_indices (sv_index_table s)) + length es \<le> card (offered e)"
  shows "\<exists>c' d data s' Cs. SendInitiation lib g e1 c = Some c' \<and> cl_sent c' = cl_sent c @ [(d, data)] \<and>
    replays lib g data es s = Some s' \<and> server_ok s' \<and>
    map (\<lambda>(a, e). answer_key lib g e data a s) es = map Some Cs \<and>
    length (sv_sent s') = length (sv_sent s) + length es \<and>
    card (sm.keys_of (sv_sessions s')) = card (sm.keys_of (sv_sessions s)) + length (filter (good_key lib) Cs)"
proof -
  obtain f where f: "Some f \<in> set (ev_index_draws (ne_hs e1))" "f \<noteq> 0" "cl_index_table c f = None"
    using assms(8) by (rule offered_free)
  let ?any = "\<lparr>ep_ip = IPv4_default, ep_port = 0\<rparr>"
  obtain v e dk i where view: "honest_view lib (initiator_peer lib c) (fresh_peer s ?any) (ev_encap_seed (ne_hs e1)) v e dk"
    and time: "iv_time v = fst (tai_Now (ev_now (ne_hs e1)) (cl_tai c))"
    and send: "SendInitiation lib g e1 c = Some (c\<lparr>cl_peer := initiated lib g v e dk i (initiator_peer lib c),
      cl_index_table := (cl_index_table c)(i \<mapsto> \<lparr>e_peer = Some client_peer_addr,
        e_handshake = Some client_peer_addr, e_keypair = None\<rparr>),
      cl_tai := fst (tai_Now (ev_now (ne_hs e1)) (cl_tai c)),
      cl_sent := cl_sent c @ [(endpoint_sockaddr (cl_server_endpoint c),
        SerializeInitiation (initiation_msg lib g v i))]\<rparr>)"
    by (rule client_initiates [OF assms(1,2,6,7) f assms(4), where g = g and sender = ?any])
  have "honest_view lib (initiator_peer lib c) (fresh_peer s b) (ev_encap_seed (ne_hs e1)) v e dk" for b
    using same_keys_view [OF _ view, of s b] by (simp add: same_keys_def)
  from replays_accepted [OF assms(1,2,3,5) this assms(6,7) time assms(9) refl, of g i] send
  show ?thesis by auto
qed

theorem initiation_replays_accepted_witness:
  "\<exists>c' d data s'. SendInitiation toy hs_constants_start (example_env [4]) keyed_client = Some c' \<and>
    cl_sent c' = [(d, data)] \<and>
    replays toy hs_constants_start data [(\<lparr>ep_ip = IPv4_default, ep_port = 5\<rparr>, example_env [4, 5]),
      (\<lparr>ep_ip = IPv4_default, ep_port = 6\<rparr>, example_env [5, 6])] keyed_server = Some s' \<and>
    card (sm.keys_of (sv_sessions s')) = 2"
proof -
  let ?es = "[(\<lparr>ep_ip = IPv4_default, ep_port = 5\<rparr>, example_env [4, 5]),
      (\<lparr>ep_ip = IPv4_default, ep_port = 6\<rparr>, example_env [5, 6])]"
  have z: "sm.keys_of (sv_sessions keyed_server) = {}" "cl_sent keyed_client = []" "sv_peers keyed_server = (\<lambda>_. None)"
    "used_indices (cl_index_table keyed_client) = {}" "used_indices (sv_index_table keyed_server) = {}"
    by (simp_all add: keyed_defs sm.keys_of_ops used_indices_def IndexTable_init_def)
  have "server_ok keyed_server"
    by (simp add: server_ok_def keyed_defs table_ok_init sm.keys_of_ops)
  moreover have "UdpSocket.IsOpen (cl_socket keyed_client)" "UdpSocket.IsOpen (sv_socket keyed_server)"
    by (simp_all add: keyed_defs open_defs)
  ultimately obtain c' d data s' Cs where r: "SendInitiation toy hs_constants_start (example_env [4]) keyed_client = Some c'"
    "cl_sent c' = [(d, data)]" "replays toy hs_constants_start data ?es keyed_server = Some s'"
    "map (\<lambda>(a, e). answer_key toy hs_constants_start e data a keyed_server) ?es = map Some Cs"
    "card (sm.keys_of (sv_sessions s')) = length (filter (good_key toy) Cs)"
    using initiation_replays_accepted [OF toy_crypto_laws keyed_match _ _ _ keyed_tai, of "example_env [4]" ?es
        hs_constants_start] z
    by fastforce
  have "length Cs = 2" using arg_cong [OF r(4), of length] by simp
  then show ?thesis using r(1-3,5) by (auto simp: toy_good)
qed

end
