(* ===== verification/Programs.thy ===== *)
theory Programs
  imports KeyConfig NodeConfig Establish
begin

text \<open>
  \<open>client/main.cpp\<close> and \<open>server/main.cpp\<close> up to the event loops: the two programs read or make
  their files and set up their node. The results of the writes and of the system calls of
  \<open>Init\<close>, and the seeds of the key generators, are arguments. A node that comes out is the one
  the event loop runs on.
\<close>

record program_env =
  pe_config_write :: write_outcome
  pe_keys_write :: write_outcome
  pe_public_write :: write_outcome
  pe_x25519_seed :: bytes
  pe_mlkem_seed :: bytes
  pe_sys :: init_sys

section \<open>The client program\<close>

text \<open>The loop of \<open>LoadServerPublicKeys\<close>; its state is the two flags and the two keys.\<close>

definition LoadServerPublicKeys_line ::
  "bool \<times> bool \<times> bytes \<times> bytes \<Rightarrow> string \<Rightarrow> bool \<times> bool \<times> bytes \<times> bytes" where
  "LoadServerPublicKeys_line st line =
     (case st of (got_x25519, got_mlkem, x25519_pub, mlkem_ek) \<Rightarrow>
      case parse_line line of
        None \<Rightarrow> st
      | Some (key, val) \<Rightarrow>
          if key = ''x25519_public'' then
            (case FromHex val x25519_pub of (ok, b) \<Rightarrow> (ok, got_mlkem, b, mlkem_ek))
          else if key = ''mlkem_ek'' then
            (case FromHex val mlkem_ek of (ok, b) \<Rightarrow> (got_x25519, ok, x25519_pub, b))
          else st)"

definition LoadServerPublicKeys :: "string \<Rightarrow> files \<Rightarrow> bytes \<Rightarrow> bytes \<Rightarrow> bool \<times> bytes \<times> bytes" where
  "LoadServerPublicKeys path fs x25519_pub mlkem_ek =
     (case fs path of
        None \<Rightarrow> (False, x25519_pub, mlkem_ek)
      | Some txt \<Rightarrow>
          let (got_x25519, got_mlkem, x25519_pub, mlkem_ek) =
            foldl LoadServerPublicKeys_line (False, False, x25519_pub, mlkem_ek) (getlines txt) in
          if \<not> got_x25519 \<or> \<not> got_mlkem then (False, x25519_pub, mlkem_ek) else (True, x25519_pub, mlkem_ek))"

definition client_main :: "'k crypto \<Rightarrow> program_env \<Rightarrow> files \<Rightarrow> (Client \<times> hs_constants) option \<times> files" where
  "client_main lib env fs =
     (case client_Parse (pe_config_write env) ''client.conf'' fs of
        (None, fs) \<Rightarrow> (None, fs)
      | (Some cfg, fs) \<Rightarrow>
          let server_ip = cc_server_ip cfg;
              server_port = cc_server_port cfg;
              g = InitHandshakeConstants lib hs_constants_start in
          (case LoadOrGenerateKeys lib (pe_x25519_seed env) (pe_mlkem_seed env) (pe_keys_write env) ''client_keys.conf'' fs of
             (None, fs) \<Rightarrow> (None, fs)
           | (Some client_keys, fs) \<Rightarrow>
               let (ok, server_x25519_pub, server_mlkem_ek) =
                     LoadServerPublicKeys ''server_pub.conf'' fs (zeros 32) (zeros 1184) in
               if \<not> ok then (None, fs)
               else
                 let client = cl_SetTunInterface ''tun0''
                       (cl_SetServerStaticKeys server_x25519_pub server_mlkem_ek
                         (cl_SetStaticKeys (kc_x25519_priv client_keys) (kc_x25519_pub client_keys)
                           (kc_mlkem_dk client_keys) (kc_mlkem_ek client_keys) Client_init));
                     (ok, client) = cl_Init (pe_sys env) server_ip server_port client in
                 (if \<not> ok then None else Some (client, g), fs)))"

section \<open>The server program\<close>

text \<open>The result also holds what was printed.\<close>

definition server_main ::
  "'k crypto \<Rightarrow> program_env \<Rightarrow> files \<Rightarrow> (Server \<times> hs_constants) option \<times> string \<times> files" where
  "server_main lib env fs =
     (let g = InitHandshakeConstants lib hs_constants_start in
      case LoadOrGenerateKeys lib (pe_x25519_seed env) (pe_mlkem_seed env) (pe_keys_write env) ''server_keys.conf'' fs of
        (None, fs) \<Rightarrow> (None, [], fs)
      | (Some keys, fs) \<Rightarrow>
          let out = PrintPublicKeys keys;
              (saved, fs) = SavePublicKeys (pe_public_write env) ''server_pub.conf'' keys fs in
          (case server_Parse (pe_config_write env) ''server.conf'' fs of
             (None, fs) \<Rightarrow> (None, out, fs)
           | (Some cfg, fs) \<Rightarrow>
               let server = sv_SetStaticKeys (kc_x25519_priv keys) (kc_x25519_pub keys) (kc_mlkem_dk keys) (kc_mlkem_ek keys)
                     (sv_SetTunInterface ''pqvpn0'' (IPv4_octets 10 8 0 1)
                       (sv_SetPollTimeoutMs 250 (sv_SetPort (sc_port cfg)
                         (sv_SetBindAddress (IPv4_dotted (sc_bind_ip cfg)) Server_init))));
                   (ok, server, g) = sv_Init lib g (pe_sys env) server in
               if \<not> ok then (None, out, fs)
               else
                 let (ok, server) = sv_Run server in
                 (if \<not> ok then None else Some (server, g), out, fs)))"

section \<open>What initialisation keeps\<close>

definition client_frame where
  "client_frame c = ((cl_local_x25519_priv c, cl_local_x25519_pub c, cl_local_mlkem_dk c, cl_local_mlkem_ek c),
     (cl_server_x25519_pub c, cl_server_mlkem_ek c, cl_peer c, cl_tai c),
     (cl_index_table c, cl_sessions c, cl_tun_buffer c, cl_recv_buffer c))"

definition server_frame where
  "server_frame s = ((sv_local_x25519_priv s, sv_local_x25519_pub s, sv_local_mlkem_dk s, sv_local_mlkem_ek s),
     (sv_index_table s, sv_sessions s, sv_peers s, sv_ip_to_session s), (sv_tun_buffer s, sv_recv_buffer s))"

lemma client_frame_Init: "client_frame (snd (cl_Init sys ip port c)) = client_frame c"
  by (simp add: cl_Init_def cl_init_tun_def client_frame_def Let_def split: prod.split)

lemma server_frame_Init: "server_frame (fst (snd (sv_Init lib g sys s))) = server_frame s"
  by (simp add: sv_Init_def sv_init_tun_def CleanupResources_def server_frame_def Let_def split: prod.split)

lemma server_frame_Run: "server_frame (snd (sv_Run s)) = server_frame s"
  by (simp add: sv_Run_def server_frame_def)

section \<open>The public file\<close>

lemma public_lines:
  "getlines (public_keys_text k) =
     [''# PostQuantumVPN Server Public Keys'', ''# Copy this file to the client machine.'', [],
      ''x25519_public = '' @ ToHex (kc_x25519_pub k), ''mlkem_ek = '' @ ToHex (kc_mlkem_ek k)]"
proof -
  have step: "nl \<notin> set l \<Longrightarrow> getlines (l @ [nl] @ rest) = l # getlines rest" for l rest
    using getlines_line by simp
  have last: "nl \<notin> set l \<Longrightarrow> getlines (l @ [nl]) = [l]" for l
    using getlines_line [of l "[]"] by simp
  have blank: "getlines ([nl] @ rest) = [] # getlines rest" for rest
    using getlines_line [of "[]" rest] by simp
  show ?thesis unfolding public_keys_text_def
    by (subst step, simp, subst step, simp, subst blank, subst step, simp add: nl_ToHex, subst last, simp_all add: nl_ToHex)
qed

lemma LoadServerPublicKeys_saved:
  assumes "fs path = Some (public_keys_text k)" and "wf_KeyConfig k" and "length x = 32" and "length e = 1184"
  shows "LoadServerPublicKeys path fs x e = (True, kc_x25519_pub k, kc_mlkem_ek k)"
proof -
  have k: "length (kc_x25519_pub k) = 32" "length (kc_mlkem_ek k) = 1184"
    using assms(2) by (simp_all add: wf_KeyConfig_def)
  then have "kc_x25519_pub k \<noteq> []" "kc_mlkem_ek k \<noteq> []" by auto
  then have "parse_line (''x25519_public = '' @ ToHex (kc_x25519_pub k)) = Some (''x25519_public'', ToHex (kc_x25519_pub k))"
    "parse_line (''mlkem_ek = '' @ ToHex (kc_mlkem_ek k)) = Some (''mlkem_ek'', ToHex (kc_mlkem_ek k))"
    using hex_entry [of "''x25519_public''" "kc_x25519_pub k"] hex_entry [of "''mlkem_ek''" "kc_mlkem_ek k"] by simp_all
  then have "foldl LoadServerPublicKeys_line (False, False, x, e) (getlines (public_keys_text k)) =
      (True, True, kc_x25519_pub k, kc_mlkem_ek k)"
    using k assms(3,4)
    by (simp add: public_lines LoadServerPublicKeys_line_def parse_line_comment parse_line_blank hex_load)
  then show ?thesis by (simp add: LoadServerPublicKeys_def assms(1))
qed

section \<open>What the two programs hand to their event loops\<close>

lemma constants_idem: "InitHandshakeConstants lib (InitHandshakeConstants lib g) = InitHandshakeConstants lib g"
  by (simp add: InitHandshakeConstants_def Let_def split: option.split)

lemma server_main_result:
  assumes laws: "crypto_laws lib" and run: "server_main lib env fs = (Some (s, g), out, fs')"
    and new: "fs ''server_keys.conf'' = None" and w: "pe_keys_write env = Complete" "pe_public_write env = Complete"
  obtains k where "wf_KeyConfig k" "x25519_pair lib (kc_x25519_priv k) (kc_x25519_pub k)"
    "mlkem_pair lib (kc_mlkem_dk k) (kc_mlkem_ek k)" "fs' ''server_pub.conf'' = Some (public_keys_text k)"
    "g = InitHandshakeConstants lib hs_constants_start" "server_started s"
    "server_frame s = server_frame (Server_init\<lparr>sv_local_x25519_priv := kc_x25519_priv k,
       sv_local_x25519_pub := kc_x25519_pub k, sv_local_mlkem_dk := kc_mlkem_dk k, sv_local_mlkem_ek := kc_mlkem_ek k\<rparr>)"
proof -
  obtain k where k: "LoadOrGenerateKeys lib (pe_x25519_seed env) (pe_mlkem_seed env) Complete ''server_keys.conf'' fs =
      (Some k, fs(''server_keys.conf'' \<mapsto> keys_text k))" "wf_KeyConfig k"
    "x25519_pair lib (kc_x25519_priv k) (kc_x25519_pub k)" "mlkem_pair lib (kc_mlkem_dk k) (kc_mlkem_ek k)"
    by (rule first_start [where fs = fs and path = "''server_keys.conf''", OF laws new])
  let ?fs = "fs(''server_keys.conf'' \<mapsto> keys_text k, ''server_pub.conf'' \<mapsto> public_keys_text k)"
  obtain cfg fs2 where p: "server_Parse (pe_config_write env) ''server.conf'' ?fs = (Some cfg, fs2)"
    using run k(1) by (cases "server_Parse (pe_config_write env) ''server.conf'' ?fs"; cases "fst (server_Parse (pe_config_write env) ''server.conf'' ?fs)")
      (auto simp: server_main_def w SavePublicKeys_def write_file_def Let_def split: prod.splits)
  have pub: "fs2 ''server_pub.conf'' = Some (public_keys_text k)"
    using p by (auto simp: server_Parse_def server_WriteDefaults_def write_file_def Let_def split: if_splits prod.splits write_outcome.splits)
  let ?s0 = "sv_SetStaticKeys (kc_x25519_priv k) (kc_x25519_pub k) (kc_mlkem_dk k) (kc_mlkem_ek k)
    (sv_SetTunInterface ''pqvpn0'' (IPv4_octets 10 8 0 1) (sv_SetPollTimeoutMs 250 (sv_SetPort (sc_port cfg)
      (sv_SetBindAddress (IPv4_dotted (sc_bind_ip cfg)) Server_init))))"
  obtain s1 where s1: "sv_Init lib (InitHandshakeConstants lib hs_constants_start) (pe_sys env) ?s0 = (True, s1, g)"
    "sv_Run s1 = (True, s)" and rest: "fs' = fs2"
    using run k(1) p by (auto simp: server_main_def w SavePublicKeys_def write_file_def Let_def split: prod.splits if_splits)
  have closed: "server_closed ?s0"
    by (simp add: server_closed_def Server_init_def sv_SetStaticKeys_def sv_SetTunInterface_def sv_SetPollTimeoutMs_def
        sv_SetPort_def sv_SetBindAddress_def UDPSocket_init_def EventPoller_init_def TunDevice_init_def open_defs)
  have s1': "server_started s1" "g = InitHandshakeConstants lib hs_constants_start"
    using sv_Init_result [OF closed, of lib "InitHandshakeConstants lib hs_constants_start" "pe_sys env"] s1(1)
    by (simp_all add: constants_idem)
  then have started: "server_started s" using s1(2) by (auto simp: sv_Run_def server_started_def split: if_splits)
  have "server_frame s = server_frame ?s0"
    using server_frame_Init [of lib "InitHandshakeConstants lib hs_constants_start" "pe_sys env" ?s0] server_frame_Run [of s1] s1 by simp
  then have "server_frame s = server_frame (Server_init\<lparr>sv_local_x25519_priv := kc_x25519_priv k,
       sv_local_x25519_pub := kc_x25519_pub k, sv_local_mlkem_dk := kc_mlkem_dk k, sv_local_mlkem_ek := kc_mlkem_ek k\<rparr>)"
    by (simp add: server_frame_def sv_SetStaticKeys_def sv_SetTunInterface_def sv_SetPollTimeoutMs_def
        sv_SetPort_def sv_SetBindAddress_def)
  then show thesis using that k(2-4) pub rest started s1'(2) by simp
qed

lemma client_main_result:
  assumes laws: "crypto_laws lib" and run: "client_main lib env fs = (Some (c, g), fs')"
    and new: "fs ''client_keys.conf'' = None" and w: "pe_keys_write env = Complete"
    and pub: "fs ''server_pub.conf'' = Some (public_keys_text k)" "wf_KeyConfig k"
  obtains kc :: KeyConfig where "x25519_pair lib (kc_x25519_priv kc) (kc_x25519_pub kc)"
    "mlkem_pair lib (kc_mlkem_dk kc) (kc_mlkem_ek kc)"
    "g = InitHandshakeConstants lib hs_constants_start" "client_started c"
    "client_frame c = client_frame (Client_init\<lparr>cl_local_x25519_priv := kc_x25519_priv kc,
       cl_local_x25519_pub := kc_x25519_pub kc, cl_local_mlkem_dk := kc_mlkem_dk kc, cl_local_mlkem_ek := kc_mlkem_ek kc,
       cl_server_x25519_pub := kc_x25519_pub k, cl_server_mlkem_ek := kc_mlkem_ek k\<rparr>)"
proof -
  obtain cfg fs1 where p: "client_Parse (pe_config_write env) ''client.conf'' fs = (Some cfg, fs1)"
    using run by (cases "client_Parse (pe_config_write env) ''client.conf'' fs"; cases "fst (client_Parse (pe_config_write env) ''client.conf'' fs)")
      (auto simp: client_main_def)
  have same: "x \<noteq> ''client.conf'' \<Longrightarrow> fs1 x = fs x" for x
    using p by (auto simp: client_Parse_def client_WriteDefaults_def write_file_def Let_def split: if_splits prod.splits write_outcome.splits)
  have new1: "fs1 ''client_keys.conf'' = None" using same new by simp
  obtain kc where kc: "LoadOrGenerateKeys lib (pe_x25519_seed env) (pe_mlkem_seed env) Complete ''client_keys.conf'' fs1 =
      (Some kc, fs1(''client_keys.conf'' \<mapsto> keys_text kc))"
    "x25519_pair lib (kc_x25519_priv kc) (kc_x25519_pub kc)" "mlkem_pair lib (kc_mlkem_dk kc) (kc_mlkem_ek kc)"
    by (rule first_start [where fs = fs1 and path = "''client_keys.conf''", OF laws new1])
  have l: "LoadServerPublicKeys ''server_pub.conf'' (fs1(''client_keys.conf'' \<mapsto> keys_text kc)) (zeros 32) (zeros 1184) =
      (True, kc_x25519_pub k, kc_mlkem_ek k)"
    using same pub by (intro LoadServerPublicKeys_saved) simp_all
  let ?c0 = "cl_SetTunInterface ''tun0'' (cl_SetServerStaticKeys (kc_x25519_pub k) (kc_mlkem_ek k)
    (cl_SetStaticKeys (kc_x25519_priv kc) (kc_x25519_pub kc) (kc_mlkem_dk kc) (kc_mlkem_ek kc) Client_init))"
  have c: "cl_Init (pe_sys env) (cc_server_ip cfg) (cc_server_port cfg) ?c0 = (True, c)"
    "g = InitHandshakeConstants lib hs_constants_start"
    using run p kc(1) l by (auto simp: client_main_def w Let_def split: prod.splits if_splits)
  have closed: "client_closed ?c0"
    by (simp add: client_closed_def Client_init_def cl_SetTunInterface_def cl_SetServerStaticKeys_def cl_SetStaticKeys_def
        UDPSocket_init_def EventPoller_init_def TunDevice_init_def open_defs)
  have "client_started c" using Init_result [OF closed, where sys = "pe_sys env" and ip = "cc_server_ip cfg" and port = "cc_server_port cfg"] c(1) by simp
  moreover have "client_frame c = client_frame ?c0"
    using client_frame_Init [where sys = "pe_sys env" and ip = "cc_server_ip cfg" and port = "cc_server_port cfg" and c = ?c0] c(1) by simp
  ultimately show thesis
    by (intro that [of kc] kc(2,3) c(2))
      (simp_all add: client_frame_def cl_SetTunInterface_def cl_SetServerStaticKeys_def cl_SetStaticKeys_def)
qed

text \<open>Together they are ready for each other once the public file has been copied.\<close>

lemma programs_match:
  assumes laws: "crypto_laws lib"
    and s: "server_main lib envS fsS = (Some (s, gS), out, fsS')" "fsS ''server_keys.conf'' = None"
      "pe_keys_write envS = Complete" "pe_public_write envS = Complete"
    and c: "client_main lib envC (fsC(''server_pub.conf'' := fsS' ''server_pub.conf'')) = (Some (c, gC), fsC')"
      "fsC ''client_keys.conf'' = None" "pe_keys_write envC = Complete"
  shows "nodes_match lib c s" and "gC = gS" and "cl_use_tun c \<Longrightarrow> sv_use_tun s \<Longrightarrow> nodes_ready c s"
    and "cl_tai c = Tai64nStamp 0 0" and "cl_index_table c = IndexTable_init" and "sv_index_table s = IndexTable_init"
proof -
  obtain k where k: "wf_KeyConfig k" "x25519_pair lib (kc_x25519_priv k) (kc_x25519_pub k)"
    "mlkem_pair lib (kc_mlkem_dk k) (kc_mlkem_ek k)" "fsS' ''server_pub.conf'' = Some (public_keys_text k)"
    "gS = InitHandshakeConstants lib hs_constants_start" "server_started s"
    "server_frame s = server_frame (Server_init\<lparr>sv_local_x25519_priv := kc_x25519_priv k,
       sv_local_x25519_pub := kc_x25519_pub k, sv_local_mlkem_dk := kc_mlkem_dk k, sv_local_mlkem_ek := kc_mlkem_ek k\<rparr>)"
    by (rule server_main_result [where fs = fsS, OF laws s(1,2) s(3,4)])
  let ?fs = "fsC(''server_pub.conf'' := fsS' ''server_pub.conf'')"
  have f: "?fs ''client_keys.conf'' = None" "?fs ''server_pub.conf'' = Some (public_keys_text k)"
    using c(2) k(4) by simp_all
  obtain kc :: KeyConfig where kc: "x25519_pair lib (kc_x25519_priv kc) (kc_x25519_pub kc)"
    "mlkem_pair lib (kc_mlkem_dk kc) (kc_mlkem_ek kc)"
    "gC = InitHandshakeConstants lib hs_constants_start" "client_started c"
    "client_frame c = client_frame (Client_init\<lparr>cl_local_x25519_priv := kc_x25519_priv kc,
       cl_local_x25519_pub := kc_x25519_pub kc, cl_local_mlkem_dk := kc_mlkem_dk kc, cl_local_mlkem_ek := kc_mlkem_ek kc,
       cl_server_x25519_pub := kc_x25519_pub k, cl_server_mlkem_ek := kc_mlkem_ek k\<rparr>)"
    by (rule client_main_result [where fs = ?fs, OF laws c(1) f(1) c(3) f(2) k(1)])
  show "nodes_match lib c s" using k kc by (simp add: nodes_match_def client_frame_def server_frame_def Client_init_def Peer_init_def)
  show "gC = gS" using k(5) kc(3) by simp
  show "cl_use_tun c \<Longrightarrow> sv_use_tun s \<Longrightarrow> nodes_ready c s"
    using k(6,7) kc(4,5) by (simp add: nodes_ready_def client_started_def server_started_def client_frame_def
        server_frame_def Client_init_def Server_init_def)
  show "cl_tai c = Tai64nStamp 0 0" "cl_index_table c = IndexTable_init" "sv_index_table s = IndexTable_init"
    using k(7) kc(5) by (simp_all add: client_frame_def server_frame_def Client_init_def Server_init_def)
qed

section \<open>Property\<close>

text \<open>
  C1. From two first starts to a tunnel. The server program starts where there is no key file; its
  \<open>server_pub.conf\<close> is copied to the client's directory; the client program starts there for
  the first time. If both come up, with their tunnel devices, and either random source yields an
  index, then the client's first message leads to sessions linked in both directions, whatever
  the key generators drew. The one exception is that the key the server derives from this very
  message gives a transport key of zeros, which both ends refuse.
\<close>

theorem programs_connect:
  assumes "crypto_laws lib"
    and "server_main lib envS fsS = (Some (s, gS), out, fsS')" and "fsS ''server_keys.conf'' = None"
    and "pe_keys_write envS = Complete" and "pe_public_write envS = Complete"
    and "client_main lib envC (fsC(''server_pub.conf'' := fsS' ''server_pub.conf'')) = (Some (c, gC), fsC')"
    and "fsC ''client_keys.conf'' = None" and "pe_keys_write envC = Complete"
    and "cl_use_tun c" and "sv_use_tun s" and "offered ea \<noteq> {}" and "offered eb \<noteq> {}"
  shows "gC = gS \<and> (\<exists>c1 d data C c' s'. SendInitiation lib gS ea c = Some c1 \<and> cl_sent c1 = cl_sent c @ [(d, data)] \<and>
    answer_key lib gS eb data (endpoint_of addr) s = Some C \<and>
    connect_nodes lib gS addr ea eb ec (c, s) = Some (c', s') \<and>
    (if good_key lib C
     then \<exists>j. connected (cl_active_session_index c') j (unat kRejectAfterMessages) c' s'
     else cl_sessions c' = cl_sessions c \<and> sv_sessions s' = sv_sessions s))"
proof -
  note m = programs_match [where fsS = fsS and fsC = fsC and fsS' = fsS', OF assms(1-8)]
  have tai: "length (cl_tai c) = 12" "tai_secs_nat (cl_tai c) + 1 < 2 ^ 64"
    unfolding m(4) by (simp_all add: tai_secs_nat_def Tai64nStamp_bytes be_nat_rev le_nat_le_bytes)
  obtain i j where "Some i \<in> set (ev_index_draws (ne_hs ea))" "i \<noteq> 0" "cl_index_table c i = None"
    "Some j \<in> set (ev_index_draws (ne_hs eb))" "j \<noteq> 0" "sv_index_table s j = None"
    using assms(11,12) m(5,6) by (auto simp: offered_def IndexTable_init_def)
  from nodes_get_connected [OF assms(1) m(1) m(3) [OF assms(9,10)] tai this, of gS addr ec] show ?thesis
    using m(2) by blast
qed

definition example_program :: program_env where
  "example_program = \<lparr>pe_config_write = Complete, pe_keys_write = Complete, pe_public_write = Complete,
     pe_x25519_seed = [1], pe_mlkem_seed = [2], pe_sys = example_sys\<rparr>"

definition example_keys :: KeyConfig where
  "example_keys = \<lparr>kc_x25519_priv = pad_to 32 [1], kc_x25519_pub = pad_to 32 [1],
     kc_mlkem_dk = pad_to 2400 (pad_to 1184 [2]), kc_mlkem_ek = pad_to 1184 (pad_to 1184 [2])\<rparr>"

lemma example_generate:
  assumes "fs path = None"
  shows "LoadOrGenerateKeys toy [1] [2] Complete path fs = (Some example_keys, fs(path \<mapsto> keys_text example_keys))"
proof -
  have x: "x25519_GenerateKeyPair toy [1] = Some (pad_to 32 [1], pad_to 32 [1])"
    by (simp add: x25519_GenerateKeyPair_def toy_def sized_def)
  have m: "mlkem_GenerateKeyPair toy ML_KEM_768 [2] = Some \<lparr>pkey = pad_to 1184 [2], public_key = pad_to 1184 (pad_to 1184 [2])\<rparr>"
    by (simp add: mlkem_GenerateKeyPair_def ExtractPublicKey_def toy_def take_pad_to)
  have o: "octet_len toy ''priv'' k = Some 2400" "octet_get toy ''priv'' k 2400 = Some (pad_to 2400 k)" for k
    by (simp_all add: toy_def)
  show ?thesis
    using assms by (simp add: LoadOrGenerateKeys_def x m o KeyConfig_init_def SaveKeys_def write_file_def example_keys_def Let_def)
qed

lemma example_addresses: "IsValid (IPv4_dotted ''0.0.0.0'')" "IsValid (IPv4_dotted ''127.0.0.1'')" by code_simp+

lemma example_server_Init: "\<exists>s. sv_Init toy g example_sys (sv_SetStaticKeys (kc_x25519_priv k) (kc_x25519_pub k) (kc_mlkem_dk k) (kc_mlkem_ek k)
      (sv_SetTunInterface ''pqvpn0'' (IPv4_octets 10 8 0 1) (sv_SetPollTimeoutMs 250 (sv_SetPort n
        (sv_SetBindAddress (IPv4_dotted ''0.0.0.0'') Server_init))))) = (True, s, InitHandshakeConstants toy g) \<and> sv_use_tun s \<and>
      sv_initialized s \<and> \<not> sv_running s \<and> \<not> sv_stopped s" if "\<not> all_zero (kc_x25519_priv k)"
    using that example_addresses(1)
    by (simp add: sv_Init_def sv_init_tun_def sv_SetStaticKeys_def sv_SetTunInterface_def sv_SetPollTimeoutMs_def
       sv_SetPort_def sv_SetBindAddress_def Server_init_def UDPSocket_init_def EventPoller_init_def TunDevice_init_def
       example_sys_def open_defs Bind_def HasRequiredPrivileges_def BringUp_def Let_def socket_address_total)

lemma example_client_Init: "\<exists>s. cl_Init example_sys ''127.0.0.1'' n (cl_SetTunInterface ''tun0'' (cl_SetServerStaticKeys x e
    (cl_SetStaticKeys a b d f Client_init))) = (True, s) \<and> cl_use_tun s"
    using example_addresses(2)
    by (simp add: cl_Init_def cl_init_tun_def cl_SetStaticKeys_def cl_SetTunInterface_def cl_SetServerStaticKeys_def
       Client_init_def UDPSocket_init_def EventPoller_init_def TunDevice_init_def
       example_sys_def open_defs HasRequiredPrivileges_def Let_def)

lemma example_server_up:
  obtains s g out fs where "server_main toy example_program (\<lambda>_. None) = (Some (s, g), out, fs)" "sv_use_tun s"
    "fs ''server_pub.conf'' = Some (public_keys_text example_keys)"
proof -
  let ?fs1 = "[''server_keys.conf'' \<mapsto> keys_text example_keys, ''server_pub.conf'' \<mapsto> public_keys_text example_keys]"
  have cfg: "server_Parse Complete ''server.conf'' ?fs1 =
      (Some ServerConfig_init, ?fs1(''server.conf'' \<mapsto> server_defaults_text ServerConfig_init))"
    by (simp add: server_Parse_def server_WriteDefaults_def write_file_def Let_def)
  have key: "\<not> all_zero (kc_x25519_priv example_keys)" by (simp add: example_keys_def pad_to_def all_zero_def)
  let ?g = "InitHandshakeConstants toy hs_constants_start"
  obtain s where s: "sv_Init toy ?g example_sys (sv_SetStaticKeys (kc_x25519_priv example_keys) (kc_x25519_pub example_keys)
      (kc_mlkem_dk example_keys) (kc_mlkem_ek example_keys) (sv_SetTunInterface ''pqvpn0'' (IPv4_octets 10 8 0 1)
        (sv_SetPollTimeoutMs 250 (sv_SetPort 51820 (sv_SetBindAddress (IPv4_dotted ''0.0.0.0'') Server_init))))) = (True, s, InitHandshakeConstants toy ?g)"
    "sv_use_tun s" "sv_initialized s" "\<not> sv_running s" "\<not> sv_stopped s"
    using example_server_Init [OF key] by blast
  obtain t where "sv_Run s = (True, t)" "sv_use_tun t" using s(2-5) by (simp add: sv_Run_def)
  then show thesis
    using that s(1) cfg example_generate [of "\<lambda>_. None" "''server_keys.conf''"]
    by (simp add: server_main_def example_program_def SavePublicKeys_def write_file_def ServerConfig_init_def Let_def)
qed

lemma example_client_up:
  obtains c g fs' where "client_main toy example_program
      [''server_pub.conf'' \<mapsto> public_keys_text example_keys] = (Some (c, g), fs')" "cl_use_tun c"
proof -
  let ?fs = "[''server_pub.conf'' \<mapsto> public_keys_text example_keys]"
  let ?fs1 = "?fs(''client.conf'' \<mapsto> client_defaults_text ClientConfig_init)"
  let ?fs2 = "?fs1(''client_keys.conf'' \<mapsto> keys_text example_keys)"
  have cfg: "client_Parse Complete ''client.conf'' ?fs = (Some ClientConfig_init, ?fs1)"
    by (simp add: client_Parse_def client_WriteDefaults_def write_file_def Let_def)
  have wf: "wf_KeyConfig example_keys" by (simp add: wf_KeyConfig_def example_keys_def)
  have l: "LoadServerPublicKeys ''server_pub.conf'' ?fs2 (zeros 32) (zeros 1184) =
      (True, kc_x25519_pub example_keys, kc_mlkem_ek example_keys)"
    by (rule LoadServerPublicKeys_saved [OF _ wf]) simp_all
  obtain c where c: "cl_Init example_sys ''127.0.0.1'' 51820 (cl_SetTunInterface ''tun0''
      (cl_SetServerStaticKeys (kc_x25519_pub example_keys) (kc_mlkem_ek example_keys)
        (cl_SetStaticKeys (kc_x25519_priv example_keys) (kc_x25519_pub example_keys)
          (kc_mlkem_dk example_keys) (kc_mlkem_ek example_keys) Client_init))) = (True, c)" "cl_use_tun c"
    using example_client_Init by blast
  then show thesis
    using that cfg l example_generate [of ?fs1 "''client_keys.conf''"]
    by (simp add: client_main_def example_program_def ClientConfig_init_def Let_def)
qed

theorem programs_connect_witness:
  "\<exists>s g out fsS' c fsC' c' s' j. server_main toy example_program (\<lambda>_. None) = (Some (s, g), out, fsS') \<and>
    client_main toy example_program ((\<lambda>_. None)(''server_pub.conf'' := fsS' ''server_pub.conf'')) = (Some (c, g), fsC') \<and>
    connect_nodes toy g \<lparr>sin_addr = [10, 0, 0, 9], sin_port = [0, 1]\<rparr> (example_env [4]) (example_env [9])
      (example_env []) (c, s) = Some (c', s') \<and>
    connected (cl_active_session_index c') j (unat kRejectAfterMessages) c' s'"
proof -
  obtain s g out fs where s: "server_main toy example_program (\<lambda>_. None) = (Some (s, g), out, fs)" "sv_use_tun s"
    "fs ''server_pub.conf'' = Some (public_keys_text example_keys)" by (rule example_server_up)
  obtain c h fs' where c: "client_main toy example_program ((\<lambda>_. None)(''server_pub.conf'' := fs ''server_pub.conf'')) =
      (Some (c, h), fs')" "cl_use_tun c" using example_client_up s(3) by auto
  have w: "pe_keys_write example_program = Complete" "pe_public_write example_program = Complete"
    by (simp_all add: example_program_def)
  have o: "offered (example_env [4]) \<noteq> {}" "offered (example_env [9]) \<noteq> {}" by simp_all
  from programs_connect [where fsS = "\<lambda>_. None" and fsC = "\<lambda>_. None" and fsS' = fs
        and addr = "\<lparr>sin_addr = [10, 0, 0, 9], sin_port = [0, 1]\<rparr>" and ec = "example_env []",
      OF toy_crypto_laws s(1) refl w c(1) refl w(1) c(2) s(2) o]
  show ?thesis using s(1) c(1) by (fastforce simp: toy_good)
qed

end
