(* ===== verification/Logger.thy ===== *)
theory Logger
  imports Prelude
begin

text \<open>
  \<open>core/utils/log_level.hpp\<close>, \<open>log_event.hpp\<close> and \<open>logger.cpp\<close>: the logger's threshold, where it
  writes, and the text of an event. The rendering of a time stamp by \<open>put_time(localtime)\<close> is an
  argument. The mutex makes each call one step, so calls form a sequence.
\<close>

datatype LogLevel = EMERGENCY | ALERT | CRITICAL | ERROR | WARNING | NOTICE | INFO | DEBUG

fun level_code :: "LogLevel \<Rightarrow> int" where
  "level_code EMERGENCY = 0"
| "level_code ALERT = 1"
| "level_code CRITICAL = 2"
| "level_code ERROR = 3"
| "level_code WARNING = 4"
| "level_code NOTICE = 5"
| "level_code INFO = 6"
| "level_code DEBUG = 7"

fun logLevelToString :: "LogLevel \<Rightarrow> string" where
  "logLevelToString EMERGENCY = ''EMERGENCY''"
| "logLevelToString ALERT = ''ALERT''"
| "logLevelToString CRITICAL = ''CRITICAL''"
| "logLevelToString ERROR = ''ERROR''"
| "logLevelToString WARNING = ''WARNING''"
| "logLevelToString NOTICE = ''NOTICE''"
| "logLevelToString INFO = ''INFO''"
| "logLevelToString DEBUG = ''DEBUG''"

instantiation LogLevel :: linorder
begin

definition less_eq_LogLevel :: "LogLevel \<Rightarrow> LogLevel \<Rightarrow> bool" where
  "less_eq_LogLevel a b \<longleftrightarrow> level_code a \<le> level_code b"

definition less_LogLevel :: "LogLevel \<Rightarrow> LogLevel \<Rightarrow> bool" where
  "less_LogLevel a b \<longleftrightarrow> level_code a < level_code b"

instance
proof
  fix a b c :: LogLevel
  show "a \<le> b \<Longrightarrow> b \<le> a \<Longrightarrow> a = b"
    by (cases a; cases b) (simp_all add: less_eq_LogLevel_def)
qed (auto simp: less_eq_LogLevel_def less_LogLevel_def)

end

record LogEvent =
  le_level :: LogLevel
  le_timestamp :: time_point
  le_message :: string

text \<open>The comparison operators of an event: the level first, then the time; the text is ignored.\<close>

definition LogEvent_less :: "LogEvent \<Rightarrow> LogEvent \<Rightarrow> bool" where
  "LogEvent_less a b \<longleftrightarrow>
     (if le_level a \<noteq> le_level b then le_level a < le_level b else le_timestamp a < le_timestamp b)"

definition LogEvent_eq :: "LogEvent \<Rightarrow> LogEvent \<Rightarrow> bool" where
  "LogEvent_eq a b \<longleftrightarrow> le_level a = le_level b \<and> le_timestamp a = le_timestamp b"

definition LogEvent_toString :: "(time_point \<Rightarrow> string) \<Rightarrow> LogEvent \<Rightarrow> string" where
  "LogEvent_toString put_time e =
     ''['' @ logLevelToString (le_level e) @ ''] '' @ ''['' @ put_time (le_timestamp e) @ ''] '' @ le_message e"

section \<open>The logger\<close>

text \<open>Where a line ends up: the logger's own file, or a stream handed to \<open>init\<close>.\<close>

datatype log_sink = To_file string | To_stream nat

text \<open>\<open>stream_\<close> points nowhere, at the member \<open>logFile_\<close>, or at a stream; \<open>lg_file\<close> is the open file.\<close>

datatype log_stream = Own_file | Given nat

record Logger =
  lg_file :: "string option"
  lg_stream :: "log_stream option"
  lg_threshold :: LogLevel

definition Logger_init :: Logger where
  "Logger_init = \<lparr>lg_file = None, lg_stream = None, lg_threshold = DEBUG\<rparr>"

definition lg_init_file :: "bool \<Rightarrow> string \<Rightarrow> Logger \<Rightarrow> Logger" where
  "lg_init_file opens filename l =
     l\<lparr>lg_file := (if opens then Some filename else None), lg_stream := Some Own_file\<rparr>"

definition lg_init_stream :: "nat \<Rightarrow> Logger \<Rightarrow> Logger" where
  "lg_init_stream os l = l\<lparr>lg_file := None, lg_stream := Some (Given os)\<rparr>"

definition setLogLevel :: "LogLevel \<Rightarrow> Logger \<Rightarrow> Logger" where
  "setLogLevel level l = l\<lparr>lg_threshold := level\<rparr>"

text \<open>What a call writes; \<open>None\<close> is the null stream being dereferenced. A file that did not open takes nothing.\<close>

definition lg_log ::
  "(time_point \<Rightarrow> string) \<Rightarrow> time_point \<Rightarrow> LogLevel \<Rightarrow> string \<Rightarrow> Logger \<Rightarrow> (log_sink \<times> string) list option" where
  "lg_log put_time now level message l =
     (if level > lg_threshold l then Some []
      else
        let event = \<lparr>le_level = level, le_timestamp = now, le_message = message\<rparr>;
            line = LogEvent_toString put_time event @ [CHR 0x0A] in
        case lg_stream l of
          None \<Rightarrow> None
        | Some (Given os) \<Rightarrow> Some [(To_stream os, line)]
        | Some Own_file \<Rightarrow> (case lg_file l of None \<Rightarrow> Some [] | Some f \<Rightarrow> Some [(To_file f, line)]))"

section \<open>Facts\<close>

text \<open>A sequence of calls.\<close>

fun lg_log_all ::
  "(time_point \<Rightarrow> string) \<Rightarrow> (time_point \<times> LogLevel \<times> string) list \<Rightarrow> Logger \<Rightarrow> (log_sink \<times> string) list option" where
  "lg_log_all put_time [] l = Some []"
| "lg_log_all put_time ((now, level, message) # es) l =
     (case lg_log put_time now level message l of
        None \<Rightarrow> None
      | Some a \<Rightarrow> (case lg_log_all put_time es l of None \<Rightarrow> None | Some b \<Rightarrow> Some (a @ b)))"

text \<open>The events' own order is the lexicographic one; its equality ignores the text.\<close>

lemma LogEvent_order:
  "LogEvent_eq a b \<longleftrightarrow> \<not> LogEvent_less a b \<and> \<not> LogEvent_less b a"
  by (auto simp: LogEvent_eq_def LogEvent_less_def)

text \<open>
  A logger that has a stream writes exactly the messages at or above its threshold in severity,
  in order; one that was never given a stream fails on the first of them and on no other.
\<close>

lemma log_lines:
  "lg_log_all put_time es (lg_init_stream os l) =
     Some (map (\<lambda>(now, level, message). (To_stream os, LogEvent_toString put_time
         \<lparr>le_level = level, le_timestamp = now, le_message = message\<rparr> @ [CHR 0x0A]))
       (filter (\<lambda>(now, level, message). level_code level \<le> level_code (lg_threshold l)) es))"
  by (induction es) (auto simp: lg_log_def lg_init_stream_def less_LogLevel_def Let_def)

lemma log_without_stream:
  "lg_log_all put_time es (setLogLevel t Logger_init) = None \<longleftrightarrow> (\<exists>(now, level, message) \<in> set es. level \<le> t)"
  by (induction es) (auto simp: lg_log_def setLogLevel_def Logger_init_def not_le split: option.split)

end
