(* ===== verification/RandomBytes.thy ===== *)
theory RandomBytes
  imports BitUtils
begin

text \<open>
  \<open>core/utils/random.hpp\<close>: bytes from the outputs of the standard library's \<open>mt19937_64\<close>, which are
  an argument: \<open>eng k\<close> is output number \<open>k\<close>, and the state is the number of outputs drawn so
  far. Words are stored through a pointer, least significant byte first.
\<close>

text \<open>The loop over whole chunks: iterations \<open>i\<close> to \<open>i + n - 1\<close>.\<close>

fun FillBytes_chunks :: "(nat \<Rightarrow> u64) \<Rightarrow> nat \<Rightarrow> nat \<Rightarrow> nat \<times> bytes \<Rightarrow> nat \<times> bytes" where
  "FillBytes_chunks eng 0 i st = st"
| "FillBytes_chunks eng (Suc n) i (k, dst) =
     FillBytes_chunks eng n (Suc i) (Suc k, write_at (i * 8) (le_bytes 8 (eng k)) dst)"

definition FillBytes :: "(nat \<Rightarrow> u64) \<Rightarrow> nat \<Rightarrow> bytes \<Rightarrow> nat \<Rightarrow> nat \<times> bytes" where
  "FillBytes eng k dst n =
     (let chunks = n div 8; remainder = n mod 8;
          (k, dst) = FillBytes_chunks eng chunks 0 (k, dst) in
      if remainder > 0 then (Suc k, write_at (chunks * 8) (take remainder (le_bytes 8 (eng k))) dst)
      else (k, dst))"

definition GenerateNRandomBytes :: "(nat \<Rightarrow> u64) \<Rightarrow> nat \<Rightarrow> nat \<Rightarrow> nat \<times> bytes" where
  "GenerateNRandomBytes eng k n = FillBytes eng k (zeros n) n"

section \<open>Facts\<close>

text \<open>The engine's outputs as one stream of bytes, from output \<open>k\<close> on.\<close>

fun stream_bytes :: "(nat \<Rightarrow> u64) \<Rightarrow> nat \<Rightarrow> nat \<Rightarrow> bytes" where
  "stream_bytes eng k 0 = []"
| "stream_bytes eng k (Suc n) = le_bytes 8 (eng k) @ stream_bytes eng (Suc k) n"

lemma length_stream_bytes [simp]: "length (stream_bytes eng k n) = 8 * n"
  by (induction n arbitrary: k) simp_all

lemma stream_bytes_Suc: "stream_bytes eng k (Suc n) = stream_bytes eng k n @ le_bytes 8 (eng (k + n))"
  by (induction n arbitrary: k) simp_all

lemma chunks_result:
  "(i + n) * 8 \<le> length dst \<Longrightarrow> FillBytes_chunks eng n i (k, dst) =
     (k + n, take (i * 8) dst @ stream_bytes eng k n @ drop ((i + n) * 8) dst)"
proof (induction n arbitrary: i k dst)
  case (Suc n)
  let ?d = "write_at (i * 8) (le_bytes 8 (eng k)) dst"
  have "take (Suc i * 8) ?d = take (i * 8) dst @ le_bytes 8 (eng k)"
    and "drop (Suc i * 8 + n * 8) ?d = drop (Suc i * 8 + n * 8) dst" and "length ?d = length dst"
    using Suc.prems by (simp_all add: write_at_def min_def add.commute)
  then show ?case using Suc.IH [of "Suc i" ?d "Suc k"] Suc.prems by (simp add: algebra_simps)
qed simp

text \<open>The bytes are the first \<open>n\<close> of the stream, and exactly as many outputs as needed are drawn.\<close>

lemma random_bytes:
  "GenerateNRandomBytes eng k n = (k + (n + 7) div 8, take n (stream_bytes eng k ((n + 7) div 8)))"
proof -
  have c: "FillBytes_chunks eng (n div 8) 0 (k, zeros n) =
      (k + n div 8, stream_bytes eng k (n div 8) @ drop (n div 8 * 8) (zeros n))"
    by (subst chunks_result) simp_all
  show ?thesis
  proof (cases "n mod 8 = 0")
    case True
    then have "(n + 7) div 8 = n div 8" "n div 8 * 8 = n" by presburger+
    then show ?thesis using True c by (simp add: GenerateNRandomBytes_def FillBytes_def mult.commute)
  next
    case False
    then have "(n + 7) div 8 = Suc (n div 8)" "n - 8 * (n div 8) = n mod 8" "n div 8 * 8 + n mod 8 = n" by presburger+
    then show ?thesis using False c
      by (simp add: GenerateNRandomBytes_def FillBytes_def stream_bytes_Suc write_at_def mult.commute Let_def
          del: stream_bytes.simps)
  qed
qed

end
