(* ===== verification/Blake3Compress.thy ===== *)
theory Blake3Compress
  imports Prelude
begin

text \<open>
  \<open>libs/blake3/\<close>: the portable compression function (\<open>blake3_portable.c\<close>), the constants and helpers of
  \<open>blake3_impl.h\<close>, and the choice of an implementation (\<open>blake3_dispatch.c\<close>). The state of a compression
  and a chaining value are lists of 16 and 8 words. The vectorised versions are other implementations of the
  same interface: here only their number of lanes appears, and \<open>Blake3Dispatch\<close> shows that whichever one the
  library picks computes what the functions of this theory compute.
\<close>

section \<open>Constants\<close>

definition BLAKE3_KEY_LEN :: nat where "BLAKE3_KEY_LEN = 32"
definition BLAKE3_OUT_LEN :: nat where "BLAKE3_OUT_LEN = 32"
definition BLAKE3_BLOCK_LEN :: nat where "BLAKE3_BLOCK_LEN = 64"
definition BLAKE3_CHUNK_LEN :: nat where "BLAKE3_CHUNK_LEN = 1024"
definition BLAKE3_MAX_DEPTH :: nat where "BLAKE3_MAX_DEPTH = 54"

lemmas blake3_lens [simp] = BLAKE3_KEY_LEN_def BLAKE3_OUT_LEN_def BLAKE3_BLOCK_LEN_def
  BLAKE3_CHUNK_LEN_def BLAKE3_MAX_DEPTH_def

definition CHUNK_START :: byte where "CHUNK_START = 1"
definition CHUNK_END :: byte where "CHUNK_END = 2"
definition PARENT :: byte where "PARENT = 4"
definition ROOT :: byte where "ROOT = 8"
definition KEYED_HASH :: byte where "KEYED_HASH = 16"
definition DERIVE_KEY_CONTEXT :: byte where "DERIVE_KEY_CONTEXT = 32"
definition DERIVE_KEY_MATERIAL :: byte where "DERIVE_KEY_MATERIAL = 64"

definition blake3_IV :: "u32 list" where
  "blake3_IV = [0x6A09E667, 0xBB67AE85, 0x3C6EF372, 0xA54FF53A, 0x510E527F, 0x9B05688C, 0x1F83D9AB,
     0x5BE0CD19]"

definition MSG_SCHEDULE :: "nat list list" where
  "MSG_SCHEDULE =
    [[0, 1, 2, 3, 4, 5, 6, 7, 8, 9, 10, 11, 12, 13, 14, 15],
     [2, 6, 3, 10, 7, 0, 4, 13, 1, 11, 12, 5, 9, 14, 15, 8],
     [3, 4, 10, 12, 13, 2, 7, 14, 6, 5, 9, 0, 11, 15, 8, 1],
     [10, 7, 12, 9, 14, 3, 13, 15, 4, 0, 11, 2, 5, 8, 1, 6],
     [12, 13, 9, 11, 15, 10, 14, 8, 7, 2, 5, 3, 0, 1, 6, 4],
     [9, 14, 11, 5, 8, 12, 15, 1, 13, 3, 0, 10, 2, 6, 4, 7],
     [11, 15, 5, 0, 1, 9, 8, 6, 14, 10, 2, 12, 3, 4, 7, 13]]"

section \<open>Words and bytes\<close>

definition counter_low :: "u64 \<Rightarrow> u32" where "counter_low counter = ucast counter"
definition counter_high :: "u64 \<Rightarrow> u32" where "counter_high counter = ucast (drop_bit 32 counter)"

definition load32 :: "bytes \<Rightarrow> u32" where
  "load32 p = push_bit 0 (ucast (p ! 0)) OR push_bit 8 (ucast (p ! 1)) OR
     push_bit 16 (ucast (p ! 2)) OR push_bit 24 (ucast (p ! 3))"

definition store32 :: "u32 \<Rightarrow> bytes" where
  "store32 w = [ucast (drop_bit 0 w), ucast (drop_bit 8 w), ucast (drop_bit 16 w), ucast (drop_bit 24 w)]"

definition load_key_words :: "bytes \<Rightarrow> u32 list" where
  "load_key_words key = map (\<lambda>i. load32 (drop (i * 4) key)) [0..<8]"

definition store_cv_words :: "u32 list \<Rightarrow> bytes" where
  "store_cv_words cv = concat (map (\<lambda>i. store32 (cv ! i)) [0..<8])"

section \<open>Compression\<close>

definition rotr32 :: "u32 \<Rightarrow> nat \<Rightarrow> u32" where
  "rotr32 w c = drop_bit c w OR push_bit (32 - c) w"

definition g_fn :: "u32 list \<Rightarrow> nat \<Rightarrow> nat \<Rightarrow> nat \<Rightarrow> nat \<Rightarrow> u32 \<Rightarrow> u32 \<Rightarrow> u32 list" where
  "g_fn s a b c d x y =
     (let s = s[a := s ! a + s ! b + x];
          s = s[d := rotr32 (s ! d XOR s ! a) 16];
          s = s[c := s ! c + s ! d];
          s = s[b := rotr32 (s ! b XOR s ! c) 12];
          s = s[a := s ! a + s ! b + y];
          s = s[d := rotr32 (s ! d XOR s ! a) 8];
          s = s[c := s ! c + s ! d] in
      s[b := rotr32 (s ! b XOR s ! c) 7])"

definition round_fn :: "u32 list \<Rightarrow> u32 list \<Rightarrow> nat \<Rightarrow> u32 list" where
  "round_fn s msg rnd =
     (let schedule = MSG_SCHEDULE ! rnd;
          s = g_fn s 0 4 8 12 (msg ! (schedule ! 0)) (msg ! (schedule ! 1));
          s = g_fn s 1 5 9 13 (msg ! (schedule ! 2)) (msg ! (schedule ! 3));
          s = g_fn s 2 6 10 14 (msg ! (schedule ! 4)) (msg ! (schedule ! 5));
          s = g_fn s 3 7 11 15 (msg ! (schedule ! 6)) (msg ! (schedule ! 7));
          s = g_fn s 0 5 10 15 (msg ! (schedule ! 8)) (msg ! (schedule ! 9));
          s = g_fn s 1 6 11 12 (msg ! (schedule ! 10)) (msg ! (schedule ! 11));
          s = g_fn s 2 7 8 13 (msg ! (schedule ! 12)) (msg ! (schedule ! 13)) in
      g_fn s 3 4 9 14 (msg ! (schedule ! 14)) (msg ! (schedule ! 15)))"

definition compress_pre :: "u32 list \<Rightarrow> bytes \<Rightarrow> byte \<Rightarrow> u64 \<Rightarrow> byte \<Rightarrow> u32 list" where
  "compress_pre cv block block_len counter flags =
     (let block_words = map (\<lambda>i. load32 (drop (4 * i) block)) [0..<16];
          state = map (\<lambda>i. cv ! i) [0..<8] @ [blake3_IV ! 0, blake3_IV ! 1, blake3_IV ! 2, blake3_IV ! 3,
            counter_low counter, counter_high counter, ucast block_len, ucast flags];
          state = round_fn state block_words 0;
          state = round_fn state block_words 1;
          state = round_fn state block_words 2;
          state = round_fn state block_words 3;
          state = round_fn state block_words 4;
          state = round_fn state block_words 5 in
      round_fn state block_words 6)"

definition blake3_compress_in_place :: "u32 list \<Rightarrow> bytes \<Rightarrow> byte \<Rightarrow> u64 \<Rightarrow> byte \<Rightarrow> u32 list" where
  "blake3_compress_in_place cv block block_len counter flags =
     (let state = compress_pre cv block block_len counter flags in
      map (\<lambda>i. state ! i XOR state ! (i + 8)) [0..<8])"

definition blake3_compress_xof :: "u32 list \<Rightarrow> bytes \<Rightarrow> byte \<Rightarrow> u64 \<Rightarrow> byte \<Rightarrow> bytes" where
  "blake3_compress_xof cv block block_len counter flags =
     (let state = compress_pre cv block block_len counter flags in
      concat (map (\<lambda>i. store32 (state ! i XOR state ! (i + 8))) [0..<8]) @
      concat (map (\<lambda>i. store32 (state ! (i + 8) XOR cv ! i)) [0..<8]))"

text \<open>The loop over the blocks of one input.\<close>

fun hash_one_loop :: "bytes \<Rightarrow> nat \<Rightarrow> u32 list \<Rightarrow> u64 \<Rightarrow> byte \<Rightarrow> byte \<Rightarrow> byte \<Rightarrow> u32 list" where
  "hash_one_loop input 0 cv counter flags flags_end block_flags = cv"
| "hash_one_loop input (Suc blocks) cv counter flags flags_end block_flags =
     (let block_flags = (if Suc blocks = 1 then block_flags OR flags_end else block_flags);
          cv = blake3_compress_in_place cv (take BLAKE3_BLOCK_LEN input) (of_nat BLAKE3_BLOCK_LEN) counter block_flags in
      hash_one_loop (drop BLAKE3_BLOCK_LEN input) blocks cv counter flags flags_end flags)"

definition hash_one :: "bytes \<Rightarrow> nat \<Rightarrow> u32 list \<Rightarrow> u64 \<Rightarrow> byte \<Rightarrow> byte \<Rightarrow> byte \<Rightarrow> bytes" where
  "hash_one input blocks key counter flags flags_start flags_end =
     store_cv_words (hash_one_loop input blocks key counter flags flags_end (flags OR flags_start))"

fun blake3_hash_many ::
  "bytes list \<Rightarrow> nat \<Rightarrow> u32 list \<Rightarrow> u64 \<Rightarrow> bool \<Rightarrow> byte \<Rightarrow> byte \<Rightarrow> byte \<Rightarrow> bytes" where
  "blake3_hash_many [] blocks key counter increment_counter flags flags_start flags_end = []"
| "blake3_hash_many (input # inputs) blocks key counter increment_counter flags flags_start flags_end =
     hash_one input blocks key counter flags flags_start flags_end @
     blake3_hash_many inputs blocks key (if increment_counter then counter + 1 else counter)
       increment_counter flags flags_start flags_end"

definition blake3_xof_many :: "u32 list \<Rightarrow> bytes \<Rightarrow> byte \<Rightarrow> u64 \<Rightarrow> byte \<Rightarrow> nat \<Rightarrow> bytes" where
  "blake3_xof_many cv block block_len counter flags outblocks =
     concat (map (\<lambda>i. blake3_compress_xof cv block block_len (counter + of_nat i) flags) [0..<outblocks])"

section \<open>The number of lanes\<close>

text \<open>The targets the library is built for; \<open>Plain\<close> is the build without vectorised files.\<close>

datatype blake3_build = X86 (amd64: bool) (windows: bool) | Neon | Plain

text \<open>What \<open>get_cpu_features\<close> finds, on x86 only; elsewhere it returns no bits.\<close>

record cpu_features =
  SSE2 :: bool
  SSSE3 :: bool
  SSE41 :: bool
  AVX :: bool
  AVX2 :: bool
  AVX512F :: bool
  AVX512VL :: bool

text \<open>A build on a processor. \<open>BLAKE3_USE_NEON\<close> is the build \<open>Neon\<close>.\<close>

record platform =
  pf_build :: blake3_build
  pf_features :: cpu_features

definition blake3_simd_degree :: "platform \<Rightarrow> nat" where
  "blake3_simd_degree p =
     (if is_X86 (pf_build p) \<and> AVX512F (pf_features p) \<and> AVX512VL (pf_features p) then 16
      else if is_X86 (pf_build p) \<and> AVX2 (pf_features p) then 8
      else if is_X86 (pf_build p) \<and> SSE41 (pf_features p) then 4
      else if is_X86 (pf_build p) \<and> SSE2 (pf_features p) then 4
      else if pf_build p = Neon then 4
      else 1)"

text \<open>The sizes of the arrays are fixed by the build.\<close>

definition MAX_SIMD_DEGREE :: "blake3_build \<Rightarrow> nat" where
  "MAX_SIMD_DEGREE b = (case b of X86 _ _ \<Rightarrow> 16 | Neon \<Rightarrow> 4 | Plain \<Rightarrow> 1)"

definition MAX_SIMD_DEGREE_OR_2 :: "blake3_build \<Rightarrow> nat" where
  "MAX_SIMD_DEGREE_OR_2 b = (if MAX_SIMD_DEGREE b > 2 then MAX_SIMD_DEGREE b else 2)"

lemma simd_degree_cases: "blake3_simd_degree p \<in> {1, 4, 8, 16}"
  by (simp add: blake3_simd_degree_def)

text \<open>No processor is wider than what its build made room for.\<close>

lemma simd_degree_max: "blake3_simd_degree p \<le> MAX_SIMD_DEGREE (pf_build p)"
  "max (blake3_simd_degree p) 2 \<le> MAX_SIMD_DEGREE_OR_2 (pf_build p)"
  by (cases "pf_build p"; simp add: blake3_simd_degree_def MAX_SIMD_DEGREE_OR_2_def MAX_SIMD_DEGREE_def)+

section \<open>Lengths\<close>

lemma length_store32 [simp]: "length (store32 w) = 4"
  by (simp add: store32_def)

lemma length_store_cv_words [simp, len_simps]: "length (store_cv_words cv) = 32"
  by (simp add: store_cv_words_def length_concat comp_def sum_list_triv)

lemma length_load_key_words [simp]: "length (load_key_words key) = 8"
  by (simp add: load_key_words_def)

lemma length_compress_in_place [simp]: "length (blake3_compress_in_place cv block n c fl) = 8"
  by (simp add: blake3_compress_in_place_def Let_def)

lemma length_compress_xof [simp]: "length (blake3_compress_xof cv block n c fl) = 64"
  by (simp add: blake3_compress_xof_def Let_def length_concat comp_def sum_list_triv)

lemma length_hash_one [simp]: "length (hash_one input blocks key c fl fs fe) = 32"
  by (simp add: hash_one_def)

lemma length_hash_many [simp]: "length (blake3_hash_many inputs blocks key c inc fl fs fe) = 32 * length inputs"
  by (induction inputs arbitrary: c) auto

lemma length_xof_many [simp]: "length (blake3_xof_many cv block n c fl k) = 64 * k"
  by (simp add: blake3_xof_many_def length_concat comp_def sum_list_triv)

section \<open>The published compression function\<close>

text \<open>
  The definition of BLAKE3 gives one schedule of 16 words and permutes the message after each round, and
  it rotates words. The code has a table of schedules and shifts.
\<close>

definition b3_permutation :: "nat list" where
  "b3_permutation = [2, 6, 3, 10, 7, 0, 4, 13, 1, 11, 12, 5, 9, 14, 15, 8]"

definition b3_permute :: "u32 list \<Rightarrow> u32 list" where
  "b3_permute m = map (\<lambda>i. m ! i) b3_permutation"

definition b3_quarter :: "u32 list \<Rightarrow> nat \<times> nat \<times> nat \<times> nat \<Rightarrow> u32 \<Rightarrow> u32 \<Rightarrow> u32 list" where
  "b3_quarter v q mx my =
     (case q of (a, b, c, d) \<Rightarrow>
       let v = v[a := v ! a + v ! b + mx];
           v = v[d := word_rotr 16 (v ! d XOR v ! a)];
           v = v[c := v ! c + v ! d];
           v = v[b := word_rotr 12 (v ! b XOR v ! c)];
           v = v[a := v ! a + v ! b + my];
           v = v[d := word_rotr 8 (v ! d XOR v ! a)];
           v = v[c := v ! c + v ! d] in
       v[b := word_rotr 7 (v ! b XOR v ! c)])"

text \<open>The columns and the diagonals of the four by four matrix.\<close>

definition b3_lines :: "(nat \<times> nat \<times> nat \<times> nat) list" where
  "b3_lines = map (\<lambda>i. (i, 4 + i, 8 + i, 12 + i)) [0..<4] @
     map (\<lambda>i. (i, 4 + (i + 1) mod 4, 8 + (i + 2) mod 4, 12 + (i + 3) mod 4)) [0..<4]"

definition b3_round :: "u32 list \<Rightarrow> u32 list \<Rightarrow> u32 list" where
  "b3_round v m = foldl (\<lambda>v (i, q). b3_quarter v q (m ! (2 * i)) (m ! (2 * i + 1))) v (enumerate 0 b3_lines)"

fun b3_rounds :: "nat \<Rightarrow> u32 list \<Rightarrow> u32 list \<Rightarrow> u32 list" where
  "b3_rounds 0 v m = v"
| "b3_rounds (Suc n) v m = b3_rounds n (b3_round v m) (b3_permute m)"

text \<open>
  The initial words are the first 32 bits of the fractional parts of the square roots of the first eight primes:
  \<open>r\<close> is the whole part of the root, \<open>w\<close> the word.
\<close>

definition b3_IV :: "u32 list" where
  "b3_IV = [0x6a09e667, 0xbb67ae85, 0x3c6ef372, 0xa54ff53a, 0x510e527f, 0x9b05688c, 0x1f83d9ab, 0x5be0cd19]"

definition root_fraction :: "nat \<times> nat \<Rightarrow> u32 \<Rightarrow> bool" where
  "root_fraction pr w \<longleftrightarrow> (case pr of (p, r) \<Rightarrow>
     (r * 2 ^ 32 + unat w)\<^sup>2 \<le> p * 2 ^ 64 \<and> p * 2 ^ 64 < (r * 2 ^ 32 + unat w + 1)\<^sup>2)"

lemma b3_IV_roots:
  "list_all2 root_fraction [(2, 1), (3, 1), (5, 2), (7, 2), (11, 3), (13, 3), (17, 4), (19, 4)] b3_IV"
  by (simp add: b3_IV_def root_fraction_def power2_eq_square)

lemma blake3_IV_published: "blake3_IV = b3_IV"
  by (simp add: blake3_IV_def b3_IV_def)

definition b3_words :: "bytes \<Rightarrow> u32 list" where
  "b3_words block = map (\<lambda>i. load32 (drop (4 * i) block)) [0..<16]"

definition b3_compress :: "u32 list \<Rightarrow> bytes \<Rightarrow> byte \<Rightarrow> u64 \<Rightarrow> byte \<Rightarrow> u32 list" where
  "b3_compress h block len t d =
     (let v = b3_rounds 7 (h @ take 4 b3_IV @ [ucast t, ucast (drop_bit 32 t), ucast len, ucast d]) (b3_words block) in
      map2 (XOR) (take 8 v) (drop 8 v) @ map2 (XOR) (drop 8 v) h)"

lemma rotr32_word:
  assumes "0 < n" "n < 32"
  shows "rotr32 w n = word_rotr n w"
proof (rule bit_word_eqI)
  fix i assume i: "i < LENGTH(32)"
  show "bit (rotr32 w n) i = bit (word_rotr n w) i"
  proof (cases "i + n < 32")
    case True
    then show ?thesis using i assms by (auto simp: rotr32_def bit_word_rotr_iff bit_simps add.commute)
  next
    case False
    then have "(i + n) mod 32 = i + n - 32" using i assms by (simp add: le_mod_geq)
    moreover have "\<not> bit w (n + i)" using False bit_imp_le_length [of w "n + i"] by auto
    ultimately show ?thesis using i assms False by (auto simp: rotr32_def bit_word_rotr_iff bit_simps)
  qed
qed

lemma g_fn_quarter: "g_fn v a b c d x y = b3_quarter v (a, b, c, d) x y"
  by (simp add: g_fn_def b3_quarter_def rotr32_word Let_def)

text \<open>The message as round \<open>r\<close> sees it.\<close>

definition scheduled :: "nat \<Rightarrow> u32 list \<Rightarrow> u32 list" where
  "scheduled r msg = map (\<lambda>i. msg ! i) (MSG_SCHEDULE ! r)"

lemma schedule_lengths: "\<forall>r < 7. length (MSG_SCHEDULE ! r) = 16"
  by code_simp

lemma schedule_permutes: "\<forall>r < 6. MSG_SCHEDULE ! Suc r = map (\<lambda>i. MSG_SCHEDULE ! r ! i) b3_permutation"
  by code_simp

lemma lines: "enumerate 0 b3_lines = [(0, 0, 4, 8, 12), (1, 1, 5, 9, 13), (2, 2, 6, 10, 14), (3, 3, 7, 11, 15),
    (4, 0, 5, 10, 15), (5, 1, 6, 11, 12), (6, 2, 7, 8, 13), (7, 3, 4, 9, 14)]"
  by code_simp

lemma round_scheduled: "r < 7 \<Longrightarrow> round_fn v msg r = b3_round v (scheduled r msg)"
  using schedule_lengths by (simp add: round_fn_def b3_round_def lines g_fn_quarter scheduled_def Let_def)

lemma permute_scheduled: "r < 6 \<Longrightarrow> b3_permute (scheduled r msg) = scheduled (Suc r) msg"
proof -
  assume r: "r < 6"
  have "length (MSG_SCHEDULE ! r) = 16" using r schedule_lengths by simp
  then show ?thesis using r schedule_permutes by (simp add: b3_permute_def scheduled_def b3_permutation_def)
qed

lemma scheduled_0: "length msg = 16 \<Longrightarrow> scheduled 0 msg = msg"
proof -
  assume "length msg = 16"
  moreover have "MSG_SCHEDULE ! 0 = [0..<16]" by code_simp
  ultimately show ?thesis by (metis map_nth scheduled_def)
qed

lemma rounds_schedule:
  "r + n \<le> 7 \<Longrightarrow> b3_rounds n v (scheduled r msg) = foldl (\<lambda>v r. round_fn v msg r) v [r..<r + n]"
proof (induction n arbitrary: v r)
  case (Suc n)
  have here: "round_fn v msg r = b3_round v (scheduled r msg)" using Suc.prems by (intro round_scheduled) simp
  show ?case
  proof (cases n)
    case 0
    then show ?thesis using here by simp
  next
    case (Suc n')
    then have "b3_permute (scheduled r msg) = scheduled (Suc r) msg" using Suc.prems by (intro permute_scheduled) simp
    moreover have "[r..<r + Suc n] = r # [Suc r..<Suc r + n]" by (simp add: upt_conv_Cons)
    ultimately show ?thesis using Suc.IH [of "Suc r"] Suc.prems here by simp
  qed
qed simp

lemma compress_pre_rounds:
  assumes "length cv = 8"
  shows "compress_pre cv block len counter flags =
    b3_rounds 7 (cv @ take 4 blake3_IV @ [ucast counter, ucast (drop_bit 32 counter), ucast len, ucast flags]) (b3_words block)"
proof -
  have w: "b3_words block = scheduled 0 (b3_words block)" by (simp add: scheduled_0 b3_words_def)
  have cv: "map ((!) cv) [0..<8] = cv" using assms by (metis map_nth)
  have "[0..<0 + 7] = [0, 1, 2, 3, 4, 5, 6 :: nat]" by code_simp
  with rounds_schedule [of 0 7 _ "b3_words block"] have
    "b3_rounds 7 v (b3_words block) = foldl (\<lambda>v r. round_fn v (b3_words block) r) v [0, 1, 2, 3, 4, 5, 6]" for v
    by (subst w) simp
  then show ?thesis
    by (simp add: compress_pre_def Let_def cv b3_words_def [symmetric] blake3_IV_def counter_low_def counter_high_def)
qed

text \<open>Rounds keep the 16 words.\<close>

lemma length_b3_round [simp]: "length (b3_round v m) = length v"
proof -
  have "length (b3_quarter v q x y) = length v" for v q x y
    by (simp add: b3_quarter_def Let_def split: prod.splits)
  then have "length (foldl (\<lambda>v (i, q). b3_quarter v q (m ! (2 * i)) (m ! (2 * i + 1))) v es) = length v" for es
    by (induction es arbitrary: v) auto
  then show ?thesis by (simp add: b3_round_def)
qed

lemma length_b3_rounds [simp]: "length (b3_rounds n v m) = length v"
  by (induction n arbitrary: v m) simp_all

text \<open>
  C28. The unrolled code, with its table of message schedules and its state updated in place, computes the
  published compression function: seven rounds of eight quarter rounds on the columns and diagonals
  with the words permuted after each round. The short form is its first half; the long form writes
  all sixteen words in little-endian order. The initial words of the code are the published ones, the
  fractional parts of square roots of primes.
\<close>

theorem compress_is_published:
  assumes "length cv = 8"
  shows "blake3_compress_in_place cv block len counter flags = take 8 (b3_compress cv block len counter flags) \<and>
    blake3_compress_xof cv block len counter flags = concat (map store32 (b3_compress cv block len counter flags)) \<and>
    list_all2 root_fraction [(2, 1), (3, 1), (5, 2), (7, 2), (11, 3), (13, 3), (17, 4), (19, 4)] blake3_IV"
proof -
  let ?v = "b3_rounds 7 (cv @ take 4 blake3_IV @ [ucast counter, ucast (drop_bit 32 counter), ucast len, ucast flags]) (b3_words block)"
  have v: "length ?v = 16" using assms by (simp add: blake3_IV_def)
  have low: "map (\<lambda>i. ?v ! i XOR ?v ! (i + 8)) [0..<8] = map2 (XOR) (take 8 ?v) (drop 8 ?v)"
    using v by (intro nth_equalityI) (simp_all add: add.commute)
  have high: "map (\<lambda>i. ?v ! (i + 8) XOR cv ! i) [0..<8] = map2 (XOR) (drop 8 ?v) cv"
    using v assms by (intro nth_equalityI) (simp_all add: add.commute)
  have short: "blake3_compress_in_place cv block len counter flags = take 8 (b3_compress cv block len counter flags)"
    using low v unfolding blake3_compress_in_place_def compress_pre_rounds [OF assms] b3_compress_def
      blake3_IV_published [symmetric] Let_def by simp
  have "concat (map (\<lambda>i. store32 (?v ! i XOR ?v ! (i + 8))) [0..<8]) = concat (map store32 (map2 (XOR) (take 8 ?v) (drop 8 ?v)))"
    unfolding low [symmetric] by (simp add: comp_def)
  moreover have "concat (map (\<lambda>i. store32 (?v ! (i + 8) XOR cv ! i)) [0..<8]) = concat (map store32 (map2 (XOR) (drop 8 ?v) cv))"
    unfolding high [symmetric] by (simp add: comp_def)
  ultimately have "blake3_compress_xof cv block len counter flags = concat (map store32 (b3_compress cv block len counter flags))"
    unfolding blake3_compress_xof_def compress_pre_rounds [OF assms] b3_compress_def blake3_IV_published [symmetric] Let_def
    by simp
  with short show ?thesis using b3_IV_roots by (simp add: blake3_IV_published)
qed

lemma compress_is_published_witness:
  "blake3_compress_in_place blake3_IV (zeros 64) 64 7 1 = take 8 (b3_compress blake3_IV (zeros 64) 64 7 1)"
  using compress_is_published [of blake3_IV] by (simp add: blake3_IV_def)

end
