(* ===== verification/Blake3Chunk.thy ===== *)
theory Blake3Chunk
  imports Blake3Compress
begin

text \<open>
  \<open>libs/blake3/blake3.c\<close>, the first part: the state of a chunk, what it becomes as bytes are added, and
  the output of a node of the tree. Lengths of type \<open>size_t\<close> are those of the byte lists.
\<close>

section \<open>Outputs\<close>

record output_t =
  out_input_cv :: "u32 list"
  out_counter :: u64
  out_block :: bytes
  out_block_len :: byte
  out_flags :: byte

definition make_output :: "u32 list \<Rightarrow> bytes \<Rightarrow> byte \<Rightarrow> u64 \<Rightarrow> byte \<Rightarrow> output_t" where
  "make_output input_cv block block_len counter flags =
     \<lparr>out_input_cv = input_cv, out_counter = counter, out_block = block, out_block_len = block_len,
      out_flags = flags\<rparr>"

definition output_chaining_value :: "output_t \<Rightarrow> bytes" where
  "output_chaining_value self =
     store_cv_words (blake3_compress_in_place (out_input_cv self) (out_block self) (out_block_len self)
       (out_counter self) (out_flags self))"

text \<open>
  The bytes written for the root, whole blocks of output and what is left of them. \<open>out_len & -64\<close> is
  \<open>out_len\<close> without its last six bits.
\<close>

definition root_tail :: "output_t \<Rightarrow> u64 \<Rightarrow> nat \<Rightarrow> bytes" where
  "root_tail self output_block_counter out_len =
     (let out = (if out_len div 64 \<noteq> 0
            then blake3_xof_many (out_input_cv self) (out_block self) (out_block_len self)
              output_block_counter (out_flags self OR ROOT) (out_len div 64)
            else []);
          output_block_counter = output_block_counter + of_nat (out_len div 64);
          out_len = out_len - 64 * (out_len div 64) in
      if out_len \<noteq> 0
      then out @ take out_len (blake3_compress_xof (out_input_cv self) (out_block self) (out_block_len self)
             output_block_counter (out_flags self OR ROOT))
      else out)"

definition output_root_bytes :: "output_t \<Rightarrow> u64 \<Rightarrow> nat \<Rightarrow> bytes" where
  "output_root_bytes self seek out_len =
     (if out_len = 0 then []
      else
        let output_block_counter = seek div 64;
            offset_within_block = unat (seek mod 64) in
        if offset_within_block \<noteq> 0
        then
          let wide_buf = blake3_compress_xof (out_input_cv self) (out_block self) (out_block_len self)
                output_block_counter (out_flags self OR ROOT);
              available_bytes = 64 - offset_within_block;
              n = (if out_len > available_bytes then available_bytes else out_len) in
          read_at offset_within_block n wide_buf @ root_tail self (output_block_counter + 1) (out_len - n)
        else root_tail self output_block_counter out_len)"

definition parent_output :: "bytes \<Rightarrow> u32 list \<Rightarrow> byte \<Rightarrow> output_t" where
  "parent_output block key flags = make_output key block (of_nat BLAKE3_BLOCK_LEN) 0 (flags OR PARENT)"

section \<open>Chunks\<close>

record chunk_state =
  cs_cv :: "u32 list"
  cs_counter :: u64
  cs_buf :: bytes
  cs_buf_len :: byte
  cs_blocks :: byte
  cs_flags :: byte

definition chunk_state_init :: "u32 list \<Rightarrow> byte \<Rightarrow> chunk_state" where
  "chunk_state_init key flags =
     \<lparr>cs_cv = key, cs_counter = 0, cs_buf = zeros BLAKE3_BLOCK_LEN, cs_buf_len = 0, cs_blocks = 0, cs_flags = flags\<rparr>"

definition chunk_state_reset :: "chunk_state \<Rightarrow> u32 list \<Rightarrow> u64 \<Rightarrow> chunk_state" where
  "chunk_state_reset self key chunk_counter =
     self\<lparr>cs_cv := key, cs_counter := chunk_counter, cs_blocks := 0, cs_buf := zeros BLAKE3_BLOCK_LEN, cs_buf_len := 0\<rparr>"

definition chunk_state_len :: "chunk_state \<Rightarrow> nat" where
  "chunk_state_len self = BLAKE3_BLOCK_LEN * unat (cs_blocks self) + unat (cs_buf_len self)"

definition chunk_state_fill_buf :: "chunk_state \<Rightarrow> bytes \<Rightarrow> chunk_state \<times> nat" where
  "chunk_state_fill_buf self input =
     (let n = BLAKE3_BLOCK_LEN - unat (cs_buf_len self);
          n = (if n > length input then length input else n) in
      (self\<lparr>cs_buf := write_at (unat (cs_buf_len self)) (take n input) (cs_buf self),
            cs_buf_len := cs_buf_len self + of_nat n\<rparr>, n))"

definition chunk_state_maybe_start_flag :: "chunk_state \<Rightarrow> byte" where
  "chunk_state_maybe_start_flag self = (if cs_blocks self = 0 then CHUNK_START else 0)"

text \<open>The loop over the blocks that are certainly not the last.\<close>

function compress_blocks :: "chunk_state \<Rightarrow> bytes \<Rightarrow> chunk_state \<times> bytes" where
  "compress_blocks self input =
     (if length input > BLAKE3_BLOCK_LEN
      then compress_blocks
        (self\<lparr>cs_cv := blake3_compress_in_place (cs_cv self) (take BLAKE3_BLOCK_LEN input) (of_nat BLAKE3_BLOCK_LEN)
             (cs_counter self) (cs_flags self OR chunk_state_maybe_start_flag self),
           cs_blocks := cs_blocks self + 1\<rparr>) (drop BLAKE3_BLOCK_LEN input)
      else (self, input))"
  by pat_completeness auto
termination by (relation "measure (\<lambda>(self, input). length input)") auto

declare compress_blocks.simps [simp del]

definition chunk_state_update :: "chunk_state \<Rightarrow> bytes \<Rightarrow> chunk_state" where
  "chunk_state_update self input =
     (let (self, input) =
        (if cs_buf_len self > 0
         then
           let (self, n) = chunk_state_fill_buf self input;
               input = drop n input in
           if length input > 0
           then (self\<lparr>cs_cv := blake3_compress_in_place (cs_cv self) (cs_buf self) (of_nat BLAKE3_BLOCK_LEN)
                     (cs_counter self) (cs_flags self OR chunk_state_maybe_start_flag self),
                   cs_blocks := cs_blocks self + 1, cs_buf_len := 0, cs_buf := zeros BLAKE3_BLOCK_LEN\<rparr>, input)
           else (self, input)
         else (self, input));
        (self, input) = compress_blocks self input in
      fst (chunk_state_fill_buf self input))"

definition chunk_state_output :: "chunk_state \<Rightarrow> output_t" where
  "chunk_state_output self =
     (let block_flags = cs_flags self OR chunk_state_maybe_start_flag self OR CHUNK_END in
      make_output (cs_cv self) (cs_buf self) (cs_buf_len self) (cs_counter self) block_flags)"

section \<open>What a chunk means\<close>

text \<open>
  A chunk of up to 1024 bytes is cut into blocks of 64; the last one, which is empty only when the chunk
  is, is padded with zeros. \<open>chain\<close> is the chaining value before block \<open>n\<close>.
\<close>

fun chain :: "u32 list \<Rightarrow> byte \<Rightarrow> u64 \<Rightarrow> bytes \<Rightarrow> nat \<Rightarrow> u32 list" where
  "chain key flags counter bs 0 = key"
| "chain key flags counter bs (Suc n) =
     blake3_compress_in_place (chain key flags counter bs n) (read_at (64 * n) 64 bs) 64 counter
       (flags OR (if n = 0 then CHUNK_START else 0))"

definition last_block :: "bytes \<Rightarrow> nat" where
  "last_block bs = (length bs - 1) div 64"

definition chunk_output :: "u32 list \<Rightarrow> byte \<Rightarrow> u64 \<Rightarrow> bytes \<Rightarrow> output_t" where
  "chunk_output key flags counter bs =
     (let n = last_block bs; r = drop (64 * n) bs in
      \<lparr>out_input_cv = chain key flags counter bs n, out_counter = counter, out_block = r @ zeros (64 - length r),
       out_block_len = of_nat (length r), out_flags = flags OR (if n = 0 then CHUNK_START else 0) OR CHUNK_END\<rparr>)"

text \<open>The state after \<open>n\<close> blocks, with the rest of \<open>bs\<close> in the buffer.\<close>

definition chunk_mid :: "u32 list \<Rightarrow> byte \<Rightarrow> u64 \<Rightarrow> nat \<Rightarrow> bytes \<Rightarrow> chunk_state" where
  "chunk_mid key flags counter n bs =
     (let r = drop (64 * n) bs in
      \<lparr>cs_cv = chain key flags counter bs n, cs_counter = counter, cs_buf = r @ zeros (64 - length r),
       cs_buf_len = of_nat (length r), cs_blocks = of_nat n, cs_flags = flags\<rparr>)"

definition chunk_at :: "u32 list \<Rightarrow> byte \<Rightarrow> u64 \<Rightarrow> bytes \<Rightarrow> chunk_state" where
  "chunk_at key flags counter bs = chunk_mid key flags counter (last_block bs) bs"

lemma last_block_eq: "64 * n < length bs \<Longrightarrow> length bs \<le> 64 * n + 64 \<Longrightarrow> last_block bs = n"
  unfolding last_block_def by (rule div_nat_eqI) auto

lemma chunk_mid_simps [simp]:
  "cs_counter (chunk_mid key flags counter n bs) = counter" "cs_flags (chunk_mid key flags counter n bs) = flags"
  "cs_counter (chunk_at key flags counter bs) = counter" "cs_flags (chunk_at key flags counter bs) = flags"
  by (simp_all add: chunk_mid_def chunk_at_def Let_def)

lemma chunk_mid_sel:
  "cs_cv (chunk_mid key flags counter n bs) = chain key flags counter bs n"
  "cs_buf (chunk_mid key flags counter n bs) = drop (64 * n) bs @ zeros (64 - length (drop (64 * n) bs))"
  "cs_buf_len (chunk_mid key flags counter n bs) = of_nat (length (drop (64 * n) bs))"
  "cs_blocks (chunk_mid key flags counter n bs) = of_nat n"
  by (simp_all add: chunk_mid_def Let_def)

lemma init_chunk_at: "(chunk_state_init key flags)\<lparr>cs_counter := counter\<rparr> = chunk_at key flags counter []"
  "chunk_state_init key flags = chunk_at key flags 0 []"
  "chunk_state_reset (chunk_mid key' flags c' n bs) key counter = chunk_at key flags counter []"
  by (simp_all add: chunk_state_init_def chunk_at_def chunk_mid_def last_block_def chunk_state_reset_def Let_def)

lemma chain_append: "64 * n \<le> length bs \<Longrightarrow> chain key flags counter (bs @ ys) n = chain key flags counter bs n"
  by (induction n) (simp_all add: read_at_def)

lemma small_byte: "n < 256 \<Longrightarrow> unat (of_nat n :: byte) = n"
  by (simp add: unat_of_nat)

lemma start_flag: "n < 256 \<Longrightarrow>
    chunk_state_maybe_start_flag (chunk_mid key flags counter n bs) = (if n = 0 then CHUNK_START else 0)"
proof -
  assume "n < 256"
  then have "(of_nat n :: byte) = 0 \<longleftrightarrow> n = 0" by (auto simp: word_of_nat_eq_0_iff dest: dvd_imp_le)
  then show ?thesis by (simp add: chunk_state_maybe_start_flag_def chunk_mid_sel)
qed

lemma chunk_at_output: "length bs \<le> 1024 \<Longrightarrow> chunk_state_output (chunk_at key flags counter bs) = chunk_output key flags counter bs"
proof -
  assume "length bs \<le> 1024"
  then have "last_block bs < 256" by (simp add: last_block_def)
  note flag = start_flag [OF this]
  show ?thesis
    unfolding chunk_state_output_def chunk_at_def chunk_output_def make_output_def Let_def flag chunk_mid_sel
      chunk_mid_simps by (rule refl)
qed

section \<open>Adding bytes\<close>

text \<open>Filling the buffer, while it has room.\<close>

lemma fill_buf_mid:
  assumes "64 * n \<le> length bs" "length bs \<le> 64 * n + 64"
  shows "chunk_state_fill_buf (chunk_mid key flags counter n bs) ys =
    (let k = min (64 * n + 64 - length bs) (length ys) in (chunk_mid key flags counter n (bs @ take k ys), k))"
proof -
  let ?r = "drop (64 * n) bs" and ?k = "min (64 * n + 64 - length bs) (length ys)"
  have len: "unat (of_nat (length ?r) :: byte) = length ?r" using assms by (intro small_byte) simp
  have k: "(let m = BLAKE3_BLOCK_LEN - unat (cs_buf_len (chunk_mid key flags counter n bs)) in if m > length ys then length ys else m) = ?k"
    using assms unfolding chunk_mid_sel len Let_def by auto
  have "write_at (length ?r) (take ?k ys) (?r @ zeros (64 - length ?r)) =
      ?r @ take ?k ys @ zeros (64 - length (?r @ take ?k ys))"
    using assms by (simp add: write_at_zeros)
  moreover have "drop (64 * n) (bs @ take ?k ys) = ?r @ take ?k ys" using assms by simp
  moreover have "(of_nat (length ?r) + of_nat ?k :: byte) = of_nat (length (?r @ take ?k ys))" by simp
  ultimately have "(chunk_mid key flags counter n bs)
      \<lparr>cs_buf := write_at (unat (cs_buf_len (chunk_mid key flags counter n bs))) (take ?k ys) (cs_buf (chunk_mid key flags counter n bs)),
       cs_buf_len := cs_buf_len (chunk_mid key flags counter n bs) + of_nat ?k\<rparr> = chunk_mid key flags counter n (bs @ take ?k ys)"
    unfolding chunk_mid_sel len unfolding chunk_mid_def Let_def using chain_append [OF assms(1)] by simp
  then show ?thesis unfolding chunk_state_fill_buf_def Let_def [of "_ - _"] k [unfolded Let_def]
    by (simp only: Let_def k [unfolded Let_def])
qed

text \<open>Compressing a full buffer, and full blocks of the input.\<close>

lemma flush_mid:
  assumes "length bs = 64 * n + 64" "n < 256"
  shows "(chunk_mid key flags counter n bs)
    \<lparr>cs_cv := blake3_compress_in_place (cs_cv (chunk_mid key flags counter n bs)) (cs_buf (chunk_mid key flags counter n bs)) 64
       counter (flags OR chunk_state_maybe_start_flag (chunk_mid key flags counter n bs)),
     cs_blocks := cs_blocks (chunk_mid key flags counter n bs) + 1, cs_buf_len := 0, cs_buf := zeros 64\<rparr> =
    chunk_mid key flags counter (Suc n) bs"
  unfolding start_flag [OF assms(2)] chunk_mid_sel using assms(1) by (simp add: chunk_mid_def Let_def read_at_def)

lemma block_mid:
  assumes "length bs = 64 * n" "n < 256" "length input \<ge> 64"
  shows "(chunk_mid key flags counter n bs)
    \<lparr>cs_cv := blake3_compress_in_place (cs_cv (chunk_mid key flags counter n bs)) (take 64 input) 64
       counter (flags OR chunk_state_maybe_start_flag (chunk_mid key flags counter n bs)),
     cs_blocks := cs_blocks (chunk_mid key flags counter n bs) + 1\<rparr> =
    chunk_mid key flags counter (Suc n) (bs @ take 64 input)"
  unfolding start_flag [OF assms(2)] chunk_mid_sel using assms(1,3)
  by (simp add: chunk_mid_def Let_def read_at_def chain_append)

lemma compress_blocks_mid:
  "length bs = 64 * n \<Longrightarrow> length bs + length input \<le> 1024 \<Longrightarrow>
   compress_blocks (chunk_mid key flags counter n bs) input =
     (let m = (length input - 1) div 64 in
      (chunk_mid key flags counter (n + m) (bs @ take (64 * m) input), drop (64 * m) input))"
proof (induction "length input" arbitrary: n bs input rule: less_induct)
  case less
  show ?case
  proof (cases "length input > 64")
    case False
    then have "(length input - 1) div 64 = 0" by simp
    then show ?thesis using False by (subst compress_blocks.simps) simp
  next
    case True
    then have m: "(length input - 1) div 64 = Suc ((length (drop 64 input) - 1) div 64)" by simp
    have "compress_blocks (chunk_mid key flags counter n bs) input =
        compress_blocks (chunk_mid key flags counter (Suc n) (bs @ take 64 input)) (drop 64 input)"
      using True less.prems block_mid [of bs n input key flags counter] by (subst compress_blocks.simps) simp
    also have "\<dots> = (let m = (length (drop 64 input) - 1) div 64 in
        (chunk_mid key flags counter (Suc n + m) ((bs @ take 64 input) @ take (64 * m) (drop 64 input)), drop (64 * m) (drop 64 input)))"
      using True less.prems by (intro less.hyps) simp_all
    finally show ?thesis unfolding m by (simp add: Let_def take_add add.commute)
  qed
qed

text \<open>The end of the update, once the buffer is empty.\<close>

lemma finish_mid:
  assumes "length bs = 64 * n" "length bs + length input \<le> 1024" "bs = [] \<or> input \<noteq> []"
  shows "(let (self, input) = compress_blocks (chunk_mid key flags counter n bs) input in
      fst (chunk_state_fill_buf self input)) = chunk_at key flags counter (bs @ input)"
proof -
  let ?m = "(length input - 1) div 64"
  let ?bs = "bs @ take (64 * ?m) input"
  have m: "64 * ?m \<le> length input" "length input \<le> 64 * ?m + 64" by auto
  have last: "last_block (bs @ input) = n + ?m"
  proof (cases input)
    case Nil
    then show ?thesis using assms by (simp add: last_block_def)
  next
    case (Cons i js)
    then have "length (bs @ input) - 1 = 64 * n + (length input - 1)" using assms by simp
    then show ?thesis by (simp add: last_block_def)
  qed
  have len: "length ?bs = 64 * (n + ?m)" using assms m by simp
  have "fst (chunk_state_fill_buf (chunk_mid key flags counter (n + ?m) ?bs) (drop (64 * ?m) input)) =
      chunk_mid key flags counter (n + ?m) (?bs @ drop (64 * ?m) input)"
  proof -
    have k: "min (64 * (n + ?m) + 64 - length ?bs) (length (drop (64 * ?m) input)) = length (drop (64 * ?m) input)"
      unfolding len using m by simp
    have room: "64 * (n + ?m) \<le> length ?bs" "length ?bs \<le> 64 * (n + ?m) + 64" unfolding len by simp_all
    show ?thesis unfolding fill_buf_mid [OF room] k Let_def fst_conv take_all_iff [THEN iffD2, OF order_refl] ..
  qed
  moreover have "?bs @ drop (64 * ?m) input = bs @ input" by simp
  ultimately show ?thesis
    unfolding compress_blocks_mid [OF assms(1,2), of key flags counter] Let_def prod.case chunk_at_def last by argo
qed

text \<open>Adding bytes to a chunk that holds \<open>bs\<close> gives the chunk that holds all of them.\<close>

lemma chunk_update:
  assumes "length (bs @ ys) \<le> 1024"
  shows "chunk_state_update (chunk_at key flags counter bs) ys = chunk_at key flags counter (bs @ ys)"
proof (cases "bs = []")
  case True
  then have "cs_buf_len (chunk_at key flags counter bs) = 0" "chunk_at key flags counter bs = chunk_mid key flags counter 0 []"
    by (simp_all add: chunk_at_def chunk_mid_sel last_block_def)
  then show ?thesis using finish_mid [of "[]" 0 ys key flags counter] assms True
    by (simp add: chunk_state_update_def)
next
  case False
  let ?n = "last_block bs"
  let ?k = "min (64 * ?n + 64 - length bs) (length ys)"
  have n: "64 * ?n < length bs" "length bs \<le> 64 * ?n + 64" "?n < 256"
    using assms False by (auto simp: last_block_def) (cases bs, auto)
  have "unat (of_nat (length bs - 64 * ?n) :: byte) = length bs - 64 * ?n" using n by (intro small_byte) simp
  then have pos: "cs_buf_len (chunk_at key flags counter bs) > 0"
    using n by (simp add: chunk_at_def chunk_mid_sel word_less_nat_alt)
  have fill: "chunk_state_fill_buf (chunk_at key flags counter bs) ys = (chunk_mid key flags counter ?n (bs @ take ?k ys), ?k)"
    using fill_buf_mid [of ?n bs] n by (simp add: chunk_at_def Let_def)
  show ?thesis
  proof (cases "length ys \<le> ?k")
    case True
    let ?all = "chunk_mid key flags counter ?n (bs @ ys)"
    have "last_block (bs @ ys) = ?n"
      using n True by (intro last_block_eq) (auto simp: min_def split: if_splits)
    then have all: "?all = chunk_at key flags counter (bs @ ys)" by (simp add: chunk_at_def)
    have "fst (chunk_state_fill_buf ?all []) = ?all"
      using fill_buf_mid [of ?n "bs @ ys" key flags counter "[]"] n True by (simp add: Let_def)
    then show ?thesis using fill pos True all by (simp add: chunk_state_update_def compress_blocks.simps)
  next
    case rest: False
    then have full: "length (bs @ take ?k ys) = 64 * ?n + 64" using n by auto
    have ne: "drop ?k ys \<noteq> []" using rest by auto
    note flush = flush_mid [OF full n(3), of key flags counter]
    have "chunk_state_update (chunk_at key flags counter bs) ys =
        (let (self, input) = compress_blocks (chunk_mid key flags counter (Suc ?n) (bs @ take ?k ys)) (drop ?k ys) in
         fst (chunk_state_fill_buf self input))"
      unfolding chunk_state_update_def using pos fill ne flush by simp
    also have "\<dots> = chunk_at key flags counter ((bs @ take ?k ys) @ drop ?k ys)"
      using full ne assms by (intro finish_mid) auto
    finally show ?thesis by simp
  qed
qed

section \<open>Incremental hashing as an interface\<close>

text \<open>
  A state that stands for the bytes it was given, up to a limit, and an operation that adds more. Then
  it does not matter how the bytes are cut into pieces.
\<close>

locale absorber =
  fixes absorb :: "'s \<Rightarrow> bytes \<Rightarrow> 's"
    and holds :: "'s \<Rightarrow> bytes \<Rightarrow> bool"
    and limit :: nat
  assumes absorb_holds: "holds s bs \<Longrightarrow> length (bs @ ys) \<le> limit \<Longrightarrow> holds (absorb s ys) (bs @ ys)"
begin

lemma absorb_pieces:
  "holds s bs \<Longrightarrow> length (bs @ concat pieces) \<le> limit \<Longrightarrow> holds (foldl absorb s pieces) (bs @ concat pieces)"
proof (induction pieces arbitrary: s bs)
  case (Cons ys pieces)
  then have "holds (absorb s ys) (bs @ ys)" by (intro absorb_holds) simp_all
  from Cons.IH [OF this] Cons.prems(2) show ?case by simp
qed simp

end

interpretation chunk: absorber chunk_state_update "\<lambda>s bs. s = chunk_at key flags counter bs" 1024
  by unfold_locales (simp add: chunk_update)

end
