(* ===== verification/Blake3Bits.thy ===== *)
theory Blake3Bits
  imports Prelude
begin

text \<open>
  The bit-counting helpers of \<open>libs/blake3/blake3_impl.h\<close>, as written for compilers without built-ins:
  the index of the highest one, the number of ones, and the largest power of two that fits.
\<close>

text \<open>One line of the search: \<open>if (x & m) { x >>= s; c += s; }\<close>.\<close>

definition halve :: "nat \<Rightarrow> u64 \<Rightarrow> u64 \<times> nat \<Rightarrow> u64 \<times> nat" where
  "halve s m st = (case st of (x, c) \<Rightarrow> if x AND m \<noteq> 0 then (drop_bit s x, c + s) else (x, c))"

definition highest_one :: "u64 \<Rightarrow> nat" where
  "highest_one x =
     (let st = (x, 0);
          st = halve 32 0xffffffff00000000 st;
          st = halve 16 0x00000000ffff0000 st;
          st = halve 8 0x000000000000ff00 st;
          st = halve 4 0x00000000000000f0 st;
          st = halve 2 0x000000000000000c st in
      case st of (x, c) \<Rightarrow> if x AND 0x0000000000000002 \<noteq> 0 then c + 1 else c)"

lemma clear_lowest_less: "x \<noteq> 0 \<Longrightarrow> unat (x AND (x - 1)) < unat (x :: u64)"
proof -
  assume "x \<noteq> 0"
  then have "unat (x - 1) < unat x" by (simp add: unat_gt_0 unat_minus_one)
  moreover have "unat (x AND (x - 1)) \<le> unat (x - 1)"
    by (simp add: word_and_le1 flip: word_le_nat_alt)
  ultimately show ?thesis by simp
qed

function popcnt_loop :: "u64 \<Rightarrow> nat \<Rightarrow> nat" where
  "popcnt_loop x n = (if x \<noteq> 0 then popcnt_loop (x AND (x - 1)) (n + 1) else n)"
  by pat_completeness auto
termination by (relation "measure (\<lambda>(x, n). unat x)") (simp_all add: clear_lowest_less)

declare popcnt_loop.simps [simp del]

definition popcnt :: "u64 \<Rightarrow> nat" where "popcnt x = popcnt_loop x 0"

definition round_down_to_power_of_2 :: "u64 \<Rightarrow> u64" where
  "round_down_to_power_of_2 x = push_bit (highest_one (x OR 1)) 1"

section \<open>The number of ones\<close>

fun ones :: "nat \<Rightarrow> nat" where
  "ones n = (if n = 0 then 0 else n mod 2 + ones (n div 2))"

declare ones.simps [simp del]

lemma ones_0 [simp]: "ones 0 = 0"
  by (simp add: ones.simps)

lemma ones_double [simp]: "ones (2 * n) = ones n" "ones (Suc (2 * n)) = Suc (ones n)"
  by (subst ones.simps, simp)+

lemma ones_halves: "ones n = n mod 2 + ones (n div 2)"
  by (cases "n = 0") (simp_all add: ones.simps [of n])

lemma ones_clear_lowest: "n > 0 \<Longrightarrow> Suc (ones (n AND (n - 1))) = ones n"
proof (induction n rule: less_induct)
  case (less n)
  obtain m where "n = 2 * m \<or> n = Suc (2 * m)" by (metis oddE evenE Suc_eq_plus1)
  then show ?case
  proof
    assume n: "n = Suc (2 * m)"
    have "Suc (2 * m) AND 2 * m = 2 * m" by (simp add: and_nat_rec [of "Suc (2 * m)"])
    then show ?thesis using n by simp
  next
    assume n: "n = 2 * m"
    then have m: "m > 0" "m < n" using less.prems by auto
    then obtain k where k: "m = Suc k" by (metis gr0_implies_Suc)
    have "n AND (n - 1) = 2 * (m AND (m - 1))" unfolding n k by (simp add: and_nat_rec [of "Suc (Suc (2 * k))"])
    then show ?thesis using less.IH [OF m(2,1)] n by simp
  qed
qed

lemma popcnt_loop_ones: "popcnt_loop x n = n + ones (unat x)"
proof (induction x n rule: popcnt_loop.induct)
  case (1 x n)
  show ?case
  proof (cases "x = 0")
    case True
    then show ?thesis by (simp add: popcnt_loop.simps)
  next
    case False
    then have "unat (x AND (x - 1)) = unat x AND (unat x - 1)" by (simp add: unsigned_and_eq unat_minus_one)
    then show ?thesis using 1 [OF False] False ones_clear_lowest [of "unat x"]
      by (simp add: popcnt_loop.simps [of x] unat_gt_0)
  qed
qed

lemma popcnt_ones: "popcnt x = ones (unat x)"
  by (simp add: popcnt_def popcnt_loop_ones)

lemma ones_add_pow: "ones (a + 2 ^ k) \<le> Suc (ones a)"
proof (induction k arbitrary: a)
  case 0
  show ?case
  proof (induction a rule: less_induct)
    case (less a)
    show ?case
    proof (cases "even a")
      case True
      then show ?thesis by (auto elim!: evenE)
    next
      case False
      then obtain m where a: "a = Suc (2 * m)" by (metis oddE Suc_eq_plus1)
      then have "ones (m + 2 ^ 0) \<le> Suc (ones m)" using less by simp
      moreover have "a + 2 ^ 0 = 2 * (m + 1)" using a by simp
      ultimately show ?thesis using a by (simp only: ones_double) simp
    qed
  qed
next
  case (Suc k)
  have "(a + 2 ^ Suc k) mod 2 = a mod 2" "(a + 2 ^ Suc k) div 2 = a div 2 + 2 ^ k" by simp_all
  then show ?case using Suc.IH [of "a div 2"] ones_halves [of a] ones_halves [of "a + 2 ^ Suc k"]
    by (simp add: add.commute)
qed

lemma ones_top: "r < 2 ^ k \<Longrightarrow> ones (2 ^ k + r) = Suc (ones r)"
proof (induction k arbitrary: r)
  case 0
  then show ?case by (simp add: ones.simps)
next
  case (Suc k)
  have "(2 ^ Suc k + r) mod 2 = r mod 2" "(2 ^ Suc k + r) div 2 = 2 ^ k + r div 2" by simp_all
  then show ?case using Suc.IH [of "r div 2"] Suc.prems ones_halves [of r] ones_halves [of "2 ^ Suc k + r"] by simp
qed

section \<open>The highest one\<close>

definition top_bit :: "nat \<Rightarrow> nat \<Rightarrow> bool" where
  "top_bit n k \<longleftrightarrow> 2 ^ k \<le> n \<and> n < 2 * 2 ^ k"

lemma some_bit_from: "2 ^ s \<le> n \<longleftrightarrow> (\<exists>k\<ge>s. bit n k)" for n :: nat
proof
  assume "2 ^ s \<le> n"
  then have "drop_bit s n \<noteq> 0" by (simp add: drop_bit_eq_div div_eq_0_iff)
  then obtain j where "bit (drop_bit s n) j" by (metis bit_0_eq bot_apply bot_bool_def bit_eqI)
  then show "\<exists>k\<ge>s. bit n k" by (auto simp: bit_drop_bit_eq intro: le_add1)
next
  assume "\<exists>k\<ge>s. bit n k"
  then obtain k where k: "s \<le> k" "odd (n div 2 ^ k)" by (auto simp: bit_iff_odd)
  then have "2 ^ k \<le> n" by (metis div_less even_zero not_le)
  moreover have "(2 :: nat) ^ s \<le> 2 ^ k" using k(1) by (rule power_increasing) simp
  ultimately show "2 ^ s \<le> n" by (rule order_trans [rotated])
qed

text \<open>One step of the search: whether one of the upper half of the bits under consideration is set.\<close>

lemma upper_half:
  assumes "unat (x :: u64) < 2 ^ (2 * s)"
  shows "(x AND push_bit s (mask s) \<noteq> 0) = (2 ^ s \<le> unat x)"
proof -
  have below: "bit x k \<Longrightarrow> k < 2 * s" for k
    using assms some_bit_from [of "2 * s" "unat x"] by (auto simp: bit_unsigned_iff not_le [symmetric])
  have "(x AND push_bit s (mask s) \<noteq> 0) = (\<exists>k. bit x k \<and> s \<le> k \<and> k < 64)"
  proof
    assume "x AND push_bit s (mask s) \<noteq> 0"
    then obtain k where "bit (x AND push_bit s (mask s)) k" by (metis bit_0_eq bot_apply bot_bool_def bit_eqI)
    then show "\<exists>k. bit x k \<and> s \<le> k \<and> k < 64" by (auto simp: bit_simps)
  next
    assume "\<exists>k. bit x k \<and> s \<le> k \<and> k < 64"
    then obtain k where k: "bit x k" "s \<le> k" "k < 64" by blast
    then have "bit (x AND push_bit s (mask s)) k" using below [OF k(1)] by (simp add: bit_simps) linarith
    then show "x AND push_bit s (mask s) \<noteq> 0" by auto
  qed
  also have "\<dots> = (2 ^ s \<le> unat x)"
    unfolding some_bit_from using bit_imp_le_length [of x] by (fastforce simp: bit_unsigned_iff)
  finally show ?thesis .
qed

text \<open>What is left to find: the highest one of \<open>x0\<close> is \<open>c\<close> places above that of \<open>x\<close>.\<close>

definition searching :: "u64 \<Rightarrow> nat \<Rightarrow> u64 \<times> nat \<Rightarrow> bool" where
  "searching x0 s st = (case st of (x, c) \<Rightarrow>
     x \<noteq> 0 \<and> unat x < 2 ^ s \<and> (\<forall>k. top_bit (unat x) k \<longrightarrow> top_bit (unat x0) (k + c)))"

lemma search_step:
  assumes st: "searching x0 (2 * s) (x, c)" and m: "m = push_bit s (mask s)"
  shows "searching x0 s (if x AND m \<noteq> 0 then (drop_bit s x, c + s) else (x, c))"
proof (cases "2 ^ s \<le> unat x")
  case False
  then show ?thesis using st upper_half [of x s] by (simp add: searching_def m)
next
  case True
  then have test: "x AND m \<noteq> 0" using st upper_half [of x s] by (simp add: searching_def m)
  have u: "unat (drop_bit s x) = unat x div 2 ^ s" by (subst unat_drop_bit_eq) (rule drop_bit_eq_div)
  have "unat x div 2 ^ s < 2 ^ s"
    using st by (simp add: searching_def less_mult_imp_div_less mult_2 power_add)
  moreover have "unat x div 2 ^ s > 0" using True by (simp add: div_greater_zero_iff)
  then have "drop_bit s x \<noteq> 0" using u by (metis less_irrefl unat_0)
  moreover have "top_bit (unat x) (k + s)" if "top_bit (unat x div 2 ^ s) k" for k
    using that by (simp add: top_bit_def power_add less_eq_div_iff_mult_less_eq div_less_iff_less_mult)
  ultimately show ?thesis using st test u
    by (auto simp: searching_def) (metis add.assoc add.commute)
qed

lemma highest_one_top:
  assumes "x0 \<noteq> 0"
  shows "top_bit (unat x0) (highest_one x0)"
proof -
  have s0: "searching x0 (2 * 32) (x0, 0)"
    using assms unsigned_less [of x0] by (simp add: searching_def)
  have step: "searching x0 s (halve s m st)" if "searching x0 (2 * s) st" "m = push_bit s (mask s)" for s m st
  proof (cases st)
    case (Pair x c)
    then show ?thesis using search_step [of x0 s x c m] that by (simp add: halve_def)
  qed
  have m: "(0xffffffff00000000 :: u64) = push_bit 32 (mask 32)" "(0x00000000ffff0000 :: u64) = push_bit 16 (mask 16)"
    "(0x000000000000ff00 :: u64) = push_bit 8 (mask 8)" "(0x00000000000000f0 :: u64) = push_bit 4 (mask 4)"
    "(0x000000000000000c :: u64) = push_bit 2 (mask 2)"
    by (simp_all add: mask_eq_exp_minus_1)
  let ?st = "halve 2 0x0c (halve 4 0xf0 (halve 8 0xff00 (halve 16 0xffff0000 (halve 32 0xffffffff00000000 (x0, 0)))))"
  have s1: "searching x0 (2 * 16) (halve 32 0xffffffff00000000 (x0, 0))" using step [OF s0 m(1)] by simp
  have s2: "searching x0 (2 * 8) (halve 16 0xffff0000 (halve 32 0xffffffff00000000 (x0, 0)))" using step [OF s1 m(2)] by simp
  have s3: "searching x0 (2 * 4) (halve 8 0xff00 (halve 16 0xffff0000 (halve 32 0xffffffff00000000 (x0, 0))))"
    using step [OF s2 m(3)] by simp
  have s4: "searching x0 (2 * 2) (halve 4 0xf0 (halve 8 0xff00 (halve 16 0xffff0000 (halve 32 0xffffffff00000000 (x0, 0)))))"
    using step [OF s3 m(4)] by simp
  have s5: "searching x0 2 ?st" using step [OF s4 m(5)] by simp
  obtain x c where st: "?st = (x, c)" by (cases ?st)
  have "highest_one x0 = (case ?st of (x, c) \<Rightarrow> if x AND 2 \<noteq> 0 then c + 1 else c)"
    by (simp add: highest_one_def Let_def)
  then have h: "highest_one x0 = (if x AND 2 \<noteq> 0 then c + 1 else c)" by (simp add: st)
  have x: "x \<noteq> 0" "unat x < 4" "\<And>k. top_bit (unat x) k \<Longrightarrow> top_bit (unat x0) (k + c)"
    using s5 by (simp_all add: st searching_def)
  have two: "x AND 2 \<noteq> 0 \<longleftrightarrow> 2 \<le> unat x" using upper_half [of x 1] x(2) by (simp add: mask_eq_exp_minus_1)
  have "top_bit (unat x) (if x AND 2 \<noteq> 0 then 1 else 0)"
    using two x(1,2) unat_gt_0 [of x] by (auto simp: top_bit_def)
  from x(3) [OF this] show ?thesis unfolding h by (simp add: add.commute split: if_splits)
qed

section \<open>Powers of two\<close>

text \<open>The largest power of two that is at most \<open>n\<close>, and 1 for \<open>n = 0\<close>.\<close>

fun pow2_below :: "nat \<Rightarrow> nat" where
  "pow2_below n = (if n \<le> 1 then 1 else 2 * pow2_below (n div 2))"

declare pow2_below.simps [simp del]

lemma pow2_below_top: "n > 0 \<Longrightarrow> \<exists>k. pow2_below n = 2 ^ k \<and> top_bit n k"
proof (induction n rule: pow2_below.induct)
  case (1 n)
  show ?case
  proof (cases "n \<le> 1")
    case True
    then show ?thesis using 1 by (intro exI [of _ 0]) (simp add: pow2_below.simps top_bit_def)
  next
    case False
    then obtain k where "pow2_below (n div 2) = 2 ^ k" "top_bit (n div 2) k" using 1 by force
    then show ?thesis using False
      by (intro exI [of _ "Suc k"]) (simp add: pow2_below.simps [of n] top_bit_def less_mult_imp_div_less, linarith)
  qed
qed

lemma top_bit_unique: "top_bit n k \<Longrightarrow> top_bit n l \<Longrightarrow> k = l"
proof -
  have less: "\<not> k < l" if "top_bit n k" "top_bit n l" for k l
  proof
    assume "k < l"
    then have "(2 :: nat) ^ Suc k \<le> 2 ^ l" by (intro power_increasing) simp_all
    then show False using that by (simp add: top_bit_def)
  qed
  show "top_bit n k \<Longrightarrow> top_bit n l \<Longrightarrow> k = l" using less [of k l] less [of l k] by linarith
qed

lemma pow2_below_eq: "top_bit n k \<Longrightarrow> pow2_below n = 2 ^ k"
proof -
  assume t: "top_bit n k"
  then have "n > 0" by (auto simp: top_bit_def intro: Suc_leI dest: order_trans [rotated])
  then show ?thesis using pow2_below_top [of n] top_bit_unique [OF t] by auto
qed

lemma top_bit_or_one: "n > 0 \<Longrightarrow> top_bit (n OR 1) k \<Longrightarrow> top_bit n k"
proof -
  assume n: "n > 0" and t: "top_bit (n OR 1) k"
  show "top_bit n k"
  proof (cases "even n")
    case False
    then show ?thesis using t by (simp only: or_one_eq of_bool_eq add_0_right)
  next
    case True
    then have t': "2 ^ k \<le> n + 1" "n + 1 < 2 * 2 ^ k" using t unfolding or_one_eq top_bit_def by simp_all
    have "2 ^ k \<noteq> n + 1"
    proof (cases k)
      case (Suc j)
      then have "even (2 ^ k :: nat)" by simp
      then show ?thesis using True by (metis even_plus_one_iff)
    qed (use n in simp)
    then show ?thesis using t' by (simp add: top_bit_def)
  qed
qed

lemma round_down_pow2: "unat (round_down_to_power_of_2 x) = pow2_below (unat x)"
proof -
  let ?k = "highest_one (x OR 1)"
  have u: "unat (x OR 1) = unat x OR 1" by (simp add: unsigned_or_eq)
  have "x OR 1 \<noteq> 0" by (metis bit_0 bit_0_eq bit_or_iff bot_apply bot_bool_def odd_one)
  then have t: "top_bit (unat x OR 1) ?k" using highest_one_top [of "x OR 1"] u by simp
  then have "2 ^ ?k < (2 :: nat) ^ 64" unfolding top_bit_def u [symmetric]
    using unat_less_2p64 [of "x OR 1"] by simp
  then have k: "?k < 64" by (simp only: power_strict_increasing_iff one_less_numeral_iff semiring_norm)
  have "(push_bit ?k 1 :: u64) = of_nat (2 ^ ?k)" by (simp add: push_bit_eq_mult)
  then have "unat (push_bit ?k 1 :: u64) = 2 ^ ?k mod 2 ^ 64" by (simp only: unat_of_nat) simp
  also have "\<dots> = 2 ^ ?k" using k by (intro mod_less power_strict_increasing) simp_all
  finally have "unat (push_bit ?k 1 :: u64) = 2 ^ ?k" .
  moreover have "pow2_below (unat x) = 2 ^ ?k"
  proof (cases "unat x = 0")
    case True
    then have "?k = 0" using t top_bit_unique [of 1 ?k 0] by (simp add: top_bit_def)
    then show ?thesis using True by (simp add: pow2_below.simps)
  next
    case False
    then show ?thesis using top_bit_or_one [OF _ t] pow2_below_eq by simp
  qed
  ultimately show ?thesis by (simp add: round_down_to_power_of_2_def)
qed

lemma pow2_below_le: "pow2_below n \<le> max 1 n" "pow2_below n \<ge> 1"
  using pow2_below_top [of n] by (cases "n = 0"; auto simp: top_bit_def pow2_below.simps [of 0])+

end
