(* ===== verification/Blake3Tree.thy ===== *)
theory Blake3Tree
  imports Blake3Chunk Blake3Bits
begin

text \<open>
  \<open>libs/blake3/blake3.c\<close>, the middle part: hashing a subtree of the input. Whole chunks and pairs of
  chaining values are hashed in batches as wide as the processor allows; what comes out does not
  depend on that width. The functions return the bytes they write and how many chaining values these are.
\<close>

section \<open>Subtrees as the code hashes them\<close>

definition left_subtree_len :: "nat \<Rightarrow> nat" where
  "left_subtree_len input_len =
     (let full_chunks = (input_len - 1) div BLAKE3_CHUNK_LEN in
      unat (round_down_to_power_of_2 (of_nat full_chunks)) * BLAKE3_CHUNK_LEN)"

text \<open>The pointers gathered in \<open>chunks_array\<close>, each to one whole chunk.\<close>

function chunks_array :: "bytes \<Rightarrow> bytes list" where
  "chunks_array input =
     (if length input \<ge> BLAKE3_CHUNK_LEN
      then take BLAKE3_CHUNK_LEN input # chunks_array (drop BLAKE3_CHUNK_LEN input) else [])"
  by pat_completeness auto
termination by (relation "measure length") auto

declare chunks_array.simps [simp del]

definition compress_chunks_parallel :: "bytes \<Rightarrow> u32 list \<Rightarrow> u64 \<Rightarrow> byte \<Rightarrow> bytes \<times> nat" where
  "compress_chunks_parallel input key chunk_counter flags =
     (let chunks = chunks_array input;
          input_position = BLAKE3_CHUNK_LEN * length chunks;
          out = blake3_hash_many chunks (BLAKE3_CHUNK_LEN div BLAKE3_BLOCK_LEN) key chunk_counter True flags
            CHUNK_START CHUNK_END in
      if length input > input_position
      then
        let counter = chunk_counter + of_nat (length chunks);
            chunk_state = (chunk_state_init key flags)\<lparr>cs_counter := counter\<rparr>;
            chunk_state = chunk_state_update chunk_state (drop input_position input);
            output = chunk_state_output chunk_state in
        (out @ output_chaining_value output, length chunks + 1)
      else (out, length chunks))"

text \<open>The pointers gathered in \<open>parents_array\<close>, each to a pair of chaining values.\<close>

fun parents_array :: "bytes \<Rightarrow> nat \<Rightarrow> bytes list" where
  "parents_array cvs (Suc (Suc n)) = take (2 * BLAKE3_OUT_LEN) cvs # parents_array (drop (2 * BLAKE3_OUT_LEN) cvs) n"
| "parents_array cvs n = []"

definition compress_parents_parallel :: "bytes \<Rightarrow> nat \<Rightarrow> u32 list \<Rightarrow> byte \<Rightarrow> bytes \<times> nat" where
  "compress_parents_parallel child_chaining_values num_chaining_values key flags =
     (let parents = parents_array child_chaining_values num_chaining_values;
          out = blake3_hash_many parents 1 key 0 False (flags OR PARENT) 0 0 in
      if num_chaining_values > 2 * length parents
      then (out @ read_at (2 * length parents * BLAKE3_OUT_LEN) BLAKE3_OUT_LEN child_chaining_values, length parents + 1)
      else (out, length parents))"

lemma left_subtree_len_less: "n > 1024 \<Longrightarrow> left_subtree_len n < n" "n > 0 \<Longrightarrow> n - left_subtree_len n < n"
proof -
  let ?f = "(n - 1) div 1024"
  have le: "unat (of_nat ?f :: u64) \<le> ?f" by (simp add: unat_of_nat)
  have bounds: "pow2_below (unat (of_nat ?f :: u64)) \<le> max 1 ?f" "pow2_below (unat (of_nat ?f :: u64)) \<ge> 1"
    using pow2_below_le [of "unat (of_nat ?f :: u64)"] le by linarith+
  have l: "left_subtree_len n = pow2_below (unat (of_nat ?f :: u64)) * 1024"
    by (simp add: left_subtree_len_def round_down_pow2)
  show "n - left_subtree_len n < n" if "n > 0" using bounds(2) that unfolding l by linarith
  show "left_subtree_len n < n" if "n > 1024"
  proof -
    have "?f \<ge> 1" "?f * 1024 \<le> n - 1" using that by simp_all
    then show ?thesis using bounds(1) that unfolding l by linarith
  qed
qed

text \<open>
  \<open>cv_array\<close> holds what both recursive calls write, the right half at \<open>right_cvs\<close>. The recursion ends:
  both halves are shorter than the whole.
\<close>

function compress_subtree_wide :: "platform \<Rightarrow> bytes \<Rightarrow> u32 list \<Rightarrow> u64 \<Rightarrow> byte \<Rightarrow> bytes \<times> nat" where
  "compress_subtree_wide cpu input key chunk_counter flags =
     (if length input \<le> blake3_simd_degree cpu * BLAKE3_CHUNK_LEN
      then compress_chunks_parallel input key chunk_counter flags
      else
        let left_input_len = left_subtree_len (length input);
            right_chunk_counter = chunk_counter + of_nat (left_input_len div BLAKE3_CHUNK_LEN);
            degree = blake3_simd_degree cpu;
            degree = (if left_input_len > BLAKE3_CHUNK_LEN \<and> degree = 1 then 2 else degree);
            (left_cvs, left_n) = compress_subtree_wide cpu (take left_input_len input) key chunk_counter flags;
            (right_cvs, right_n) = compress_subtree_wide cpu (drop left_input_len input) key right_chunk_counter flags;
            cv_array = zeros (2 * MAX_SIMD_DEGREE_OR_2 (pf_build cpu) * BLAKE3_OUT_LEN);
            cv_array = write_at 0 left_cvs cv_array;
            cv_array = write_at (degree * BLAKE3_OUT_LEN) right_cvs cv_array in
        if left_n = 1 then (take (2 * BLAKE3_OUT_LEN) cv_array, 2)
        else compress_parents_parallel cv_array (left_n + right_n) key flags)"
  by pat_completeness auto
termination
proof (relation "measure (\<lambda>(cpu, input, key, chunk_counter, flags). length input)", goal_cases)
  case 1
  then show ?case by simp
next
  case (2 cpu input)
  then have "length input > 1024" using simd_degree_cases [of cpu] by auto
  then show ?case using 2 left_subtree_len_less(1) [of "length input"] by simp
next
  case (3 cpu input)
  then have "length input > 0" using simd_degree_cases [of cpu] by auto
  then show ?case using 3 left_subtree_len_less(2) [of "length input"] by simp
qed

declare compress_subtree_wide.simps [simp del]

lemma length_parents_array [simp]: "length (parents_array cvs n) = n div 2"
  by (induction cvs n rule: parents_array.induct) simp_all

lemma parents_count: "snd (compress_parents_parallel cvs n key flags) = (n + 1) div 2"
  by (simp add: compress_parents_parallel_def Let_def) presburger

text \<open>The loop that condenses the chaining values to two.\<close>

function condense :: "bytes \<Rightarrow> nat \<Rightarrow> u32 list \<Rightarrow> byte \<Rightarrow> bytes" where
  "condense cv_array num_cvs key flags =
     (if num_cvs > 2
      then
        let (out_array, num_cvs) = compress_parents_parallel cv_array num_cvs key flags in
        condense (write_at 0 (take (num_cvs * BLAKE3_OUT_LEN) out_array) cv_array) num_cvs key flags
      else cv_array)"
  by pat_completeness auto
termination
proof (relation "measure (\<lambda>(cv_array, num_cvs, key, flags). num_cvs)", goal_cases)
  case (2 cv_array num_cvs key flags x xa y)
  then show ?case using parents_count [of cv_array num_cvs key flags] by (simp add: prod_eq_iff)
qed simp

declare condense.simps [simp del]

definition compress_subtree_to_parent_node :: "platform \<Rightarrow> bytes \<Rightarrow> u32 list \<Rightarrow> u64 \<Rightarrow> byte \<Rightarrow> bytes" where
  "compress_subtree_to_parent_node cpu input key chunk_counter flags =
     (let (cvs, num_cvs) = compress_subtree_wide cpu input key chunk_counter flags;
          cv_array = write_at 0 cvs (zeros (MAX_SIMD_DEGREE_OR_2 (pf_build cpu) * BLAKE3_OUT_LEN));
          cv_array = condense cv_array num_cvs key flags in
      take (2 * BLAKE3_OUT_LEN) cv_array)"

section \<open>The published tree\<close>

text \<open>The number of bytes in the left subtree: as many whole chunks as possible, a power of two of them.\<close>

definition left_len :: "nat \<Rightarrow> nat" where
  "left_len n = 1024 * pow2_below ((n - 1) div 1024)"

lemma left_len_less: "n > 1024 \<Longrightarrow> left_len n < n" "left_len n > 0"
proof -
  assume "n > 1024"
  then have "(n - 1) div 1024 \<ge> 1" by simp
  then have "left_len n \<le> 1024 * ((n - 1) div 1024)"
    using pow2_below_le(1) [of "(n - 1) div 1024"] by (simp add: left_len_def)
  also have "\<dots> \<le> n - 1" by simp
  finally show "left_len n < n" using \<open>n > 1024\<close> by simp
next
  show "left_len n > 0" using pow2_below_le(2) [of "(n - 1) div 1024"] by (simp add: left_len_def)
qed

lemma right_len_less: "n > 1024 \<Longrightarrow> n - left_len n < n"
  using left_len_less(2) [of n] by linarith

function tree_output :: "u32 list \<Rightarrow> byte \<Rightarrow> u64 \<Rightarrow> bytes \<Rightarrow> output_t" where
  "tree_output key flags counter bs =
     (if length bs \<le> 1024 then chunk_output key flags counter bs
      else
        let l = left_len (length bs) in
        parent_output
          (output_chaining_value (tree_output key flags counter (take l bs)) @
           output_chaining_value (tree_output key flags (counter + of_nat (l div 1024)) (drop l bs))) key flags)"
  by pat_completeness auto
termination
  by (relation "measure (\<lambda>(key, flags, counter, bs). length bs)") (auto simp: left_len_less right_len_less min_def not_le)

declare tree_output.simps [simp del]

abbreviation subtree :: "u32 list \<Rightarrow> byte \<Rightarrow> u64 \<Rightarrow> bytes \<Rightarrow> bytes" where
  "subtree key flags counter bs \<equiv> output_chaining_value (tree_output key flags counter bs)"

lemma length_output_chaining_value [simp, len_simps]: "length (output_chaining_value out) = 32"
  by (simp add: output_chaining_value_def)

text \<open>A list of subtrees hanging off the right edge: the chaining values of complete ones, in order, and the last one.\<close>

definition roll_up :: "u32 list \<Rightarrow> byte \<Rightarrow> bytes list \<Rightarrow> output_t \<Rightarrow> output_t" where
  "roll_up key flags cvs out = foldr (\<lambda>cv out. parent_output (cv @ output_chaining_value out) key flags) cvs out"

fun subtrees :: "u32 list \<Rightarrow> byte \<Rightarrow> u64 \<Rightarrow> bytes \<Rightarrow> nat list \<Rightarrow> bytes list" where
  "subtrees key flags off bs [] = []"
| "subtrees key flags off bs (k # ks) =
     subtree key flags off (take (1024 * 2 ^ k) bs) #
     subtrees key flags (off + of_nat (2 ^ k)) (drop (1024 * 2 ^ k) bs) ks"

definition chunks_of :: "nat list \<Rightarrow> nat" where
  "chunks_of ks = sum_list (map (\<lambda>k. 2 ^ k) ks)"

lemma chunks_of_simps [simp]:
  "chunks_of [] = 0" "chunks_of (k # ks) = 2 ^ k + chunks_of ks" "chunks_of (ks @ ls) = chunks_of ks + chunks_of ls"
  by (simp_all add: chunks_of_def)

text \<open>Descending sizes leave room for one more of the smallest.\<close>

lemma chunks_of_descending:
  "sorted_wrt (>) (k # ks) \<Longrightarrow> \<forall>l\<in>set (k # ks). e \<le> l \<Longrightarrow> chunks_of ks + 2 ^ e \<le> 2 ^ k"
proof (induction ks arbitrary: k)
  case Nil
  then show ?case by (simp add: power_increasing)
next
  case (Cons l ks)
  then have "chunks_of ks + 2 ^ e \<le> 2 ^ l" by simp
  moreover have "(2 :: nat) * 2 ^ l \<le> 2 ^ k"
    using Cons.prems power_increasing [of "Suc l" k "2 :: nat"] by simp
  ultimately show ?case by simp
qed

lemma left_len_eq: "2 ^ k * 1024 < n \<Longrightarrow> n \<le> 2 * 2 ^ k * 1024 \<Longrightarrow> left_len n = 1024 * 2 ^ k"
proof -
  assume "2 ^ k * 1024 < n" "n \<le> 2 * 2 ^ k * 1024"
  then have "top_bit ((n - 1) div 1024) k"
    by (simp add: top_bit_def less_eq_div_iff_mult_less_eq div_less_iff_less_mult) linarith
  then show ?thesis by (simp add: left_len_def pow2_below_eq)
qed

theorem tree_roll_up:
  "sorted_wrt (>) ks \<Longrightarrow> \<forall>k\<in>set ks. e \<le> k \<Longrightarrow> length bs = 1024 * chunks_of ks \<Longrightarrow>
   0 < length r \<Longrightarrow> length r \<le> 1024 * 2 ^ e \<Longrightarrow>
   tree_output key flags off (bs @ r) =
     roll_up key flags (subtrees key flags off bs ks) (tree_output key flags (off + of_nat (chunks_of ks)) r)"
proof (induction ks arbitrary: off bs)
  case Nil
  then show ?case by (simp add: roll_up_def)
next
  case (Cons k ks)
  let ?n = "length (bs @ r)" and ?l = "1024 * 2 ^ k :: nat"
  have room: "chunks_of ks + 2 ^ e \<le> 2 ^ k" using Cons.prems(1,2) by (rule chunks_of_descending)
  have len: "?n = 1024 * 2 ^ k + 1024 * chunks_of ks + length r" using Cons.prems(3) by simp
  have l: "left_len ?n = ?l" using room len Cons.prems(4,5) by (intro left_len_eq) simp_all
  have big: "\<not> ?n \<le> 1024"
  proof -
    have "(1 :: nat) \<le> 2 ^ k" by simp
    then show ?thesis using len Cons.prems(4) by linarith
  qed
  have cut: "take ?l (bs @ r) = take ?l bs" "drop ?l (bs @ r) = drop ?l bs @ r"
    using Cons.prems(3) by simp_all
  have "tree_output key flags (off + of_nat (2 ^ k)) (drop ?l bs @ r) =
      roll_up key flags (subtrees key flags (off + of_nat (2 ^ k)) (drop ?l bs) ks)
        (tree_output key flags (off + of_nat (2 ^ k) + of_nat (chunks_of ks)) r)"
    using Cons.prems by (intro Cons.IH) simp_all
  then show ?case
    by (subst tree_output.simps) (simp only: big l cut if_False Let_def subtrees.simps roll_up_def foldr.simps comp_def,
      simp add: add.assoc)
qed

section \<open>Batches\<close>

lemma hash_one_loop_chain:
  "hash_one_loop (drop (64 * j) bs) (Suc m) (chain key flags counter bs j) counter flags flags_end
     (flags OR (if j = 0 then CHUNK_START else 0)) =
   blake3_compress_in_place (chain key flags counter bs (j + m)) (read_at (64 * (j + m)) 64 bs) 64 counter
     (flags OR (if j + m = 0 then CHUNK_START else 0) OR flags_end)"
proof (induction m arbitrary: j)
  case 0
  show ?case by (simp add: read_at_def or.assoc)
next
  case (Suc m)
  have "hash_one_loop (drop (64 * j) bs) (Suc (Suc m)) (chain key flags counter bs j) counter flags flags_end
       (flags OR (if j = 0 then CHUNK_START else 0)) =
     hash_one_loop (drop (64 * Suc j) bs) (Suc m) (chain key flags counter bs (Suc j)) counter flags flags_end
       (flags OR (if Suc j = 0 then CHUNK_START else 0))"
    by (subst hash_one_loop.simps) (simp add: Let_def read_at_def add.commute)
  then show ?case using Suc.IH [of "Suc j"] by simp
qed

lemma hash_one_chunk:
  assumes "length bs = 1024"
  shows "hash_one bs 16 key counter flags CHUNK_START CHUNK_END = subtree key flags counter bs"
proof -
  have last: "last_block bs = 15" using assms by (simp add: last_block_def)
  have r: "drop 960 bs = read_at 960 64 bs" "length (drop 960 bs) = 64" using assms by (simp_all add: read_at_def)
  have sixteen: "16 = Suc 15" by simp
  have "hash_one_loop bs 16 key counter flags CHUNK_END (flags OR CHUNK_START) =
      blake3_compress_in_place (chain key flags counter bs 15) (read_at 960 64 bs) 64 counter (flags OR CHUNK_END)"
    using hash_one_loop_chain [of 0 bs 15 key flags counter CHUNK_END] unfolding sixteen by simp
  moreover have "tree_output key flags counter bs = chunk_output key flags counter bs"
    using assms by (subst tree_output.simps) simp
  ultimately show ?thesis
    unfolding hash_one_def output_chaining_value_def chunk_output_def Let_def last using r by simp
qed

lemma hash_one_parent:
  "length bs = 64 \<Longrightarrow> hash_one bs 1 key 0 (flags OR PARENT) 0 0 = output_chaining_value (parent_output bs key flags)"
  by (simp add: hash_one_def output_chaining_value_def parent_output_def make_output_def)

text \<open>The chaining values of \<open>n\<close> neighbouring subtrees of \<open>2 ^ k\<close> chunks each.\<close>

fun row :: "u32 list \<Rightarrow> byte \<Rightarrow> nat \<Rightarrow> u64 \<Rightarrow> bytes \<Rightarrow> nat \<Rightarrow> bytes" where
  "row key flags k off bs 0 = []"
| "row key flags k off bs (Suc n) =
     subtree key flags off (take (1024 * 2 ^ k) bs) @
     row key flags k (off + of_nat (2 ^ k)) (drop (1024 * 2 ^ k) bs) n"

lemma length_row [simp]: "length (row key flags k off bs n) = 32 * n"
  by (induction n arbitrary: off bs) auto

lemma row_append:
  "length as = 1024 * 2 ^ k * m \<Longrightarrow>
   row key flags k off (as @ bs) (m + n) = row key flags k off as m @ row key flags k (off + of_nat (2 ^ k * m)) bs n"
proof (induction m arbitrary: off as)
  case (Suc m)
  have "length (drop (1024 * 2 ^ k) as) = 1024 * 2 ^ k * m" using Suc.prems by simp
  from Suc.IH [OF this, of "off + of_nat (2 ^ k)"] show ?case
    using Suc.prems by (simp add: algebra_simps)
qed simp

lemma pair_subtree:
  assumes "length as = 1024 * 2 ^ k" "length bs = 1024 * 2 ^ k"
  shows "tree_output key flags off (as @ bs) =
    parent_output (subtree key flags off as @ subtree key flags (off + of_nat (2 ^ k)) bs) key flags"
proof -
  have "tree_output key flags off (as @ bs) =
      roll_up key flags (subtrees key flags off as [k]) (tree_output key flags (off + of_nat (chunks_of [k])) bs)"
    using assms by (intro tree_roll_up [where e = k]) simp_all
  then show ?thesis using assms by (simp add: roll_up_def)
qed

lemma row_pairs:
  "length bs = 1024 * 2 ^ k * (2 * n) \<Longrightarrow>
   blake3_hash_many (parents_array (row key flags k off bs (2 * n) @ junk) (2 * n)) 1 key 0 False (flags OR PARENT) 0 0 =
   row key flags (Suc k) off bs n"
proof (induction n arbitrary: off bs)
  case (Suc n)
  let ?l = "1024 * 2 ^ k" and ?off = "off + of_nat (2 ^ k) + of_nat (2 ^ k)"
  let ?a = "take ?l bs" and ?b = "take ?l (drop ?l bs)" and ?rest = "drop ?l (drop ?l bs)"
  let ?pair = "subtree key flags off ?a @ subtree key flags (off + of_nat (2 ^ k)) ?b"
  have len: "length ?a = ?l" "length ?b = ?l" "length ?rest = ?l * (2 * n)" using Suc.prems by simp_all
  have ab: "take (1024 * 2 ^ Suc k) bs = ?a @ ?b" "drop (1024 * 2 ^ Suc k) bs = ?rest"
    by (simp_all flip: take_add)
  have off: "off + of_nat (2 ^ Suc k) = ?off" by simp
  have array: "parents_array (row key flags k off bs (2 * Suc n) @ junk) (2 * Suc n) =
      ?pair # parents_array (row key flags k ?off ?rest (2 * n) @ junk) (2 * n)" by simp
  have "hash_one ?pair 1 key 0 (flags OR PARENT) 0 0 = subtree key flags off (?a @ ?b)"
    unfolding pair_subtree [OF len(1,2)] by (rule hash_one_parent) simp
  then show ?case
    unfolding array blake3_hash_many.simps row.simps ab off if_False using Suc.IH [OF len(3)] by simp
qed simp

lemma compress_parents_row:
  "length bs = 1024 * 2 ^ k * (2 * n) \<Longrightarrow>
   compress_parents_parallel (row key flags k off bs (2 * n) @ junk) (2 * n) key flags = (row key flags (Suc k) off bs n, n)"
  using row_pairs [of bs k n key flags off junk] by (simp add: compress_parents_parallel_def Let_def)

lemma row_chunks:
  "length bs = 1024 * n \<Longrightarrow>
   length (chunks_array bs) = n \<and>
   blake3_hash_many (chunks_array bs) 16 key counter True flags CHUNK_START CHUNK_END = row key flags 0 counter bs n"
proof (induction n arbitrary: bs counter)
  case 0
  then show ?case by (simp add: chunks_array.simps)
next
  case (Suc n)
  have "length (drop 1024 bs) = 1024 * n" "length (take 1024 bs) = 1024" using Suc.prems by simp_all
  then show ?case
    using Suc.IH [of "drop 1024 bs" "counter + 1"] Suc.prems
    by (simp add: chunks_array.simps [of bs] hash_one_chunk del: hash_one_loop.simps)
qed

lemma compress_chunks_row:
  "length bs = 1024 * n \<Longrightarrow> compress_chunks_parallel bs key counter flags = (row key flags 0 counter bs n, n)"
  using row_chunks [of bs n key counter flags] by (simp add: compress_chunks_parallel_def Let_def)

section \<open>Complete subtrees\<close>

definition log_degree :: "platform \<Rightarrow> nat" where
  "log_degree cpu = (if blake3_simd_degree cpu = 16 then 4 else if blake3_simd_degree cpu = 8 then 3
     else if blake3_simd_degree cpu = 4 then 2 else 0)"

lemma log_degree: "blake3_simd_degree cpu = 2 ^ log_degree cpu" "log_degree cpu \<le> 4" "log_degree cpu \<noteq> 1"
  using simd_degree_cases [of cpu] by (auto simp: log_degree_def)

text \<open>How many chaining values a subtree of \<open>2 ^ k\<close> chunks is hashed to, as a power of two.\<close>

definition wide_log :: "platform \<Rightarrow> nat \<Rightarrow> nat" where
  "wide_log cpu k = (if k \<le> log_degree cpu then k else max (log_degree cpu) 1)"

lemma left_subtree_len_pow: "k \<le> 60 \<Longrightarrow> left_subtree_len (1024 * 2 ^ Suc k) = 1024 * 2 ^ k"
proof -
  assume k: "k \<le> 60"
  let ?n = "1024 * 2 ^ Suc k :: nat"
  have "(2 :: nat) ^ Suc k \<le> 2 ^ 61" using k by (intro power_increasing) simp_all
  then have "(?n - 1) div 1024 < 2 ^ 64" by simp
  then have "unat (of_nat ((?n - 1) div 1024) :: u64) = (?n - 1) div 1024" by (simp add: unat_of_nat)
  then have "left_subtree_len ?n = left_len ?n"
    by (simp only: left_subtree_len_def left_len_def round_down_pow2 Let_def BLAKE3_CHUNK_LEN_def mult.commute)
  also have "\<dots> = 1024 * 2 ^ k" by (rule left_len_eq) simp_all
  finally show ?thesis .
qed

text \<open>Both halves side by side in \<open>cv_array\<close>.\<close>

lemma halves_row:
  assumes "length as = 1024 * (2 ^ m * n)"
  shows "write_at (n * 32) (row key flags m (off + of_nat (2 ^ m * n)) bs n) (write_at 0 (row key flags m off as n) (zeros N)) =
    row key flags m off (as @ bs) (2 * n) @ zeros (N - 32 * n - 32 * n)"
proof -
  have "row key flags m off (as @ bs) (n + n) = row key flags m off as n @ row key flags m (off + of_nat (2 ^ m * n)) bs n"
    using assms by (intro row_append) simp
  then show ?thesis by (simp add: write_at_zeros_0 write_at_zeros mult_2)
qed

lemma wide_row:
  "length bs = 1024 * 2 ^ k \<Longrightarrow> k \<le> 60 \<Longrightarrow>
   compress_subtree_wide cpu bs key off flags =
     (row key flags (k - wide_log cpu k) off bs (2 ^ wide_log cpu k), 2 ^ wide_log cpu k)"
proof (induction k arbitrary: bs off)
  case 0
  then show ?case using compress_chunks_row [of bs 1 key off flags]
    by (subst compress_subtree_wide.simps) (simp add: log_degree wide_log_def)
next
  case (Suc k)
  show ?case
  proof (cases "Suc k \<le> log_degree cpu")
    case True
    then have "(2 :: nat) ^ Suc k \<le> 2 ^ log_degree cpu" by (intro power_increasing) simp_all
    then show ?thesis using compress_chunks_row [of bs "2 ^ Suc k" key off flags] Suc.prems True
      by (subst compress_subtree_wide.simps) (simp add: log_degree wide_log_def)
  next
    case False
    let ?j = "wide_log cpu k"
    let ?a = "take (1024 * 2 ^ k) bs" and ?b = "drop (1024 * 2 ^ k) bs"
    have len: "length ?a = 1024 * 2 ^ k" "length ?b = 1024 * 2 ^ k" using Suc.prems by simp_all
    have j: "?j \<le> k" using False by (auto simp: wide_log_def)
    then have split: "(2 :: nat) ^ k = 2 ^ (k - ?j) * 2 ^ ?j" by (simp flip: power_add)
    have deg: "(if 1024 * 2 ^ k > BLAKE3_CHUNK_LEN \<and> blake3_simd_degree cpu = 1 then 2 else blake3_simd_degree cpu) = 2 ^ ?j"
    proof (cases "log_degree cpu = 0")
      case True
      then show ?thesis using False one_less_power [of "2 :: nat" k] by (auto simp: log_degree(1) wide_log_def)
    next
      case ld: False
      then have "blake3_simd_degree cpu \<noteq> 1" by (simp add: log_degree(1))
      then show ?thesis using ld False by (auto simp: log_degree(1) wide_log_def max_def)
    qed
    have more: "\<not> length bs \<le> blake3_simd_degree cpu * BLAKE3_CHUNK_LEN"
      using False Suc.prems power_strict_increasing [of "log_degree cpu" "Suc k" "2 :: nat"] by (simp add: log_degree)
    note left = Suc.IH [OF len(1), of off] and right = Suc.IH [OF len(2), of "off + of_nat (2 ^ k)"]
    have arr: "write_at (2 ^ ?j * BLAKE3_OUT_LEN) (row key flags (k - ?j) (off + of_nat (2 ^ k)) ?b (2 ^ ?j))
        (write_at 0 (row key flags (k - ?j) off ?a (2 ^ ?j)) (zeros N)) =
        row key flags (k - ?j) off bs (2 * 2 ^ ?j) @ zeros (N - 32 * 2 ^ ?j - 32 * 2 ^ ?j)" for N
      using halves_row [of ?a "k - ?j" "2 ^ ?j" key flags off ?b N] len(1) split by simp
    have ll: "left_subtree_len (length bs) = 1024 * 2 ^ k" using left_subtree_len_pow [of k] Suc.prems by simp
    have k60: "k \<le> 60" using Suc.prems by simp
    have off: "1024 * 2 ^ k div BLAKE3_CHUNK_LEN = 2 ^ k" by simp
    let ?cvs = "row key flags (k - ?j) off bs (2 * 2 ^ ?j) @
      zeros (2 * MAX_SIMD_DEGREE_OR_2 (pf_build cpu) * BLAKE3_OUT_LEN - 32 * 2 ^ ?j - 32 * 2 ^ ?j)"
    have wide: "compress_subtree_wide cpu bs key off flags =
       (if (2 :: nat) ^ ?j = 1 then (take (2 * BLAKE3_OUT_LEN) ?cvs, 2)
        else compress_parents_parallel ?cvs (2 ^ ?j + 2 ^ ?j) key flags)"
      unfolding compress_subtree_wide.simps [of cpu bs]
      by (simp only: more if_False Let_def ll off deg left [OF k60] right [OF k60] prod.case arr)
    show ?thesis
    proof (cases "?j = 0")
      case True
      then have "k = 0" "log_degree cpu = 0" using False by (auto simp: wide_log_def split: if_splits)
      then show ?thesis unfolding wide by (simp add: wide_log_def)
    next
      case False
      then have "wide_log cpu (Suc k) = ?j" using \<open>\<not> Suc k \<le> log_degree cpu\<close> by (auto simp: wide_log_def)
      moreover have "length bs = 1024 * 2 ^ (k - ?j) * (2 * 2 ^ ?j)" using Suc.prems split by simp
      from compress_parents_row [OF this, of key flags off]
      have "compress_parents_parallel ?cvs (2 ^ ?j + 2 ^ ?j) key flags = (row key flags (Suc (k - ?j)) off bs (2 ^ ?j), 2 ^ ?j)"
        by (simp add: mult_2)
      ultimately show ?thesis unfolding wide using j False by (simp add: Suc_diff_le)
    qed
  qed
qed

lemma condense_row:
  "length bs = 1024 * 2 ^ m * 2 ^ Suc j \<Longrightarrow>
   take 64 (condense (row key flags m off bs (2 ^ Suc j) @ junk) (2 ^ Suc j) key flags) = row key flags (m + j) off bs 2"
proof (induction j arbitrary: m junk)
  case 0
  then show ?case by (subst condense.simps) simp
next
  case (Suc j)
  have "length bs = 1024 * 2 ^ m * (2 * 2 ^ Suc j)" using Suc.prems by simp
  note parents = compress_parents_row [OF this, of key flags off junk, folded power_Suc [of 2]]
  let ?up = "row key flags (Suc m) off bs (2 ^ Suc j)" and ?arr = "row key flags m off bs (2 ^ Suc (Suc j)) @ junk"
  have out: "take (2 ^ Suc j * BLAKE3_OUT_LEN) ?up = ?up" by simp
  have big: "2 ^ Suc (Suc j) > (2 :: nat)" using one_less_power [of "2 :: nat" "Suc j"] by simp
  have "condense ?arr (2 ^ Suc (Suc j)) key flags = condense (write_at 0 ?up ?arr) (2 ^ Suc j) key flags"
    by (subst condense.simps) (simp only: big if_True parents Let_def prod.case out)
  moreover have "write_at 0 ?up ?arr = ?up @ drop (length ?up) ?arr" by (simp add: write_at_def)
  moreover have "length bs = 1024 * 2 ^ Suc m * 2 ^ Suc j" using Suc.prems by simp
  ultimately show ?case using Suc.IH [of "Suc m" "drop (length ?up) ?arr"] by simp
qed

text \<open>What is returned for a complete subtree: the chaining values of its two halves.\<close>

lemma parent_node_halves:
  assumes "length as = 1024 * 2 ^ k" "length bs = 1024 * 2 ^ k" "k \<le> 59"
  shows "compress_subtree_to_parent_node cpu (as @ bs) key off flags =
    subtree key flags off as @ subtree key flags (off + of_nat (2 ^ k)) bs"
proof -
  let ?j = "wide_log cpu (Suc k)"
  obtain i where i: "?j = Suc i" by (cases ?j) (auto simp: wide_log_def split: if_splits)
  have ik: "i \<le> k" "?j \<le> 4" using i log_degree(2) [of cpu] by (auto simp: wide_log_def split: if_splits)
  have len: "length (as @ bs) = 1024 * 2 ^ Suc k" using assms by simp
  have split: "(2 :: nat) ^ Suc k = 2 ^ (k - i) * 2 ^ Suc i" using ik by (simp flip: power_add)
  have "(2 :: nat) ^ Suc i \<le> 2 ^ 4" using ik i by (intro power_increasing) simp_all
  then have "write_at 0 (row key flags (k - i) off (as @ bs) (2 ^ Suc i)) (zeros (MAX_SIMD_DEGREE_OR_2 (pf_build cpu) * BLAKE3_OUT_LEN)) =
      row key flags (k - i) off (as @ bs) (2 ^ Suc i) @ zeros (MAX_SIMD_DEGREE_OR_2 (pf_build cpu) * BLAKE3_OUT_LEN - 32 * 2 ^ Suc i)"
    by (simp add: write_at_zeros_0)
  moreover have "take 64 (condense (row key flags (k - i) off (as @ bs) (2 ^ Suc i) @ junk) (2 ^ Suc i) key flags) =
      row key flags (k - i + i) off (as @ bs) 2" for junk
    using len split by (intro condense_row) simp
  moreover have "compress_subtree_wide cpu (as @ bs) key off flags =
      (row key flags (k - i) off (as @ bs) (2 ^ Suc i), 2 ^ Suc i)"
    using wide_row [OF len] assms(3) by (simp add: i)
  ultimately show ?thesis using assms ik
    by (simp add: compress_subtree_to_parent_node_def Let_def numeral_2_eq_2 del: power_Suc of_nat_power)
qed

end
