(* ===== verification/Blake3Hasher.thy ===== *)
theory Blake3Hasher
  imports Blake3Tree
begin

text \<open>
  \<open>libs/blake3/blake3.c\<close>, the last part: the incremental hasher. It keeps the state of the current chunk and a
  stack of the chaining values of complete subtrees, merged lazily because the last merge may have to
  be the root. What it computes is the published tree hash of all bytes it was given, however they
  were cut into pieces, and it never writes outside its stack of 55 entries.
\<close>

record blake3_hasher =
  bh_key :: "u32 list"
  bh_chunk :: chunk_state
  bh_stack_len :: byte
  bh_stack :: bytes

text \<open>Initialisation leaves the stack's bytes as they are.\<close>

definition hasher_init_base :: "blake3_hasher \<Rightarrow> u32 list \<Rightarrow> byte \<Rightarrow> blake3_hasher" where
  "hasher_init_base self key flags =
     self\<lparr>bh_key := key, bh_chunk := chunk_state_init key flags, bh_stack_len := 0\<rparr>"

definition blake3_hasher_init :: "blake3_hasher \<Rightarrow> blake3_hasher" where
  "blake3_hasher_init self = hasher_init_base self blake3_IV 0"

definition blake3_hasher_init_keyed :: "blake3_hasher \<Rightarrow> bytes \<Rightarrow> blake3_hasher" where
  "blake3_hasher_init_keyed self key = hasher_init_base self (load_key_words key) KEYED_HASH"

definition blake3_hasher_reset :: "blake3_hasher \<Rightarrow> blake3_hasher" where
  "blake3_hasher_reset self =
     self\<lparr>bh_chunk := chunk_state_reset (bh_chunk self) (bh_key self) 0, bh_stack_len := 0\<rparr>"

section \<open>The stack\<close>

function hasher_merge_cv_stack :: "blake3_hasher \<Rightarrow> u64 \<Rightarrow> blake3_hasher" where
  "hasher_merge_cv_stack self total_len =
     (if unat (bh_stack_len self) > popcnt total_len
      then
        let parent_node = (unat (bh_stack_len self) - 2) * BLAKE3_OUT_LEN;
            output = parent_output (read_at parent_node (2 * BLAKE3_OUT_LEN) (bh_stack self)) (bh_key self)
              (cs_flags (bh_chunk self)) in
        hasher_merge_cv_stack
          (self\<lparr>bh_stack := write_at parent_node (output_chaining_value output) (bh_stack self),
                bh_stack_len := bh_stack_len self - 1\<rparr>) total_len
      else self)"
  by pat_completeness auto
termination
proof (relation "measure (\<lambda>(self, total_len). unat (bh_stack_len self))", goal_cases)
  case (2 self total_len)
  then have "bh_stack_len self \<noteq> 0" by auto
  then show ?case by (simp add: unat_minus_one unat_gt_0)
qed simp

declare hasher_merge_cv_stack.simps [simp del]

definition hasher_push_cv :: "blake3_hasher \<Rightarrow> bytes \<Rightarrow> u64 \<Rightarrow> blake3_hasher" where
  "hasher_push_cv self new_cv chunk_counter =
     (let self = hasher_merge_cv_stack self chunk_counter in
      self\<lparr>bh_stack := write_at (unat (bh_stack_len self) * BLAKE3_OUT_LEN) new_cv (bh_stack self),
           bh_stack_len := bh_stack_len self + 1\<rparr>)"

section \<open>Update\<close>

text \<open>Halving the length until it divides the number of bytes so far.\<close>

function shrink_subtree :: "nat \<Rightarrow> u64 \<Rightarrow> nat" where
  "shrink_subtree subtree_len count_so_far =
     (if of_nat (subtree_len - 1) AND count_so_far \<noteq> 0 then shrink_subtree (subtree_len div 2) count_so_far
      else subtree_len)"
  by pat_completeness auto
termination
proof (relation "measure (\<lambda>(subtree_len, count_so_far). subtree_len)", goal_cases)
  case (2 subtree_len count_so_far)
  then have "subtree_len - 1 \<noteq> 0" by (intro notI) simp
  then show ?case by simp
qed simp

declare shrink_subtree.simps [simp del]

lemma shrink_subtree_pos: "n > 0 \<Longrightarrow> shrink_subtree n c > 0"
proof (induction n c rule: shrink_subtree.induct)
  case (1 n c)
  show ?case
  proof (cases "of_nat (n - 1) AND c = 0")
    case False
    then have "n - 1 \<noteq> 0" by auto
    then show ?thesis using 1 False by (subst shrink_subtree.simps) simp
  qed (use 1 in \<open>subst shrink_subtree.simps, simp\<close>)
qed

text \<open>One round of the loop over whole subtrees; \<open>n\<close> is the length of the subtree.\<close>

definition push_subtree :: "platform \<Rightarrow> blake3_hasher \<Rightarrow> bytes \<Rightarrow> nat \<Rightarrow> blake3_hasher" where
  "push_subtree cpu self input subtree_len =
     (let counter = cs_counter (bh_chunk self);
          flags = cs_flags (bh_chunk self);
          subtree_chunks = subtree_len div BLAKE3_CHUNK_LEN;
          self =
            (if subtree_len \<le> BLAKE3_CHUNK_LEN
             then
               let chunk_state = (chunk_state_init (bh_key self) flags)\<lparr>cs_counter := counter\<rparr>;
                   chunk_state = chunk_state_update chunk_state (take subtree_len input);
                   output = chunk_state_output chunk_state in
               hasher_push_cv self (output_chaining_value output) (cs_counter chunk_state)
             else
               let cv_pair = compress_subtree_to_parent_node cpu (take subtree_len input) (bh_key self) counter flags;
                   self = hasher_push_cv self (take BLAKE3_OUT_LEN cv_pair) counter in
               hasher_push_cv self (drop BLAKE3_OUT_LEN cv_pair) (counter + of_nat (subtree_chunks div 2))) in
      self\<lparr>bh_chunk := (bh_chunk self)\<lparr>cs_counter := cs_counter (bh_chunk self) + of_nat subtree_chunks\<rparr>\<rparr>)"

definition next_subtree_len :: "blake3_hasher \<Rightarrow> bytes \<Rightarrow> nat" where
  "next_subtree_len self input =
     (let subtree_len = unat (round_down_to_power_of_2 (of_nat (length input)));
          count_so_far = cs_counter (bh_chunk self) * of_nat BLAKE3_CHUNK_LEN in
      shrink_subtree subtree_len count_so_far)"

lemma next_subtree_len_pos: "next_subtree_len self input > 0"
proof -
  have "unat (round_down_to_power_of_2 x) > 0" for x using pow2_below_le(2) [of "unat x"] by (simp add: round_down_pow2)
  then show ?thesis by (simp add: next_subtree_len_def Let_def shrink_subtree_pos)
qed

function update_subtrees :: "platform \<Rightarrow> blake3_hasher \<Rightarrow> bytes \<Rightarrow> blake3_hasher \<times> bytes" where
  "update_subtrees cpu self input =
     (if length input > BLAKE3_CHUNK_LEN
      then
        let subtree_len = next_subtree_len self input in
        update_subtrees cpu (push_subtree cpu self input subtree_len) (drop subtree_len input)
      else (self, input))"
  by pat_completeness auto
termination
proof (relation "measure (\<lambda>(cpu, self, input). length input)", goal_cases)
  case (2 cpu self input)
  then show ?case using next_subtree_len_pos [of self input] by auto
qed simp

declare update_subtrees.simps [simp del]

definition blake3_hasher_update :: "platform \<Rightarrow> blake3_hasher \<Rightarrow> bytes \<Rightarrow> blake3_hasher" where
  "blake3_hasher_update cpu self input =
     (if length input = 0 then self
      else
        let (self, input, finished) =
          (if chunk_state_len (bh_chunk self) > 0
           then
             let n = BLAKE3_CHUNK_LEN - chunk_state_len (bh_chunk self);
                 n = (if n > length input then length input else n);
                 self = self\<lparr>bh_chunk := chunk_state_update (bh_chunk self) (take n input)\<rparr>;
                 input = drop n input in
             if length input > 0
             then
               let chunk_cv = output_chaining_value (chunk_state_output (bh_chunk self));
                   self = hasher_push_cv self chunk_cv (cs_counter (bh_chunk self));
                   self = self\<lparr>bh_chunk := chunk_state_reset (bh_chunk self) (bh_key self) (cs_counter (bh_chunk self) + 1)\<rparr> in
               (self, input, False)
             else (self, input, True)
           else (self, input, False)) in
        if finished then self
        else
          let (self, input) = update_subtrees cpu self input in
          if length input > 0
          then
            let self = self\<lparr>bh_chunk := chunk_state_update (bh_chunk self) input\<rparr> in
            hasher_merge_cv_stack self (cs_counter (bh_chunk self))
          else self)"

section \<open>Finalisation\<close>

fun finalize_loop :: "blake3_hasher \<Rightarrow> nat \<Rightarrow> output_t \<Rightarrow> output_t" where
  "finalize_loop self 0 output = output"
| "finalize_loop self (Suc cvs_remaining) output =
     (let parent_block = read_at (cvs_remaining * 32) 32 (bh_stack self) @ output_chaining_value output in
      finalize_loop self cvs_remaining (parent_output parent_block (bh_key self) (cs_flags (bh_chunk self))))"

definition blake3_hasher_finalize_seek :: "blake3_hasher \<Rightarrow> u64 \<Rightarrow> nat \<Rightarrow> bytes" where
  "blake3_hasher_finalize_seek self seek out_len =
     (if out_len = 0 then []
      else if bh_stack_len self = 0 then output_root_bytes (chunk_state_output (bh_chunk self)) seek out_len
      else
        let (cvs_remaining, output) =
          (if chunk_state_len (bh_chunk self) > 0
           then (unat (bh_stack_len self), chunk_state_output (bh_chunk self))
           else
             let cvs_remaining = unat (bh_stack_len self) - 2 in
             (cvs_remaining,
              parent_output (read_at (cvs_remaining * 32) 64 (bh_stack self)) (bh_key self) (cs_flags (bh_chunk self)))) in
        output_root_bytes (finalize_loop self cvs_remaining output) seek out_len)"

definition blake3_hasher_finalize :: "blake3_hasher \<Rightarrow> nat \<Rightarrow> bytes" where
  "blake3_hasher_finalize self out_len = blake3_hasher_finalize_seek self 0 out_len"

text \<open>Key derivation: the context is hashed to a key. \<open>h\<close> is the local hasher before it is initialised.\<close>

definition blake3_hasher_init_derive_key_raw ::
  "platform \<Rightarrow> blake3_hasher \<Rightarrow> blake3_hasher \<Rightarrow> bytes \<Rightarrow> blake3_hasher" where
  "blake3_hasher_init_derive_key_raw cpu h self ctxt =
     (let context_hasher = hasher_init_base h blake3_IV DERIVE_KEY_CONTEXT;
          context_hasher = blake3_hasher_update cpu context_hasher ctxt;
          context_key = blake3_hasher_finalize context_hasher BLAKE3_KEY_LEN in
      hasher_init_base self (load_key_words context_key) DERIVE_KEY_MATERIAL)"

text \<open>The context as a string that ends with a zero byte.\<close>

definition blake3_hasher_init_derive_key ::
  "platform \<Rightarrow> blake3_hasher \<Rightarrow> blake3_hasher \<Rightarrow> bytes \<Rightarrow> blake3_hasher" where
  "blake3_hasher_init_derive_key cpu h self ctxt =
     blake3_hasher_init_derive_key_raw cpu h self (takeWhile (\<lambda>b. b \<noteq> 0) ctxt)"

end
