(* ===== verification/Blake3Correct.thy ===== *)
theory Blake3Correct
  imports Blake3Hasher
begin

text \<open>
  Correctness of the hasher: its stack is a binary counter of complete subtrees, and what it returns is
  the published tree hash of all bytes it was given.
\<close>

section \<open>Binary counters\<close>

lemma chunks_of_less: "sorted_wrt (>) (k # ks) \<Longrightarrow> chunks_of ks < 2 ^ k"
  using chunks_of_descending [of k ks 0] by simp

lemma ones_sorted: "sorted_wrt (>) ks \<Longrightarrow> ones (chunks_of ks) = length ks"
proof (induction ks)
  case (Cons k ks)
  then show ?case using chunks_of_less [of k ks] by (simp add: ones_top)
qed simp

lemma ones_le_length: "ones (chunks_of ks) \<le> length ks"
proof (induction ks)
  case (Cons k ks)
  then show ?case using ones_add_pow [of "chunks_of ks" k] by (simp add: add.commute)
qed simp

lemma ones_bound: "n < 2 ^ k \<Longrightarrow> ones n \<le> k"
proof (induction k arbitrary: n)
  case (Suc k)
  then have "ones (n div 2) \<le> k" by simp
  moreover have "n mod 2 \<le> 1" by simp
  ultimately show ?case using ones_halves [of n] by linarith
qed simp

lemma chunks_of_dvd: "\<forall>k\<in>set ks. e \<le> k \<Longrightarrow> 2 ^ e dvd chunks_of ks"
  by (induction ks) (simp_all add: dvd_add le_imp_power_dvd)

lemma sorted_at_least:
  "sorted_wrt (>) ks \<Longrightarrow> 2 ^ j dvd chunks_of ks \<Longrightarrow> \<forall>k\<in>set ks. j \<le> k"
proof (induction ks rule: rev_induct)
  case (snoc k ks)
  have above: "\<forall>l\<in>set ks. Suc k \<le> l" using snoc.prems(1) by (simp add: sorted_wrt_append Suc_le_eq)
  have "j \<le> k"
  proof (rule ccontr)
    assume "\<not> j \<le> k"
    then have "(2 :: nat) ^ Suc k dvd 2 ^ j" by (intro le_imp_power_dvd) simp
    then have "2 ^ Suc k dvd chunks_of ks + 2 ^ k" using snoc.prems(2) by (auto intro: dvd_trans)
    then have "(2 :: nat) ^ Suc k dvd 2 ^ k" using chunks_of_dvd [OF above] by (simp add: dvd_add_right_iff)
    then show False by (auto dest: dvd_imp_le)
  qed
  then show ?case using above by auto
qed simp

text \<open>A counter whose last entry may still have to be merged.\<close>

definition lazy :: "nat list \<Rightarrow> bool" where
  "lazy ks \<longleftrightarrow> (\<forall>ls k. ks = ls @ [k] \<longrightarrow> sorted_wrt (>) ls \<and> (\<forall>l\<in>set ls. k \<le> l))"

lemma lazy_simps: "lazy []" "lazy (ls @ [k]) \<longleftrightarrow> sorted_wrt (>) ls \<and> (\<forall>l\<in>set ls. k \<le> l)"
  by (simp_all add: lazy_def)

lemma sorted_lazy: "sorted_wrt (>) ks \<Longrightarrow> lazy ks"
  by (cases ks rule: rev_cases) (auto simp: lazy_simps sorted_wrt_append less_imp_le)

lemma lazy_cases:
  assumes "lazy ks" "\<not> sorted_wrt (>) ks"
  obtains ls k where "ks = ls @ [k, k]" "sorted_wrt (>) (ls @ [k])" "lazy (ls @ [Suc k])"
proof -
  obtain ms k where ms: "ks = ms @ [k]" using assms(2) by (cases ks rule: rev_cases) auto
  then have srt: "sorted_wrt (>) ms" "\<forall>l\<in>set ms. k \<le> l" using assms(1) by (simp_all add: lazy_simps)
  with assms(2) ms have "k \<in> set ms" by (auto simp: sorted_wrt_append order_less_le)
  then obtain ls l where ls: "ms = ls @ [l]" by (cases ms rule: rev_cases) auto
  have "l = k"
  proof (rule ccontr)
    assume "l \<noteq> k"
    then have "k \<in> set ls" "k < l" using \<open>k \<in> set ms\<close> srt(2) ls by auto
    then show False using srt(1) ls by (auto simp: sorted_wrt_append)
  qed
  then show thesis using that [of ls k] ms ls srt by (auto simp: lazy_simps sorted_wrt_append Suc_le_eq)
qed

section \<open>The stack\<close>

lemma subtrees_append:
  "subtrees key flags off bs (ks @ ls) =
   subtrees key flags off bs ks @ subtrees key flags (off + of_nat (chunks_of ks)) (drop (1024 * chunks_of ks) bs) ls"
  by (induction ks arbitrary: off bs) (simp_all add: algebra_simps)

lemma subtrees_prefix:
  "1024 * chunks_of ks \<le> length as \<Longrightarrow> subtrees key flags off (as @ bs) ks = subtrees key flags off as ks"
  by (induction ks arbitrary: off as) (simp_all add: algebra_simps)

lemma length_subtrees [simp]: "length (subtrees key flags off bs ks) = length ks"
  by (induction ks arbitrary: off bs) simp_all

lemma length_concat_subtrees [simp]: "length (concat (subtrees key flags off bs ks)) = 32 * length ks"
  by (induction ks arbitrary: off bs) simp_all

text \<open>The stack holds the chaining values of subtrees of the sizes \<open>ks\<close> over the front of \<open>bs\<close>.\<close>

definition stack_holds :: "u32 list \<Rightarrow> byte \<Rightarrow> blake3_hasher \<Rightarrow> bytes \<Rightarrow> nat list \<Rightarrow> bool" where
  "stack_holds key flags h bs ks \<longleftrightarrow>
     bh_key h = key \<and> cs_flags (bh_chunk h) = flags \<and> length (bh_stack h) = 1760 \<and>
     length ks \<le> 55 \<and> unat (bh_stack_len h) = length ks \<and>
     take (32 * length ks) (bh_stack h) = concat (subtrees key flags 0 bs ks)"

lemma take_add_drop: "n \<le> m \<Longrightarrow> take k (drop n (take m xs)) = take (min k (m - n)) (drop n xs)"
  by (simp add: drop_take min.commute)

text \<open>The two topmost entries, when they are subtrees of one size: together they make the next larger one.\<close>

lemma top_pair:
  assumes "stack_holds key flags h bs (ls @ [k, k])" "1024 * chunks_of (ls @ [k, k]) \<le> length bs"
  shows "parent_output (read_at (32 * length ls) 64 (bh_stack h)) key flags =
      tree_output key flags (of_nat (chunks_of ls)) (take (1024 * 2 ^ Suc k) (drop (1024 * chunks_of ls) bs))"
    "take (32 * length ls) (bh_stack h) = concat (subtrees key flags 0 bs ls)"
proof -
  let ?off = "of_nat (chunks_of ls)" and ?r = "drop (1024 * chunks_of ls) bs"
  let ?a = "take (1024 * 2 ^ k) ?r" and ?b = "take (1024 * 2 ^ k) (drop (1024 * 2 ^ k) ?r)"
  let ?ca = "subtree key flags ?off ?a" and ?cb = "subtree key flags (?off + of_nat (2 ^ k)) ?b"
  have whole: "take (32 * length ls + 64) (bh_stack h) = concat (subtrees key flags 0 bs ls) @ ?ca @ ?cb"
    using assms(1) by (simp add: stack_holds_def subtrees_append algebra_simps)
  from arg_cong [OF whole, of "take (32 * length ls)"]
  show low: "take (32 * length ls) (bh_stack h) = concat (subtrees key flags 0 bs ls)" by simp
  from arg_cong [OF whole, of "drop (32 * length ls)"]
  have "read_at (32 * length ls) 64 (bh_stack h) = ?ca @ ?cb" by (simp add: read_at_def drop_take)
  moreover have "length ?a = 1024 * 2 ^ k" "length ?b = 1024 * 2 ^ k" using assms(2) by simp_all
  moreover have dbl: "1024 * 2 ^ Suc k = 1024 * 2 ^ k + (1024 * 2 ^ k :: nat)" by simp
  have "take (1024 * 2 ^ Suc k) ?r = ?a @ ?b" unfolding dbl take_add ..
  ultimately show "parent_output (read_at (32 * length ls) 64 (bh_stack h)) key flags =
      tree_output key flags ?off (take (1024 * 2 ^ Suc k) ?r)"
    by (simp only: pair_subtree)
qed

lemma small_byte_minus: "unat (w :: byte) = Suc n \<Longrightarrow> unat (w - 1) = n"
  by (subst unat_minus_one) auto

text \<open>Writing an entry on top of \<open>ls\<close>.\<close>

lemma stack_write:
  assumes "bh_key h = key" "cs_flags (bh_chunk h) = flags" "length (bh_stack h) = 1760" "length ls < 55"
    "take (32 * length ls) (bh_stack h) = concat (subtrees key flags 0 bs ls)"
    "cv = subtree key flags (of_nat (chunks_of ls)) (take (1024 * 2 ^ k) (drop (1024 * chunks_of ls) bs))"
    "unat n = Suc (length ls)"
  shows "stack_holds key flags (h\<lparr>bh_stack := write_at (32 * length ls) cv (bh_stack h), bh_stack_len := n\<rparr>) bs (ls @ [k])"
proof -
  have "take (32 * Suc (length ls)) (write_at (32 * length ls) cv (bh_stack h)) = take (32 * length ls) (bh_stack h) @ cv"
    using assms by (simp add: write_at_def)
  moreover have "length (write_at (32 * length ls) cv (bh_stack h)) = 1760" using assms by simp
  ultimately show ?thesis using assms by (simp add: stack_holds_def subtrees_append)
qed

lemma merge_stack:
  "stack_holds key flags h bs ks \<Longrightarrow> lazy ks \<Longrightarrow> 1024 * chunks_of ks \<le> length bs \<Longrightarrow> chunks_of ks < 2 ^ 54 \<Longrightarrow>
   \<exists>ls. sorted_wrt (>) ls \<and> chunks_of ls = chunks_of ks \<and> (sorted_wrt (>) ks \<longrightarrow> ls = ks) \<and>
     stack_holds key flags (hasher_merge_cv_stack h (of_nat (chunks_of ks))) bs ls \<and>
     bh_chunk (hasher_merge_cv_stack h (of_nat (chunks_of ks))) = bh_chunk h"
proof (induction "length ks" arbitrary: ks h rule: less_induct)
  case less
  let ?N = "chunks_of ks"
  have pop: "popcnt (of_nat ?N) = ones ?N"
    using less.prems(4) by (simp add: popcnt_ones unat_of_nat)
  have len: "unat (bh_stack_len h) = length ks" using less.prems(1) by (simp add: stack_holds_def)
  show ?case
  proof (cases "sorted_wrt (>) ks")
    case True
    then have "hasher_merge_cv_stack h (of_nat ?N) = h"
      by (subst hasher_merge_cv_stack.simps) (simp add: pop len ones_sorted)
    then show ?thesis using True less.prems(1) by auto
  next
    case False
    from lazy_cases [OF less.prems(2) False] obtain ls k where ks: "ks = ls @ [k, k]"
      and lz: "lazy (ls @ [Suc k])" by blast
    have same: "chunks_of (ls @ [Suc k]) = ?N" by (simp add: ks)
    let ?off = "32 * length ls"
    let ?h = "h\<lparr>bh_stack := write_at ?off (output_chaining_value (parent_output (read_at ?off 64 (bh_stack h)) key flags)) (bh_stack h),
        bh_stack_len := bh_stack_len h - 1\<rparr>"
    have "ones ?N < length ks" using ones_le_length [of "ls @ [Suc k]"] unfolding same by (simp add: ks)
    moreover have "(unat (bh_stack_len h) - 2) * BLAKE3_OUT_LEN = ?off" by (simp add: len ks)
    moreover have "bh_key h = key" "cs_flags (bh_chunk h) = flags" using less.prems(1) by (simp_all add: stack_holds_def)
    ultimately have step: "hasher_merge_cv_stack h (of_nat ?N) = hasher_merge_cv_stack ?h (of_nat ?N)"
      by (subst hasher_merge_cv_stack.simps) (simp add: pop len Let_def mult.commute)
    note pair = top_pair [OF less.prems(1) [unfolded ks] less.prems(3) [unfolded ks]]
    have holds: "stack_holds key flags ?h bs (ls @ [Suc k])"
      using less.prems(1) pair unfolding ks
      by (intro stack_write) (simp_all add: stack_holds_def small_byte_minus)
    have shorter: "length (ls @ [Suc k]) < length ks" by (simp add: ks)
    have fits: "1024 * chunks_of (ls @ [Suc k]) \<le> length bs" "chunks_of (ls @ [Suc k]) < 2 ^ 54"
      unfolding same by (fact less.prems)+
    from less.hyps [OF shorter holds lz fits, unfolded same] obtain ms where
      "sorted_wrt (>) ms" "chunks_of ms = ?N" "stack_holds key flags (hasher_merge_cv_stack ?h (of_nat ?N)) bs ms"
      "bh_chunk (hasher_merge_cv_stack ?h (of_nat ?N)) = bh_chunk ?h" by blast
    then show ?thesis unfolding step using False by auto
  qed
qed

text \<open>Pushing the next subtree: what was there is merged first, and there is always room.\<close>

lemma push_stack:
  assumes "stack_holds key flags h bs ks" "lazy ks" "1024 * chunks_of ks \<le> length bs" "chunks_of ks < 2 ^ 54"
    "cv = subtree key flags (of_nat (chunks_of ks)) (take (1024 * 2 ^ k) (drop (1024 * chunks_of ks) bs))"
  shows "\<exists>ls. sorted_wrt (>) ls \<and> chunks_of ls = chunks_of ks \<and> (sorted_wrt (>) ks \<longrightarrow> ls = ks) \<and>
     stack_holds key flags (hasher_push_cv h cv (of_nat (chunks_of ks))) bs (ls @ [k]) \<and>
     bh_chunk (hasher_push_cv h cv (of_nat (chunks_of ks))) = bh_chunk h"
proof -
  let ?h = "hasher_merge_cv_stack h (of_nat (chunks_of ks))"
  from merge_stack [OF assms(1-4)] obtain ls where ls: "sorted_wrt (>) ls" "chunks_of ls = chunks_of ks"
      "sorted_wrt (>) ks \<longrightarrow> ls = ks" "stack_holds key flags ?h bs ls" "bh_chunk ?h = bh_chunk h" by blast
  have "length ls \<le> 54" using ones_sorted [OF ls(1)] ones_bound [of "chunks_of ks" 54] assms(4) ls(2) by simp
  moreover have "unat (bh_stack_len ?h + 1) = Suc (length ls)"
    using ls(4) \<open>length ls \<le> 54\<close> by (simp add: stack_holds_def unat_word_ariths)
  ultimately have "stack_holds key flags
      (?h\<lparr>bh_stack := write_at (32 * length ls) cv (bh_stack ?h), bh_stack_len := bh_stack_len ?h + 1\<rparr>) bs (ls @ [k])"
    using ls(2,4) assms(5) by (intro stack_write) (simp_all add: stack_holds_def)
  then show ?thesis using ls by (auto simp: hasher_push_cv_def Let_def stack_holds_def mult.commute)
qed

section \<open>Whole subtrees\<close>

lemma low_bits_clear:
  assumes "m < 64" "(a :: nat) < 2 ^ 64"
  shows "(of_nat (2 ^ m - 1) :: u64) AND of_nat a = 0 \<longleftrightarrow> 2 ^ m dvd a"
proof -
  have "(of_nat (2 ^ m - 1) :: u64) = mask m"
    by (simp add: mask_eq_exp_minus_1 of_nat_diff)
  then have "(of_nat (2 ^ m - 1) :: u64) AND of_nat a = take_bit m (of_nat a)"
    by (simp add: take_bit_eq_mask and.commute)
  also have "\<dots> = of_nat (take_bit m a)" using assms(1) by (simp add: take_bit_of_nat)
  finally have eq: "(of_nat (2 ^ m - 1) :: u64) AND of_nat a = of_nat (take_bit m a)" .
  have "take_bit m a < 2 ^ 64" using assms(2) by (simp add: take_bit_eq_mod) (meson le_less_trans mod_less_eq_dividend)
  then have "(of_nat (take_bit m a) :: u64) = 0 \<longleftrightarrow> take_bit m a = 0"
    by (auto simp: word_of_nat_eq_0_iff dest: dvd_imp_le)
  then show ?thesis unfolding eq by (simp add: take_bit_eq_0_iff)
qed

lemma shrink_subtree_pow:
  assumes "1024 * N < 2 ^ 64" "10 + j < 64"
  shows "\<exists>i \<le> j. shrink_subtree (2 ^ (10 + j)) (of_nat (1024 * N)) = 2 ^ (10 + i) \<and> 2 ^ i dvd N"
  using assms(2)
proof (induction j)
  case 0
  have "(2 :: nat) ^ 10 dvd 1024 * N" by simp
  then have "(of_nat (2 ^ 10 - 1) :: u64) AND of_nat (1024 * N) = 0"
    using low_bits_clear [OF _ assms(1), of 10] by simp
  then have "shrink_subtree (2 ^ 10) (of_nat (1024 * N)) = 2 ^ 10" by (subst shrink_subtree.simps) (simp only: if_False simp_thms)
  then show ?case by (intro exI [of _ 0]) simp
next
  case (Suc j)
  have clear: "(of_nat (2 ^ (10 + Suc j) - 1) :: u64) AND of_nat (1024 * N) = 0 \<longleftrightarrow> 2 ^ (10 + Suc j) dvd 1024 * N"
    using Suc.prems assms(1) by (rule low_bits_clear)
  show ?case
  proof (cases "2 ^ (10 + Suc j) dvd 1024 * N")
    case True
    then have "shrink_subtree (2 ^ (10 + Suc j)) (of_nat (1024 * N)) = 2 ^ (10 + Suc j)"
      using clear by (subst shrink_subtree.simps) (simp only: if_False simp_thms)
    moreover have "1024 * 2 ^ Suc j dvd 1024 * N" using True by (simp add: power_add)
    then have "2 ^ Suc j dvd N" by simp
    ultimately show ?thesis by blast
  next
    case False
    have half: "2 ^ (10 + Suc j) div 2 = (2 :: nat) ^ (10 + j)"
      unfolding add_Suc_right power_Suc by (rule nonzero_mult_div_cancel_left) simp
    have "shrink_subtree (2 ^ (10 + Suc j)) (of_nat (1024 * N)) = shrink_subtree (2 ^ (10 + j)) (of_nat (1024 * N))"
      using False clear by (subst shrink_subtree.simps) (simp only: half if_True simp_thms)
    moreover obtain i where "i \<le> j" "shrink_subtree (2 ^ (10 + j)) (of_nat (1024 * N)) = 2 ^ (10 + i)" "2 ^ i dvd N"
      using Suc.IH Suc.prems by auto
    ultimately show ?thesis by (intro exI [of _ i]) simp
  qed
qed

text \<open>The next subtree is a power of two of chunks, fits the input and is aligned.\<close>

lemma next_subtree:
  assumes "cs_counter (bh_chunk h) = of_nat N" "1024 * N + length input < 2 ^ 64" "length input > 1024"
  shows "\<exists>i. next_subtree_len h input = 1024 * 2 ^ i \<and> 1024 * 2 ^ i \<le> length input \<and> 2 ^ i dvd N \<and> i < 54"
proof -
  have unat: "unat (of_nat (length input) :: u64) = length input" using assms(2) by (simp add: unat_of_nat)
  obtain m where m: "pow2_below (length input) = 2 ^ m" "2 ^ m \<le> length input" "length input < 2 * 2 ^ m"
  proof -
    have "length input > 0" using assms(3) by linarith
    from pow2_below_top [OF this] show ?thesis using that by (auto simp: top_bit_def)
  qed
  have "\<not> m < 10"
  proof
    assume "m < 10"
    then have "(2 :: nat) ^ m \<le> 2 ^ 9" by (intro power_increasing) simp_all
    then show False using m(3) assms(3) by simp
  qed
  then obtain j where j: "m = 10 + j" by (metis le_Suc_ex not_less)
  have "(2 :: nat) ^ m < 2 ^ 64" using m(2) assms(2) by simp
  then have "10 + j < 64" unfolding j by (simp only: power_strict_increasing_iff one_less_numeral_iff semiring_norm)
  from shrink_subtree_pow [OF _ this, of N] assms(2) obtain i where
    i: "i \<le> j" "shrink_subtree (2 ^ (10 + j)) (of_nat (1024 * N)) = 2 ^ (10 + i)" "2 ^ i dvd N" by auto
  have "next_subtree_len h input = 2 ^ (10 + i)"
    using i(2) by (simp add: next_subtree_len_def Let_def round_down_pow2 unat m(1) j assms(1) mult.commute)
  moreover have "(2 :: nat) ^ (10 + i) \<le> 2 ^ m" unfolding j using i(1) by (intro power_increasing) simp_all
  ultimately show ?thesis using i \<open>10 + j < 64\<close> m(2) by (intro exI [of _ i]) (simp add: power_add)
qed

text \<open>Between chunks: all bytes so far are on the stack.\<close>

definition at_boundary :: "u32 list \<Rightarrow> byte \<Rightarrow> blake3_hasher \<Rightarrow> bytes \<Rightarrow> nat list \<Rightarrow> bool" where
  "at_boundary key flags h bs ks \<longleftrightarrow>
     stack_holds key flags h bs ks \<and> lazy ks \<and> length bs = 1024 * chunks_of ks \<and>
     bh_chunk h = chunk_at key flags (of_nat (chunks_of ks)) []"

definition paired :: "nat list \<Rightarrow> bool" where
  "paired ks \<longleftrightarrow> (\<exists>ls k. ks = ls @ [k, k] \<and> sorted_wrt (>) (ls @ [k]))"

lemma stack_holds_extend:
  "stack_holds key flags h bs ks \<Longrightarrow> 1024 * chunks_of ks \<le> length bs \<Longrightarrow> stack_holds key flags h (bs @ cs) ks"
  by (simp add: stack_holds_def subtrees_prefix)

lemma stack_holds_chunk:
  "stack_holds key flags h bs ks \<Longrightarrow> cs_flags c = flags \<Longrightarrow> stack_holds key flags (h\<lparr>bh_chunk := c\<rparr>) bs ks"
  by (simp add: stack_holds_def)

lemma tree_chunk: "length bs \<le> 1024 \<Longrightarrow> tree_output key flags off bs = chunk_output key flags off bs"
  by (subst tree_output.simps) simp

lemma chunk_at_counter: "(chunk_at key flags c [])\<lparr>cs_counter := d\<rparr> = chunk_at key flags d []"
  by (simp add: chunk_at_def chunk_mid_def last_block_def Let_def)

text \<open>One round of the loop puts the next subtree on the stack, as one entry or as two halves.\<close>

lemma push_single:
  assumes h: "stack_holds key flags h bs ks" "lazy ks" "length bs = 1024 * chunks_of ks"
    and len: "length c = 1024" and lim: "chunks_of ks < 2 ^ 54"
  defines "cv \<equiv> output_chaining_value (chunk_output key flags (of_nat (chunks_of ks)) c)"
  shows "\<exists>ls. stack_holds key flags (hasher_push_cv h cv (of_nat (chunks_of ks))) (bs @ c) ls \<and> lazy ls \<and>
    chunks_of ls = chunks_of ks + 1 \<and> bh_chunk (hasher_push_cv h cv (of_nat (chunks_of ks))) = bh_chunk h"
proof -
  have cv: "cv = subtree key flags (of_nat (chunks_of ks)) (take (1024 * 2 ^ 0) (drop (1024 * chunks_of ks) (bs @ c)))"
    using h(3) len by (simp add: cv_def tree_chunk)
  have "1024 * chunks_of ks \<le> length (bs @ c)" using h(3) by simp
  from push_stack [OF stack_holds_extend [OF h(1)] h(2) this lim cv] h(3) obtain ls where
    "sorted_wrt (>) ls" "chunks_of ls = chunks_of ks"
    "stack_holds key flags (hasher_push_cv h cv (of_nat (chunks_of ks))) (bs @ c) (ls @ [0])"
    "bh_chunk (hasher_push_cv h cv (of_nat (chunks_of ks))) = bh_chunk h" by auto
  then show ?thesis by (intro exI [of _ "ls @ [0]"]) (simp add: lazy_simps)
qed

lemma push_halves:
  assumes st: "at_boundary key flags h bs ks" and len: "length as = 1024 * 2 ^ k" "length cs = 1024 * 2 ^ k"
    and lim: "chunks_of ks + 2 ^ k < 2 ^ 54" and dvd: "2 ^ Suc k dvd chunks_of ks"
  defines "h' \<equiv> hasher_push_cv (hasher_push_cv h (subtree key flags (of_nat (chunks_of ks)) as) (of_nat (chunks_of ks)))
      (subtree key flags (of_nat (chunks_of ks) + of_nat (2 ^ k)) cs) (of_nat (chunks_of ks) + of_nat (2 ^ k))"
  shows "\<exists>ls. stack_holds key flags h' (bs @ as @ cs) ls \<and> lazy ls \<and> paired ls \<and>
    chunks_of ls = chunks_of ks + 2 ^ Suc k \<and> bh_chunk h' = bh_chunk h"
proof -
  let ?N = "chunks_of ks" and ?bs = "bs @ as @ cs"
  let ?h1 = "hasher_push_cv h (subtree key flags (of_nat ?N) as) (of_nat ?N)"
  have h: "stack_holds key flags h bs ks" "lazy ks" "length bs = 1024 * ?N"
    using st by (simp_all add: at_boundary_def)
  have a: "subtree key flags (of_nat ?N) as = subtree key flags (of_nat ?N) (take (1024 * 2 ^ k) (drop (1024 * ?N) ?bs))"
    using h(3) len by simp
  have "1024 * ?N \<le> length ?bs" "?N < 2 ^ 54" using h(3) lim by simp_all
  from push_stack [OF stack_holds_extend [OF h(1)] h(2) this a] h(3) obtain ls where
    ls: "sorted_wrt (>) ls" "chunks_of ls = ?N" "stack_holds key flags ?h1 ?bs (ls @ [k])" "bh_chunk ?h1 = bh_chunk h" by auto
  have srt: "sorted_wrt (>) (ls @ [k])"
    using ls(1) sorted_at_least [OF ls(1), of "Suc k"] dvd ls(2) by (auto simp: sorted_wrt_append)
  have c: "subtree key flags (of_nat ?N + of_nat (2 ^ k)) cs =
      subtree key flags (of_nat (chunks_of (ls @ [k]))) (take (1024 * 2 ^ k) (drop (1024 * chunks_of (ls @ [k])) ?bs))"
    using h(3) len ls(2) by simp
  have "1024 * chunks_of (ls @ [k]) \<le> length ?bs" "chunks_of (ls @ [k]) < 2 ^ 54" using h(3) lim ls(2) len by simp_all
  from push_stack [OF ls(3) sorted_lazy [OF srt] this c] srt have
    "stack_holds key flags h' ?bs (ls @ [k, k])" "bh_chunk h' = bh_chunk h"
    using ls(2,4) by (auto simp: h'_def)
  moreover have "lazy (ls @ [k, k])"
    using lazy_simps(2) [of "ls @ [k]" k] srt by (auto simp: sorted_wrt_append)
  moreover have "paired (ls @ [k, k])" using srt by (auto simp: paired_def)
  ultimately show ?thesis using ls(2) by (intro exI [of _ "ls @ [k, k]"]) simp
qed

lemma push_subtree_step:
  assumes st: "at_boundary key flags h bs ks" and lim: "length bs + length input < 2 ^ 64" and big: "length input > 1024"
  defines "n \<equiv> next_subtree_len h input"
  shows "n \<le> length input \<and> (\<exists>ls. at_boundary key flags (push_subtree cpu h input n) (bs @ take n input) ls \<and>
    (n = length input \<longrightarrow> paired ls))"
proof -
  let ?N = "chunks_of ks"
  have h: "stack_holds key flags h bs ks" "length bs = 1024 * ?N" "bh_chunk h = chunk_at key flags (of_nat ?N) []"
    "bh_key h = key" "lazy ks" using st by (simp_all add: at_boundary_def stack_holds_def)
  have "cs_counter (bh_chunk h) = of_nat ?N" by (simp add: h(3))
  from next_subtree [OF this _ big] lim h(2) obtain i where
    i: "n = 1024 * 2 ^ i" "n \<le> length input" "2 ^ i dvd ?N" "i < 54" by (auto simp: n_def)
  have fits: "?N + 2 ^ i < 2 ^ 54" using lim h(2) i(1,2) by simp
  show ?thesis
  proof (cases i)
    case 0
    let ?c = "take 1024 input"
    have c: "length ?c = 1024" using big by simp
    have state: "chunk_state_update ((chunk_state_init key flags)\<lparr>cs_counter := of_nat ?N\<rparr>) ?c = chunk_at key flags (of_nat ?N) ?c"
      using chunk_update [of "[]" ?c key flags "of_nat ?N"] c by (simp add: init_chunk_at(1))
    let ?h = "hasher_push_cv h (output_chaining_value (chunk_output key flags (of_nat ?N) ?c)) (of_nat ?N)"
    from push_single [OF h(1,5,2) c] fits obtain ls where ls: "stack_holds key flags ?h (bs @ ?c) ls" "lazy ls"
        "chunks_of ls = ?N + 1" "bh_chunk ?h = bh_chunk h" by auto
    have "push_subtree cpu h input n = ?h\<lparr>bh_chunk := chunk_at key flags (of_nat ?N + 1) []\<rparr>"
      using i(1) 0 state c ls(4) chunk_at_output [of ?c key flags "of_nat ?N"]
      by (simp add: push_subtree_def Let_def h(3,4) chunk_at_counter)
    then have "at_boundary key flags (push_subtree cpu h input n) (bs @ take n input) ls"
      using ls i(1) 0 c h(2) by (simp add: at_boundary_def stack_holds_chunk add.commute)
    then show ?thesis using i(1,2) 0 big by auto
  next
    case (Suc k)
    let ?a = "take (1024 * 2 ^ k) input" and ?c = "take (1024 * 2 ^ k) (drop (1024 * 2 ^ k) input)"
    have dbl: "n = 1024 * 2 ^ k + 1024 * 2 ^ k" using i(1) Suc by simp
    have len: "length ?a = 1024 * 2 ^ k" "length ?c = 1024 * 2 ^ k" using i(2) dbl by simp_all
    have ac: "take n input = ?a @ ?c" unfolding dbl take_add ..
    have lim': "?N + 2 ^ k < 2 ^ 54" using fits Suc by simp
    let ?h = "hasher_push_cv (hasher_push_cv h (subtree key flags (of_nat ?N) ?a) (of_nat ?N))
      (subtree key flags (of_nat ?N + of_nat (2 ^ k)) ?c) (of_nat ?N + of_nat (2 ^ k))"
    from push_halves [OF st len lim'] i(3) Suc obtain ls where ls: "stack_holds key flags ?h (bs @ ?a @ ?c) ls" "lazy ls"
        "paired ls" "chunks_of ls = ?N + 2 ^ Suc k" "bh_chunk ?h = bh_chunk h" by auto
    have pair: "compress_subtree_to_parent_node cpu (?a @ ?c) key (of_nat ?N) flags =
        subtree key flags (of_nat ?N) ?a @ subtree key flags (of_nat ?N + of_nat (2 ^ k)) ?c"
      using len i(4) Suc by (intro parent_node_halves) simp_all
    have chunks: "n div BLAKE3_CHUNK_LEN = 2 ^ Suc k" "2 ^ Suc k div 2 = (2 :: nat) ^ k" using i(1) Suc by simp_all
    have "\<not> n \<le> BLAKE3_CHUNK_LEN" using dbl one_le_power [of "2 :: nat" k] unfolding BLAKE3_CHUNK_LEN_def by linarith
    then have "push_subtree cpu h input n = ?h\<lparr>bh_chunk := chunk_at key flags (of_nat ?N + of_nat (2 ^ Suc k)) []\<rparr>"
      unfolding push_subtree_def Let_def h(3,4) chunk_mid_simps ac pair chunks if_False
      by (simp add: ls(5) [unfolded h(3)] chunk_at_counter del: power_Suc of_nat_power)
    then have "at_boundary key flags (push_subtree cpu h input n) (bs @ take n input) ls"
      using ls len ac h(2) by (simp add: at_boundary_def stack_holds_chunk del: of_nat_power)
    then show ?thesis using i(2) ls(3) by blast
  qed
qed

lemma update_subtrees_boundary:
  "at_boundary key flags h bs ks \<Longrightarrow> length bs + length input < 2 ^ 64 \<Longrightarrow> input \<noteq> [] \<Longrightarrow>
   \<exists>done rest ls. input = done @ rest \<and> length rest \<le> 1024 \<and> snd (update_subtrees cpu h input) = rest \<and>
     at_boundary key flags (fst (update_subtrees cpu h input)) (bs @ done) ls \<and> (rest = [] \<longrightarrow> paired ls)"
proof (induction "length input" arbitrary: h bs ks input rule: less_induct)
  case less
  show ?case
  proof (cases "length input > 1024")
    case False
    then have "update_subtrees cpu h input = (h, input)" by (subst update_subtrees.simps) simp
    then show ?thesis using less.prems False
      by (intro exI [of _ "[]"] exI [of _ input] exI [of _ ks]) auto
  next
    case True
    let ?n = "next_subtree_len h input"
    let ?h = "push_subtree cpu h input ?n"
    have step: "update_subtrees cpu h input = update_subtrees cpu ?h (drop ?n input)"
      using True by (subst update_subtrees.simps) (simp add: Let_def)
    from push_subtree_step [OF less.prems(1,2) True] obtain ls where
      ls: "?n \<le> length input" "at_boundary key flags ?h (bs @ take ?n input) ls" "?n = length input \<longrightarrow> paired ls" by blast
    show ?thesis
    proof (cases "?n = length input")
      case True
      then have "update_subtrees cpu h input = (?h, [])" unfolding step by (subst update_subtrees.simps) simp
      then show ?thesis using ls True
        by (intro exI [of _ input] exI [of _ "[]"] exI [of _ ls]) auto
    next
      case False
      then have ne: "drop ?n input \<noteq> []" and shorter: "length (drop ?n input) < length input"
        using ls(1) next_subtree_len_pos [of h input] by auto
      have lim: "length (bs @ take ?n input) + length (drop ?n input) < 2 ^ 64" using less.prems(2) ls(1) by simp
      from less.hyps [OF shorter ls(2) lim ne] obtain d r ms where
        "drop ?n input = d @ r" "length r \<le> 1024" "snd (update_subtrees cpu ?h (drop ?n input)) = r"
        "at_boundary key flags (fst (update_subtrees cpu ?h (drop ?n input))) ((bs @ take ?n input) @ d) ms"
        "r = [] \<longrightarrow> paired ms" by blast
      moreover from this(1) have "input = (take ?n input @ d) @ r" by (metis append_assoc append_take_drop_id)
      ultimately show ?thesis unfolding step
        by (intro exI [of _ "take ?n input @ d"] exI [of _ r] exI [of _ ms] conjI) simp_all
    qed
  qed
qed

section \<open>Updates\<close>

text \<open>
  The hasher stands for the bytes it was given: \<open>p\<close> is on the stack, \<open>r\<close> in the chunk. Nothing is left
  to merge when there is a chunk under way; otherwise the last two entries are the halves of a subtree.
\<close>

definition absorbed :: "u32 list \<Rightarrow> byte \<Rightarrow> blake3_hasher \<Rightarrow> bytes \<Rightarrow> bool" where
  "absorbed key flags h bs \<longleftrightarrow> (\<exists>ks p r. bs = p @ r \<and> length p = 1024 * chunks_of ks \<and> length r \<le> 1024 \<and>
     stack_holds key flags h p ks \<and> bh_chunk h = chunk_at key flags (of_nat (chunks_of ks)) r \<and>
     (if r = [] then ks = [] \<or> paired ks else sorted_wrt (>) ks))"

lemma paired_lazy: "paired ks \<Longrightarrow> lazy ks"
proof -
  assume "paired ks"
  then obtain ls k where "ks = (ls @ [k]) @ [k]" "sorted_wrt (>) (ls @ [k])" by (auto simp: paired_def)
  then show ?thesis by (simp only: lazy_simps) (auto simp: sorted_wrt_append)
qed

lemma chunk_len_at: "length r \<le> 1024 \<Longrightarrow> chunk_state_len (chunk_at key flags c r) = length r"
proof -
  assume r: "length r \<le> 1024"
  let ?n = "last_block r"
  have n: "?n < 256" "64 * ?n \<le> length r" "length r \<le> 64 * ?n + 64" using r by (auto simp: last_block_def)
  have "unat (of_nat (length (drop (64 * ?n) r)) :: byte) = length (drop (64 * ?n) r)" using n by (intro small_byte) simp
  then show ?thesis using n small_byte [OF n(1)]
    by (simp only: chunk_state_len_def chunk_at_def chunk_mid_sel BLAKE3_BLOCK_LEN_def) simp
qed

text \<open>The end of an update that starts between chunks.\<close>

definition update_rest :: "platform \<Rightarrow> blake3_hasher \<Rightarrow> bytes \<Rightarrow> blake3_hasher" where
  "update_rest cpu self input =
     (let (self, input) = update_subtrees cpu self input in
      if length input > 0
      then
        let self = self\<lparr>bh_chunk := chunk_state_update (bh_chunk self) input\<rparr> in
        hasher_merge_cv_stack self (cs_counter (bh_chunk self))
      else self)"

lemma update_rest_absorbed:
  assumes "at_boundary key flags h bs ks" "length bs + length input < 2 ^ 64" "input \<noteq> []"
  shows "absorbed key flags (update_rest cpu h input) (bs @ input)"
proof -
  let ?h = "fst (update_subtrees cpu h input)"
  from update_subtrees_boundary [OF assms] obtain d r ls where d: "input = d @ r" "length r \<le> 1024"
      "snd (update_subtrees cpu h input) = r" "at_boundary key flags ?h (bs @ d) ls" "r = [] \<longrightarrow> paired ls" by blast
  have h: "stack_holds key flags ?h (bs @ d) ls" "lazy ls" "length (bs @ d) = 1024 * chunks_of ls"
    "bh_chunk ?h = chunk_at key flags (of_nat (chunks_of ls)) []" using d(4) by (simp_all add: at_boundary_def)
  show ?thesis
  proof (cases "r = []")
    case True
    then have "update_rest cpu h input = ?h" using d(3) by (simp add: update_rest_def split_def)
    then show ?thesis using True d(1,5) h unfolding absorbed_def
      by (intro exI [of _ ls] exI [of _ "bs @ d"] exI [of _ "[]"]) simp
  next
    case False
    let ?h1 = "?h\<lparr>bh_chunk := chunk_at key flags (of_nat (chunks_of ls)) r\<rparr>"
    let ?h2 = "hasher_merge_cv_stack ?h1 (of_nat (chunks_of ls))"
    have "update_rest cpu h input = ?h2"
      using d(2,3) False h(4) chunk_update [of "[]" r key flags "of_nat (chunks_of ls)"]
      by (simp add: update_rest_def split_def Let_def)
    moreover have h1: "stack_holds key flags ?h1 (bs @ d) ls" using h(1) by (simp add: stack_holds_chunk)
    have "1024 * chunks_of ls \<le> length (bs @ d)" "chunks_of ls < 2 ^ 54" using h(3) assms(2) d(1) by simp_all
    from merge_stack [OF h1 h(2) this] obtain ms where "sorted_wrt (>) ms" "chunks_of ms = chunks_of ls"
      "stack_holds key flags ?h2 (bs @ d) ms" "bh_chunk ?h2 = chunk_at key flags (of_nat (chunks_of ls)) r" by auto
    ultimately show ?thesis using d(1,2) h(3) False unfolding absorbed_def
      by (intro exI [of _ ms] exI [of _ "bs @ d"] exI [of _ r]) simp
  qed
qed

lemma update_absorbed:
  assumes abs: "absorbed key flags h bs" and lim: "length (bs @ input) < 2 ^ 64"
  shows "absorbed key flags (blake3_hasher_update cpu h input) (bs @ input)"
proof (cases "input = []")
  case True
  then show ?thesis using abs by (simp add: blake3_hasher_update_def)
next
  case input: False
  from abs obtain ks p r where s: "bs = p @ r" "length p = 1024 * chunks_of ks" "length r \<le> 1024"
    "stack_holds key flags h p ks" "bh_chunk h = chunk_at key flags (of_nat (chunks_of ks)) r"
    "if r = [] then ks = [] \<or> paired ks else sorted_wrt (>) ks" by (auto simp: absorbed_def)
  have len: "chunk_state_len (bh_chunk h) = length r" using s(3,5) by (simp add: chunk_len_at)
  show ?thesis
  proof (cases "r = []")
    case True
    then have "at_boundary key flags h bs ks"
      using s by (auto simp: at_boundary_def lazy_simps paired_lazy)
    from update_rest_absorbed [OF this _ input] lim
    have "absorbed key flags (update_rest cpu h input) (bs @ input)" by simp
    moreover have "blake3_hasher_update cpu h input = update_rest cpu h input"
      using input len True by (simp add: blake3_hasher_update_def update_rest_def)
    ultimately show ?thesis by simp
  next
    case r: False
    define n where "n = min (1024 - length r) (length input)"
    let ?N = "chunks_of ks"
    let ?c = "r @ take n input"
    let ?h = "h\<lparr>bh_chunk := chunk_at key flags (of_nat ?N) ?c\<rparr>"
    have n: "(if 1024 - length r > length input then length input else 1024 - length r) = n" by (auto simp: n_def)
    have n_le: "n \<le> 1024 - length r" "n \<le> length input" by (simp_all add: n_def)
    have upd: "chunk_state_update (bh_chunk h) (take n input) = chunk_at key flags (of_nat ?N) ?c"
      unfolding s(5) using s(3) n_le by (intro chunk_update) simp
    have srt: "sorted_wrt (>) ks" using s(6) r by simp
    show ?thesis
    proof (cases "length (drop n input) > 0")
      case False
      then have all: "n = length input" "take n input = input" "drop n input = []" using n_le by simp_all
      have "blake3_hasher_update cpu h input = ?h"
        unfolding blake3_hasher_update_def len BLAKE3_CHUNK_LEN_def Let_def n upd using input r False by simp
      moreover have "length (r @ input) \<le> 1024" using s(3) r all(1) n_le by simp
      ultimately show ?thesis using s r srt unfolding absorbed_def
        by - (rule exI [of _ ks], rule exI [of _ p], rule exI [of _ "r @ input"], simp add: stack_holds_chunk all)
    next
      case more: True
      have c: "length ?c = 1024" using s(3) more by (auto simp: n_def)
      let ?cv = "output_chaining_value (chunk_output key flags (of_nat ?N) ?c)"
      let ?h1 = "hasher_push_cv ?h ?cv (of_nat ?N)"
      have holds: "stack_holds key flags ?h p ks" using s(4) by (simp add: stack_holds_chunk)
      have "?N < 2 ^ 54" using lim s(1,2) by simp
      from push_single [OF holds sorted_lazy [OF srt] s(2) c this] obtain ls where
        ls: "stack_holds key flags ?h1 (p @ ?c) ls" "lazy ls" "chunks_of ls = ?N + 1"
          "bh_chunk ?h1 = chunk_at key flags (of_nat ?N) ?c" by auto
      let ?h2 = "?h1\<lparr>bh_chunk := chunk_at key flags (of_nat (?N + 1)) []\<rparr>"
      have at: "at_boundary key flags ?h2 (p @ ?c) ls"
        using ls s(2) c by (simp add: at_boundary_def stack_holds_chunk)
      have reset: "chunk_state_reset (bh_chunk ?h1) (bh_key ?h1) (cs_counter (bh_chunk ?h1) + 1) = chunk_at key flags (of_nat (?N + 1)) []"
        unfolding ls(4) using ls(1) by (simp add: chunk_at_def [of _ _ _ "r @ _"] init_chunk_at(3) stack_holds_def add.commute)
      have out: "chunk_state_output (chunk_at key flags (of_nat ?N) ?c) = chunk_output key flags (of_nat ?N) ?c"
        using c by (intro chunk_at_output) simp
      have "blake3_hasher_update cpu h input = update_rest cpu ?h2 (drop n input)"
        using input r more reset unfolding blake3_hasher_update_def len BLAKE3_CHUNK_LEN_def Let_def n upd
        by (simp add: out update_rest_def Let_def split_def)
      moreover have "absorbed key flags (update_rest cpu ?h2 (drop n input)) ((p @ ?c) @ drop n input)"
        using at lim more s(1) c by (intro update_rest_absorbed) auto
      ultimately show ?thesis by (simp add: s(1))
    qed
  qed
qed

interpretation hasher: absorber "blake3_hasher_update cpu" "absorbed key flags" "2 ^ 64 - 1"
  by unfold_locales (auto intro: update_absorbed)

section \<open>The result\<close>

text \<open>The output of the root is the stream of its blocks, numbered from 0.\<close>

definition root_byte :: "output_t \<Rightarrow> nat \<Rightarrow> byte" where
  "root_byte out i =
     blake3_compress_xof (out_input_cv out) (out_block out) (out_block_len out) (of_nat (i div 64)) (out_flags out OR ROOT)
       ! (i mod 64)"

definition root_stream :: "output_t \<Rightarrow> nat \<Rightarrow> nat \<Rightarrow> bytes" where
  "root_stream out seek n = map (root_byte out) [seek..<seek + n]"

abbreviation root_block :: "output_t \<Rightarrow> u64 \<Rightarrow> bytes" where
  "root_block out c \<equiv>
     blake3_compress_xof (out_input_cv out) (out_block out) (out_block_len out) c (out_flags out OR ROOT)"

lemma root_stream_append: "root_stream out s (m + n) = root_stream out s m @ root_stream out (s + m) n"
proof -
  have "[s..<s + (m + n)] = [s..<s + m] @ [s + m..<s + m + n]" using upt_add_eq_append [of s "s + m" n] by (simp add: add.assoc)
  then show ?thesis by (simp add: root_stream_def)
qed

lemma root_stream_within: "r + n \<le> 64 \<Longrightarrow> root_stream out (64 * a + r) n = read_at r n (root_block out (of_nat a))"
proof (rule nth_equalityI)
  assume rn: "r + n \<le> 64"
  then show "length (root_stream out (64 * a + r) n) = length (read_at r n (root_block out (of_nat a)))"
    by (simp add: root_stream_def read_at_def)
  fix i assume "i < length (root_stream out (64 * a + r) n)"
  then have i: "i < n" by (simp add: root_stream_def)
  then have "(64 * a + (r + i)) div 64 = a" "(64 * a + (r + i)) mod 64 = r + i" using rn
    by (simp_all only: div_mult_self4 mod_mult_self4) simp_all
  then show "root_stream out (64 * a + r) n ! i = read_at r n (root_block out (of_nat a)) ! i"
    using i rn by (simp add: root_stream_def root_byte_def nth_read_at add.assoc)
qed

lemma root_stream_blocks:
  "root_stream out (64 * a) (64 * k) =
   blake3_xof_many (out_input_cv out) (out_block out) (out_block_len out) (of_nat a) (out_flags out OR ROOT) k"
proof (induction k)
  case 0
  then show ?case by (simp add: root_stream_def blake3_xof_many_def)
next
  case (Suc k)
  have "root_stream out (64 * a) (64 * Suc k) = root_stream out (64 * a) (64 * k) @ root_stream out (64 * (a + k) + 0) 64"
    using root_stream_append [of out "64 * a" "64 * k" 64] by (simp add: algebra_simps)
  also have "root_stream out (64 * (a + k) + 0) 64 = root_block out (of_nat a + of_nat k)"
    using root_stream_within [of 0 64 out "a + k"] by (simp only: add_0_left order_refl) (simp add: read_at_def)
  finally show ?case using Suc by (simp add: blake3_xof_many_def)
qed

lemma root_tail_stream: "root_tail out (of_nat a) m = root_stream out (64 * a) m"
proof -
  let ?k = "m div 64" and ?t = "m - 64 * (m div 64)"
  have t: "?t \<le> 64" "m = 64 * ?k + ?t" by simp_all
  have "root_stream out (64 * a) m = root_stream out (64 * a) (64 * ?k) @ root_stream out (64 * a + 64 * ?k) ?t"
    by (subst t(2)) (rule root_stream_append)
  also have "root_stream out (64 * a + 64 * ?k) ?t = take ?t (root_block out (of_nat (a + ?k)))"
    using root_stream_within [of 0 ?t out "a + ?k"] t(1) by (simp add: read_at_def distrib_left)
  finally have "root_stream out (64 * a) m =
      blake3_xof_many (out_input_cv out) (out_block out) (out_block_len out) (of_nat a) (out_flags out OR ROOT) ?k @
      take ?t (root_block out (of_nat a + of_nat ?k))" by (simp add: root_stream_blocks)
  moreover have "blake3_xof_many cv b l c f 0 = []" for cv b l c f by (simp add: blake3_xof_many_def)
  ultimately show ?thesis unfolding root_tail_def Let_def by (cases "?k = 0"; cases "?t = 0") simp_all
qed

lemma output_root_stream: "output_root_bytes out seek n = root_stream out (unat seek) n"
proof -
  define a r where "a = unat seek div 64" and "r = unat seek mod 64"
  have seek: "unat seek = 64 * a + r" "r < 64" by (simp_all add: a_def r_def)
  have words: "seek div 64 = of_nat a" "unat (seek mod 64) = r" "of_nat a + 1 = (of_nat (a + 1) :: u64)"
    by (simp_all add: a_def r_def unat_div unat_mod word_arith_nat_div)
  define n1 where "n1 = (if n > 64 - r then 64 - r else n)"
  have n1: "r + n1 \<le> 64" "n1 \<le> n" "n1 = n \<or> 64 * a + r + n1 = 64 * (a + 1)" using seek(2) by (auto simp: n1_def)
  have def: "output_root_bytes out seek n =
      (if n = 0 then [] else if r \<noteq> 0 then read_at r n1 (root_block out (of_nat a)) @ root_stream out (64 * (a + 1)) (n - n1)
       else root_stream out (64 * a) n)"
    unfolding output_root_bytes_def Let_def words n1_def [symmetric] root_tail_stream ..
  have "root_stream out (64 * a + r) n = root_stream out (64 * a + r) n1 @ root_stream out (64 * a + r + n1) (n - n1)"
    using root_stream_append [of out "64 * a + r" n1 "n - n1"] n1(2) by simp
  moreover have "root_stream out (64 * a + r + n1) (n - n1) = root_stream out (64 * (a + 1)) (n - n1)"
    using n1(3) by (elim disjE) (simp add: root_stream_def, simp only:)
  ultimately have "root_stream out (64 * a + r) n = read_at r n1 (root_block out (of_nat a)) @ root_stream out (64 * (a + 1)) (n - n1)"
    using root_stream_within [OF n1(1)] by simp
  then show ?thesis unfolding def seek(1) by (auto simp: root_stream_def)
qed

section \<open>Finalisation\<close>

lemma roll_up_snoc: "roll_up key flags (cvs @ [cv]) out = roll_up key flags cvs (parent_output (cv @ output_chaining_value out) key flags)"
  by (simp add: roll_up_def)

lemma concat_entry:
  "\<forall>x\<in>set xss. length x = 32 \<Longrightarrow> n < length xss \<Longrightarrow> read_at (n * 32) 32 (concat xss @ ys) = xss ! n"
proof (induction xss arbitrary: n)
  case (Cons x xss)
  then show ?case by (cases n) (simp_all add: read_at_def)
qed simp

lemma subtrees_entries: "\<forall>x\<in>set (subtrees key flags off bs ks). length x = 32"
  by (induction ks arbitrary: off bs) simp_all

text \<open>The roll-up loop over the lowest \<open>n\<close> entries of the stack.\<close>

lemma finalize_loop_roll_up:
  assumes "bh_key h = key" "cs_flags (bh_chunk h) = flags" "\<forall>x\<in>set cvs. length x = 32"
    "take (32 * length cvs) (bh_stack h) = concat cvs"
  shows "n \<le> length cvs \<Longrightarrow> finalize_loop h n out = roll_up key flags (take n cvs) out"
proof (induction n arbitrary: out)
  case (Suc n)
  have "bh_stack h = concat cvs @ drop (32 * length cvs) (bh_stack h)"
    by (metis assms(4) append_take_drop_id)
  then have "read_at (n * 32) 32 (bh_stack h) = cvs ! n"
    using concat_entry [OF assms(3), of n "drop (32 * length cvs) (bh_stack h)"] Suc.prems by simp
  then show ?case using Suc assms(1,2) by (simp add: Let_def take_Suc_conv_app_nth roll_up_snoc)
qed (simp add: roll_up_def)

lemma init_absorbed:
  "length (bh_stack h) = 1760 \<Longrightarrow> absorbed key flags (hasher_init_base h key flags) []"
  unfolding absorbed_def
  by (rule exI [of _ "[]"], rule exI [of _ "[]"], rule exI [of _ "[]"])
    (simp add: hasher_init_base_def stack_holds_def init_chunk_at(2))

lemma reset_chunk_at: "chunk_state_reset c key counter = chunk_at key (cs_flags c) counter []"
  by (cases c) (simp add: chunk_state_reset_def chunk_at_def chunk_mid_def last_block_def Let_def)

lemma reset_absorbed: "absorbed key flags h bs \<Longrightarrow> absorbed key flags (blake3_hasher_reset h) []"
  unfolding absorbed_def
  by (rule exI [of _ "[]"], rule exI [of _ "[]"], rule exI [of _ "[]"])
    (auto simp: blake3_hasher_reset_def stack_holds_def reset_chunk_at)

lemma finalize_absorbed:
  assumes "absorbed key flags h bs"
  shows "blake3_hasher_finalize_seek h seek n = root_stream (tree_output key flags 0 bs) (unat seek) n"
proof -
  from assms obtain ks p r where s: "bs = p @ r" "length p = 1024 * chunks_of ks" "length r \<le> 1024"
    "stack_holds key flags h p ks" "bh_chunk h = chunk_at key flags (of_nat (chunks_of ks)) r"
    "if r = [] then ks = [] \<or> paired ks else sorted_wrt (>) ks" by (auto simp: absorbed_def)
  have h: "bh_key h = key" "cs_flags (bh_chunk h) = flags" "unat (bh_stack_len h) = length ks"
    "take (32 * length ks) (bh_stack h) = concat (subtrees key flags 0 p ks)"
    using s(4) by (simp_all add: stack_holds_def)
  have len: "chunk_state_len (bh_chunk h) = length r" using s(3,5) by (simp add: chunk_len_at)
  have out: "chunk_state_output (bh_chunk h) = tree_output key flags (of_nat (chunks_of ks)) r"
    using s(3,5) by (simp add: chunk_at_output tree_chunk)
  have empty: "bh_stack_len h = 0 \<longleftrightarrow> ks = []" using h(3) by (metis length_0_conv unat_eq_zero)
  show ?thesis
  proof (cases "n = 0 \<or> ks = []")
    case True
    then show ?thesis using s(1,2) out empty
      by (auto simp: blake3_hasher_finalize_seek_def output_root_stream root_stream_def)
  next
    case False
    have "tree_output key flags 0 bs = (if length r > 0 then finalize_loop h (length ks) (tree_output key flags (of_nat (chunks_of ks)) r)
        else finalize_loop h (length ks - 2) (parent_output (read_at ((length ks - 2) * 32) 64 (bh_stack h)) key flags))"
    proof (cases "r = []")
      case r: False
      have "finalize_loop h (length ks) (tree_output key flags (of_nat (chunks_of ks)) r) =
          roll_up key flags (subtrees key flags 0 p ks) (tree_output key flags (of_nat (chunks_of ks)) r)"
        using finalize_loop_roll_up [OF h(1,2) subtrees_entries [of key flags 0 p ks], of "length ks"] h(4) by simp
      also have "\<dots> = tree_output key flags 0 (p @ r)"
        using s(2,3,6) r tree_roll_up [of ks 0 p r key flags 0] by simp
      finally show ?thesis using s(1) r by simp
    next
      case True
      then obtain ls k where ks: "ks = ls @ [k, k]" and srt: "sorted_wrt (>) (ls @ [k])"
        using s(6) False by (auto simp: paired_def)
      let ?l = "1024 * chunks_of ls"
      have sizes: "length p = ?l + 1024 * 2 ^ Suc k" using s(2) ks by simp
      have pl: "1024 * chunks_of (ls @ [k, k]) \<le> length p" using s(2) ks by simp
      note pair = top_pair [OF s(4) [unfolded ks] pl]
      have rest: "take (1024 * 2 ^ Suc k) (drop ?l p) = drop ?l p" using sizes by simp
      have pre: "subtrees key flags 0 p ls = subtrees key flags 0 (take ?l p) ls"
        using subtrees_prefix [of ls "take ?l p" key flags 0 "drop ?l p"] sizes by simp
      have "finalize_loop h (length ls) (tree_output key flags (of_nat (chunks_of ls)) (drop ?l p)) =
          roll_up key flags (subtrees key flags 0 (take ?l p) ls) (tree_output key flags (of_nat (chunks_of ls)) (drop ?l p))"
        using finalize_loop_roll_up [OF h(1,2) subtrees_entries [of key flags 0 p ls], of "length ls"] pair(2) unfolding pre by simp
      also have "\<dots> = tree_output key flags 0 (take ?l p @ drop ?l p)"
        using srt sizes tree_roll_up [of ls "Suc k" "take ?l p" "drop ?l p" key flags 0]
        by (simp add: sorted_wrt_append Suc_le_eq)
      finally show ?thesis using s(1) True pair(1) [unfolded rest] by (simp add: ks mult.commute [of "length ls"])
    qed
    then show ?thesis using False empty
      by (auto simp: blake3_hasher_finalize_seek_def Let_def output_root_stream len out h)
  qed
qed

section \<open>Properties\<close>

lemma updates_absorbed:
  assumes "absorbed key flags h []" "length (concat pieces) < 2 ^ 64"
  shows "absorbed key flags (foldl (blake3_hasher_update cpu) h pieces) (concat pieces)"
  using hasher.absorb_pieces [OF assms(1), of pieces] assms(2) by simp

text \<open>A processor and an uninitialised hasher, for the witnesses.\<close>

definition any_cpu :: platform where
  "any_cpu = \<lparr>pf_build = X86 True False, pf_features = \<lparr>SSE2 = True, SSSE3 = True, SSE41 = True, AVX = True,
     AVX2 = True, AVX512F = False, AVX512VL = False\<rparr>\<rparr>"

definition any_hasher :: blake3_hasher where
  "any_hasher = \<lparr>bh_key = [], bh_chunk = chunk_state_init [] 0, bh_stack_len = 7, bh_stack = zeros 1760\<rparr>"

lemma any_hasher_stack [simp]: "length (bh_stack any_hasher) = 1760"
  by (simp add: any_hasher_def)

text \<open>
  C24. The incremental hasher computes the published tree hash. Whatever pieces the input comes in and
  however many lanes the processor has, hashing them one after another and asking for any window of the
  output gives the bytes of the root's output stream for all of the input at once: unkeyed, keyed, with a
  key derived from a context (itself hashed as published), and after a reset, which forgets what the
  hasher was given before.
\<close>

theorem hasher_is_blake3:
  assumes "length (bh_stack h) = 1760" "length (bh_stack h2) = 1760" "length (concat pieces) < 2 ^ 64"
    and "length (concat before) < 2 ^ 64" "length ctxt < 2 ^ 64"
  shows "blake3_hasher_finalize_seek (foldl (blake3_hasher_update cpu) (blake3_hasher_init h) pieces) seek n =
      root_stream (tree_output blake3_IV 0 0 (concat pieces)) (unat seek) n \<and>
    blake3_hasher_finalize_seek (foldl (blake3_hasher_update cpu) (blake3_hasher_init_keyed h key) pieces) seek n =
      root_stream (tree_output (load_key_words key) KEYED_HASH 0 (concat pieces)) (unat seek) n \<and>
    blake3_hasher_finalize_seek
        (foldl (blake3_hasher_update cpu) (blake3_hasher_init_derive_key_raw cpu h2 h ctxt) pieces) seek n =
      root_stream (tree_output (load_key_words (root_stream (tree_output blake3_IV DERIVE_KEY_CONTEXT 0 ctxt) 0 32))
        DERIVE_KEY_MATERIAL 0 (concat pieces)) (unat seek) n \<and>
    (let used = foldl (blake3_hasher_update cpu) (blake3_hasher_init_keyed h key) before in
     blake3_hasher_finalize_seek (foldl (blake3_hasher_update cpu) (blake3_hasher_reset used) pieces) seek n =
      root_stream (tree_output (load_key_words key) KEYED_HASH 0 (concat pieces)) (unat seek) n)"
proof -
  have plain: "absorbed blake3_IV 0 (blake3_hasher_init h) []"
    unfolding blake3_hasher_init_def by (rule init_absorbed [OF assms(1)])
  have keyed: "absorbed (load_key_words key) KEYED_HASH (blake3_hasher_init_keyed h key) []"
    unfolding blake3_hasher_init_keyed_def by (rule init_absorbed [OF assms(1)])
  have "absorbed blake3_IV DERIVE_KEY_CONTEXT
      (foldl (blake3_hasher_update cpu) (hasher_init_base h2 blake3_IV DERIVE_KEY_CONTEXT) [ctxt]) (concat [ctxt])"
    using assms(5) by (intro updates_absorbed init_absorbed [OF assms(2)]) simp
  from finalize_absorbed [OF this, of 0 32]
  have "blake3_hasher_finalize (blake3_hasher_update cpu (hasher_init_base h2 blake3_IV DERIVE_KEY_CONTEXT) ctxt) 32 =
      root_stream (tree_output blake3_IV DERIVE_KEY_CONTEXT 0 ctxt) 0 32"
    by (simp add: blake3_hasher_finalize_def)
  then have derived: "absorbed
      (load_key_words (root_stream (tree_output blake3_IV DERIVE_KEY_CONTEXT 0 ctxt) 0 32)) DERIVE_KEY_MATERIAL
      (blake3_hasher_init_derive_key_raw cpu h2 h ctxt) []"
    unfolding blake3_hasher_init_derive_key_raw_def Let_def by (simp add: init_absorbed [OF assms(1)])
  note reset = reset_absorbed [OF updates_absorbed [OF keyed assms(4)]]
  show ?thesis unfolding Let_def
    by (intro conjI finalize_absorbed updates_absorbed plain keyed derived reset assms(3))
qed

lemma hasher_is_blake3_witness:
  "blake3_hasher_finalize_seek
     (foldl (blake3_hasher_update any_cpu) (blake3_hasher_init any_hasher) [[1, 2], [], zeros 5000, [3]]) 70 40 =
   root_stream (tree_output blake3_IV 0 0 ([1, 2] @ zeros 5000 @ [3])) 70 40"
  using hasher_is_blake3 [of any_hasher any_hasher "[[1, 2], [], zeros 5000, [3]]" "[]" "[]" any_cpu 70 40 "[]"]
  by simp

text \<open>
  The fixed arrays of the tree code on one input: \<open>chunks_array\<close> and \<open>parents_array\<close>, the two halves of \<open>cv_array\<close> in
  \<open>blake3_compress_subtree_wide\<close>, of which the left must not reach into the right, the \<open>cv_array\<close> of
  \<open>compress_subtree_to_parent_node\<close>, and its \<open>out_array\<close>, which is half as long.
\<close>

definition arrays_fit :: "platform \<Rightarrow> bytes \<Rightarrow> u32 list \<Rightarrow> u64 \<Rightarrow> byte \<Rightarrow> bool" where
  "arrays_fit cpu input key counter flags \<longleftrightarrow>
     (let most = MAX_SIMD_DEGREE_OR_2 (pf_build cpu);
          (out, num_cvs) = compress_subtree_wide cpu input key counter flags in
      num_cvs \<le> most \<and> length out = num_cvs * BLAKE3_OUT_LEN \<and>
      (if num_cvs > 2 then (num_cvs + 1) div 2 * BLAKE3_OUT_LEN \<le> most * BLAKE3_OUT_LEN div 2 else True) \<and>
      (if length input \<le> blake3_simd_degree cpu * BLAKE3_CHUNK_LEN
       then length (chunks_array input) \<le> MAX_SIMD_DEGREE (pf_build cpu)
       else
         let left_input_len = left_subtree_len (length input);
             right_chunk_counter = counter + of_nat (left_input_len div BLAKE3_CHUNK_LEN);
             degree = (if left_input_len > BLAKE3_CHUNK_LEN \<and> blake3_simd_degree cpu = 1 then 2 else blake3_simd_degree cpu);
             (left_cvs, left_n) = compress_subtree_wide cpu (take left_input_len input) key counter flags;
             (right_cvs, right_n) = compress_subtree_wide cpu (drop left_input_len input) key right_chunk_counter flags in
         length left_cvs \<le> degree * BLAKE3_OUT_LEN \<and>
         degree * BLAKE3_OUT_LEN + length right_cvs \<le> 2 * most * BLAKE3_OUT_LEN \<and>
         (left_n + right_n) div 2 \<le> most))"

lemma length_chunks_array: "length (chunks_array input) = length input div 1024"
proof (induction input rule: chunks_array.induct)
  case (1 input)
  show ?case
  proof (cases "length input \<ge> BLAKE3_CHUNK_LEN")
    case True
    then have "length (chunks_array (drop BLAKE3_CHUNK_LEN input)) = (length input - 1024) div 1024" using 1 by simp
    moreover have "length input div 1024 = Suc ((length input - 1024) div 1024)" using True by (simp add: le_div_geq)
    ultimately show ?thesis using True by (subst chunks_array.simps) simp
  qed (subst chunks_array.simps, simp)
qed

lemma wide_max: "2 ^ wide_log cpu k \<le> MAX_SIMD_DEGREE_OR_2 (pf_build cpu)"
proof -
  have "wide_log cpu k \<le> max (log_degree cpu) 1" by (auto simp: wide_log_def)
  then have "(2 :: nat) ^ wide_log cpu k \<le> 2 ^ max (log_degree cpu) 1" by (intro power_increasing) simp_all
  also have "\<dots> = max (blake3_simd_degree cpu) 2"
  proof (cases "log_degree cpu")
    case (Suc n)
    have "(2 :: nat) \<le> 2 ^ Suc n" by simp
    then show ?thesis by (simp only: log_degree(1) Suc max_absorb1)
  qed (simp add: log_degree(1))
  also note simd_degree_max(2) [of cpu]
  finally show ?thesis .
qed

lemma whole_subtree_fits:
  assumes "length input = 1024 * 2 ^ k" "k \<le> 60"
  shows "arrays_fit cpu input key counter flags"
proof -
  let ?m = "MAX_SIMD_DEGREE_OR_2 (pf_build cpu)" and ?j = "wide_log cpu k"
  have out: "(2 :: nat) < 2 ^ ?j \<Longrightarrow> (2 ^ ?j + 1) div 2 * 32 \<le> ?m * 32 div (2 :: nat)"
    using wide_max [of cpu k] by (cases ?j) simp_all
  have row: "length (row key flags i off bs n) = 32 * n" for i off bs n by simp
  have split: "length left_cvs \<le> degree * 32 \<and> degree * 32 + length right_cvs \<le> 2 * ?m * 32 \<and> (left_n + right_n) div 2 \<le> ?m"
    if more: "\<not> length input \<le> blake3_simd_degree cpu * 1024"
      and deg: "degree = (if left_subtree_len (length input) > 1024 \<and> blake3_simd_degree cpu = 1 then 2 else blake3_simd_degree cpu)"
      and left: "compress_subtree_wide cpu (take (left_subtree_len (length input)) input) key counter flags = (left_cvs, left_n)"
      and right: "compress_subtree_wide cpu (drop (left_subtree_len (length input)) input) key
        (counter + of_nat (left_subtree_len (length input) div 1024)) flags = (right_cvs, right_n)"
    for degree left_cvs left_n right_cvs right_n
  proof -
    obtain i where k: "k = Suc i" using more assms(1) simd_degree_cases [of cpu] by (cases k) auto
    have ll: "left_subtree_len (length input) = 1024 * 2 ^ i"
      using left_subtree_len_pow [of i] assms by (simp add: k)
    have halves: "length (take (1024 * 2 ^ i) input) = 1024 * 2 ^ i" "length (drop (1024 * 2 ^ i) input) = 1024 * 2 ^ i" "i \<le> 60"
      using assms by (simp_all add: k)
    have n: "left_n = 2 ^ wide_log cpu i" "right_n = 2 ^ wide_log cpu i" "length left_cvs = 32 * 2 ^ wide_log cpu i"
        "length right_cvs = 32 * 2 ^ wide_log cpu i"
      using left right row unfolding ll wide_row [OF halves(1,3)] wide_row [OF halves(2,3)] by auto
    have i: "log_degree cpu \<le> i"
    proof (rule ccontr)
      assume "\<not> log_degree cpu \<le> i"
      then have "(2 :: nat) ^ k \<le> 2 ^ log_degree cpu" unfolding k by (intro power_increasing) simp_all
      then show False using more assms(1) by (simp add: log_degree(1))
    qed
    have d: "degree = 2 ^ wide_log cpu i"
    proof (cases "log_degree cpu = 0")
      case True
      then show ?thesis using one_less_power [of "2 :: nat" i] by (cases i) (simp_all add: deg ll log_degree(1) wide_log_def)
    next
      case False
      then have "blake3_simd_degree cpu \<noteq> 1" by (simp add: log_degree(1))
      then show ?thesis using False i by (auto simp: deg log_degree(1) wide_log_def max_def)
    qed
    show ?thesis using wide_max [of cpu i] by (simp add: n d)
  qed
  have chunks: "length (chunks_array input) \<le> MAX_SIMD_DEGREE (pf_build cpu)" if "length input \<le> blake3_simd_degree cpu * 1024"
    using that simd_degree_max(1) [of cpu] by (simp add: length_chunks_array assms(1))
  show ?thesis
    unfolding arrays_fit_def Let_def wide_row [OF assms] prod.case
    using wide_max [of cpu k] out chunks split by (auto split: prod.split)
qed

text \<open>
  C27. The hasher stays inside its arrays, on every build and processor. After any updates with less than 2^64 bytes
  in all, the stack has its 55 entries of 32 bytes and at most that many are in use, the block buffer has 64 bytes
  of which at most 64 are counted, a chunk never counts more than 1024 bytes. And the batches a complete subtree is
  hashed in, in each call of the recursion and in the loop that condenses them, fit the arrays, whose
  sizes come from the build (16, 4 or 1 lanes) and not from the processor found at run time.
\<close>

theorem hasher_stays_in_bounds:
  assumes "length (bh_stack h) = 1760" "length (concat pieces) < 2 ^ 64"
    and "length input = 1024 * 2 ^ k" "k \<le> 60"
  shows "(let h' = foldl (blake3_hasher_update cpu) (hasher_init_base h key flags) pieces in
      length (bh_stack h') = (BLAKE3_MAX_DEPTH + 1) * BLAKE3_OUT_LEN \<and> unat (bh_stack_len h') \<le> BLAKE3_MAX_DEPTH + 1 \<and>
      length (cs_buf (bh_chunk h')) = BLAKE3_BLOCK_LEN \<and> unat (cs_buf_len (bh_chunk h')) \<le> BLAKE3_BLOCK_LEN \<and>
      chunk_state_len (bh_chunk h') \<le> BLAKE3_CHUNK_LEN) \<and>
    arrays_fit cpu input key counter flags"
proof -
  let ?h = "foldl (blake3_hasher_update cpu) (hasher_init_base h key flags) pieces"
  have "absorbed key flags ?h (concat pieces)"
    using assms(1,2) by (intro updates_absorbed init_absorbed)
  then obtain ks p r where s: "length r \<le> 1024" "stack_holds key flags ?h p ks"
      "bh_chunk ?h = chunk_at key flags (of_nat (chunks_of ks)) r" by (auto simp: absorbed_def)
  let ?n = "last_block r"
  have n: "64 * ?n \<le> length r" "length r \<le> 64 * ?n + 64" by (auto simp: last_block_def)
  then have "unat (of_nat (length (drop (64 * ?n) r)) :: byte) = length (drop (64 * ?n) r)" by (intro small_byte) simp
  then have buf: "length (cs_buf (bh_chunk ?h)) = 64" "unat (cs_buf_len (bh_chunk ?h)) \<le> 64"
    using n unfolding s(3) chunk_at_def chunk_mid_sel by simp_all
  show ?thesis unfolding Let_def using s buf whole_subtree_fits [OF assms(3,4)] by (simp add: stack_holds_def chunk_len_at)
qed

lemma hasher_stays_in_bounds_witness:
  "unat (bh_stack_len (foldl (blake3_hasher_update any_cpu) (hasher_init_base any_hasher blake3_IV 0) [zeros 3000, [1]])) \<le> 55 \<and>
   arrays_fit any_cpu (zeros 65536) blake3_IV 1 0"
  using hasher_stays_in_bounds [of any_hasher "[zeros 3000, [1]]" "zeros 65536" 6 any_cpu blake3_IV 0]
  by (simp add: Let_def)

end
