(* ===== verification/Blake3Link.thy ===== *)
theory Blake3Link
  imports Blake3Correct ToyCrypto
begin

text \<open>
  The BLAKE3 library of the repository in the place of the parameter: the wrappers of
  \<open>core/cryptography/blake3.cpp\<close> initialise a hasher on their stack, update it once and finalise it.
  With this the laws the handshake needs of BLAKE3 are no longer assumed, and the three wrappers are
  the published hash.
\<close>

definition with_blake3 :: "platform \<Rightarrow> blake3_hasher \<Rightarrow> 'k crypto \<Rightarrow> 'k crypto" where
  "with_blake3 cpu h lib = lib
     \<lparr>blake3_out := \<lambda>input n. blake3_hasher_finalize (blake3_hasher_update cpu (blake3_hasher_init h) input) n,
      blake3_keyed_out := \<lambda>key input n.
        blake3_hasher_finalize (blake3_hasher_update cpu (blake3_hasher_init_keyed h key) input) n\<rparr>"

lemma length_finalize: "length (blake3_hasher_finalize self n) = n"
proof -
  have "length (output_root_bytes out seek n) = n" for out seek
    by (simp add: output_root_stream root_stream_def)
  then show ?thesis
    by (simp add: blake3_hasher_finalize_def blake3_hasher_finalize_seek_def split_def Let_def)
qed

lemma with_blake3_sel [simp]:
  "cipher_ok (with_blake3 cpu h lib) = cipher_ok lib" "chacha_seal (with_blake3 cpu h lib) = chacha_seal lib"
  "chacha_open (with_blake3 cpu h lib) = chacha_open lib" "pkey_ok (with_blake3 cpu h lib) = pkey_ok lib"
  "raw_private_key (with_blake3 cpu h lib) = raw_private_key lib"
  "raw_public_key (with_blake3 cpu h lib) = raw_public_key lib"
  "get_raw_private (with_blake3 cpu h lib) = get_raw_private lib"
  "get_raw_public (with_blake3 cpu h lib) = get_raw_public lib"
  "x25519_keygen (with_blake3 cpu h lib) = x25519_keygen lib" "derive_len (with_blake3 cpu h lib) = derive_len lib"
  "derive_secret (with_blake3 cpu h lib) = derive_secret lib" "mlkem_keygen (with_blake3 cpu h lib) = mlkem_keygen lib"
  "fromdata_public (with_blake3 cpu h lib) = fromdata_public lib"
  "fromdata_private (with_blake3 cpu h lib) = fromdata_private lib"
  "octet_len (with_blake3 cpu h lib) = octet_len lib" "octet_get (with_blake3 cpu h lib) = octet_get lib"
  "encap_lens (with_blake3 cpu h lib) = encap_lens lib" "encap (with_blake3 cpu h lib) = encap lib"
  "decap_len (with_blake3 cpu h lib) = decap_len lib" "decap (with_blake3 cpu h lib) = decap lib"
  "hkdf_derive (with_blake3 cpu h lib) = hkdf_derive lib"
  by (simp_all add: with_blake3_def)

lemma with_blake3_pairs [simp]:
  "x25519_pair (with_blake3 cpu h lib) a A = x25519_pair lib a A"
  "mlkem_pair (with_blake3 cpu h lib) dk ek = mlkem_pair lib dk ek"
  by (simp_all add: x25519_pair_def PublicKeyFromPrivate_def PkeyFromPrivateBytes_def mlkem_pair_def)

lemma with_blake3_laws: "crypto_laws (with_blake3 cpu h lib) \<longleftrightarrow>
    aead_laws lib \<and> x25519_laws lib \<and> mlkem_laws lib"
proof -
  have "blake3_laws (with_blake3 cpu h lib)"
    by (simp add: blake3_laws_def with_blake3_def length_finalize)
  moreover have "aead_laws (with_blake3 cpu h lib) = aead_laws lib" by (simp add: aead_laws_def)
  moreover have "x25519_laws (with_blake3 cpu h lib) = x25519_laws lib" by (simp add: x25519_laws_def)
  moreover have "mlkem_laws (with_blake3 cpu h lib) = mlkem_laws lib" by (simp add: mlkem_laws_def)
  ultimately show ?thesis by (simp add: crypto_laws_def)
qed

lemma one_update:
  assumes "absorbed key flags h []" "length input < 2 ^ 64"
  shows "blake3_hasher_finalize (blake3_hasher_update cpu h input) n = root_stream (tree_output key flags 0 input) 0 n"
  using finalize_absorbed [OF updates_absorbed [OF assms(1), of "[input]" cpu], of 0 n] assms(2)
  by (simp add: blake3_hasher_finalize_def)

text \<open>
  C25. The BLAKE3 library of the repository is what the handshake needs of one. In the place of the parameter it
  satisfies the laws assumed of BLAKE3, so that those of the other libraries are all that is left, and
  the wrappers return the published hash, keyed hash and extended output of every input shorter than
  2^64 bytes, and refuse the empty inputs they refuse.
\<close>

theorem wrappers_are_blake3:
  assumes "length (bh_stack h) = 1760" "length input < 2 ^ 64"
  shows "(crypto_laws (with_blake3 cpu h lib) \<longleftrightarrow> aead_laws lib \<and> x25519_laws lib \<and> mlkem_laws lib) \<and>
    Hash256 (with_blake3 cpu h lib) input =
      (if input = [] then None else Some (root_stream (tree_output blake3_IV 0 0 input) 0 32)) \<and>
    KeyedHash256 (with_blake3 cpu h lib) key input =
      Some (root_stream (tree_output (load_key_words key) KEYED_HASH 0 input) 0 32) \<and>
    HashXof (with_blake3 cpu h lib) input n =
      (if input = [] \<or> n = 0 then None else Some (root_stream (tree_output blake3_IV 0 0 input) 0 n))"
proof -
  have "absorbed blake3_IV 0 (blake3_hasher_init h) []"
    unfolding blake3_hasher_init_def by (rule init_absorbed [OF assms(1)])
  note plain = one_update [OF this assms(2)]
  have "absorbed (load_key_words key) KEYED_HASH (blake3_hasher_init_keyed h key) []"
    unfolding blake3_hasher_init_keyed_def by (rule init_absorbed [OF assms(1)])
  note keyed = one_update [OF this assms(2)]
  show ?thesis unfolding with_blake3_laws
    by (simp add: Hash256_def KeyedHash256_def HashXof_def with_blake3_def plain keyed kDefaultHashBytes_def)
qed

lemma wrappers_are_blake3_witness:
  "crypto_laws (with_blake3 any_cpu any_hasher toy) \<and>
   HashXof (with_blake3 any_cpu any_hasher toy) (zeros 3000) 131 = Some (root_stream (tree_output blake3_IV 0 0 (zeros 3000)) 0 131)"
  using wrappers_are_blake3 [of any_hasher "zeros 3000" any_cpu toy "zeros 32" 131] toy_crypto_laws
  by (simp add: crypto_laws_def zeros_def)

end
