(* ===== verification/Blake3Vector.thy ===== *)
theory Blake3Vector
  imports Blake3Compress
begin

text \<open>
  What the vectorised versions of the BLAKE3 compression functions have in common. A vector register is the
  list of its 32-bit lanes, the lowest first. The first section says what the compiler's vector
  intrinsics do that the sources use, for registers of any width where an intrinsic works lane by lane
  and on groups of four lanes where it works within 128 bits. The sources repeat the same functions for
  each instruction set with other names for the operations on registers: the functions are defined here
  over a record of those operations, and the theory of each source file instantiates it.
\<close>

section \<open>Vector registers and intrinsics\<close>

type_synonym vec = "u32 list"

text \<open>Loads and stores of \<open>n\<close> lanes, in the little-endian order of the processors that have them.\<close>

definition loadu :: "nat \<Rightarrow> bytes \<Rightarrow> vec" where
  "loadu n src = map (\<lambda>i. load32 (drop (4 * i) src)) [0..<n]"

definition storeu :: "vec \<Rightarrow> bytes" where
  "storeu v = concat (map store32 v)"

definition add_epi32 :: "vec \<Rightarrow> vec \<Rightarrow> vec" where "add_epi32 a b = map2 (+) a b"
definition sub_epi32 :: "vec \<Rightarrow> vec \<Rightarrow> vec" where "sub_epi32 a b = map2 (-) a b"
definition xor_si :: "vec \<Rightarrow> vec \<Rightarrow> vec" where "xor_si a b = map2 (XOR) a b"
definition or_si :: "vec \<Rightarrow> vec \<Rightarrow> vec" where "or_si a b = map2 (OR) a b"
definition and_si :: "vec \<Rightarrow> vec \<Rightarrow> vec" where "and_si a b = map2 (AND) a b"
definition andnot_si :: "vec \<Rightarrow> vec \<Rightarrow> vec" where "andnot_si a b = map2 (\<lambda>x y. NOT x AND y) a b"
definition srli_epi32 :: "vec \<Rightarrow> nat \<Rightarrow> vec" where "srli_epi32 a n = map (drop_bit n) a"
definition slli_epi32 :: "vec \<Rightarrow> nat \<Rightarrow> vec" where "slli_epi32 a n = map (push_bit n) a"
definition ror_epi32 :: "vec \<Rightarrow> nat \<Rightarrow> vec" where "ror_epi32 a n = map (word_rotr n) a"
definition set1_epi32 :: "nat \<Rightarrow> u32 \<Rightarrow> vec" where "set1_epi32 n x = replicate n x"

text \<open>The comparison is signed.\<close>

definition cmpgt_epi32 :: "vec \<Rightarrow> vec \<Rightarrow> vec" where
  "cmpgt_epi32 a b = map2 (\<lambda>x y. if word_sless y x then - 1 else 0) a b"

text \<open>Shuffles select lanes by fields of two bits of an immediate.\<close>

definition MM_SHUFFLE :: "nat \<Rightarrow> nat \<Rightarrow> nat \<Rightarrow> nat \<Rightarrow> nat" where
  "MM_SHUFFLE z y x w = z * 64 + y * 16 + x * 4 + w"

definition field :: "nat \<Rightarrow> nat \<Rightarrow> nat" where "field imm i = imm div 4 ^ i mod 4"

definition shuffle_epi32 :: "'a list \<Rightarrow> nat \<Rightarrow> 'a list" where
  "shuffle_epi32 a imm = [a ! field imm 0, a ! field imm 1, a ! field imm 2, a ! field imm 3]"

definition shuffle_ps :: "'a list \<Rightarrow> 'a list \<Rightarrow> nat \<Rightarrow> 'a list" where
  "shuffle_ps a b imm = [a ! field imm 0, a ! field imm 1, b ! field imm 2, b ! field imm 3]"

text \<open>Interleaving, within each group of four lanes.\<close>

fun unpacklo_epi32 :: "'a list \<Rightarrow> 'a list \<Rightarrow> 'a list" where
  "unpacklo_epi32 (a0 # a1 # a2 # a3 # as) (b0 # b1 # b2 # b3 # bs) = a0 # b0 # a1 # b1 # unpacklo_epi32 as bs"
| "unpacklo_epi32 _ _ = []"

fun unpackhi_epi32 :: "'a list \<Rightarrow> 'a list \<Rightarrow> 'a list" where
  "unpackhi_epi32 (a0 # a1 # a2 # a3 # as) (b0 # b1 # b2 # b3 # bs) = a2 # b2 # a3 # b3 # unpackhi_epi32 as bs"
| "unpackhi_epi32 _ _ = []"

fun unpacklo_epi64 :: "'a list \<Rightarrow> 'a list \<Rightarrow> 'a list" where
  "unpacklo_epi64 (a0 # a1 # a2 # a3 # as) (b0 # b1 # b2 # b3 # bs) = a0 # a1 # b0 # b1 # unpacklo_epi64 as bs"
| "unpacklo_epi64 _ _ = []"

fun unpackhi_epi64 :: "'a list \<Rightarrow> 'a list \<Rightarrow> 'a list" where
  "unpackhi_epi64 (a0 # a1 # a2 # a3 # as) (b0 # b1 # b2 # b3 # bs) = a2 # a3 # b2 # b3 # unpackhi_epi64 as bs"
| "unpackhi_epi64 _ _ = []"

text \<open>Bytes of a register: \<open>shuffle_epi8\<close> works within 16 bytes, with indices below 16.\<close>

fun bytes_vec :: "bytes \<Rightarrow> vec" where
  "bytes_vec (a # b # c # d # r) = load32 [a, b, c, d] # bytes_vec r"
| "bytes_vec _ = []"

fun shuffle_epi8 :: "vec \<Rightarrow> nat list \<Rightarrow> vec" where
  "shuffle_epi8 (a0 # a1 # a2 # a3 # as) idx =
     bytes_vec (map (\<lambda>i. storeu [a0, a1, a2, a3] ! i) (take 16 idx)) @ shuffle_epi8 as (drop 16 idx)"
| "shuffle_epi8 _ _ = []"

text \<open>Lanes of 16 bits.\<close>

definition halves :: "vec \<Rightarrow> 16 word list" where
  "halves v = concat (map (\<lambda>w. [ucast w, ucast (drop_bit 16 w)]) v)"

fun of_halves :: "16 word list \<Rightarrow> vec" where
  "of_halves (a # b # r) = (ucast a OR push_bit 16 (ucast b)) # of_halves r"
| "of_halves _ = []"

section \<open>The round over registers\<close>

text \<open>The operations a source file defines on its registers, under the names \<open>addv\<close> or \<open>add_128\<close>, and so on.\<close>

record 'v vec_ops =
  v_add :: "'v \<Rightarrow> 'v \<Rightarrow> 'v"
  v_xor :: "'v \<Rightarrow> 'v \<Rightarrow> 'v"
  v_rot16 :: "'v \<Rightarrow> 'v"
  v_rot12 :: "'v \<Rightarrow> 'v"
  v_rot8 :: "'v \<Rightarrow> 'v"
  v_rot7 :: "'v \<Rightarrow> 'v"

text \<open>
  The unrolled statements come in groups of four that do the same to the four columns or the four diagonals of
  the state; \<open>each\<close> is one group.
\<close>

type_synonym quad = "nat \<times> nat \<times> nat \<times> nat"

definition each :: "('q \<Rightarrow> 'v list \<Rightarrow> 'v list) \<Rightarrow> 'q list \<Rightarrow> 'v list \<Rightarrow> 'v list" where
  "each f qs v = foldl (\<lambda>v q. f q v) v qs"

definition half_round :: "'v vec_ops \<Rightarrow> quad list \<Rightarrow> 'v list \<Rightarrow> 'v list \<Rightarrow> 'v list \<Rightarrow> 'v list" where
  "half_round ops qs xs ys v =
     (let v = each (\<lambda>((a, b, c, d), x) v. v[a := v_add ops (v ! a) x]) (zip qs xs) v;
          v = each (\<lambda>(a, b, c, d) v. v[a := v_add ops (v ! a) (v ! b)]) qs v;
          v = each (\<lambda>(a, b, c, d) v. v[d := v_xor ops (v ! d) (v ! a)]) qs v;
          v = each (\<lambda>(a, b, c, d) v. v[d := v_rot16 ops (v ! d)]) qs v;
          v = each (\<lambda>(a, b, c, d) v. v[c := v_add ops (v ! c) (v ! d)]) qs v;
          v = each (\<lambda>(a, b, c, d) v. v[b := v_xor ops (v ! b) (v ! c)]) qs v;
          v = each (\<lambda>(a, b, c, d) v. v[b := v_rot12 ops (v ! b)]) qs v;
          v = each (\<lambda>((a, b, c, d), y) v. v[a := v_add ops (v ! a) y]) (zip qs ys) v;
          v = each (\<lambda>(a, b, c, d) v. v[a := v_add ops (v ! a) (v ! b)]) qs v;
          v = each (\<lambda>(a, b, c, d) v. v[d := v_xor ops (v ! d) (v ! a)]) qs v;
          v = each (\<lambda>(a, b, c, d) v. v[d := v_rot8 ops (v ! d)]) qs v;
          v = each (\<lambda>(a, b, c, d) v. v[c := v_add ops (v ! c) (v ! d)]) qs v;
          v = each (\<lambda>(a, b, c, d) v. v[b := v_xor ops (v ! b) (v ! c)]) qs v in
      each (\<lambda>(a, b, c, d) v. v[b := v_rot7 ops (v ! b)]) qs v)"

definition columns :: "quad list" where
  "columns = [(0, 4, 8, 12), (1, 5, 9, 13), (2, 6, 10, 14), (3, 7, 11, 15)]"

definition diagonals :: "quad list" where
  "diagonals = [(0, 5, 10, 15), (1, 6, 11, 12), (2, 7, 8, 13), (3, 4, 9, 14)]"

definition vec_round :: "'v vec_ops \<Rightarrow> 'v list \<Rightarrow> 'v list \<Rightarrow> nat \<Rightarrow> 'v list" where
  "vec_round ops v m r =
     (let s = MSG_SCHEDULE ! r;
          v = half_round ops columns (map (\<lambda>i. m ! (s ! i)) [0, 2, 4, 6]) (map (\<lambda>i. m ! (s ! i)) [1, 3, 5, 7]) v in
      half_round ops diagonals (map (\<lambda>i. m ! (s ! i)) [8, 10, 12, 14]) (map (\<lambda>i. m ! (s ! i)) [9, 11, 13, 15]) v)"

definition vec_rounds :: "('v list \<Rightarrow> 'v list \<Rightarrow> nat \<Rightarrow> 'v list) \<Rightarrow> 'v list \<Rightarrow> 'v list \<Rightarrow> 'v list" where
  "vec_rounds round_v v m =
     (let v = round_v v m 0; v = round_v v m 1; v = round_v v m 2; v = round_v v m 3;
          v = round_v v m 4; v = round_v v m 5 in
      round_v v m 6)"

text \<open>Every group of statements on a state that is written out.\<close>

lemma each_lines:
  "each (\<lambda>(a, b, c, d) v. v[a := v_add ops (v ! a) (v ! b)]) columns ([s0, s1, s2, s3, s4, s5, s6, s7, s8, s9, s10, s11, s12, s13, s14, s15]) =
    [v_add ops s0 s4, v_add ops s1 s5, v_add ops s2 s6, v_add ops s3 s7, s4, s5, s6, s7, s8, s9, s10, s11, s12, s13, s14, s15]"
  "each (\<lambda>(a, b, c, d) v. v[d := v_xor ops (v ! d) (v ! a)]) columns ([s0, s1, s2, s3, s4, s5, s6, s7, s8, s9, s10, s11, s12, s13, s14, s15]) =
    [s0, s1, s2, s3, s4, s5, s6, s7, s8, s9, s10, s11, v_xor ops s12 s0, v_xor ops s13 s1, v_xor ops s14 s2, v_xor ops s15 s3]"
  "each (\<lambda>(a, b, c, d) v. v[d := v_rot16 ops (v ! d)]) columns ([s0, s1, s2, s3, s4, s5, s6, s7, s8, s9, s10, s11, s12, s13, s14, s15]) =
    [s0, s1, s2, s3, s4, s5, s6, s7, s8, s9, s10, s11, v_rot16 ops s12, v_rot16 ops s13, v_rot16 ops s14, v_rot16 ops s15]"
  "each (\<lambda>(a, b, c, d) v. v[d := v_rot8 ops (v ! d)]) columns ([s0, s1, s2, s3, s4, s5, s6, s7, s8, s9, s10, s11, s12, s13, s14, s15]) =
    [s0, s1, s2, s3, s4, s5, s6, s7, s8, s9, s10, s11, v_rot8 ops s12, v_rot8 ops s13, v_rot8 ops s14, v_rot8 ops s15]"
  "each (\<lambda>(a, b, c, d) v. v[c := v_add ops (v ! c) (v ! d)]) columns ([s0, s1, s2, s3, s4, s5, s6, s7, s8, s9, s10, s11, s12, s13, s14, s15]) =
    [s0, s1, s2, s3, s4, s5, s6, s7, v_add ops s8 s12, v_add ops s9 s13, v_add ops s10 s14, v_add ops s11 s15, s12, s13, s14, s15]"
  "each (\<lambda>(a, b, c, d) v. v[b := v_xor ops (v ! b) (v ! c)]) columns ([s0, s1, s2, s3, s4, s5, s6, s7, s8, s9, s10, s11, s12, s13, s14, s15]) =
    [s0, s1, s2, s3, v_xor ops s4 s8, v_xor ops s5 s9, v_xor ops s6 s10, v_xor ops s7 s11, s8, s9, s10, s11, s12, s13, s14, s15]"
  "each (\<lambda>(a, b, c, d) v. v[b := v_rot12 ops (v ! b)]) columns ([s0, s1, s2, s3, s4, s5, s6, s7, s8, s9, s10, s11, s12, s13, s14, s15]) =
    [s0, s1, s2, s3, v_rot12 ops s4, v_rot12 ops s5, v_rot12 ops s6, v_rot12 ops s7, s8, s9, s10, s11, s12, s13, s14, s15]"
  "each (\<lambda>(a, b, c, d) v. v[b := v_rot7 ops (v ! b)]) columns ([s0, s1, s2, s3, s4, s5, s6, s7, s8, s9, s10, s11, s12, s13, s14, s15]) =
    [s0, s1, s2, s3, v_rot7 ops s4, v_rot7 ops s5, v_rot7 ops s6, v_rot7 ops s7, s8, s9, s10, s11, s12, s13, s14, s15]"
  "each (\<lambda>((a, b, c, d), x) v. v[a := v_add ops (v ! a) x]) (zip columns [x0, x1, x2, x3]) ([s0, s1, s2, s3, s4, s5, s6, s7, s8, s9, s10, s11, s12, s13, s14, s15]) =
    [v_add ops s0 x0, v_add ops s1 x1, v_add ops s2 x2, v_add ops s3 x3, s4, s5, s6, s7, s8, s9, s10, s11, s12, s13, s14, s15]"
  "each (\<lambda>(a, b, c, d) v. v[a := v_add ops (v ! a) (v ! b)]) diagonals ([s0, s1, s2, s3, s4, s5, s6, s7, s8, s9, s10, s11, s12, s13, s14, s15]) =
    [v_add ops s0 s5, v_add ops s1 s6, v_add ops s2 s7, v_add ops s3 s4, s4, s5, s6, s7, s8, s9, s10, s11, s12, s13, s14, s15]"
  "each (\<lambda>(a, b, c, d) v. v[d := v_xor ops (v ! d) (v ! a)]) diagonals ([s0, s1, s2, s3, s4, s5, s6, s7, s8, s9, s10, s11, s12, s13, s14, s15]) =
    [s0, s1, s2, s3, s4, s5, s6, s7, s8, s9, s10, s11, v_xor ops s12 s1, v_xor ops s13 s2, v_xor ops s14 s3, v_xor ops s15 s0]"
  "each (\<lambda>(a, b, c, d) v. v[d := v_rot16 ops (v ! d)]) diagonals ([s0, s1, s2, s3, s4, s5, s6, s7, s8, s9, s10, s11, s12, s13, s14, s15]) =
    [s0, s1, s2, s3, s4, s5, s6, s7, s8, s9, s10, s11, v_rot16 ops s12, v_rot16 ops s13, v_rot16 ops s14, v_rot16 ops s15]"
  "each (\<lambda>(a, b, c, d) v. v[d := v_rot8 ops (v ! d)]) diagonals ([s0, s1, s2, s3, s4, s5, s6, s7, s8, s9, s10, s11, s12, s13, s14, s15]) =
    [s0, s1, s2, s3, s4, s5, s6, s7, s8, s9, s10, s11, v_rot8 ops s12, v_rot8 ops s13, v_rot8 ops s14, v_rot8 ops s15]"
  "each (\<lambda>(a, b, c, d) v. v[c := v_add ops (v ! c) (v ! d)]) diagonals ([s0, s1, s2, s3, s4, s5, s6, s7, s8, s9, s10, s11, s12, s13, s14, s15]) =
    [s0, s1, s2, s3, s4, s5, s6, s7, v_add ops s8 s13, v_add ops s9 s14, v_add ops s10 s15, v_add ops s11 s12, s12, s13, s14, s15]"
  "each (\<lambda>(a, b, c, d) v. v[b := v_xor ops (v ! b) (v ! c)]) diagonals ([s0, s1, s2, s3, s4, s5, s6, s7, s8, s9, s10, s11, s12, s13, s14, s15]) =
    [s0, s1, s2, s3, v_xor ops s4 s9, v_xor ops s5 s10, v_xor ops s6 s11, v_xor ops s7 s8, s8, s9, s10, s11, s12, s13, s14, s15]"
  "each (\<lambda>(a, b, c, d) v. v[b := v_rot12 ops (v ! b)]) diagonals ([s0, s1, s2, s3, s4, s5, s6, s7, s8, s9, s10, s11, s12, s13, s14, s15]) =
    [s0, s1, s2, s3, v_rot12 ops s4, v_rot12 ops s5, v_rot12 ops s6, v_rot12 ops s7, s8, s9, s10, s11, s12, s13, s14, s15]"
  "each (\<lambda>(a, b, c, d) v. v[b := v_rot7 ops (v ! b)]) diagonals ([s0, s1, s2, s3, s4, s5, s6, s7, s8, s9, s10, s11, s12, s13, s14, s15]) =
    [s0, s1, s2, s3, v_rot7 ops s4, v_rot7 ops s5, v_rot7 ops s6, v_rot7 ops s7, s8, s9, s10, s11, s12, s13, s14, s15]"
  "each (\<lambda>((a, b, c, d), x) v. v[a := v_add ops (v ! a) x]) (zip diagonals [x0, x1, x2, x3]) ([s0, s1, s2, s3, s4, s5, s6, s7, s8, s9, s10, s11, s12, s13, s14, s15]) =
    [v_add ops s0 x0, v_add ops s1 x1, v_add ops s2 x2, v_add ops s3 x3, s4, s5, s6, s7, s8, s9, s10, s11, s12, s13, s14, s15]"
  by (simp_all add: each_def columns_def diagonals_def)

text \<open>The four lines do not overlap, so one may as well be finished before the next.\<close>

definition mix :: "'v vec_ops \<Rightarrow> 'v \<Rightarrow> 'v \<Rightarrow> 'v \<Rightarrow> 'v \<Rightarrow> 'v \<Rightarrow> 'v \<Rightarrow> 'v \<times> 'v \<times> 'v \<times> 'v" where
  "mix ops x y a b c d =
     (let a = v_add ops (v_add ops a x) b; d = v_rot16 ops (v_xor ops d a); c = v_add ops c d;
          b = v_rot12 ops (v_xor ops b c);
          a = v_add ops (v_add ops a y) b; d = v_rot8 ops (v_xor ops d a); c = v_add ops c d;
          b = v_rot7 ops (v_xor ops b c) in
      (a, b, c, d))"

definition quarter :: "'v vec_ops \<Rightarrow> quad \<Rightarrow> 'v \<Rightarrow> 'v \<Rightarrow> 'v list \<Rightarrow> 'v list" where
  "quarter ops q x y v =
     (case q of (a, b, c, d) \<Rightarrow> case mix ops x y (v ! a) (v ! b) (v ! c) (v ! d) of (a', b', c', d') \<Rightarrow>
        v[a := a', b := b', c := c', d := d'])"

lemma list_16: "length s = 16 \<Longrightarrow>
    \<exists>s0 s1 s2 s3 s4 s5 s6 s7 s8 s9 s10 s11 s12 s13 s14 s15.
      s = [s0, s1, s2, s3, s4, s5, s6, s7, s8, s9, s10, s11, s12, s13, s14, s15]"
  by (auto simp: numeral_eq_Suc length_Suc_conv)

lemma half_round_quarters:
  assumes "length s = 16"
  shows "half_round ops columns [x0, x1, x2, x3] [y0, y1, y2, y3] s =
      quarter ops (3, 7, 11, 15) x3 y3 (quarter ops (2, 6, 10, 14) x2 y2
        (quarter ops (1, 5, 9, 13) x1 y1 (quarter ops (0, 4, 8, 12) x0 y0 s)))"
    and "half_round ops diagonals [x0, x1, x2, x3] [y0, y1, y2, y3] s =
      quarter ops (3, 4, 9, 14) x3 y3 (quarter ops (2, 7, 8, 13) x2 y2
        (quarter ops (1, 6, 11, 12) x1 y1 (quarter ops (0, 5, 10, 15) x0 y0 s)))"
proof -
  obtain s0 s1 s2 s3 s4 s5 s6 s7 s8 s9 s10 s11 s12 s13 s14 s15
    where s: "s = [s0, s1, s2, s3, s4, s5, s6, s7, s8, s9, s10, s11, s12, s13, s14, s15]"
    using list_16 [OF assms] by blast
  show "half_round ops columns [x0, x1, x2, x3] [y0, y1, y2, y3] s =
      quarter ops (3, 7, 11, 15) x3 y3 (quarter ops (2, 6, 10, 14) x2 y2
        (quarter ops (1, 5, 9, 13) x1 y1 (quarter ops (0, 4, 8, 12) x0 y0 s)))"
    unfolding s half_round_def Let_def each_lines
    by (simp add: quarter_def split_def, simp add: mix_def Let_def)
  show "half_round ops diagonals [x0, x1, x2, x3] [y0, y1, y2, y3] s =
      quarter ops (3, 4, 9, 14) x3 y3 (quarter ops (2, 7, 8, 13) x2 y2
        (quarter ops (1, 6, 11, 12) x1 y1 (quarter ops (0, 5, 10, 15) x0 y0 s)))"
    unfolding s half_round_def Let_def each_lines
    by (simp add: quarter_def split_def, simp add: mix_def Let_def)
qed

text \<open>On words the interleaved round is the portable one.\<close>

definition word_ops :: "u32 vec_ops" where
  "word_ops = \<lparr>v_add = (+), v_xor = (XOR), v_rot16 = (\<lambda>w. rotr32 w 16), v_rot12 = (\<lambda>w. rotr32 w 12),
     v_rot8 = (\<lambda>w. rotr32 w 8), v_rot7 = (\<lambda>w. rotr32 w 7)\<rparr>"

lemma quarter_words:
  assumes "distinct [a, b, c, d]" "a < length s" "b < length s" "c < length s" "d < length s"
  shows "quarter word_ops (a, b, c, d) x y s = g_fn s a b c d x y"
proof -
  have swap: "p + q + r = p + r + q" for p q r :: u32 by (simp add: add.commute add.left_commute)
  have collapse: "s[a := p, d := q, c := r, b := t, a := p', d := q', c := r', b := t'] =
      s[a := p', b := t', c := r', d := q']" for p q r t p' q' r' t' :: u32
    using assms by (intro nth_equalityI) (auto simp: nth_list_update)
  show ?thesis unfolding g_fn_def swap [of _ _ x] swap [of _ _ y] quarter_def mix_def
    using assms by (simp add: word_ops_def Let_def collapse)
qed

lemma length_g_fn [simp]: "length (g_fn s a b c d x y) = length s"
  by (simp add: g_fn_def Let_def)

lemma vec_round_words:
  assumes "length s = 16"
  shows "vec_round word_ops s m r = round_fn s m r"
  using assms by (simp add: vec_round_def round_fn_def half_round_quarters quarter_words Let_def)

section \<open>Lanes\<close>

text \<open>One lane of all registers, and registers of the right width.\<close>

definition lane :: "nat \<Rightarrow> 'a list list \<Rightarrow> 'a list" where
  "lane j vs = map (\<lambda>x. x ! j) vs"

definition wide :: "nat \<Rightarrow> 'a list list \<Rightarrow> bool" where
  "wide n vs \<longleftrightarrow> (\<forall>x \<in> set vs. length x = n)"

lemma length_lane [simp]: "length (lane j vs) = length vs"
  by (simp add: lane_def)

lemma nth_lane [simp]: "i < length vs \<Longrightarrow> lane j vs ! i = vs ! i ! j"
  by (simp add: lane_def)

lemma lane_simps [simp]: "lane j [] = []" "lane j (x # vs) = x ! j # lane j vs" "lane j (vs @ ws) = lane j vs @ lane j ws"
  "lane j (vs[i := x]) = (lane j vs)[i := x ! j]"
  by (simp_all add: lane_def map_update)

lemma wide_simps [simp]: "wide n []" "wide n (x # vs) \<longleftrightarrow> length x = n \<and> wide n vs"
  "wide n (vs @ ws) \<longleftrightarrow> wide n vs \<and> wide n ws"
  by (auto simp: wide_def)

lemma wide_update: "wide n vs \<Longrightarrow> length x = n \<Longrightarrow> wide n (vs[i := x])"
  unfolding wide_def using set_update_subset_insert [of vs i x] by auto

lemma wide_nth: "wide n vs \<Longrightarrow> i < length vs \<Longrightarrow> length (vs ! i) = n"
  by (simp add: wide_def)

lemma length_quarter [simp]: "length (quarter ops q x y v) = length v"
  by (simp add: quarter_def split: prod.splits)

lemma schedule_in_range:
  assumes "r < 7" "i < 16"
  shows "MSG_SCHEDULE ! r ! i < 16"
proof -
  have "\<forall>s \<in> set MSG_SCHEDULE. length s = 16 \<and> (\<forall>k \<in> set s. k < 16)" by code_simp
  moreover have "length MSG_SCHEDULE = 7" by code_simp
  then have "MSG_SCHEDULE ! r \<in> set MSG_SCHEDULE" using assms(1) by simp
  ultimately show ?thesis using assms(2) nth_mem by metis
qed

text \<open>
  What the operations of a source file have to be: lane by lane the operations of the portable code. Then every
  lane of the round over registers is the portable round.
\<close>

locale lane_ops =
  fixes ops :: "vec vec_ops" and n :: nat
  assumes add_lanes: "length a = n \<Longrightarrow> length b = n \<Longrightarrow> v_add ops a b = map2 (+) a b"
    and xor_lanes: "length a = n \<Longrightarrow> length b = n \<Longrightarrow> v_xor ops a b = map2 (XOR) a b"
    and rot16_lanes: "length a = n \<Longrightarrow> v_rot16 ops a = map (\<lambda>w. rotr32 w 16) a"
    and rot12_lanes: "length a = n \<Longrightarrow> v_rot12 ops a = map (\<lambda>w. rotr32 w 12) a"
    and rot8_lanes: "length a = n \<Longrightarrow> v_rot8 ops a = map (\<lambda>w. rotr32 w 8) a"
    and rot7_lanes: "length a = n \<Longrightarrow> v_rot7 ops a = map (\<lambda>w. rotr32 w 7) a"
begin

lemmas op_lanes = add_lanes xor_lanes rot16_lanes rot12_lanes rot8_lanes rot7_lanes

lemma mix_lanes:
  assumes "length x = n" "length y = n" "length a = n" "length b = n" "length c = n" "length d = n"
    and "mix ops x y a b c d = (a', b', c', d')"
  shows "length a' = n \<and> length b' = n \<and> length c' = n \<and> length d' = n"
    and "j < n \<Longrightarrow> mix word_ops (x ! j) (y ! j) (a ! j) (b ! j) (c ! j) (d ! j) = (a' ! j, b' ! j, c' ! j, d' ! j)"
  using assms by (auto simp: mix_def word_ops_def op_lanes Let_def)

lemma quarter_lanes:
  assumes "wide n v" "length x = n" "length y = n" "a < length v" "b < length v" "c < length v" "d < length v"
  shows "wide n (quarter ops (a, b, c, d) x y v)"
    and "j < n \<Longrightarrow> lane j (quarter ops (a, b, c, d) x y v) = quarter word_ops (a, b, c, d) (x ! j) (y ! j) (lane j v)"
proof -
  obtain a' b' c' d' where m: "mix ops x y (v ! a) (v ! b) (v ! c) (v ! d) = (a', b', c', d')"
    by (cases "mix ops x y (v ! a) (v ! b) (v ! c) (v ! d)") auto
  note ml = mix_lanes [OF assms(2,3) wide_nth [OF assms(1,4)] wide_nth [OF assms(1,5)] wide_nth [OF assms(1,6)]
      wide_nth [OF assms(1,7)] m]
  show "wide n (quarter ops (a, b, c, d) x y v)"
    using ml(1) assms(1) by (simp add: quarter_def m wide_update)
  show "lane j (quarter ops (a, b, c, d) x y v) = quarter word_ops (a, b, c, d) (x ! j) (y ! j) (lane j v)" if "j < n"
    using ml(2) [OF that] assms by (simp add: quarter_def m)
qed

lemma round_lanes:
  assumes "wide n v" "length v = 16" "wide n m" "length m = 16" "r < 7"
  shows "wide n (vec_round ops v m r) \<and> length (vec_round ops v m r) = 16"
    and "j < n \<Longrightarrow> lane j (vec_round ops v m r) = round_fn (lane j v) (lane j m) r"
proof -
  have m: "length (m ! (MSG_SCHEDULE ! r ! i)) = n" "lane j m ! (MSG_SCHEDULE ! r ! i) = m ! (MSG_SCHEDULE ! r ! i) ! j"
    if "i < 16" for i j
    using schedule_in_range [OF assms(5) that] assms(3,4) by (simp_all add: wide_nth)
  show "wide n (vec_round ops v m r) \<and> length (vec_round ops v m r) = 16"
    using assms(1,2) by (simp add: vec_round_def Let_def half_round_quarters quarter_lanes m)
  show "lane j (vec_round ops v m r) = round_fn (lane j v) (lane j m) r" if "j < n"
    using assms(1,2) that
    by (simp add: vec_round_def Let_def half_round_quarters quarter_lanes m vec_round_words [symmetric])
qed

lemma rounds_lanes:
  assumes "wide n v" "length v = 16" "wide n m" "length m = 16"
  shows "wide n (vec_rounds (vec_round ops) v m) \<and> length (vec_rounds (vec_round ops) v m) = 16"
    and "j < n \<Longrightarrow> lane j (vec_rounds (vec_round ops) v m) = foldl (\<lambda>s r. round_fn s (lane j m) r) (lane j v) [0, 1, 2, 3, 4, 5, 6]"
  using assms by (simp_all add: vec_rounds_def Let_def round_lanes)

end

text \<open>The portable rounds as a fold.\<close>

lemma pre_fold:
  assumes "length cv = 8" "block_words = map (\<lambda>i. load32 (drop (4 * i) block)) [0..<16]"
  shows "foldl (\<lambda>s r. round_fn s block_words r)
      (cv @ [blake3_IV ! 0, blake3_IV ! 1, blake3_IV ! 2, blake3_IV ! 3, counter_low c, counter_high c, ucast len, ucast fl])
      [0, 1, 2, 3, 4, 5, 6] = compress_pre cv block len c fl"
proof -
  have "map ((!) cv) [0..<8] = cv" using assms(1) by (metis map_nth)
  then show ?thesis by (simp add: compress_pre_def Let_def assms(2))
qed

section \<open>Words in registers\<close>

text \<open>The low and the high half of a counter that runs with the lanes, by addition and carry.\<close>

lemma unat_counter:
  "unat (counter_low c) = unat c mod 2 ^ 32" "unat (counter_high c) = unat c div 2 ^ 32"
proof -
  show "unat (counter_low c) = unat c mod 2 ^ 32"
    by (simp add: counter_low_def unsigned_ucast_eq take_bit_eq_mod)
  have "unat c < 2 ^ 64" using unsigned_less [of c] by simp
  then have "unat c div 2 ^ 32 < 2 ^ 32" by (simp add: less_mult_imp_div_less)
  then show "unat (counter_high c) = unat c div 2 ^ 32"
    by (simp only: counter_high_def unsigned_ucast_eq unat_drop_bit_eq take_bit_eq_mod) (simp add: drop_bit_eq_div [of 32 "unat c"])
qed

lemma xor_top: "\<not> bit y 31 \<Longrightarrow> uint (y XOR 0x80000000) = uint y + 2 ^ 31" for y :: u32
proof -
  assume y: "\<not> bit y 31"
  have top: "uint (0x80000000 :: u32) = 2 ^ 31" by simp
  have b: "\<not> bit (uint y) n \<or> \<not> bit (2 ^ 31 :: int) n" for n
  proof -
    have "bit (2 ^ 31 :: int) n \<longleftrightarrow> n = 31" by (simp only: bit_exp_iff) auto
    then show ?thesis using y by (auto simp: bit_uint_iff)
  qed
  have "uint (y XOR 0x80000000) = uint y XOR 2 ^ 31" by (simp only: uint_xor top)
  also have "\<dots> = uint y OR 2 ^ 31"
    by (rule bit_eqI) (use b in \<open>auto simp: bit_xor_iff bit_or_iff\<close>)
  also have "\<dots> = uint y + 2 ^ 31" using disjunctive_add [OF b] by simp
  finally show ?thesis .
qed

lemma sint_bits: "sint w = uint w - 2 ^ 32 * of_bool (bit w 31)" for w :: u32
  using signed_take_bit_eq_take_bit_minus [of 31 "uint w"]
    uint_bounded [of w]
  by (simp add: sint_uint bit_uint_iff take_bit_int_eq_self_iff)

lemma sint_xor_top: "sint (x XOR 0x80000000) = uint x - 2 ^ 31" for x :: u32
proof (cases "bit x 31")
  case False
  then have "bit (x XOR 0x80000000) 31" by (simp add: bit_xor_iff)
  then show ?thesis using xor_top [OF False] by (simp add: sint_bits)
next
  case True
  then have n: "\<not> bit (x XOR 0x80000000) 31" by (simp add: bit_xor_iff)
  have "uint x = uint (x XOR 0x80000000) + 2 ^ 31"
    using xor_top [OF n] by (simp add: xor.assoc)
  then show ?thesis using n by (simp add: sint_bits)
qed

lemma sless_xor_top: "word_sless (x XOR 0x80000000) (y XOR 0x80000000) \<longleftrightarrow> x < y" for x y :: u32
  by (simp add: word_sless_alt sint_xor_top word_less_def)

lemma counter_low_add: "counter_low (c + of_nat j) = counter_low c + of_nat j"
proof -
  have "x mod 2 ^ 64 mod 2 ^ 32 = x mod 2 ^ 32" for x :: nat
    by (rule mod_mod_cancel) simp
  then show ?thesis by (simp add: word_unat_eq_iff unat_counter(1) unat_word_ariths unat_of_nat mod_simps)
qed

lemma counter_high_add:
  assumes "j < 2 ^ 32"
  shows "counter_high (c + of_nat j) = counter_high c + (if counter_low c + of_nat j < of_nat j then 1 else 0)"
proof -
  define H L where "H = unat c div 2 ^ 32" and "L = unat c mod 2 ^ 32"
  have c: "unat c = 2 ^ 32 * H + L" "L < 2 ^ 32" by (simp_all add: H_def L_def)
  have "drop_bit 32 (take_bit 64 (unat c + j)) = take_bit 32 (drop_bit 32 (unat c + j))"
    by (simp add: take_bit_drop_bit)
  then have "(unat c + j) mod 2 ^ 64 div 2 ^ 32 = (unat c + j) div 2 ^ 32 mod 2 ^ 32"
    by (simp add: drop_bit_eq_div take_bit_eq_mod)
  also have "(unat c + j) div 2 ^ 32 = H + (L + j) div 2 ^ 32"
    unfolding c(1) add.assoc by (subst div_mult_self4) simp_all
  finally have high: "unat (counter_high (c + of_nat j)) = (H + (L + j) div 2 ^ 32) mod 2 ^ 32"
    by (simp add: unat_counter unat_word_ariths unat_of_nat mod_simps)
  have "unat (counter_low c + of_nat j) = (L + j) mod 2 ^ 32" "unat (of_nat j :: u32) = j"
    using assms by (simp_all add: unat_counter unat_word_ariths unat_of_nat mod_simps L_def)
  moreover have "(L + j) mod 2 ^ 32 < j \<longleftrightarrow> 2 ^ 32 \<le> L + j"
    using c(2) assms by (cases "2 ^ 32 \<le> L + j") (simp_all add: le_mod_geq)
  moreover have "(L + j) div 2 ^ 32 = (if 2 ^ 32 \<le> L + j then 1 else 0)"
    using c(2) assms by (simp add: div_eq_0_iff le_div_geq)
  ultimately show ?thesis
    using high by (simp add: word_unat_eq_iff word_less_nat_alt unat_word_ariths unat_counter H_def)
qed

text \<open>Rotations of a word as moves of its bytes and halves.\<close>

lemma bytes_of_word: "storeu [a, b, c, d] = store32 a @ store32 b @ store32 c @ store32 d"
  by (simp add: storeu_def)

lemma word32_eqI: "(\<forall>n \<in> set [0..<32]. bit v n = bit w n) \<Longrightarrow> v = w" for v w :: u32
  by (rule bit_word_eqI) simp

lemma bits_32: "[0..<32] = [0, 1, 2, 3, 4, 5, 6, 7, 8, 9, 10, 11, 12, 13, 14, 15, 16, 17, 18, 19, 20, 21, 22, 23, 24, 25,
    26, 27, 28, 29, 30, 31 :: nat]"
  by code_simp

lemma no_bit_32: "32 \<le> n \<Longrightarrow> \<not> bit w n" for w :: u32
  using bit_imp_le_length by fastforce

lemma load_rotated:
  "load32 [ucast (drop_bit 16 w), ucast (drop_bit 24 w), ucast w, ucast (drop_bit 8 w)] = rotr32 w 16"
  "load32 [ucast (drop_bit 8 w), ucast (drop_bit 16 w), ucast (drop_bit 24 w), ucast w] = rotr32 w 8"
  by (rule word32_eqI, unfold bits_32, simp add: load32_def rotr32_def bit_simps no_bit_32)+

lemma halves_rotated: "ucast (ucast (drop_bit 16 w) :: 16 word) OR push_bit 16 (ucast (ucast w :: 16 word)) = rotr32 w 16"
  by (rule word32_eqI, unfold bits_32, simp add: rotr32_def bit_simps no_bit_32)

lemma halves_joined: "ucast (ucast w :: 16 word) OR push_bit 16 (ucast (ucast (drop_bit 16 w) :: 16 word)) = (w :: u32)"
  by (rule word32_eqI, unfold bits_32, simp add: bit_simps)

lemma shifts_disjoint: "0 < n \<Longrightarrow> n < 32 \<Longrightarrow> drop_bit n w XOR push_bit (32 - n) w = rotr32 w n" for w :: u32
  by (rule bit_word_eqI) (auto simp: rotr32_def bit_simps dest: bit_imp_le_length)

end
