(* ===== verification/Blake3Lanes.thy ===== *)
theory Blake3Lanes
  imports Blake3Vector
begin

text \<open>
  The functions that hash as many inputs at once as a register has lanes, \<open>blake3_hash4_sse41\<close> and its
  siblings, the loops around them, and the functions that make several blocks of output at once. A
  record holds what a source file defines for them on its registers; its laws are a locale, in which
  they are shown to compute what the portable code computes for one input after the other.
\<close>

section \<open>Several inputs at once\<close>

record vec_unit =
  vu_round :: "vec list \<Rightarrow> vec list \<Rightarrow> nat \<Rightarrow> vec list"
  vu_xor :: "vec \<Rightarrow> vec \<Rightarrow> vec"
  vu_set1 :: "u32 \<Rightarrow> vec"
  vu_transpose_msg :: "bytes list \<Rightarrow> nat \<Rightarrow> vec list"
  vu_load_counters :: "u64 \<Rightarrow> bool \<Rightarrow> vec \<times> vec"
  \<comment> \<open>the last transposition and the stores\<close>
  vu_store :: "vec list \<Rightarrow> bytes"

text \<open>The registers of a compression.\<close>

definition start_vecs :: "'a vec_unit_scheme \<Rightarrow> vec list \<Rightarrow> vec \<times> vec \<Rightarrow> u32 \<Rightarrow> u32 \<Rightarrow> vec list" where
  "start_vecs u h_vecs counters block_len block_flags =
     h_vecs @ [vu_set1 u (blake3_IV ! 0), vu_set1 u (blake3_IV ! 1), vu_set1 u (blake3_IV ! 2), vu_set1 u (blake3_IV ! 3),
       fst counters, snd counters, vu_set1 u block_len, vu_set1 u block_flags]"

text \<open>One round of the loop over blocks.\<close>

definition lanes_block ::
  "'a vec_unit_scheme \<Rightarrow> bytes list \<Rightarrow> nat \<Rightarrow> vec \<times> vec \<Rightarrow> byte \<Rightarrow> byte \<Rightarrow> nat \<Rightarrow> vec list \<times> byte \<Rightarrow> vec list \<times> byte" where
  "lanes_block u inputs blocks counters flags flags_end block st =
     (case st of (h_vecs, block_flags) \<Rightarrow>
       let block_flags = (if block + 1 = blocks then block_flags OR flags_end else block_flags);
           msg_vecs = vu_transpose_msg u inputs (block * BLAKE3_BLOCK_LEN);
           v = start_vecs u h_vecs counters (of_nat BLAKE3_BLOCK_LEN) (ucast block_flags);
           v = vec_rounds (vu_round u) v msg_vecs;
           h_vecs = map (\<lambda>i. vu_xor u (v ! i) (v ! (i + 8))) [0..<8] in
       (h_vecs, flags))"

definition hash_lanes ::
  "'a vec_unit_scheme \<Rightarrow> bytes list \<Rightarrow> nat \<Rightarrow> u32 list \<Rightarrow> u64 \<Rightarrow> bool \<Rightarrow> byte \<Rightarrow> byte \<Rightarrow> byte \<Rightarrow> bytes" where
  "hash_lanes u inputs blocks key counter increment_counter flags flags_start flags_end =
     (let h_vecs = map (\<lambda>i. vu_set1 u (key ! i)) [0..<8];
          counters = vu_load_counters u counter increment_counter;
          block_flags = flags OR flags_start;
          (h_vecs, block_flags) =
            fold (lanes_block u inputs blocks counters flags flags_end) [0..<blocks] (h_vecs, block_flags) in
      vu_store u h_vecs)"

section \<open>The loops over inputs\<close>

text \<open>\<open>while (num_inputs >= n)\<close>: the output, what is left of the inputs, and the counter.\<close>

function hash_batches ::
  "nat \<Rightarrow> (bytes list \<Rightarrow> u64 \<Rightarrow> bytes) \<Rightarrow> bytes list \<Rightarrow> u64 \<Rightarrow> bool \<Rightarrow> bytes \<times> bytes list \<times> u64" where
  "hash_batches n f inputs counter increment_counter =
     (if n > 0 \<and> length inputs \<ge> n
      then
        let (out, rest) = hash_batches n f (drop n inputs)
          (if increment_counter then counter + of_nat n else counter) increment_counter in
        (f (take n inputs) counter @ out, rest)
      else ([], inputs, counter))"
  by pat_completeness auto
termination by (relation "measure (\<lambda>(n, f, inputs, counter, inc). length inputs)") auto

declare hash_batches.simps [simp del]

text \<open>One input with the file's own compression function, and the loop over the inputs that are left.\<close>

type_synonym compression = "u32 list \<Rightarrow> bytes \<Rightarrow> byte \<Rightarrow> u64 \<Rightarrow> byte \<Rightarrow> u32 list"

fun one_loop :: "compression \<Rightarrow> bytes \<Rightarrow> nat \<Rightarrow> u32 list \<Rightarrow> u64 \<Rightarrow> byte \<Rightarrow> byte \<Rightarrow> byte \<Rightarrow> u32 list" where
  "one_loop compress input 0 cv counter flags flags_end block_flags = cv"
| "one_loop compress input (Suc blocks) cv counter flags flags_end block_flags =
     (let block_flags = (if Suc blocks = 1 then block_flags OR flags_end else block_flags);
          cv = compress cv (take BLAKE3_BLOCK_LEN input) (of_nat BLAKE3_BLOCK_LEN) counter block_flags in
      one_loop compress (drop BLAKE3_BLOCK_LEN input) blocks cv counter flags flags_end flags)"

definition hash_one_with :: "compression \<Rightarrow> bytes \<Rightarrow> nat \<Rightarrow> u32 list \<Rightarrow> u64 \<Rightarrow> byte \<Rightarrow> byte \<Rightarrow> byte \<Rightarrow> bytes" where
  "hash_one_with compress input blocks key counter flags flags_start flags_end =
     storeu (one_loop compress input blocks key counter flags flags_end (flags OR flags_start))"

fun hash_rest :: "(bytes \<Rightarrow> u64 \<Rightarrow> bytes) \<Rightarrow> bytes list \<Rightarrow> u64 \<Rightarrow> bool \<Rightarrow> bytes" where
  "hash_rest f [] counter increment_counter = []"
| "hash_rest f (input # inputs) counter increment_counter =
     f input counter @ hash_rest f inputs (if increment_counter then counter + 1 else counter) increment_counter"

section \<open>Several blocks of output at once\<close>

definition load_block_words :: "bytes \<Rightarrow> u32 list" where
  "load_block_words block = map (\<lambda>i. load32 (drop (i * 4) block)) [0..<16]"

text \<open>With the last transposition and the stores of all 16 registers.\<close>

record xof_unit = vec_unit +
  vu_store_xof :: "vec list \<Rightarrow> bytes"

definition xof_lanes :: "xof_unit \<Rightarrow> u32 list \<Rightarrow> bytes \<Rightarrow> byte \<Rightarrow> u64 \<Rightarrow> byte \<Rightarrow> bytes" where
  "xof_lanes u cv block block_len counter flags =
     (let h_vecs = map (\<lambda>i. vu_set1 u (cv ! i)) [0..<8];
          block_words = load_block_words block;
          msg_vecs = map (\<lambda>i. vu_set1 u (block_words ! i)) [0..<16];
          counters = vu_load_counters u counter True;
          v = start_vecs u h_vecs counters (ucast block_len) (ucast flags);
          v = vec_rounds (vu_round u) v msg_vecs;
          v = foldl (\<lambda>v i.
                let v = v[i := vu_xor u (v ! i) (v ! (i + 8))] in
                v[i + 8 := vu_xor u (v ! (i + 8)) (h_vecs ! i)]) v [0..<8] in
      vu_store_xof u v)"

text \<open>\<open>while (outblocks >= n)\<close>: the output, the counter, and what is left to make.\<close>

function xof_batches :: "nat \<Rightarrow> (u64 \<Rightarrow> bytes) \<Rightarrow> u64 \<Rightarrow> nat \<Rightarrow> bytes \<times> u64 \<times> nat" where
  "xof_batches n f counter outblocks =
     (if n > 0 \<and> outblocks \<ge> n
      then let (out, rest) = xof_batches n f (counter + of_nat n) (outblocks - n) in (f counter @ out, rest)
      else ([], counter, outblocks))"
  by pat_completeness auto
termination by (relation "measure (\<lambda>(n, f, counter, outblocks). outblocks)") auto

declare xof_batches.simps [simp del]

section \<open>The loops compute what one loop computes\<close>

lemma hash_many_append:
  "blake3_hash_many (xs @ ys) blocks key counter inc fl fs fe =
     blake3_hash_many xs blocks key counter inc fl fs fe @
     blake3_hash_many ys blocks key (if inc then counter + of_nat (length xs) else counter) inc fl fs fe"
  by (induction xs arbitrary: counter) (simp_all add: add.assoc)

lemma hash_batches_portable:
  assumes "\<And>xs c. length xs = n \<Longrightarrow> set xs \<subseteq> set inputs \<Longrightarrow> f xs c = blake3_hash_many xs blocks key c inc fl fs fe"
    and "hash_batches n f inputs counter inc = (out, rest, counter')"
  shows "out @ blake3_hash_many rest blocks key counter' inc fl fs fe = blake3_hash_many inputs blocks key counter inc fl fs fe \<and>
    set rest \<subseteq> set inputs"
  using assms
proof (induction n f inputs counter inc arbitrary: out rest counter' rule: hash_batches.induct)
  case (1 n f inputs counter inc)
  show ?case
  proof (cases "n > 0 \<and> length inputs \<ge> n")
    case True
    let ?c = "if inc then counter + of_nat n else counter"
    obtain out2 rest2 c2 where r: "hash_batches n f (drop n inputs) ?c inc = (out2, rest2, c2)"
      by (cases "hash_batches n f (drop n inputs) ?c inc") auto
    have IH: "out2 @ blake3_hash_many rest2 blocks key c2 inc fl fs fe =
        blake3_hash_many (drop n inputs) blocks key ?c inc fl fs fe \<and> set rest2 \<subseteq> set (drop n inputs)"
      using 1(2) set_drop_subset [of n inputs] by (intro 1(1) [OF True _ r]) blast
    have "f (take n inputs) counter = blake3_hash_many (take n inputs) blocks key counter inc fl fs fe"
      using True set_take_subset [of n inputs] by (intro 1(2)) auto
    moreover have "(out, rest, counter') = (f (take n inputs) counter @ out2, rest2, c2)"
      using 1(3) True r by (subst (asm) hash_batches.simps) simp
    moreover have "blake3_hash_many inputs blocks key counter inc fl fs fe =
        blake3_hash_many (take n inputs) blocks key counter inc fl fs fe @
        blake3_hash_many (drop n inputs) blocks key ?c inc fl fs fe"
      using hash_many_append [of "take n inputs" "drop n inputs"] True by (simp add: min_def)
    ultimately show ?thesis using IH set_drop_subset [of n inputs] by auto
  next
    case False
    then show ?thesis using 1(3) by (subst (asm) hash_batches.simps) auto
  qed
qed

lemma hash_rest_portable:
  "(\<And>x c. x \<in> set inputs \<Longrightarrow> f x c = hash_one x blocks key c fl fs fe) \<Longrightarrow>
   hash_rest f inputs counter inc = blake3_hash_many inputs blocks key counter inc fl fs fe"
  by (induction inputs arbitrary: counter) simp_all

lemma storeu_cv: "length cv = 8 \<Longrightarrow> storeu cv = store_cv_words cv"
proof -
  assume "length cv = 8"
  then have "map (\<lambda>i. store32 (cv ! i)) [0..<8] = map store32 cv" by (intro nth_equalityI) simp_all
  then show ?thesis by (simp add: storeu_def store_cv_words_def)
qed

lemma length_hash_one_loop: "length cv = 8 \<Longrightarrow> length (hash_one_loop input blocks cv counter fl fe bf) = 8"
  by (induction blocks arbitrary: input cv bf) (simp_all add: Let_def)

lemma one_loop_portable:
  assumes "\<And>cv block len c fl. length cv = 8 \<Longrightarrow> compress cv block len c fl = blake3_compress_in_place cv block len c fl"
    and "length cv = 8"
  shows "one_loop compress input blocks cv counter fl fe bf = hash_one_loop input blocks cv counter fl fe bf"
  using assms(2) by (induction blocks arbitrary: input cv bf) (simp_all add: assms(1) Let_def)

lemma hash_one_with_portable:
  assumes "\<And>cv block len c fl. length cv = 8 \<Longrightarrow> compress cv block len c fl = blake3_compress_in_place cv block len c fl"
    and "length key = 8"
  shows "hash_one_with compress input blocks key counter fl fs fe = hash_one input blocks key counter fl fs fe"
  by (simp add: hash_one_with_def hash_one_def storeu_cv one_loop_portable [of compress key, OF assms]
      length_hash_one_loop assms(2))

text \<open>A whole \<open>blake3_hash_many\<close>: batches first, then one input after the other.\<close>

lemma hash_many_loops:
  assumes "\<And>xs c. length xs = n \<Longrightarrow> set xs \<subseteq> set inputs \<Longrightarrow> f xs c = blake3_hash_many xs blocks key c inc fl fs fe"
    and "\<And>x c. g x c = hash_one x blocks key c fl fs fe"
  shows "(case hash_batches n f inputs counter inc of (out, inputs, counter) \<Rightarrow> out @ hash_rest g inputs counter inc) =
    blake3_hash_many inputs blocks key counter inc fl fs fe"
proof -
  obtain out rest c where b: "hash_batches n f inputs counter inc = (out, rest, c)"
    by (cases "hash_batches n f inputs counter inc") auto
  then show ?thesis
    using hash_batches_portable [OF assms(1) b] by (simp add: hash_rest_portable assms(2))
qed

lemma xof_batches_portable:
  assumes "\<And>c. f c = blake3_xof_many cv block len c fl n"
    and "xof_batches n f counter outblocks = (out, counter', k)"
  shows "out @ blake3_xof_many cv block len counter' fl k = blake3_xof_many cv block len counter fl outblocks"
proof -
  have split: "blake3_xof_many cv block len c fl (a + b) =
      blake3_xof_many cv block len c fl a @ blake3_xof_many cv block len (c + of_nat a) fl b" for c a b
  proof -
    have "[0..<a + b] = [0..<a] @ map (\<lambda>i. i + a) [0..<b]"
      using upt_add_eq_append [of 0 a b] map_add_upt [of a b] by (simp add: add.commute [of b a])
    moreover have "c + of_nat (i + a) = c + of_nat a + of_nat i" for i by simp
    ultimately show ?thesis by (simp only: blake3_xof_many_def map_append map_map comp_def concat_append)
  qed
  show ?thesis using assms
  proof (induction n f counter outblocks arbitrary: out counter' k rule: xof_batches.induct)
    case (1 n f counter outblocks)
    show ?case
    proof (cases "n > 0 \<and> outblocks \<ge> n")
      case True
      obtain out2 c2 k2 where r: "xof_batches n f (counter + of_nat n) (outblocks - n) = (out2, c2, k2)"
        by (cases "xof_batches n f (counter + of_nat n) (outblocks - n)") auto
      have "(out, counter', k) = (f counter @ out2, c2, k2)"
        using 1(3) True r by (subst (asm) xof_batches.simps) simp
      then show ?thesis using 1(1) [OF True 1(2) r] split [of counter n "outblocks - n"] True by (simp add: 1(2))
    next
      case False
      then show ?thesis using 1(3) by (subst (asm) xof_batches.simps) auto
    qed
  qed
qed

section \<open>One lane at a time\<close>

text \<open>The counter of a lane.\<close>

definition lane_counter :: "u64 \<Rightarrow> bool \<Rightarrow> nat \<Rightarrow> u64" where
  "lane_counter c inc j = c + (if inc then of_nat j else 0)"

lemma hash_many_lanes:
  "blake3_hash_many inputs blocks key c inc fl fs fe =
     concat (map (\<lambda>j. hash_one (inputs ! j) blocks key (lane_counter c inc j) fl fs fe) [0..<length inputs])"
proof (induction inputs arbitrary: c)
  case (Cons x xs)
  have "lane_counter (if inc then c + 1 else c) inc j = lane_counter c inc (Suc j)" for j
    by (simp add: lane_counter_def)
  moreover have "[0..<length (x # xs)] = 0 # map Suc [0..<length xs]" by (simp only: length_Cons map_Suc_upt upt_conv_Cons [OF zero_less_Suc])
  ultimately show ?case using Cons.IH by (simp add: comp_def lane_counter_def)
qed simp

text \<open>
  What a source file's registers have to do for its functions to be right: constants fill all lanes, the
  message registers hold one word of every input, the counters run with the lanes when they are to be
  incremented, and the stores write one lane after the other.
\<close>

locale vector_unit = lane_ops ops n for ops :: "vec vec_ops" and n :: nat +
  fixes u :: "'a vec_unit_scheme"
  assumes unit_ops: "vu_round u = vec_round ops" "vu_xor u = v_xor ops"
    and set1_lanes: "vu_set1 u x = replicate n x"
    and msg_lanes: "length inputs = n \<Longrightarrow> \<forall>x \<in> set inputs. off + 64 \<le> length x \<Longrightarrow>
      vu_transpose_msg u inputs off = map (\<lambda>i. map (\<lambda>x. load32 (drop (off + 4 * i) x)) inputs) [0..<16]"
    and counter_lanes: "vu_load_counters u c inc =
      (map (\<lambda>j. counter_low (lane_counter c inc j)) [0..<n], map (\<lambda>j. counter_high (lane_counter c inc j)) [0..<n])"
    and store_lanes: "length hs = 8 \<Longrightarrow> wide n hs \<Longrightarrow> vu_store u hs = concat (map (\<lambda>j. storeu (lane j hs)) [0..<n])"
begin

lemmas vec_rounds_lanes = rounds_lanes [folded unit_ops(1)]

lemma xor_wide: "length a = n \<Longrightarrow> length b = n \<Longrightarrow> vu_xor u a b = map2 (XOR) a b"
  by (simp add: unit_ops xor_lanes)

lemma start_lanes:
  assumes "wide n hs" "length hs = 8"
  shows "wide n (start_vecs u hs (vu_load_counters u c inc) bl bf)"
    and "length (start_vecs u hs (vu_load_counters u c inc) bl bf) = 16"
    and "j < n \<Longrightarrow> lane j (start_vecs u hs (vu_load_counters u c inc) bl bf) = lane j hs @
      [blake3_IV ! 0, blake3_IV ! 1, blake3_IV ! 2, blake3_IV ! 3,
       counter_low (lane_counter c inc j), counter_high (lane_counter c inc j), bl, bf]"
  using assms by (simp_all add: start_vecs_def counter_lanes set1_lanes)

lemma block_words_at:
  assumes "off + 64 \<le> length x"
  shows "map (\<lambda>i. load32 (drop (off + 4 * i) x)) [0..<16] = map (\<lambda>i. load32 (drop (4 * i) (take 64 (drop off x)))) [0..<16]"
proof (intro map_cong refl)
  fix i assume "i \<in> set [0..<16 :: nat]"
  then show "load32 (drop (off + 4 * i) x) = load32 (drop (4 * i) (take 64 (drop off x)))"
    using assms by (simp add: load32_def add.assoc)
qed

lemma block_lane:
  assumes "wide n hs" "length hs = 8" "length inputs = n" "\<forall>x \<in> set inputs. 64 * block + 64 \<le> length x"
    and "lanes_block u inputs blocks (vu_load_counters u c inc) flags flags_end block (hs, bf) = (hs', bf')"
  shows "wide n hs' \<and> length hs' = 8 \<and> bf' = flags"
    and "j < n \<Longrightarrow> lane j hs' = blake3_compress_in_place (lane j hs) (take 64 (drop (64 * block) (inputs ! j))) 64
      (lane_counter c inc j) (if block + 1 = blocks then bf OR flags_end else bf)"
proof -
  define bf2 where "bf2 = (if block + 1 = blocks then bf OR flags_end else bf)"
  define m where "m = map (\<lambda>i. map (\<lambda>x. load32 (drop (64 * block + 4 * i) x)) inputs) [0..<16]"
  define v where "v = start_vecs u hs (vu_load_counters u c inc) 64 (ucast bf2)"
  define w where "w = vec_rounds (vu_round u) v m"
  have "vu_transpose_msg u inputs (block * 64) = m"
    using msg_lanes [OF assms(3), of "64 * block"] assms(4) by (simp add: mult.commute m_def)
  then have hs': "hs' = map (\<lambda>i. vu_xor u (w ! i) (w ! (i + 8))) [0..<8]" "bf' = flags"
    using assms(5) by (simp_all add: lanes_block_def Let_def w_def v_def bf2_def)
  have m16: "wide n m" "length m = 16" using assms(3) by (auto simp: wide_def m_def)
  have v16: "wide n v" "length v = 16" unfolding v_def by (rule start_lanes [OF assms(1,2)])+
  have w16: "wide n w" "length w = 16" using vec_rounds_lanes(1) [OF v16 m16] by (simp_all add: w_def)
  have xors: "vu_xor u (w ! i) (w ! (i + 8)) = map2 (XOR) (w ! i) (w ! (i + 8))"
    and len: "length (w ! i) = n" "length (w ! (i + 8)) = n" if "i < 8" for i
    using w16 that by (simp_all add: xor_wide wide_nth)
  show "wide n hs' \<and> length hs' = 8 \<and> bf' = flags"
    unfolding hs' by (auto simp: wide_def xors len)
  assume j: "j < n"
  have x: "64 * block + 64 \<le> length (inputs ! j)" using assms(3,4) j by simp
  let ?x = "take 64 (drop (64 * block) (inputs ! j))"
  have "lane j m = map (\<lambda>i. load32 (drop (4 * i) ?x)) [0..<16]"
    using assms(3) j block_words_at [OF x] by (simp add: lane_def m_def)
  moreover have "lane j w = foldl (\<lambda>s r. round_fn s (lane j m) r) (lane j v) [0, 1, 2, 3, 4, 5, 6]"
    unfolding w_def by (rule vec_rounds_lanes(2) [OF v16 m16 j])
  moreover have "lane j v = lane j hs @ [blake3_IV ! 0, blake3_IV ! 1, blake3_IV ! 2, blake3_IV ! 3,
      counter_low (lane_counter c inc j), counter_high (lane_counter c inc j), 64, ucast bf2]"
    unfolding v_def by (rule start_lanes(3) [OF assms(1,2) j])
  ultimately have lw: "lane j w = compress_pre (lane j hs) ?x 64 (lane_counter c inc j) bf2"
    using pre_fold [of "lane j hs" "lane j m" ?x "lane_counter c inc j" 64 bf2] assms(2) by simp
  have "lane j hs' = map (\<lambda>i. lane j w ! i XOR lane j w ! (i + 8)) [0..<8]"
    unfolding hs' using w16 j by (simp add: lane_def xors len)
  then show "lane j hs' = blake3_compress_in_place (lane j hs) ?x 64
      (lane_counter c inc j) (if block + 1 = blocks then bf OR flags_end else bf)"
    by (simp add: lw blake3_compress_in_place_def Let_def bf2_def)
qed

lemma blocks_lane:
  assumes "wide n hs" "length hs = 8" "length inputs = n" "\<forall>x \<in> set inputs. 64 * blocks \<le> length x" "k \<le> blocks"
    and "fold (lanes_block u inputs blocks (vu_load_counters u c inc) flags flags_end) [k..<blocks] (hs, bf) = (hs', bf')"
  shows "wide n hs' \<and> length hs' = 8 \<and>
    (\<forall>j < n. lane j hs' = hash_one_loop (drop (64 * k) (inputs ! j)) (blocks - k) (lane j hs) (lane_counter c inc j) flags flags_end bf)"
  using assms
proof (induction "blocks - k" arbitrary: k hs bf)
  case 0
  then show ?case by simp
next
  case (Suc d)
  obtain hs1 bf1 where b: "lanes_block u inputs blocks (vu_load_counters u c inc) flags flags_end k (hs, bf) = (hs1, bf1)"
    by (cases "lanes_block u inputs blocks (vu_load_counters u c inc) flags flags_end k (hs, bf)") auto
  have k: "k < blocks" using Suc.hyps(2) by simp
  have long: "\<forall>x \<in> set inputs. 64 * k + 64 \<le> length x" using Suc.prems(4) k by fastforce
  note one = block_lane [OF Suc.prems(1,2,3) long b]
  have "fold (lanes_block u inputs blocks (vu_load_counters u c inc) flags flags_end) [Suc k..<blocks] (hs1, bf1) = (hs', bf')"
    using Suc.prems(6) k b by (simp add: upt_conv_Cons)
  then have IH: "wide n hs' \<and> length hs' = 8 \<and> (\<forall>j < n. lane j hs' =
      hash_one_loop (drop (64 * Suc k) (inputs ! j)) (blocks - Suc k) (lane j hs1) (lane_counter c inc j) flags flags_end bf1)"
    using Suc.hyps(2) k one(1) Suc.prems(3,4) by (intro Suc.hyps(1)) auto
  have "blocks - k = Suc (blocks - Suc k)" using k by simp
  moreover have "Suc (blocks - Suc k) = 1 \<longleftrightarrow> k + 1 = blocks" using k by auto
  ultimately have "hash_one_loop (drop (64 * k) (inputs ! j)) (blocks - k) (lane j hs) (lane_counter c inc j) flags flags_end bf =
      hash_one_loop (drop (64 * Suc k) (inputs ! j)) (blocks - Suc k) (lane j hs1) (lane_counter c inc j) flags flags_end bf1"
    if "j < n" for j
    using one(1) one(2) [OF that] by (simp add: Let_def add.commute)
  then show ?case using IH by simp
qed

lemma hash_lanes_portable:
  assumes "length inputs = n" "length key = 8" "\<forall>x \<in> set inputs. 64 * blocks \<le> length x"
  shows "hash_lanes u inputs blocks key c inc fl fs fe = blake3_hash_many inputs blocks key c inc fl fs fe"
proof -
  define hs where "hs = map (\<lambda>i. vu_set1 u (key ! i)) [0..<8]"
  have hs: "wide n hs" "length hs = 8" by (auto simp: hs_def wide_def set1_lanes)
  have key: "lane j hs = key" if "j < n" for j
    using that assms(2) by (intro nth_equalityI) (simp_all add: hs_def set1_lanes)
  obtain hs' bf' where f: "fold (lanes_block u inputs blocks (vu_load_counters u c inc) fl fe) [0..<blocks] (hs, fl OR fs) = (hs', bf')"
    by (cases "fold (lanes_block u inputs blocks (vu_load_counters u c inc) fl fe) [0..<blocks] (hs, fl OR fs)") auto
  note r = blocks_lane [OF hs assms(1,3) le0 f]
  have "storeu (lane j hs') = hash_one (inputs ! j) blocks key (lane_counter c inc j) fl fs fe" if "j < n" for j
    using r that by (simp add: hash_one_def key storeu_cv length_hash_one_loop assms(2))
  then have "concat (map (\<lambda>j. storeu (lane j hs')) [0..<n]) = blake3_hash_many inputs blocks key c inc fl fs fe"
    unfolding hash_many_lanes assms(1) by (intro arg_cong [of _ _ concat] map_cong) auto
  moreover have "hash_lanes u inputs blocks key c inc fl fs fe = vu_store u hs'"
    using f by (simp add: hash_lanes_def hs_def Let_def)
  ultimately show ?thesis using store_lanes r by simp
qed

end

text \<open>The same for the registers of a block of output; the stores write all 16 words.\<close>

locale xof_vector_unit = vector_unit ops n u for ops :: "vec vec_ops" and n :: nat and u :: xof_unit +
  assumes store_xof_lanes: "length v = 16 \<Longrightarrow> wide n v \<Longrightarrow> vu_store_xof u v = concat (map (\<lambda>j. storeu (lane j v)) [0..<n])"
begin

lemma final_xors:
  assumes "length w = 16"
  shows "foldl (\<lambda>v i. let v = v[i := f (v ! i) (v ! (i + 8))] in v[i + 8 := f (v ! (i + 8)) (hs ! i)]) w [0..<8] =
    map (\<lambda>i. f (w ! i) (w ! (i + 8))) [0..<8] @ map (\<lambda>i. f (w ! (i + 8)) (hs ! i)) [0..<8]"
proof -
  have "[0..<8] = [0, 1, 2, 3, 4, 5, 6, 7 :: nat]" by code_simp
  then show ?thesis using list_16 [OF assms] by (auto simp: Let_def)
qed

lemma xof_lanes_portable:
  assumes "length cv = 8"
  shows "xof_lanes u cv block len c fl = blake3_xof_many cv block len c fl n"
proof -
  define hs where "hs = map (\<lambda>i. vu_set1 u (cv ! i)) [0..<8]"
  define m where "m = map (\<lambda>i. vu_set1 u (load_block_words block ! i)) [0..<16]"
  define v where "v = start_vecs u hs (vu_load_counters u c True) (ucast len) (ucast fl)"
  define w where "w = vec_rounds (vu_round u) v m"
  define r where "r = map (\<lambda>i. vu_xor u (w ! i) (w ! (i + 8))) [0..<8] @
    map (\<lambda>i. vu_xor u (w ! (i + 8)) (hs ! i)) [0..<8]"
  have hs: "wide n hs" "length hs = 8" by (auto simp: hs_def wide_def set1_lanes)
  have m16: "wide n m" "length m = 16" by (auto simp: m_def wide_def set1_lanes)
  have v16: "wide n v" "length v = 16" unfolding v_def by (rule start_lanes [OF hs])+
  have w16: "wide n w" "length w = 16" using vec_rounds_lanes(1) [OF v16 m16] by (simp_all add: w_def)
  have xors: "vu_xor u (w ! i) (w ! (i + 8)) = map2 (XOR) (w ! i) (w ! (i + 8))"
      "vu_xor u (w ! (i + 8)) (hs ! i) = map2 (XOR) (w ! (i + 8)) (hs ! i)"
    and len: "length (w ! i) = n" "length (w ! (i + 8)) = n" "length (hs ! i) = n" if "i < 8" for i
    using w16 hs that by (simp_all add: xor_wide wide_nth)
  have r16: "wide n r" "length r = 16" by (auto simp: r_def wide_def xors len)
  have "storeu (lane j r) = blake3_compress_xof cv block len (c + of_nat j) fl" if j: "j < n" for j
  proof -
    have key: "lane j hs = cv" using j assms by (intro nth_equalityI) (simp_all add: hs_def set1_lanes)
    have "lane j m = map (\<lambda>i. load32 (drop (4 * i) block)) [0..<16]"
      using j by (intro nth_equalityI) (simp_all add: m_def set1_lanes load_block_words_def mult.commute)
    moreover have "lane j w = foldl (\<lambda>s r. round_fn s (lane j m) r) (lane j v) [0, 1, 2, 3, 4, 5, 6]"
      unfolding w_def by (rule vec_rounds_lanes(2) [OF v16 m16 j])
    moreover have "lane j v = cv @ [blake3_IV ! 0, blake3_IV ! 1, blake3_IV ! 2, blake3_IV ! 3,
        counter_low (lane_counter c True j), counter_high (lane_counter c True j), ucast len, ucast fl]"
      unfolding v_def start_lanes(3) [OF hs j] key ..
    ultimately have lw: "lane j w = compress_pre cv block len (c + of_nat j) fl"
      using pre_fold [OF assms] by (simp add: lane_counter_def)
    have "lane j r = map (\<lambda>i. lane j w ! i XOR lane j w ! (i + 8)) [0..<8] @ map (\<lambda>i. lane j w ! (i + 8) XOR lane j hs ! i) [0..<8]"
      using w16 hs j by (simp add: r_def lane_def xors len)
    then show ?thesis by (simp add: key lw blake3_compress_xof_def Let_def storeu_def comp_def)
  qed
  then have "concat (map (\<lambda>j. storeu (lane j r)) [0..<n]) = blake3_xof_many cv block len c fl n"
    unfolding blake3_xof_many_def by (intro arg_cong [of _ _ concat] map_cong) auto
  moreover have "xof_lanes u cv block len c fl = vu_store_xof u r"
    using final_xors [OF w16(2), of "vu_xor u" hs]
    by (simp add: xof_lanes_def hs_def [symmetric] m_def [symmetric] v_def [symmetric] w_def [symmetric] r_def Let_def)
  ultimately show ?thesis using store_xof_lanes [OF r16(2,1)] by simp
qed

end

end
