(* ===== verification/Blake3Rows.thy ===== *)
theory Blake3Rows
  imports Blake3Vector
begin

text \<open>
  The compression of a single block in registers of four lanes, which \<open>blake3_sse2.c\<close>, \<open>blake3_sse41.c\<close> and
  \<open>blake3_avx512.c\<close> share but for the operations on registers: the state is four rows, all four columns are
  mixed at once, the rows are turned so that the diagonals become columns and turned back, and the message
  words are shuffled from round to round. What it computes is the portable compression.
\<close>

type_synonym rows = "vec \<times> vec \<times> vec \<times> vec"

definition row_g1 :: "vec vec_ops \<Rightarrow> vec \<Rightarrow> rows \<Rightarrow> rows" where
  "row_g1 ops m rows =
     (case rows of (row0, row1, row2, row3) \<Rightarrow>
       let row0 = v_add ops (v_add ops row0 m) row1;
           row3 = v_xor ops row3 row0;
           row3 = v_rot16 ops row3;
           row2 = v_add ops row2 row3;
           row1 = v_xor ops row1 row2;
           row1 = v_rot12 ops row1 in
       (row0, row1, row2, row3))"

definition row_g2 :: "vec vec_ops \<Rightarrow> vec \<Rightarrow> rows \<Rightarrow> rows" where
  "row_g2 ops m rows =
     (case rows of (row0, row1, row2, row3) \<Rightarrow>
       let row0 = v_add ops (v_add ops row0 m) row1;
           row3 = v_xor ops row3 row0;
           row3 = v_rot8 ops row3;
           row2 = v_add ops row2 row3;
           row1 = v_xor ops row1 row2;
           row1 = v_rot7 ops row1 in
       (row0, row1, row2, row3))"

definition diagonalize :: "rows \<Rightarrow> rows" where
  "diagonalize rows =
     (case rows of (row0, row1, row2, row3) \<Rightarrow>
       (shuffle_epi32 row0 (MM_SHUFFLE 2 1 0 3), row1,
        shuffle_epi32 row2 (MM_SHUFFLE 0 3 2 1), shuffle_epi32 row3 (MM_SHUFFLE 1 0 3 2)))"

definition undiagonalize :: "rows \<Rightarrow> rows" where
  "undiagonalize rows =
     (case rows of (row0, row1, row2, row3) \<Rightarrow>
       (shuffle_epi32 row0 (MM_SHUFFLE 0 3 2 1), row1,
        shuffle_epi32 row2 (MM_SHUFFLE 2 1 0 3), shuffle_epi32 row3 (MM_SHUFFLE 1 0 3 2)))"

text \<open>The first round groups the message words; a message is four registers.\<close>

definition first_round :: "vec vec_ops \<Rightarrow> rows \<Rightarrow> rows \<Rightarrow> rows \<times> rows" where
  "first_round ops m rows =
     (case m of (m0, m1, m2, m3) \<Rightarrow>
       let t0 = shuffle_ps m0 m1 (MM_SHUFFLE 2 0 2 0);
           rows = row_g1 ops t0 rows;
           t1 = shuffle_ps m0 m1 (MM_SHUFFLE 3 1 3 1);
           rows = row_g2 ops t1 rows;
           rows = diagonalize rows;
           t2 = shuffle_ps m2 m3 (MM_SHUFFLE 2 0 2 0);
           t2 = shuffle_epi32 t2 (MM_SHUFFLE 2 1 0 3);
           rows = row_g1 ops t2 rows;
           t3 = shuffle_ps m2 m3 (MM_SHUFFLE 3 1 3 1);
           t3 = shuffle_epi32 t3 (MM_SHUFFLE 2 1 0 3);
           rows = row_g2 ops t3 rows;
           rows = undiagonalize rows in
       ((t0, t1, t2, t3), rows))"

text \<open>All following rounds permute the words of the round before; \<open>blend\<close> is \<open>_mm_blend_epi16\<close> or what stands for it.\<close>

definition next_round ::
  "vec vec_ops \<Rightarrow> (vec \<Rightarrow> vec \<Rightarrow> nat \<Rightarrow> vec) \<Rightarrow> rows \<times> rows \<Rightarrow> rows \<times> rows" where
  "next_round ops blend st =
     (case st of ((m0, m1, m2, m3), rows) \<Rightarrow>
       let t0 = shuffle_ps m0 m1 (MM_SHUFFLE 3 1 1 2);
           t0 = shuffle_epi32 t0 (MM_SHUFFLE 0 3 2 1);
           rows = row_g1 ops t0 rows;
           t1 = shuffle_ps m2 m3 (MM_SHUFFLE 3 3 2 2);
           tt = shuffle_epi32 m0 (MM_SHUFFLE 0 0 3 3);
           t1 = blend tt t1 0xCC;
           rows = row_g2 ops t1 rows;
           rows = diagonalize rows;
           t2 = unpacklo_epi64 m3 m1;
           tt = blend t2 m2 0xC0;
           t2 = shuffle_epi32 tt (MM_SHUFFLE 1 3 2 0);
           rows = row_g1 ops t2 rows;
           t3 = unpackhi_epi32 m1 m3;
           tt = unpacklo_epi32 m2 t3;
           t3 = shuffle_epi32 tt (MM_SHUFFLE 0 1 3 2);
           rows = row_g2 ops t3 rows;
           rows = undiagonalize rows in
       ((t0, t1, t2, t3), rows))"

text \<open>The chaining value and the block are loaded from memory; the lanes of \<open>cv\<close> are its words.\<close>

definition rows_pre ::
  "vec vec_ops \<Rightarrow> (vec \<Rightarrow> vec \<Rightarrow> nat \<Rightarrow> vec) \<Rightarrow> u32 list \<Rightarrow> bytes \<Rightarrow> byte \<Rightarrow> u64 \<Rightarrow> byte \<Rightarrow> rows" where
  "rows_pre ops blend cv block block_len counter flags =
     (let rows = (take 4 cv, take 4 (drop 4 cv), [blake3_IV ! 0, blake3_IV ! 1, blake3_IV ! 2, blake3_IV ! 3],
            [counter_low counter, counter_high counter, ucast block_len, ucast flags]);
          m = (loadu 4 block, loadu 4 (drop 16 block), loadu 4 (drop 32 block), loadu 4 (drop 48 block));
          st = first_round ops m rows;
          st = next_round ops blend st;
          st = next_round ops blend st;
          st = next_round ops blend st;
          st = next_round ops blend st;
          st = next_round ops blend st;
          st = next_round ops blend st in
      snd st)"

text \<open>The two forms, over a file's \<open>compress_pre\<close>.\<close>

definition rows_in_place ::
  "vec vec_ops \<Rightarrow> (u32 list \<Rightarrow> bytes \<Rightarrow> byte \<Rightarrow> u64 \<Rightarrow> byte \<Rightarrow> rows) \<Rightarrow> u32 list \<Rightarrow> bytes \<Rightarrow> byte \<Rightarrow> u64 \<Rightarrow> byte \<Rightarrow> u32 list" where
  "rows_in_place ops pre cv block block_len counter flags =
     (case pre cv block block_len counter flags of (row0, row1, row2, row3) \<Rightarrow>
       v_xor ops row0 row2 @ v_xor ops row1 row3)"

definition rows_xof ::
  "vec vec_ops \<Rightarrow> (u32 list \<Rightarrow> bytes \<Rightarrow> byte \<Rightarrow> u64 \<Rightarrow> byte \<Rightarrow> rows) \<Rightarrow> u32 list \<Rightarrow> bytes \<Rightarrow> byte \<Rightarrow> u64 \<Rightarrow> byte \<Rightarrow> bytes" where
  "rows_xof ops pre cv block block_len counter flags =
     (case pre cv block block_len counter flags of (row0, row1, row2, row3) \<Rightarrow>
       storeu (v_xor ops row0 row2) @ storeu (v_xor ops row1 row3) @
       storeu (v_xor ops row2 (take 4 cv)) @ storeu (v_xor ops row3 (take 4 (drop 4 cv))))"

section \<open>Rows and state\<close>

text \<open>The sixteen words of the state, row by row, and four registers of four lanes.\<close>

definition state_of :: "rows \<Rightarrow> u32 list" where
  "state_of rows = (case rows of (row0, row1, row2, row3) \<Rightarrow> row0 @ row1 @ row2 @ row3)"

definition four :: "rows \<Rightarrow> bool" where
  "four rows = (case rows of (row0, row1, row2, row3) \<Rightarrow>
     length row0 = 4 \<and> length row1 = 4 \<and> length row2 = 4 \<and> length row3 = 4)"

lemma list_4: "length x = 4 \<Longrightarrow> \<exists>a b c d. x = [a, b, c, d]"
  by (auto simp: numeral_eq_Suc length_Suc_conv)

text \<open>Where the words of a round's schedule \<open>w\<close> are in the four message registers.\<close>

definition grouped :: "u32 list \<Rightarrow> rows" where
  "grouped w = ([w ! 0, w ! 2, w ! 4, w ! 6], [w ! 1, w ! 3, w ! 5, w ! 7],
     [w ! 14, w ! 8, w ! 10, w ! 12], [w ! 15, w ! 9, w ! 11, w ! 13])"

text \<open>The shuffles the code uses.\<close>

lemma shuffles:
  "shuffle_epi32 [a, b, c, d] (MM_SHUFFLE 2 1 0 3) = [d, a, b, c]"
  "shuffle_epi32 [a, b, c, d] (MM_SHUFFLE 1 0 3 2) = [c, d, a, b]"
  "shuffle_epi32 [a, b, c, d] (MM_SHUFFLE 0 3 2 1) = [b, c, d, a]"
  "shuffle_epi32 [a, b, c, d] (MM_SHUFFLE 0 0 3 3) = [d, d, a, a]"
  "shuffle_epi32 [a, b, c, d] (MM_SHUFFLE 1 3 2 0) = [a, c, d, b]"
  "shuffle_epi32 [a, b, c, d] (MM_SHUFFLE 0 1 3 2) = [c, d, b, a]"
  "shuffle_ps [a, b, c, d] [e, f, g, h] (MM_SHUFFLE 2 0 2 0) = [a, c, e, g]"
  "shuffle_ps [a, b, c, d] [e, f, g, h] (MM_SHUFFLE 3 1 3 1) = [b, d, f, h]"
  "shuffle_ps [a, b, c, d] [e, f, g, h] (MM_SHUFFLE 3 1 1 2) = [c, b, f, h]"
  "shuffle_ps [a, b, c, d] [e, f, g, h] (MM_SHUFFLE 3 3 2 2) = [c, c, h, h]"
  by (simp_all add: shuffle_epi32_def shuffle_ps_def field_def MM_SHUFFLE_def)

lemmas shuffle_simps = shuffles shuffles [unfolded One_nat_def]

lemma row_g_mix: "row_g2 ops t1 (row_g1 ops t0 (a, b, c, d)) = mix ops t0 t1 a b c d"
  by (simp add: row_g1_def row_g2_def mix_def Let_def)


lemma mix_state:
  assumes "lane_ops ops 4" "length t0 = 4" "length t1 = 4" "four (a, b, c, d)"
  shows "four (mix ops t0 t1 a b c d) \<and>
    state_of (mix ops t0 t1 a b c d) =
      half_round word_ops columns [t0 ! 0, t0 ! 1, t0 ! 2, t0 ! 3] [t1 ! 0, t1 ! 1, t1 ! 2, t1 ! 3] (state_of (a, b, c, d))"
proof -
  obtain a' b' c' d' where m: "mix ops t0 t1 a b c d = (a', b', c', d')"
    by (cases "mix ops t0 t1 a b c d") auto
  have len: "length a = 4" "length b = 4" "length c = 4" "length d = 4" using assms(4) by (simp_all add: four_def)
  note ml = lane_ops.mix_lanes [OF assms(1,2,3) len m]
  have "\<exists>p q r s. a' = [p, q, r, s]" "\<exists>p q r s. b' = [p, q, r, s]" "\<exists>p q r s. c' = [p, q, r, s]"
    "\<exists>p q r s. d' = [p, q, r, s]" "\<exists>p q r s. a = [p, q, r, s]" "\<exists>p q r s. b = [p, q, r, s]"
    "\<exists>p q r s. c = [p, q, r, s]" "\<exists>p q r s. d = [p, q, r, s]"
    using ml(1) len by (simp_all add: list_4)
  then show ?thesis
    using ml(2) [of 0] ml(2) [of 1] ml(2) [of 2] ml(2) [of 3]
    by (auto simp: m four_def state_of_def half_round_quarters quarter_def)
qed

lemma mix_diagonal:
  assumes "lane_ops ops 4" "length t2 = 4" "length t3 = 4" "four rows"
  shows "four (undiagonalize (row_g2 ops t3 (row_g1 ops t2 (diagonalize rows)))) \<and>
    state_of (undiagonalize (row_g2 ops t3 (row_g1 ops t2 (diagonalize rows)))) =
      half_round word_ops diagonals [t2 ! 1, t2 ! 2, t2 ! 3, t2 ! 0] [t3 ! 1, t3 ! 2, t3 ! 3, t3 ! 0] (state_of rows)"
proof -
  obtain a b c d where r: "rows = (a, b, c, d)" by (cases rows) auto
  have len: "length a = 4" "length b = 4" "length c = 4" "length d = 4" using assms(4) by (simp_all add: r four_def)
  obtain a0 a1 a2 a3 b0 b1 b2 b3 c0 c1 c2 c3 d0 d1 d2 d3
    where abcd: "a = [a0, a1, a2, a3]" "b = [b0, b1, b2, b3]" "c = [c0, c1, c2, c3]" "d = [d0, d1, d2, d3]"
    using len list_4 by metis
  have turn: "diagonalize rows = ([a3, a0, a1, a2], [b0, b1, b2, b3], [c1, c2, c3, c0], [d2, d3, d0, d1])"
    by (simp add: r abcd diagonalize_def shuffle_simps)
  obtain e f g h where m: "mix ops t2 t3 [a3, a0, a1, a2] [b0, b1, b2, b3] [c1, c2, c3, c0] [d2, d3, d0, d1] = (e, f, g, h)"
    by (cases "mix ops t2 t3 [a3, a0, a1, a2] [b0, b1, b2, b3] [c1, c2, c3, c0] [d2, d3, d0, d1]") auto
  have "length e = 4 \<and> length f = 4 \<and> length g = 4 \<and> length h = 4"
    by (rule lane_ops.mix_lanes(1) [OF assms(1,2,3) _ _ _ _ m]) simp_all
  then obtain e0 e1 e2 e3 f0 f1 f2 f3 g0 g1 g2 g3 h0 h1 h2 h3
    where efgh: "e = [e0, e1, e2, e3]" "f = [f0, f1, f2, f3]" "g = [g0, g1, g2, g3]" "h = [h0, h1, h2, h3]"
    using list_4 by metis
  have turned: "undiagonalize (row_g2 ops t3 (row_g1 ops t2 (diagonalize rows))) =
      ([e1, e2, e3, e0], [f0, f1, f2, f3], [g3, g0, g1, g2], [h2, h3, h0, h1])"
    by (simp add: turn row_g_mix m efgh undiagonalize_def shuffle_simps)
  have ml: "mix word_ops (t2 ! j) (t3 ! j) ([a3, a0, a1, a2] ! j) ([b0, b1, b2, b3] ! j) ([c1, c2, c3, c0] ! j)
      ([d2, d3, d0, d1] ! j) = (e ! j, f ! j, g ! j, h ! j)" if "j < 4" for j
    by (rule lane_ops.mix_lanes(2) [OF assms(1,2,3) _ _ _ _ m that]) simp_all
  show ?thesis
    using ml [of 0] ml [of 1] ml [of 2] ml [of 3]
    unfolding turned by (simp add: r abcd efgh four_def state_of_def half_round_quarters quarter_def)
qed

section \<open>The message registers\<close>

lemma mix_round:
  assumes "lane_ops ops 4" "four rows" "grouped w = (t0, t1, t2, t3)" "w = map (\<lambda>i. m ! (MSG_SCHEDULE ! r ! i)) [0..<16]"
    and "rows' = undiagonalize (row_g2 ops t3 (row_g1 ops t2 (diagonalize (row_g2 ops t1 (row_g1 ops t0 rows)))))"
  shows "four rows' \<and> state_of rows' = round_fn (state_of rows) m r"
proof -
  obtain a b c d where rows: "rows = (a, b, c, d)" by (cases rows) auto
  have t: "t0 = [w ! 0, w ! 2, w ! 4, w ! 6]" "t1 = [w ! 1, w ! 3, w ! 5, w ! 7]"
    "t2 = [w ! 14, w ! 8, w ! 10, w ! 12]" "t3 = [w ! 15, w ! 9, w ! 11, w ! 13]"
    using assms(3) by (simp_all add: grouped_def)
  have w: "w ! i = m ! (MSG_SCHEDULE ! r ! i)" if "i < 16" for i using that by (simp add: assms(4))
  have len: "length t0 = 4" "length t1 = 4" "length t2 = 4" "length t3 = 4" by (simp_all add: t)
  let ?mid = "mix ops t0 t1 a b c d"
  have mid: "four ?mid" "state_of ?mid = half_round word_ops columns [t0 ! 0, t0 ! 1, t0 ! 2, t0 ! 3]
      [t1 ! 0, t1 ! 1, t1 ! 2, t1 ! 3] (state_of rows)"
    using mix_state [OF assms(1) len(1,2)] assms(2) by (simp_all add: rows)
  have "length (state_of rows) = 16" using assms(2) by (simp add: rows four_def state_of_def)
  then have "round_fn (state_of rows) m r = half_round word_ops diagonals [w ! 8, w ! 10, w ! 12, w ! 14] [w ! 9, w ! 11, w ! 13, w ! 15]
      (half_round word_ops columns [w ! 0, w ! 2, w ! 4, w ! 6] [w ! 1, w ! 3, w ! 5, w ! 7] (state_of rows))"
    by (simp add: vec_round_words [symmetric] vec_round_def Let_def w)
  then show ?thesis
    using mix_diagonal [OF assms(1) len(3,4) mid(1)] mid(2) by (simp add: assms(5) rows row_g_mix t)
qed

text \<open>
  What is asked of a file that compresses in rows: its operations work lane by lane, and its blend takes the lanes
  the code's two masks name from its second operand.
\<close>

locale row_unit = lane_ops ops 4 for ops :: "vec vec_ops" +
  fixes blend :: "vec \<Rightarrow> vec \<Rightarrow> nat \<Rightarrow> vec"
  assumes blend_CC: "blend [a, b, c, d] [e, f, g, h] 0xCC = [a, f, c, h]"
    and blend_C0: "blend [a, b, c, d] [e, f, g, h] 0xC0 = [a, b, c, h]"
begin

lemma first_round_state:
  assumes "four rows" "length msg = 16" "w = map (\<lambda>i. msg ! (MSG_SCHEDULE ! 0 ! i)) [0..<16]"
    and "m = (take 4 msg, take 4 (drop 4 msg), take 4 (drop 8 msg), take 4 (drop 12 msg))"
    and "first_round ops m rows = (m', rows')"
  shows "four rows' \<and> state_of rows' = round_fn (state_of rows) msg 0 \<and> m' = grouped w"
proof -
  have "MSG_SCHEDULE ! 0 = [0..<16]" by code_simp
  then have w: "w = msg" using assms(2,3) by (intro nth_equalityI) simp_all
  obtain t0 t1 t2 t3 where g: "grouped w = (t0, t1, t2, t3)" by (simp add: grouped_def)
  have "m' = grouped w \<and> rows' = undiagonalize (row_g2 ops t3 (row_g1 ops t2 (diagonalize (row_g2 ops t1 (row_g1 ops t0 rows)))))"
    using list_16 [OF assms(2)] assms(5) g
    by (auto simp: w assms(4) first_round_def grouped_def shuffle_simps Let_def)
  then show ?thesis using mix_round [OF lane_ops_axioms assms(1) g assms(3)] by blast
qed

lemma next_round_state:
  assumes "four rows" "length msg = 16" "r < 6" "w = map (\<lambda>i. msg ! (MSG_SCHEDULE ! r ! i)) [0..<16]"
    and "w' = map (\<lambda>i. msg ! (MSG_SCHEDULE ! Suc r ! i)) [0..<16]"
    and "next_round ops blend (grouped w, rows) = (m', rows')"
  shows "four rows' \<and> state_of rows' = round_fn (state_of rows) msg (Suc r) \<and> m' = grouped w'"
proof -
  have "MSG_SCHEDULE ! Suc r ! i = MSG_SCHEDULE ! r ! (b3_permutation ! i)" if "i < 16" for i
  proof -
    have "length b3_permutation = 16" by code_simp
    moreover have "MSG_SCHEDULE ! Suc r = map (\<lambda>i. MSG_SCHEDULE ! r ! i) b3_permutation"
      using schedule_permutes assms(3) by blast
    ultimately show ?thesis using that by simp
  qed
  moreover have "\<forall>i < 16. b3_permutation ! i < 16" by code_simp
  ultimately have w': "w' = map (\<lambda>i. w ! (b3_permutation ! i)) [0..<16]" unfolding assms(4,5) by simp
  have "length w = 16" by (simp add: assms(4))
  note w = list_16 [OF this]
  have "[0..<16] = [0, 1, 2, 3, 4, 5, 6, 7, 8, 9, 10, 11, 12, 13, 14, 15 :: nat]" by code_simp
  then have w'': "w' = map (\<lambda>i. w ! i) b3_permutation" unfolding w' by (simp add: b3_permutation_def)
  obtain t0 t1 t2 t3 where g: "grouped w' = (t0, t1, t2, t3)" by (simp add: grouped_def)
  have "m' = grouped w' \<and> rows' = undiagonalize (row_g2 ops t3 (row_g1 ops t2 (diagonalize (row_g2 ops t1 (row_g1 ops t0 rows)))))"
    using w assms(6) g
    by (auto simp: w'' b3_permutation_def next_round_def grouped_def shuffle_simps Let_def
        blend_CC blend_C0)
  then show ?thesis using mix_round [OF lane_ops_axioms assms(1) g assms(5)] by blast
qed

lemma next_rounds_state:
  assumes "four r0" "length msg = 16" "k \<le> 6"
  shows "\<exists>r. (next_round ops blend ^^ k) (grouped (map (\<lambda>i. msg ! (MSG_SCHEDULE ! 0 ! i)) [0..<16]), r0) =
      (grouped (map (\<lambda>i. msg ! (MSG_SCHEDULE ! k ! i)) [0..<16]), r) \<and>
    four r \<and> state_of r = foldl (\<lambda>s r. round_fn s msg r) (state_of r0) [1..<Suc k]"
  using assms(3)
proof (induction k)
  case (Suc k)
  then obtain r where r: "(next_round ops blend ^^ k) (grouped (map (\<lambda>i. msg ! (MSG_SCHEDULE ! 0 ! i)) [0..<16]), r0) =
      (grouped (map (\<lambda>i. msg ! (MSG_SCHEDULE ! k ! i)) [0..<16]), r)" "four r"
      "state_of r = foldl (\<lambda>s r. round_fn s msg r) (state_of r0) [1..<Suc k]" by auto
  obtain m2 r2 where s: "next_round ops blend (grouped (map (\<lambda>i. msg ! (MSG_SCHEDULE ! k ! i)) [0..<16]), r) = (m2, r2)"
    by (cases "next_round ops blend (grouped (map (\<lambda>i. msg ! (MSG_SCHEDULE ! k ! i)) [0..<16]), r)") auto
  have "four r2 \<and> state_of r2 = round_fn (state_of r) msg (Suc k) \<and>
      m2 = grouped (map (\<lambda>i. msg ! (MSG_SCHEDULE ! Suc k ! i)) [0..<16])"
    by (rule next_round_state [OF r(2) assms(2) _ refl refl s]) (use Suc.prems in simp)
  moreover have "[1..<Suc (Suc k)] = [1..<Suc k] @ [Suc k]" by simp
  ultimately show ?case using r(1,3) s by simp
qed (simp add: assms(1))

lemma rows_pre_state:
  assumes "length cv = 8"
  shows "four (rows_pre ops blend cv block len c fl) \<and> state_of (rows_pre ops blend cv block len c fl) = compress_pre cv block len c fl"
proof -
  define msg where "msg = map (\<lambda>i. load32 (drop (4 * i) block)) [0..<16]"
  define rows where "rows = (take 4 cv, take 4 (drop 4 cv), [blake3_IV ! 0, blake3_IV ! 1, blake3_IV ! 2, blake3_IV ! 3],
    [counter_low c, counter_high c, ucast len, ucast fl])"
  define m where "m = (loadu 4 block, loadu 4 (drop 16 block), loadu 4 (drop 32 block), loadu 4 (drop 48 block))"
  have rows: "four rows" "state_of rows = cv @ [blake3_IV ! 0, blake3_IV ! 1, blake3_IV ! 2, blake3_IV ! 3,
      counter_low c, counter_high c, ucast len, ucast fl]"
    using assms by (simp_all add: rows_def four_def state_of_def append_assoc [symmetric] take_add [symmetric]
        del: append_assoc)
  have up: "[0..<16] = [0, 1, 2, 3, 4, 5, 6, 7, 8, 9, 10, 11, 12, 13, 14, 15 :: nat]" "[0..<4] = [0, 1, 2, 3 :: nat]"
    by code_simp+
  have msg: "length msg = 16" by (simp add: msg_def)
  have m: "m = (take 4 msg, take 4 (drop 4 msg), take 4 (drop 8 msg), take 4 (drop 12 msg))"
    by (simp add: m_def msg_def loadu_def up)
  obtain m0 r0 where s0: "first_round ops m rows = (m0, r0)" by (cases "first_round ops m rows") auto
  note f0 = first_round_state [OF rows(1) msg refl m s0]
  obtain r where r: "(next_round ops blend ^^ 6) (m0, r0) = (grouped (map (\<lambda>i. msg ! (MSG_SCHEDULE ! 6 ! i)) [0..<16]), r)"
      "four r" "state_of r = foldl (\<lambda>s r. round_fn s msg r) (state_of r0) [1..<Suc 6]"
    using next_rounds_state [OF _ msg, of r0 6] f0 by auto
  have "rows_pre ops blend cv block len c fl = snd ((next_round ops blend ^^ 6) (first_round ops m rows))"
    unfolding rows_pre_def rows_def [symmetric] m_def [symmetric] Let_def by (simp add: numeral_eq_Suc)
  then have "rows_pre ops blend cv block len c fl = r" by (simp add: s0 r(1))
  moreover have "[1..<Suc 6] = [1, 2, 3, 4, 5, 6]" by code_simp
  then have "state_of r = foldl (\<lambda>s r. round_fn s msg r) (state_of rows) [0, 1, 2, 3, 4, 5, 6]"
    using r(3) f0 by simp
  ultimately show ?thesis using r(2) pre_fold [OF assms msg_def, of c len fl] rows(2) by simp
qed

lemma rows_portable:
  assumes "length cv = 8"
  shows "rows_in_place ops (rows_pre ops blend) cv block len c fl = blake3_compress_in_place cv block len c fl"
    and "rows_xof ops (rows_pre ops blend) cv block len c fl = blake3_compress_xof cv block len c fl"
proof -
  obtain a b e d where r: "rows_pre ops blend cv block len c fl = (a, b, e, d)"
    by (cases "rows_pre ops blend cv block len c fl") auto
  have four: "length a = 4" "length b = 4" "length e = 4" "length d = 4"
    and st: "compress_pre cv block len c fl = a @ b @ e @ d"
    using rows_pre_state [OF assms, of block len c fl] unfolding r by (simp_all add: four_def state_of_def)
  have up: "[0..<8] = [0, 1, 2, 3, 4, 5, 6, 7 :: nat]" by code_simp
  have "\<exists>p q r s t u v w. cv = [p, q, r, s, t, u, v, w]"
    using assms by (auto simp: numeral_eq_Suc length_Suc_conv)
  moreover have "\<exists>p q r s. a = [p, q, r, s]" "\<exists>p q r s. b = [p, q, r, s]" "\<exists>p q r s. e = [p, q, r, s]"
      "\<exists>p q r s. d = [p, q, r, s]"
    using four by (simp_all add: list_4)
  ultimately show "rows_in_place ops (rows_pre ops blend) cv block len c fl = blake3_compress_in_place cv block len c fl"
    and "rows_xof ops (rows_pre ops blend) cv block len c fl = blake3_compress_xof cv block len c fl"
    by (auto simp: rows_in_place_def rows_xof_def r xor_lanes blake3_compress_in_place_def blake3_compress_xof_def st
        Let_def up storeu_def)
qed

end

end
