(* ===== verification/Blake3Sse.thy ===== *)
theory Blake3Sse
  imports Blake3Lanes Blake3Rows
begin

text \<open>
  \<open>libs/blake3/blake3_sse41.c\<close> and \<open>blake3_sse2.c\<close>: registers of four lanes. The two files differ in three
  places: SSE2 has no shuffle of bytes, so it rotates by 16 with shuffles of halves and by 8 with shifts,
  and no blend, which it puts together from masks.
\<close>

section \<open>Four lanes\<close>

text \<open>The prefetches of the inputs have no effect on the result.\<close>

definition transpose_vecs_128 :: "'a list list \<Rightarrow> 'a list list" where
  "transpose_vecs_128 vecs =
     (let ab_01 = unpacklo_epi32 (vecs ! 0) (vecs ! 1);
          ab_23 = unpackhi_epi32 (vecs ! 0) (vecs ! 1);
          cd_01 = unpacklo_epi32 (vecs ! 2) (vecs ! 3);
          cd_23 = unpackhi_epi32 (vecs ! 2) (vecs ! 3);
          abcd_0 = unpacklo_epi64 ab_01 cd_01;
          abcd_1 = unpackhi_epi64 ab_01 cd_01;
          abcd_2 = unpacklo_epi64 ab_23 cd_23;
          abcd_3 = unpackhi_epi64 ab_23 cd_23 in
      [abcd_0, abcd_1, abcd_2, abcd_3])"

definition transpose_msg_vecs_128 :: "bytes list \<Rightarrow> nat \<Rightarrow> vec list" where
  "transpose_msg_vecs_128 inputs block_offset =
     concat (map (\<lambda>k. transpose_vecs_128 (map (\<lambda>i. loadu 4 (drop (block_offset + k * 16) (inputs ! i))) [0..<4])) [0..<4])"

text \<open>The counters of \<open>n\<close> lanes; a carry shows in an unsigned comparison, which is a signed one with the top bits flipped.\<close>

definition load_counters_cmp :: "nat \<Rightarrow> u64 \<Rightarrow> bool \<Rightarrow> vec \<times> vec" where
  "load_counters_cmp n counter increment_counter =
     (let mask_v = set1_epi32 n (if increment_counter then - 1 else 0);
          add0 = map of_nat [0..<n];
          add1 = and_si mask_v add0;
          l = add_epi32 (set1_epi32 n (ucast counter)) add1;
          carry = cmpgt_epi32 (xor_si add1 (set1_epi32 n 0x80000000)) (xor_si l (set1_epi32 n 0x80000000));
          h = sub_epi32 (set1_epi32 n (ucast (drop_bit 32 counter))) carry in
      (l, h))"

text \<open>The end of \<open>blake3_hash4\<close>.\<close>

definition store_4 :: "vec list \<Rightarrow> bytes" where
  "store_4 h_vecs =
     (let a = transpose_vecs_128 (take 4 h_vecs); b = transpose_vecs_128 (take 4 (drop 4 h_vecs)) in
      storeu (a ! 0) @ storeu (b ! 0) @ storeu (a ! 1) @ storeu (b ! 1) @
      storeu (a ! 2) @ storeu (b ! 2) @ storeu (a ! 3) @ storeu (b ! 3))"

section \<open>SSE4.1\<close>

definition rot16_sse41 :: "vec \<Rightarrow> vec" where
  "rot16_sse41 x = shuffle_epi8 x (rev [13, 12, 15, 14, 9, 8, 11, 10, 5, 4, 7, 6, 1, 0, 3, 2])"

definition rot12_sse41 :: "vec \<Rightarrow> vec" where
  "rot12_sse41 x = xor_si (srli_epi32 x 12) (slli_epi32 x (32 - 12))"

definition rot8_sse41 :: "vec \<Rightarrow> vec" where
  "rot8_sse41 x = shuffle_epi8 x (rev [12, 15, 14, 13, 8, 11, 10, 9, 4, 7, 6, 5, 0, 3, 2, 1])"

definition rot7_sse41 :: "vec \<Rightarrow> vec" where
  "rot7_sse41 x = xor_si (srli_epi32 x 7) (slli_epi32 x (32 - 7))"

definition sse41_ops :: "vec vec_ops" where
  "sse41_ops = \<lparr>v_add = add_epi32, v_xor = xor_si, v_rot16 = rot16_sse41, v_rot12 = rot12_sse41,
     v_rot8 = rot8_sse41, v_rot7 = rot7_sse41\<rparr>"

text \<open>The intrinsic \<open>_mm_blend_epi16\<close>: bit \<open>i\<close> of the immediate chooses lane \<open>i\<close> of 16 bits.\<close>

definition blend_epi16 :: "vec \<Rightarrow> vec \<Rightarrow> nat \<Rightarrow> vec" where
  "blend_epi16 a b imm = of_halves (map (\<lambda>i. if bit imm i then halves b ! i else halves a ! i) [0..<8])"

definition compress_pre_sse41 :: "u32 list \<Rightarrow> bytes \<Rightarrow> byte \<Rightarrow> u64 \<Rightarrow> byte \<Rightarrow> rows" where
  "compress_pre_sse41 = rows_pre sse41_ops blend_epi16"

definition blake3_compress_in_place_sse41 :: compression where
  "blake3_compress_in_place_sse41 = rows_in_place sse41_ops compress_pre_sse41"

definition blake3_compress_xof_sse41 :: "u32 list \<Rightarrow> bytes \<Rightarrow> byte \<Rightarrow> u64 \<Rightarrow> byte \<Rightarrow> bytes" where
  "blake3_compress_xof_sse41 = rows_xof sse41_ops compress_pre_sse41"

definition round_fn_sse41 :: "vec list \<Rightarrow> vec list \<Rightarrow> nat \<Rightarrow> vec list" where
  "round_fn_sse41 = vec_round sse41_ops"

definition sse41_unit :: vec_unit where
  "sse41_unit = \<lparr>vu_round = round_fn_sse41, vu_xor = xor_si, vu_set1 = set1_epi32 4,
     vu_transpose_msg = transpose_msg_vecs_128, vu_load_counters = load_counters_cmp 4, vu_store = store_4\<rparr>"

definition blake3_hash4_sse41 ::
  "bytes list \<Rightarrow> nat \<Rightarrow> u32 list \<Rightarrow> u64 \<Rightarrow> bool \<Rightarrow> byte \<Rightarrow> byte \<Rightarrow> byte \<Rightarrow> bytes" where
  "blake3_hash4_sse41 = hash_lanes sse41_unit"

definition hash_one_sse41 :: "bytes \<Rightarrow> nat \<Rightarrow> u32 list \<Rightarrow> u64 \<Rightarrow> byte \<Rightarrow> byte \<Rightarrow> byte \<Rightarrow> bytes" where
  "hash_one_sse41 = hash_one_with blake3_compress_in_place_sse41"

definition blake3_hash_many_sse41 ::
  "bytes list \<Rightarrow> nat \<Rightarrow> u32 list \<Rightarrow> u64 \<Rightarrow> bool \<Rightarrow> byte \<Rightarrow> byte \<Rightarrow> byte \<Rightarrow> bytes" where
  "blake3_hash_many_sse41 inputs blocks key counter increment_counter flags flags_start flags_end =
     (case hash_batches 4 (\<lambda>xs c. blake3_hash4_sse41 xs blocks key c increment_counter flags flags_start flags_end)
         inputs counter increment_counter of (out, inputs, counter) \<Rightarrow>
       out @ hash_rest (\<lambda>x c. hash_one_sse41 x blocks key c flags flags_start flags_end) inputs counter increment_counter)"

section \<open>SSE2\<close>

text \<open>The shuffles of the four low and the four high halves of a register.\<close>

definition shufflelo_epi16 :: "vec \<Rightarrow> nat \<Rightarrow> vec" where
  "shufflelo_epi16 x imm = of_halves (shuffle_epi32 (take 4 (halves x)) imm @ drop 4 (halves x))"

definition shufflehi_epi16 :: "vec \<Rightarrow> nat \<Rightarrow> vec" where
  "shufflehi_epi16 x imm = of_halves (take 4 (halves x) @ shuffle_epi32 (drop 4 (halves x)) imm)"

definition rot16_sse2 :: "vec \<Rightarrow> vec" where
  "rot16_sse2 x = shufflehi_epi16 (shufflelo_epi16 x 0xB1) 0xB1"

definition rot8_sse2 :: "vec \<Rightarrow> vec" where
  "rot8_sse2 x = xor_si (srli_epi32 x 8) (slli_epi32 x (32 - 8))"

definition sse2_ops :: "vec vec_ops" where
  "sse2_ops = \<lparr>v_add = add_epi32, v_xor = xor_si, v_rot16 = rot16_sse2, v_rot12 = rot12_sse41,
     v_rot8 = rot8_sse2, v_rot7 = rot7_sse41\<rparr>"

text \<open>The blend of this file; \<open>cmpeq_epi16\<close> compares lanes of 16 bits.\<close>

definition cmpeq_epi16 :: "vec \<Rightarrow> vec \<Rightarrow> vec" where
  "cmpeq_epi16 a b = of_halves (map2 (\<lambda>x y. if x = y then - 1 else 0) (halves a) (halves b))"

definition blend_epi16_sse2 :: "vec \<Rightarrow> vec \<Rightarrow> nat \<Rightarrow> vec" where
  "blend_epi16_sse2 a b imm8 =
     (let bits = of_halves (rev [0x80, 0x40, 0x20, 0x10, 0x08, 0x04, 0x02, 0x01]);
          mask_v = of_halves (replicate 8 (of_nat imm8));
          mask_v = and_si mask_v bits;
          mask_v = cmpeq_epi16 mask_v bits in
      or_si (and_si mask_v b) (andnot_si mask_v a))"

definition compress_pre_sse2 :: "u32 list \<Rightarrow> bytes \<Rightarrow> byte \<Rightarrow> u64 \<Rightarrow> byte \<Rightarrow> rows" where
  "compress_pre_sse2 = rows_pre sse2_ops blend_epi16_sse2"

definition blake3_compress_in_place_sse2 :: compression where
  "blake3_compress_in_place_sse2 = rows_in_place sse2_ops compress_pre_sse2"

definition blake3_compress_xof_sse2 :: "u32 list \<Rightarrow> bytes \<Rightarrow> byte \<Rightarrow> u64 \<Rightarrow> byte \<Rightarrow> bytes" where
  "blake3_compress_xof_sse2 = rows_xof sse2_ops compress_pre_sse2"

definition round_fn_sse2 :: "vec list \<Rightarrow> vec list \<Rightarrow> nat \<Rightarrow> vec list" where
  "round_fn_sse2 = vec_round sse2_ops"

definition sse2_unit :: vec_unit where
  "sse2_unit = \<lparr>vu_round = round_fn_sse2, vu_xor = xor_si, vu_set1 = set1_epi32 4,
     vu_transpose_msg = transpose_msg_vecs_128, vu_load_counters = load_counters_cmp 4, vu_store = store_4\<rparr>"

definition blake3_hash4_sse2 ::
  "bytes list \<Rightarrow> nat \<Rightarrow> u32 list \<Rightarrow> u64 \<Rightarrow> bool \<Rightarrow> byte \<Rightarrow> byte \<Rightarrow> byte \<Rightarrow> bytes" where
  "blake3_hash4_sse2 = hash_lanes sse2_unit"

definition hash_one_sse2 :: "bytes \<Rightarrow> nat \<Rightarrow> u32 list \<Rightarrow> u64 \<Rightarrow> byte \<Rightarrow> byte \<Rightarrow> byte \<Rightarrow> bytes" where
  "hash_one_sse2 = hash_one_with blake3_compress_in_place_sse2"

definition blake3_hash_many_sse2 ::
  "bytes list \<Rightarrow> nat \<Rightarrow> u32 list \<Rightarrow> u64 \<Rightarrow> bool \<Rightarrow> byte \<Rightarrow> byte \<Rightarrow> byte \<Rightarrow> bytes" where
  "blake3_hash_many_sse2 inputs blocks key counter increment_counter flags flags_start flags_end =
     (case hash_batches 4 (\<lambda>xs c. blake3_hash4_sse2 xs blocks key c increment_counter flags flags_start flags_end)
         inputs counter increment_counter of (out, inputs, counter) \<Rightarrow>
       out @ hash_rest (\<lambda>x c. hash_one_sse2 x blocks key c flags flags_start flags_end) inputs counter increment_counter)"

section \<open>Four lanes are right\<close>

lemma length_4: "length x = 4 \<longleftrightarrow> (\<exists>a b c d. x = [a, b, c, d])"
  by (auto simp: numeral_eq_Suc length_Suc_conv)

lemma transpose_128:
  assumes "wide 4 vecs" "length vecs = 4"
  shows "transpose_vecs_128 vecs = map (\<lambda>j. lane j vecs) [0..<4]"
proof -
  have "[0..<4] = [0, 1, 2, 3 :: nat]" by code_simp
  then show ?thesis using assms by (auto simp: length_4 transpose_vecs_128_def)
qed

lemma transpose_msg_128:
  assumes "length inputs = 4"
  shows "transpose_msg_vecs_128 inputs off = map (\<lambda>i. map (\<lambda>x. load32 (drop (off + 4 * i) x)) inputs) [0..<16]"
proof -
  have up: "[0..<4] = [0, 1, 2, 3 :: nat]"
    "[0..<16] = [0, 1, 2, 3, 4, 5, 6, 7, 8, 9, 10, 11, 12, 13, 14, 15 :: nat]" by code_simp+
  have "transpose_vecs_128 (map (\<lambda>i. loadu 4 (drop (off + k * 16) (inputs ! i))) [0..<4]) =
      map (\<lambda>j. map (\<lambda>x. load32 (drop (off + k * 16 + 4 * j) x)) inputs) [0..<4]" for k
  proof (subst transpose_128)
    show "map (\<lambda>j. lane j (map (\<lambda>i. loadu 4 (drop (off + k * 16) (inputs ! i))) [0..<4])) [0..<4] =
        map (\<lambda>j. map (\<lambda>x. load32 (drop (off + k * 16 + 4 * j) x)) inputs) [0..<4]"
      using assms by (intro map_cong refl nth_equalityI) (simp_all add: loadu_def add.commute)
  qed (auto simp: wide_def loadu_def)
  then show ?thesis by (simp add: transpose_msg_vecs_128_def) (simp add: up add.commute [of "numeral m" off for m])
qed

lemma counters_cmp:
  assumes "n < 2 ^ 32"
  shows "load_counters_cmp n c inc =
    (map (\<lambda>j. counter_low (lane_counter c inc j)) [0..<n], map (\<lambda>j. counter_high (lane_counter c inc j)) [0..<n])"
proof -
  let ?d = "\<lambda>j. (if inc then - 1 else 0) AND of_nat j :: u32"
  have d: "?d j = (if inc then of_nat j else 0)" for j by simp
  have low: "ucast c + ?d j = counter_low (lane_counter c inc j)" for j
    unfolding d by (simp add: lane_counter_def counter_low_add) (simp add: counter_low_def)
  have high: "ucast (drop_bit 32 c) - (if word_sless ((ucast c + ?d j) XOR 0x80000000) (?d j XOR 0x80000000) then - 1 else 0) =
      counter_high (lane_counter c inc j)" if "j < n" for j
  proof -
    have "j < 2 ^ 32" using assms that by simp
    from counter_high_add [OF this, of c] show ?thesis
      unfolding sless_xor_top d by (simp add: lane_counter_def counter_low_def) (simp add: counter_high_def)
  qed
  have "fst (load_counters_cmp n c inc) = map (\<lambda>j. counter_low (lane_counter c inc j)) [0..<n]"
    by (intro nth_equalityI)
      (simp_all add: load_counters_cmp_def Let_def add_epi32_def and_si_def set1_epi32_def low [symmetric])
  moreover have "snd (load_counters_cmp n c inc) = map (\<lambda>j. counter_high (lane_counter c inc j)) [0..<n]"
    by (intro nth_equalityI)
      (simp_all add: load_counters_cmp_def Let_def add_epi32_def and_si_def set1_epi32_def sub_epi32_def xor_si_def
        cmpgt_epi32_def high [symmetric])
  ultimately show ?thesis by (simp add: prod_eq_iff)
qed

lemma store_4_lanes:
  assumes "length hs = 8" "wide 4 hs"
  shows "store_4 hs = concat (map (\<lambda>j. storeu (lane j hs)) [0..<4])"
proof -
  have up: "[0..<4] = [0, 1, 2, 3 :: nat]" by code_simp
  have a: "wide 4 (take 4 hs)" "length (take 4 hs) = 4" and b: "wide 4 (drop 4 hs)" "length (drop 4 hs) = 4"
    using assms by (auto simp: wide_def dest: in_set_takeD in_set_dropD)
  have "lane j hs = lane j (take 4 hs) @ lane j (drop 4 hs)" for j
    by (simp flip: lane_simps(3))
  then show ?thesis using transpose_128 [OF a] transpose_128 [OF b] assms(1)
    by (simp add: store_4_def up storeu_def)
qed

section \<open>The operations are right\<close>

lemma rot_shifts:
  "map2 (XOR) (srli_epi32 x 12) (slli_epi32 x 20) = map (\<lambda>w. rotr32 w 12) x"
  "map2 (XOR) (srli_epi32 x 8) (slli_epi32 x 24) = map (\<lambda>w. rotr32 w 8) x"
  "map2 (XOR) (srli_epi32 x 7) (slli_epi32 x 25) = map (\<lambda>w. rotr32 w 7) x"
  using shifts_disjoint [of 12] shifts_disjoint [of 8] shifts_disjoint [of 7]
  by (simp_all add: srli_epi32_def slli_epi32_def zip_map_map map_zip_map comp_def zip_same_conv_map)

lemma rot_bytes:
  "length x = 4 \<Longrightarrow> rot16_sse41 x = map (\<lambda>w. rotr32 w 16) x" "length x = 4 \<Longrightarrow> rot8_sse41 x = map (\<lambda>w. rotr32 w 8) x"
  by (auto simp: length_4 rot16_sse41_def rot8_sse41_def bytes_of_word store32_def load_rotated)

lemma rot16_halves:
  assumes "length x = 4"
  shows "rot16_sse2 x = map (\<lambda>w. rotr32 w 16) x"
proof -
  have "shufflelo_epi16 [a, b, c, d] 0xB1 = [rotr32 a 16, rotr32 b 16, c, d]"
    "shufflehi_epi16 [a, b, c, d] 0xB1 = [a, b, rotr32 c 16, rotr32 d 16]" for a b c d
    by (simp_all add: shufflelo_epi16_def shufflehi_epi16_def halves_def shuffle_epi32_def field_def halves_rotated
        halves_joined)
  then show ?thesis using assms by (auto simp: length_4 rot16_sse2_def)
qed

lemma blend_lanes:
  "blend_epi16 [a, b, c, d] [e, f, g, h] 0xCC = [a, f, c, h]" "blend_epi16 [a, b, c, d] [e, f, g, h] 0xC0 = [a, b, c, h]"
proof -
  have "[0..<8] = [0, 1, 2, 3, 4, 5, 6, 7 :: nat]" by code_simp
  then show "blend_epi16 [a, b, c, d] [e, f, g, h] 0xCC = [a, f, c, h]" "blend_epi16 [a, b, c, d] [e, f, g, h] 0xC0 = [a, b, c, h]"
    by (simp_all add: blend_epi16_def halves_def halves_joined bit_Suc_0_iff)
qed

lemma blend_masks:
  "blend_epi16_sse2 [a, b, c, d] [e, f, g, h] 0xCC = [a, f, c, h]"
  "blend_epi16_sse2 [a, b, c, d] [e, f, g, h] 0xC0 = [a, b, c, h]"
proof -
  have m: "cmpeq_epi16 (and_si (of_halves (replicate 8 (of_nat 0xCC))) (of_halves (rev [0x80, 0x40, 0x20, 0x10, 0x08, 0x04, 0x02, 0x01])))
      (of_halves (rev [0x80, 0x40, 0x20, 0x10, 0x08, 0x04, 0x02, 0x01])) = [0, - 1, 0, - 1]"
    "cmpeq_epi16 (and_si (of_halves (replicate 8 (of_nat 0xC0))) (of_halves (rev [0x80, 0x40, 0x20, 0x10, 0x08, 0x04, 0x02, 0x01])))
      (of_halves (rev [0x80, 0x40, 0x20, 0x10, 0x08, 0x04, 0x02, 0x01])) = [0, 0, 0, - 1]"
    by code_simp+
  show "blend_epi16_sse2 [a, b, c, d] [e, f, g, h] 0xCC = [a, f, c, h]" "blend_epi16_sse2 [a, b, c, d] [e, f, g, h] 0xC0 = [a, b, c, h]"
    unfolding blend_epi16_sse2_def Let_def m by (simp_all add: or_si_def and_si_def andnot_si_def)
qed

interpretation sse41: row_unit sse41_ops blend_epi16
  by unfold_locales (simp_all add: sse41_ops_def add_epi32_def xor_si_def rot_bytes rot12_sse41_def rot7_sse41_def
      rot_shifts blend_lanes)

interpretation sse2: row_unit sse2_ops blend_epi16_sse2
  by unfold_locales (simp_all add: sse2_ops_def add_epi32_def xor_si_def rot16_halves rot12_sse41_def rot7_sse41_def
      rot8_sse2_def rot_shifts blend_masks)

interpretation sse41_lanes: vector_unit sse41_ops 4 sse41_unit
  by unfold_locales (simp_all add: sse41_unit_def round_fn_sse41_def sse41_ops_def set1_epi32_def transpose_msg_128
      counters_cmp store_4_lanes)

interpretation sse2_lanes: vector_unit sse2_ops 4 sse2_unit
  by unfold_locales (simp_all add: sse2_unit_def round_fn_sse2_def sse2_ops_def set1_epi32_def transpose_msg_128
      counters_cmp store_4_lanes)

section \<open>The two files compute what the portable code computes\<close>

lemma sse_compress:
  assumes "length cv = 8"
  shows "blake3_compress_in_place_sse41 cv block len c fl = blake3_compress_in_place cv block len c fl"
    "blake3_compress_xof_sse41 cv block len c fl = blake3_compress_xof cv block len c fl"
    "blake3_compress_in_place_sse2 cv block len c fl = blake3_compress_in_place cv block len c fl"
    "blake3_compress_xof_sse2 cv block len c fl = blake3_compress_xof cv block len c fl"
  using assms
  by (simp_all add: blake3_compress_in_place_sse41_def blake3_compress_xof_sse41_def blake3_compress_in_place_sse2_def
      blake3_compress_xof_sse2_def compress_pre_sse41_def compress_pre_sse2_def sse41.rows_portable sse2.rows_portable)

lemma hash_many_sse:
  assumes "length key = 8" "\<forall>x \<in> set inputs. 64 * blocks \<le> length x"
  shows "blake3_hash_many_sse41 inputs blocks key counter inc fl fs fe = blake3_hash_many inputs blocks key counter inc fl fs fe"
    and "blake3_hash_many_sse2 inputs blocks key counter inc fl fs fe = blake3_hash_many inputs blocks key counter inc fl fs fe"
proof -
  show "blake3_hash_many_sse41 inputs blocks key counter inc fl fs fe = blake3_hash_many inputs blocks key counter inc fl fs fe"
    unfolding blake3_hash_many_sse41_def blake3_hash4_sse41_def hash_one_sse41_def
    by (rule hash_many_loops) (use assms in \<open>auto intro!: sse41_lanes.hash_lanes_portable hash_one_with_portable sse_compress\<close>)
  show "blake3_hash_many_sse2 inputs blocks key counter inc fl fs fe = blake3_hash_many inputs blocks key counter inc fl fs fe"
    unfolding blake3_hash_many_sse2_def blake3_hash4_sse2_def hash_one_sse2_def
    by (rule hash_many_loops) (use assms in \<open>auto intro!: sse2_lanes.hash_lanes_portable hash_one_with_portable sse_compress\<close>)
qed

end
