(* ===== verification/Blake3Avx2.thy ===== *)
theory Blake3Avx2
  imports Blake3Sse
begin

text \<open>
  \<open>libs/blake3/blake3_avx2.c\<close>: registers of eight lanes, hashing eight inputs at once; what is left over goes to the
  SSE4.1 file.
\<close>

section \<open>Eight lanes\<close>

text \<open>Two fields of the immediate choose the halves of the result; their zeroing bits are clear in the code.\<close>

definition permute2x128 :: "'a list \<Rightarrow> 'a list \<Rightarrow> nat \<Rightarrow> 'a list" where
  "permute2x128 a b imm =
     (let parts = [take 4 a, drop 4 a, take 4 b, drop 4 b] in parts ! (imm mod 4) @ parts ! (imm div 16 mod 4))"

definition transpose_vecs_256 :: "'a list list \<Rightarrow> 'a list list" where
  "transpose_vecs_256 vecs =
     (let ab_0145 = unpacklo_epi32 (vecs ! 0) (vecs ! 1);
          ab_2367 = unpackhi_epi32 (vecs ! 0) (vecs ! 1);
          cd_0145 = unpacklo_epi32 (vecs ! 2) (vecs ! 3);
          cd_2367 = unpackhi_epi32 (vecs ! 2) (vecs ! 3);
          ef_0145 = unpacklo_epi32 (vecs ! 4) (vecs ! 5);
          ef_2367 = unpackhi_epi32 (vecs ! 4) (vecs ! 5);
          gh_0145 = unpacklo_epi32 (vecs ! 6) (vecs ! 7);
          gh_2367 = unpackhi_epi32 (vecs ! 6) (vecs ! 7);
          abcd_04 = unpacklo_epi64 ab_0145 cd_0145;
          abcd_15 = unpackhi_epi64 ab_0145 cd_0145;
          abcd_26 = unpacklo_epi64 ab_2367 cd_2367;
          abcd_37 = unpackhi_epi64 ab_2367 cd_2367;
          efgh_04 = unpacklo_epi64 ef_0145 gh_0145;
          efgh_15 = unpackhi_epi64 ef_0145 gh_0145;
          efgh_26 = unpacklo_epi64 ef_2367 gh_2367;
          efgh_37 = unpackhi_epi64 ef_2367 gh_2367 in
      [permute2x128 abcd_04 efgh_04 0x20, permute2x128 abcd_15 efgh_15 0x20,
       permute2x128 abcd_26 efgh_26 0x20, permute2x128 abcd_37 efgh_37 0x20,
       permute2x128 abcd_04 efgh_04 0x31, permute2x128 abcd_15 efgh_15 0x31,
       permute2x128 abcd_26 efgh_26 0x31, permute2x128 abcd_37 efgh_37 0x31])"

definition transpose_msg_vecs_256 :: "bytes list \<Rightarrow> nat \<Rightarrow> vec list" where
  "transpose_msg_vecs_256 inputs block_offset =
     concat (map (\<lambda>k. transpose_vecs_256 (map (\<lambda>i. loadu 8 (drop (block_offset + k * 32) (inputs ! i))) [0..<8])) [0..<2])"

text \<open>The end of \<open>blake3_hash8\<close>.\<close>

definition store_8 :: "vec list \<Rightarrow> bytes" where
  "store_8 h_vecs = concat (map storeu (transpose_vecs_256 h_vecs))"

section \<open>AVX2\<close>

definition rot16_avx2 :: "vec \<Rightarrow> vec" where
  "rot16_avx2 x = shuffle_epi8 x
     (rev [13, 12, 15, 14, 9, 8, 11, 10, 5, 4, 7, 6, 1, 0, 3, 2, 13, 12, 15, 14, 9, 8, 11, 10, 5, 4, 7, 6, 1, 0, 3, 2])"

definition rot12_avx2 :: "vec \<Rightarrow> vec" where
  "rot12_avx2 x = or_si (srli_epi32 x 12) (slli_epi32 x (32 - 12))"

definition rot8_avx2 :: "vec \<Rightarrow> vec" where
  "rot8_avx2 x = shuffle_epi8 x
     (rev [12, 15, 14, 13, 8, 11, 10, 9, 4, 7, 6, 5, 0, 3, 2, 1, 12, 15, 14, 13, 8, 11, 10, 9, 4, 7, 6, 5, 0, 3, 2, 1])"

definition rot7_avx2 :: "vec \<Rightarrow> vec" where
  "rot7_avx2 x = or_si (srli_epi32 x 7) (slli_epi32 x (32 - 7))"

definition avx2_ops :: "vec vec_ops" where
  "avx2_ops = \<lparr>v_add = add_epi32, v_xor = xor_si, v_rot16 = rot16_avx2, v_rot12 = rot12_avx2,
     v_rot8 = rot8_avx2, v_rot7 = rot7_avx2\<rparr>"

definition round_fn_avx2 :: "vec list \<Rightarrow> vec list \<Rightarrow> nat \<Rightarrow> vec list" where
  "round_fn_avx2 = vec_round avx2_ops"

definition avx2_unit :: vec_unit where
  "avx2_unit = \<lparr>vu_round = round_fn_avx2, vu_xor = xor_si, vu_set1 = set1_epi32 8,
     vu_transpose_msg = transpose_msg_vecs_256, vu_load_counters = load_counters_cmp 8, vu_store = store_8\<rparr>"

definition blake3_hash8_avx2 ::
  "bytes list \<Rightarrow> nat \<Rightarrow> u32 list \<Rightarrow> u64 \<Rightarrow> bool \<Rightarrow> byte \<Rightarrow> byte \<Rightarrow> byte \<Rightarrow> bytes" where
  "blake3_hash8_avx2 = hash_lanes avx2_unit"

definition blake3_hash_many_avx2 ::
  "bytes list \<Rightarrow> nat \<Rightarrow> u32 list \<Rightarrow> u64 \<Rightarrow> bool \<Rightarrow> byte \<Rightarrow> byte \<Rightarrow> byte \<Rightarrow> bytes" where
  "blake3_hash_many_avx2 inputs blocks key counter increment_counter flags flags_start flags_end =
     (case hash_batches 8 (\<lambda>xs c. blake3_hash8_avx2 xs blocks key c increment_counter flags flags_start flags_end)
         inputs counter increment_counter of (out, inputs, counter) \<Rightarrow>
       out @ blake3_hash_many_sse41 inputs blocks key counter increment_counter flags flags_start flags_end)"

section \<open>Eight lanes are right\<close>

lemma length_8: "length x = 8 \<longleftrightarrow> (\<exists>a b c d e f g h. x = [a, b, c, d, e, f, g, h])"
  by (auto simp: numeral_eq_Suc length_Suc_conv)

lemma lanes_8: "[0..<8] = [0, 1, 2, 3, 4, 5, 6, 7 :: nat]"
  by code_simp

lemma unpack_8:
  "length a = 8 \<Longrightarrow> length b = 8 \<Longrightarrow> unpacklo_epi32 a b = [a ! 0, b ! 0, a ! 1, b ! 1, a ! 4, b ! 4, a ! 5, b ! 5]"
  "length a = 8 \<Longrightarrow> length b = 8 \<Longrightarrow> unpackhi_epi32 a b = [a ! 2, b ! 2, a ! 3, b ! 3, a ! 6, b ! 6, a ! 7, b ! 7]"
  "length a = 8 \<Longrightarrow> length b = 8 \<Longrightarrow> unpacklo_epi64 a b = [a ! 0, a ! 1, b ! 0, b ! 1, a ! 4, a ! 5, b ! 4, b ! 5]"
  "length a = 8 \<Longrightarrow> length b = 8 \<Longrightarrow> unpackhi_epi64 a b = [a ! 2, a ! 3, b ! 2, b ! 3, a ! 6, a ! 7, b ! 6, b ! 7]"
  by (auto simp: length_8)

lemma permute_8:
  "length a = 8 \<Longrightarrow> length b = 8 \<Longrightarrow> permute2x128 a b 0x20 = [a ! 0, a ! 1, a ! 2, a ! 3, b ! 0, b ! 1, b ! 2, b ! 3]"
  "length a = 8 \<Longrightarrow> length b = 8 \<Longrightarrow> permute2x128 a b 0x31 = [a ! 4, a ! 5, a ! 6, a ! 7, b ! 4, b ! 5, b ! 6, b ! 7]"
  by (auto simp: length_8 permute2x128_def)

lemma transpose_256:
  assumes "wide 8 vecs" "length vecs = 8"
  shows "transpose_vecs_256 vecs = map (\<lambda>j. lane j vecs) [0..<8]"
proof -
  obtain a b c d e f g h where v: "vecs = [a, b, c, d, e, f, g, h]" using assms(2) unfolding length_8 by blast
  then have len: "length a = 8" "length b = 8" "length c = 8" "length d = 8" "length e = 8" "length f = 8" "length g = 8"
    "length h = 8" using assms(1) by simp_all
  show ?thesis by (simp add: v transpose_vecs_256_def Let_def unpack_8 permute_8 len lanes_8)
qed

lemma transpose_msg_256:
  assumes "length inputs = 8"
  shows "transpose_msg_vecs_256 inputs off = map (\<lambda>i. map (\<lambda>x. load32 (drop (off + 4 * i) x)) inputs) [0..<16]"
proof -
  have up: "[0..<2] = [0, 1 :: nat]"
    "[0..<16] = [0, 1, 2, 3, 4, 5, 6, 7, 8, 9, 10, 11, 12, 13, 14, 15 :: nat]" by code_simp+
  have "transpose_vecs_256 (map (\<lambda>i. loadu 8 (drop (off + k * 32) (inputs ! i))) [0..<8]) =
      map (\<lambda>j. map (\<lambda>x. load32 (drop (off + k * 32 + 4 * j) x)) inputs) [0..<8]" for k
  proof (subst transpose_256)
    show "map (\<lambda>j. lane j (map (\<lambda>i. loadu 8 (drop (off + k * 32) (inputs ! i))) [0..<8])) [0..<8] =
        map (\<lambda>j. map (\<lambda>x. load32 (drop (off + k * 32 + 4 * j) x)) inputs) [0..<8]"
      using assms by (intro map_cong refl nth_equalityI) (simp_all add: loadu_def add.commute)
  qed (auto simp: wide_def loadu_def)
  then show ?thesis
    by (simp add: transpose_msg_vecs_256_def up(1)) (simp add: up lanes_8 add.commute [of "numeral m" off for m])
qed

lemma store_8_lanes: "length hs = 8 \<Longrightarrow> wide 8 hs \<Longrightarrow> store_8 hs = concat (map (\<lambda>j. storeu (lane j hs)) [0..<8])"
  by (simp add: store_8_def transpose_256 comp_def)

lemma rot_or:
  "map2 (OR) (srli_epi32 x 12) (slli_epi32 x 20) = map (\<lambda>w. rotr32 w 12) x"
  "map2 (OR) (srli_epi32 x 7) (slli_epi32 x 25) = map (\<lambda>w. rotr32 w 7) x"
  by (simp_all add: srli_epi32_def slli_epi32_def zip_map_map map_zip_map comp_def zip_same_conv_map rotr32_def)

lemma rot_bytes_8:
  "length x = 8 \<Longrightarrow> rot16_avx2 x = map (\<lambda>w. rotr32 w 16) x" "length x = 8 \<Longrightarrow> rot8_avx2 x = map (\<lambda>w. rotr32 w 8) x"
  by (auto simp: length_8 rot16_avx2_def rot8_avx2_def bytes_of_word store32_def load_rotated)

interpretation avx2_lanes: vector_unit avx2_ops 8 avx2_unit
  by unfold_locales (simp_all add: avx2_ops_def avx2_unit_def round_fn_avx2_def add_epi32_def xor_si_def or_si_def rot_bytes_8
      rot12_avx2_def rot7_avx2_def rot_or set1_epi32_def transpose_msg_256 counters_cmp store_8_lanes)

lemma hash_many_avx2:
  assumes "length key = 8" "\<forall>x \<in> set inputs. 64 * blocks \<le> length x"
  shows "blake3_hash_many_avx2 inputs blocks key counter inc fl fs fe = blake3_hash_many inputs blocks key counter inc fl fs fe"
proof -
  let ?f = "\<lambda>xs c. blake3_hash8_avx2 xs blocks key c inc fl fs fe"
  obtain out rest c where b: "hash_batches 8 ?f inputs counter inc = (out, rest, c)"
    by (cases "hash_batches 8 ?f inputs counter inc") auto
  have "?f xs c = blake3_hash_many xs blocks key c inc fl fs fe" if "length xs = 8" "set xs \<subseteq> set inputs" for xs c
    unfolding blake3_hash8_avx2_def using assms(2) that by (intro avx2_lanes.hash_lanes_portable assms(1)) auto
  note p = hash_batches_portable [OF this b]
  then have "blake3_hash_many_sse41 rest blocks key c inc fl fs fe = blake3_hash_many rest blocks key c inc fl fs fe"
    using assms(2) by (intro hash_many_sse assms(1)) auto
  then show ?thesis using p by (simp add: blake3_hash_many_avx2_def b)
qed

end
