(* ===== verification/Blake3Avx512.thy ===== *)
theory Blake3Avx512
  imports Blake3Avx2
begin

text \<open>
  \<open>libs/blake3/blake3_avx512.c\<close>: registers of four, eight and sixteen lanes. A block is compressed in rows of four;
  sixteen, eight or four inputs are hashed at once, and as many blocks of output are made at once.
\<close>

section \<open>Operations\<close>

definition rot16_128 :: "vec \<Rightarrow> vec" where "rot16_128 x = ror_epi32 x 16"
definition rot12_128 :: "vec \<Rightarrow> vec" where "rot12_128 x = ror_epi32 x 12"
definition rot8_128 :: "vec \<Rightarrow> vec" where "rot8_128 x = ror_epi32 x 8"
definition rot7_128 :: "vec \<Rightarrow> vec" where "rot7_128 x = ror_epi32 x 7"

definition rot16_256 :: "vec \<Rightarrow> vec" where "rot16_256 x = ror_epi32 x 16"
definition rot12_256 :: "vec \<Rightarrow> vec" where "rot12_256 x = ror_epi32 x 12"
definition rot8_256 :: "vec \<Rightarrow> vec" where "rot8_256 x = ror_epi32 x 8"
definition rot7_256 :: "vec \<Rightarrow> vec" where "rot7_256 x = ror_epi32 x 7"

definition rot16_512 :: "vec \<Rightarrow> vec" where "rot16_512 x = ror_epi32 x 16"
definition rot12_512 :: "vec \<Rightarrow> vec" where "rot12_512 x = ror_epi32 x 12"
definition rot8_512 :: "vec \<Rightarrow> vec" where "rot8_512 x = ror_epi32 x 8"
definition rot7_512 :: "vec \<Rightarrow> vec" where "rot7_512 x = ror_epi32 x 7"

definition avx512_ops4 :: "vec vec_ops" where
  "avx512_ops4 = \<lparr>v_add = add_epi32, v_xor = xor_si, v_rot16 = rot16_128, v_rot12 = rot12_128,
     v_rot8 = rot8_128, v_rot7 = rot7_128\<rparr>"

definition avx512_ops8 :: "vec vec_ops" where
  "avx512_ops8 = \<lparr>v_add = add_epi32, v_xor = xor_si, v_rot16 = rot16_256, v_rot12 = rot12_256,
     v_rot8 = rot8_256, v_rot7 = rot7_256\<rparr>"

definition avx512_ops16 :: "vec vec_ops" where
  "avx512_ops16 = \<lparr>v_add = add_epi32, v_xor = xor_si, v_rot16 = rot16_512, v_rot12 = rot12_512,
     v_rot8 = rot8_512, v_rot7 = rot7_512\<rparr>"

section \<open>A single block\<close>

definition compress_pre_avx512 :: "u32 list \<Rightarrow> bytes \<Rightarrow> byte \<Rightarrow> u64 \<Rightarrow> byte \<Rightarrow> rows" where
  "compress_pre_avx512 = rows_pre avx512_ops4 blend_epi16"

definition blake3_compress_in_place_avx512 :: compression where
  "blake3_compress_in_place_avx512 = rows_in_place avx512_ops4 compress_pre_avx512"

definition blake3_compress_xof_avx512 :: "u32 list \<Rightarrow> bytes \<Rightarrow> byte \<Rightarrow> u64 \<Rightarrow> byte \<Rightarrow> bytes" where
  "blake3_compress_xof_avx512 = rows_xof avx512_ops4 compress_pre_avx512"

section \<open>Four and eight lanes\<close>

definition round_fn4 :: "vec list \<Rightarrow> vec list \<Rightarrow> nat \<Rightarrow> vec list" where
  "round_fn4 = vec_round avx512_ops4"

text \<open>The counters of \<open>n\<close> lanes, as registers of 64-bit lanes whose halves are taken.\<close>

definition load_counters_epi64 :: "nat \<Rightarrow> u64 \<Rightarrow> bool \<Rightarrow> vec \<times> vec" where
  "load_counters_epi64 n counter increment_counter =
     (let mask_v = (if increment_counter then NOT 0 else 0);
          deltas = map of_nat [0..<n];
          deltas = map (\<lambda>d. mask_v AND d) deltas;
          counters = map (\<lambda>d. counter + d) deltas in
      (map ucast counters, map (\<lambda>c. ucast (drop_bit 32 c)) counters))"

definition store_xof_4 :: "vec list \<Rightarrow> bytes" where
  "store_xof_4 v =
     (let a = transpose_vecs_128 (take 4 v); b = transpose_vecs_128 (take 4 (drop 4 v));
          c = transpose_vecs_128 (take 4 (drop 8 v)); d = transpose_vecs_128 (take 4 (drop 12 v)) in
      concat (map (\<lambda>i. storeu (a ! i) @ storeu (b ! i) @ storeu (c ! i) @ storeu (d ! i)) [0..<4]))"

definition avx512_unit4 :: xof_unit where
  "avx512_unit4 = \<lparr>vu_round = round_fn4, vu_xor = xor_si, vu_set1 = set1_epi32 4,
     vu_transpose_msg = transpose_msg_vecs_128, vu_load_counters = load_counters_epi64 4, vu_store = store_4, vu_store_xof = store_xof_4\<rparr>"

definition blake3_hash4_avx512 :: "bytes list \<Rightarrow> nat \<Rightarrow> u32 list \<Rightarrow> u64 \<Rightarrow> bool \<Rightarrow> byte \<Rightarrow> byte \<Rightarrow> byte \<Rightarrow> bytes" where
  "blake3_hash4_avx512 = hash_lanes avx512_unit4"

definition blake3_xof4_avx512 :: "u32 list \<Rightarrow> bytes \<Rightarrow> byte \<Rightarrow> u64 \<Rightarrow> byte \<Rightarrow> bytes" where
  "blake3_xof4_avx512 = xof_lanes avx512_unit4"

definition round_fn8 :: "vec list \<Rightarrow> vec list \<Rightarrow> nat \<Rightarrow> vec list" where
  "round_fn8 = vec_round avx512_ops8"

definition store_xof_8 :: "vec list \<Rightarrow> bytes" where
  "store_xof_8 v =
     (let a = transpose_vecs_256 (take 8 v); b = transpose_vecs_256 (take 8 (drop 8 v)) in
      concat (map (\<lambda>i. storeu (a ! i) @ storeu (b ! i)) [0..<8]))"

definition avx512_unit8 :: xof_unit where
  "avx512_unit8 = \<lparr>vu_round = round_fn8, vu_xor = xor_si, vu_set1 = set1_epi32 8,
     vu_transpose_msg = transpose_msg_vecs_256, vu_load_counters = load_counters_epi64 8, vu_store = store_8, vu_store_xof = store_xof_8\<rparr>"

definition blake3_hash8_avx512 :: "bytes list \<Rightarrow> nat \<Rightarrow> u32 list \<Rightarrow> u64 \<Rightarrow> bool \<Rightarrow> byte \<Rightarrow> byte \<Rightarrow> byte \<Rightarrow> bytes" where
  "blake3_hash8_avx512 = hash_lanes avx512_unit8"

definition blake3_xof8_avx512 :: "u32 list \<Rightarrow> bytes \<Rightarrow> byte \<Rightarrow> u64 \<Rightarrow> byte \<Rightarrow> bytes" where
  "blake3_xof8_avx512 = xof_lanes avx512_unit8"

section \<open>Sixteen lanes\<close>

definition round_fn16 :: "vec list \<Rightarrow> vec list \<Rightarrow> nat \<Rightarrow> vec list" where
  "round_fn16 = vec_round avx512_ops16"

text \<open>Groups of four lanes, selected by fields of the immediate.\<close>

definition shuffle_i32x4 :: "'a list \<Rightarrow> 'a list \<Rightarrow> nat \<Rightarrow> 'a list" where
  "shuffle_i32x4 a b imm =
     take 4 (drop (4 * field imm 0) a) @ take 4 (drop (4 * field imm 1) a) @
     take 4 (drop (4 * field imm 2) b) @ take 4 (drop (4 * field imm 3) b)"

definition unpack_lo_128 :: "'a list \<Rightarrow> 'a list \<Rightarrow> 'a list" where "unpack_lo_128 a b = shuffle_i32x4 a b 0x88"
definition unpack_hi_128 :: "'a list \<Rightarrow> 'a list \<Rightarrow> 'a list" where "unpack_hi_128 a b = shuffle_i32x4 a b 0xdd"

definition transpose_vecs_512 :: "'a list list \<Rightarrow> 'a list list" where
  "transpose_vecs_512 vecs =
     (let ab_0 = unpacklo_epi32 (vecs ! 0) (vecs ! 1);
          ab_2 = unpackhi_epi32 (vecs ! 0) (vecs ! 1);
          cd_0 = unpacklo_epi32 (vecs ! 2) (vecs ! 3);
          cd_2 = unpackhi_epi32 (vecs ! 2) (vecs ! 3);
          ef_0 = unpacklo_epi32 (vecs ! 4) (vecs ! 5);
          ef_2 = unpackhi_epi32 (vecs ! 4) (vecs ! 5);
          gh_0 = unpacklo_epi32 (vecs ! 6) (vecs ! 7);
          gh_2 = unpackhi_epi32 (vecs ! 6) (vecs ! 7);
          ij_0 = unpacklo_epi32 (vecs ! 8) (vecs ! 9);
          ij_2 = unpackhi_epi32 (vecs ! 8) (vecs ! 9);
          kl_0 = unpacklo_epi32 (vecs ! 10) (vecs ! 11);
          kl_2 = unpackhi_epi32 (vecs ! 10) (vecs ! 11);
          mn_0 = unpacklo_epi32 (vecs ! 12) (vecs ! 13);
          mn_2 = unpackhi_epi32 (vecs ! 12) (vecs ! 13);
          op_0 = unpacklo_epi32 (vecs ! 14) (vecs ! 15);
          op_2 = unpackhi_epi32 (vecs ! 14) (vecs ! 15);
          abcd_0 = unpacklo_epi64 ab_0 cd_0;
          abcd_1 = unpackhi_epi64 ab_0 cd_0;
          abcd_2 = unpacklo_epi64 ab_2 cd_2;
          abcd_3 = unpackhi_epi64 ab_2 cd_2;
          efgh_0 = unpacklo_epi64 ef_0 gh_0;
          efgh_1 = unpackhi_epi64 ef_0 gh_0;
          efgh_2 = unpacklo_epi64 ef_2 gh_2;
          efgh_3 = unpackhi_epi64 ef_2 gh_2;
          ijkl_0 = unpacklo_epi64 ij_0 kl_0;
          ijkl_1 = unpackhi_epi64 ij_0 kl_0;
          ijkl_2 = unpacklo_epi64 ij_2 kl_2;
          ijkl_3 = unpackhi_epi64 ij_2 kl_2;
          mnop_0 = unpacklo_epi64 mn_0 op_0;
          mnop_1 = unpackhi_epi64 mn_0 op_0;
          mnop_2 = unpacklo_epi64 mn_2 op_2;
          mnop_3 = unpackhi_epi64 mn_2 op_2;
          abcdefgh_0 = unpack_lo_128 abcd_0 efgh_0;
          abcdefgh_1 = unpack_lo_128 abcd_1 efgh_1;
          abcdefgh_2 = unpack_lo_128 abcd_2 efgh_2;
          abcdefgh_3 = unpack_lo_128 abcd_3 efgh_3;
          abcdefgh_4 = unpack_hi_128 abcd_0 efgh_0;
          abcdefgh_5 = unpack_hi_128 abcd_1 efgh_1;
          abcdefgh_6 = unpack_hi_128 abcd_2 efgh_2;
          abcdefgh_7 = unpack_hi_128 abcd_3 efgh_3;
          ijklmnop_0 = unpack_lo_128 ijkl_0 mnop_0;
          ijklmnop_1 = unpack_lo_128 ijkl_1 mnop_1;
          ijklmnop_2 = unpack_lo_128 ijkl_2 mnop_2;
          ijklmnop_3 = unpack_lo_128 ijkl_3 mnop_3;
          ijklmnop_4 = unpack_hi_128 ijkl_0 mnop_0;
          ijklmnop_5 = unpack_hi_128 ijkl_1 mnop_1;
          ijklmnop_6 = unpack_hi_128 ijkl_2 mnop_2;
          ijklmnop_7 = unpack_hi_128 ijkl_3 mnop_3 in
      [unpack_lo_128 abcdefgh_0 ijklmnop_0,
       unpack_lo_128 abcdefgh_1 ijklmnop_1,
       unpack_lo_128 abcdefgh_2 ijklmnop_2,
       unpack_lo_128 abcdefgh_3 ijklmnop_3,
       unpack_lo_128 abcdefgh_4 ijklmnop_4,
       unpack_lo_128 abcdefgh_5 ijklmnop_5,
       unpack_lo_128 abcdefgh_6 ijklmnop_6,
       unpack_lo_128 abcdefgh_7 ijklmnop_7,
       unpack_hi_128 abcdefgh_0 ijklmnop_0,
       unpack_hi_128 abcdefgh_1 ijklmnop_1,
       unpack_hi_128 abcdefgh_2 ijklmnop_2,
       unpack_hi_128 abcdefgh_3 ijklmnop_3,
       unpack_hi_128 abcdefgh_4 ijklmnop_4,
       unpack_hi_128 abcdefgh_5 ijklmnop_5,
       unpack_hi_128 abcdefgh_6 ijklmnop_6,
       unpack_hi_128 abcdefgh_7 ijklmnop_7])"

definition transpose_msg_vecs_512 :: "bytes list \<Rightarrow> nat \<Rightarrow> vec list" where
  "transpose_msg_vecs_512 inputs block_offset =
     transpose_vecs_512 (map (\<lambda>i. loadu 16 (drop block_offset (inputs ! i))) [0..<16])"

text \<open>The carry is 1 if the top bit of the low word is 1 before the addition and 0 after it.\<close>

definition load_counters16 :: "u64 \<Rightarrow> bool \<Rightarrow> vec \<times> vec" where
  "load_counters16 counter increment_counter =
     (let mask_v = set1_epi32 16 (if increment_counter then - 1 else 0);
          deltas = map of_nat [0..<16];
          masked_deltas = and_si deltas mask_v;
          low_words = add_epi32 (set1_epi32 16 (ucast counter)) masked_deltas;
          carries = srli_epi32 (andnot_si low_words (set1_epi32 16 (ucast counter))) 31;
          high_words = add_epi32 (set1_epi32 16 (ucast (drop_bit 32 counter))) carries in
      (low_words, high_words))"

text \<open>The eight registers are padded with zeros, and the lower half of each transposed register is stored.\<close>

definition store_16 :: "vec list \<Rightarrow> bytes" where
  "store_16 h_vecs =
     (let padded = transpose_vecs_512 (h_vecs @ replicate 8 (set1_epi32 16 0)) in
      concat (map (\<lambda>i. storeu (take 8 (padded ! i))) [0..<16]))"

definition store_xof_16 :: "vec list \<Rightarrow> bytes" where
  "store_xof_16 v = concat (map storeu (transpose_vecs_512 v))"

definition avx512_unit16 :: xof_unit where
  "avx512_unit16 = \<lparr>vu_round = round_fn16, vu_xor = xor_si, vu_set1 = set1_epi32 16,
     vu_transpose_msg = transpose_msg_vecs_512, vu_load_counters = load_counters16, vu_store = store_16, vu_store_xof = store_xof_16\<rparr>"

definition blake3_hash16_avx512 :: "bytes list \<Rightarrow> nat \<Rightarrow> u32 list \<Rightarrow> u64 \<Rightarrow> bool \<Rightarrow> byte \<Rightarrow> byte \<Rightarrow> byte \<Rightarrow> bytes" where
  "blake3_hash16_avx512 = hash_lanes avx512_unit16"

definition blake3_xof16_avx512 :: "u32 list \<Rightarrow> bytes \<Rightarrow> byte \<Rightarrow> u64 \<Rightarrow> byte \<Rightarrow> bytes" where
  "blake3_xof16_avx512 = xof_lanes avx512_unit16"

section \<open>The loops\<close>

definition hash_one_avx512 :: "bytes \<Rightarrow> nat \<Rightarrow> u32 list \<Rightarrow> u64 \<Rightarrow> byte \<Rightarrow> byte \<Rightarrow> byte \<Rightarrow> bytes" where
  "hash_one_avx512 = hash_one_with blake3_compress_in_place_avx512"

definition blake3_hash_many_avx512 :: "bytes list \<Rightarrow> nat \<Rightarrow> u32 list \<Rightarrow> u64 \<Rightarrow> bool \<Rightarrow> byte \<Rightarrow> byte \<Rightarrow> byte \<Rightarrow> bytes" where
  "blake3_hash_many_avx512 inputs blocks key counter increment_counter flags flags_start flags_end =
     (let (out16, inputs, counter) =
            hash_batches 16 (\<lambda>xs c. blake3_hash16_avx512 xs blocks key c increment_counter flags flags_start flags_end)
              inputs counter increment_counter;
          (out8, inputs, counter) =
            hash_batches 8 (\<lambda>xs c. blake3_hash8_avx512 xs blocks key c increment_counter flags flags_start flags_end)
              inputs counter increment_counter;
          (out4, inputs, counter) =
            hash_batches 4 (\<lambda>xs c. blake3_hash4_avx512 xs blocks key c increment_counter flags flags_start flags_end)
              inputs counter increment_counter in
      out16 @ out8 @ out4 @
      hash_rest (\<lambda>x c. hash_one_avx512 x blocks key c flags flags_start flags_end) inputs counter increment_counter)"

definition blake3_xof_many_avx512 :: "u32 list \<Rightarrow> bytes \<Rightarrow> byte \<Rightarrow> u64 \<Rightarrow> byte \<Rightarrow> nat \<Rightarrow> bytes" where
  "blake3_xof_many_avx512 cv block block_len counter flags outblocks =
     (let (out16, counter, outblocks) =
            xof_batches 16 (\<lambda>c. blake3_xof16_avx512 cv block block_len c flags) counter outblocks;
          (out8, counter, outblocks) =
            xof_batches 8 (\<lambda>c. blake3_xof8_avx512 cv block block_len c flags) counter outblocks;
          (out4, counter, outblocks) =
            xof_batches 4 (\<lambda>c. blake3_xof4_avx512 cv block block_len c flags) counter outblocks;
          (out1, counter, outblocks) =
            xof_batches 1 (\<lambda>c. blake3_compress_xof_avx512 cv block block_len c flags) counter outblocks in
      out16 @ out8 @ out4 @ out1)"

section \<open>Sixteen lanes are right\<close>

lemma length_16: "length x = 16 \<longleftrightarrow> (\<exists>a b c d e f g h i j k l m n p q. x = [a, b, c, d, e, f, g, h, i, j, k, l, m, n, p, q])"
  by (auto simp: numeral_eq_Suc length_Suc_conv)

lemma lanes_16: "[0..<16] = [0, 1, 2, 3, 4, 5, 6, 7, 8, 9, 10, 11, 12, 13, 14, 15 :: nat]"
  by code_simp

lemma unpack_16:
  "length a = 16 \<Longrightarrow> length b = 16 \<Longrightarrow> unpacklo_epi32 a b = [a ! 0, b ! 0, a ! 1, b ! 1, a ! 4, b ! 4, a ! 5, b ! 5, a ! 8, b ! 8, a ! 9, b ! 9, a ! 12, b ! 12, a ! 13, b ! 13]"
  "length a = 16 \<Longrightarrow> length b = 16 \<Longrightarrow> unpackhi_epi32 a b = [a ! 2, b ! 2, a ! 3, b ! 3, a ! 6, b ! 6, a ! 7, b ! 7, a ! 10, b ! 10, a ! 11, b ! 11, a ! 14, b ! 14, a ! 15, b ! 15]"
  "length a = 16 \<Longrightarrow> length b = 16 \<Longrightarrow> unpacklo_epi64 a b = [a ! 0, a ! 1, b ! 0, b ! 1, a ! 4, a ! 5, b ! 4, b ! 5, a ! 8, a ! 9, b ! 8, b ! 9, a ! 12, a ! 13, b ! 12, b ! 13]"
  "length a = 16 \<Longrightarrow> length b = 16 \<Longrightarrow> unpackhi_epi64 a b = [a ! 2, a ! 3, b ! 2, b ! 3, a ! 6, a ! 7, b ! 6, b ! 7, a ! 10, a ! 11, b ! 10, b ! 11, a ! 14, a ! 15, b ! 14, b ! 15]"
  by (auto simp: length_16)

lemma unpack_128_16:
  "length a = 16 \<Longrightarrow> length b = 16 \<Longrightarrow> unpack_lo_128 a b = [a ! 0, a ! 1, a ! 2, a ! 3, a ! 8, a ! 9, a ! 10, a ! 11, b ! 0, b ! 1, b ! 2, b ! 3, b ! 8, b ! 9, b ! 10, b ! 11]"
  "length a = 16 \<Longrightarrow> length b = 16 \<Longrightarrow> unpack_hi_128 a b = [a ! 4, a ! 5, a ! 6, a ! 7, a ! 12, a ! 13, a ! 14, a ! 15, b ! 4, b ! 5, b ! 6, b ! 7, b ! 12, b ! 13, b ! 14, b ! 15]"
  by (auto simp: length_16 unpack_lo_128_def unpack_hi_128_def shuffle_i32x4_def field_def)

lemma transpose_512:
  assumes "wide 16 vecs" "length vecs = 16"
  shows "transpose_vecs_512 vecs = map (\<lambda>j. lane j vecs) [0..<16]"
proof -
  obtain a b c d e f g h i j k l m n p q where v: "vecs = [a, b, c, d, e, f, g, h, i, j, k, l, m, n, p, q]"
    using assms(2) unfolding length_16 by blast
  then have len: "length a = 16" "length b = 16" "length c = 16" "length d = 16" "length e = 16" "length f = 16" "length g = 16" "length h = 16" "length i = 16" "length j = 16" "length k = 16" "length l = 16" "length m = 16" "length n = 16" "length p = 16" "length q = 16"
    using assms(1) by simp_all
  show ?thesis by (simp add: v transpose_vecs_512_def Let_def unpack_16 unpack_128_16 len lanes_16)
qed

lemma transpose_msg_512:
  assumes "length inputs = 16"
  shows "transpose_msg_vecs_512 inputs off = map (\<lambda>i. map (\<lambda>x. load32 (drop (off + 4 * i) x)) inputs) [0..<16]"
  unfolding transpose_msg_vecs_512_def
proof (subst transpose_512)
  show "map (\<lambda>j. lane j (map (\<lambda>i. loadu 16 (drop off (inputs ! i))) [0..<16])) [0..<16] =
      map (\<lambda>i. map (\<lambda>x. load32 (drop (off + 4 * i) x)) inputs) [0..<16]"
    using assms by (intro map_cong refl nth_equalityI) (simp_all add: loadu_def add.commute)
qed (auto simp: wide_def loadu_def)

lemma store_16_lanes:
  assumes "length hs = 8" "wide 16 hs"
  shows "store_16 hs = concat (map (\<lambda>j. storeu (lane j hs)) [0..<16])"
proof -
  let ?p = "hs @ replicate 8 (set1_epi32 16 0)"
  have "wide 16 ?p" "length ?p = 16" using assms by (auto simp: wide_def set1_epi32_def)
  then have "transpose_vecs_512 ?p = map (\<lambda>j. lane j ?p) [0..<16]" by (rule transpose_512)
  then show ?thesis using assms(1) unfolding store_16_def Let_def
    by (intro arg_cong [of _ _ concat] map_cong refl) simp
qed

lemma store_xof_lanes:
  assumes "length v = 16"
  shows "wide 4 v \<Longrightarrow> store_xof_4 v = concat (map (\<lambda>j. storeu (lane j v)) [0..<4])"
    and "wide 8 v \<Longrightarrow> store_xof_8 v = concat (map (\<lambda>j. storeu (lane j v)) [0..<8])"
    and "wide 16 v \<Longrightarrow> store_xof_16 v = concat (map (\<lambda>j. storeu (lane j v)) [0..<16])"
proof -
  have parts: "wide n v \<Longrightarrow> wide n (take k (drop m v))" for n k m
    by (auto simp: wide_def dest: in_set_takeD in_set_dropD)
  have four: "v = take 4 (drop 0 v) @ take 4 (drop 4 v) @ take 4 (drop 8 v) @ take 4 (drop 12 v)"
    and two: "v = take 8 (drop 0 v) @ take 8 (drop 8 v)"
    using assms by (simp_all add: append_assoc [symmetric] take_add [symmetric] del: append_assoc)
  have t4: "wide 4 v \<Longrightarrow> m \<le> 12 \<Longrightarrow>
      transpose_vecs_128 (take 4 (drop m v)) = map (\<lambda>j. lane j (take 4 (drop m v))) [0..<4]" for m
    using assms by (intro transpose_128 parts) simp_all
  have t8: "wide 8 v \<Longrightarrow> m \<le> 8 \<Longrightarrow>
      transpose_vecs_256 (take 8 (drop m v)) = map (\<lambda>j. lane j (take 8 (drop m v))) [0..<8]" for m
    using assms by (intro transpose_256 parts) simp_all
  have l4: "storeu (lane j v) = storeu (lane j (take 4 (drop 0 v))) @ storeu (lane j (take 4 (drop 4 v))) @
      storeu (lane j (take 4 (drop 8 v))) @ storeu (lane j (take 4 (drop 12 v)))" for j
    by (subst four) (simp only: lane_simps storeu_def map_append concat_append)
  have l8: "storeu (lane j v) = storeu (lane j (take 8 (drop 0 v))) @ storeu (lane j (take 8 (drop 8 v)))" for j
    by (subst two) (simp only: lane_simps storeu_def map_append concat_append)
  show "wide 4 v \<Longrightarrow> store_xof_4 v = concat (map (\<lambda>j. storeu (lane j v)) [0..<4])"
    unfolding store_xof_4_def Let_def l4 using t4 [of 0] t4 [of 4] t4 [of 8] t4 [of 12]
    by (intro arg_cong [of _ _ concat] map_cong refl) simp
  show "wide 8 v \<Longrightarrow> store_xof_8 v = concat (map (\<lambda>j. storeu (lane j v)) [0..<8])"
    unfolding store_xof_8_def Let_def l8 using t8 [of 0] t8 [of 8]
    by (intro arg_cong [of _ _ concat] map_cong refl) simp
  show "wide 16 v \<Longrightarrow> store_xof_16 v = concat (map (\<lambda>j. storeu (lane j v)) [0..<16])"
    using assms by (simp add: store_xof_16_def transpose_512 comp_def)
qed

lemma counters_epi64:
  "load_counters_epi64 n c inc =
    (map (\<lambda>j. counter_low (lane_counter c inc j)) [0..<n], map (\<lambda>j. counter_high (lane_counter c inc j)) [0..<n])"
  by (simp add: load_counters_epi64_def Let_def comp_def counter_low_def counter_high_def lane_counter_def)

text \<open>Adding less than 16 carries exactly when the top bit falls.\<close>

lemma top_bit: "bit w 31 \<longleftrightarrow> 2 ^ 31 \<le> unat w" for w :: u32
proof -
  have "bit w 31 \<longleftrightarrow> bit (unat w) 31" by (simp add: bit_unsigned_iff)
  then have "bit w 31 \<longleftrightarrow> odd (unat w div 2 ^ 31)" by (simp only: bit_iff_odd)
  moreover have "unat w < 2 ^ 32" using unsigned_less [of w] by simp
  then have "unat w div 2 ^ 31 < 2" by (simp add: less_mult_imp_div_less)
  then have "unat w div 2 ^ 31 = 0 \<or> unat w div 2 ^ 31 = 1" by auto
  then have "odd (unat w div 2 ^ 31) \<longleftrightarrow> unat w div 2 ^ 31 \<noteq> 0" by auto
  ultimately show ?thesis by (simp add: div_eq_0_iff not_less)
qed

lemma drop_bit_31: "drop_bit 31 w = (if bit w 31 then 1 else 0)" for w :: u32
proof (rule bit_word_eqI)
  fix n assume "n < LENGTH(32)"
  show "bit (drop_bit 31 w) n \<longleftrightarrow> bit (if bit w 31 then 1 else 0 :: u32) n"
    using bit_imp_le_length [of w "31 + n"] by (cases "n = 0") (auto simp: bit_simps)
qed

lemma top_bit_falls:
  fixes x :: u32
  assumes "j < 16"
  shows "drop_bit 31 (NOT (x + of_nat j) AND x) = (if x + of_nat j < of_nat j then 1 else 0)"
proof -
  have x: "unat x < 2 ^ 32" using unsigned_less [of x] by simp
  have j: "unat (of_nat j :: u32) = j" using assms by (simp add: unat_of_nat)
  have y: "unat (x + of_nat j) = (if unat x + j < 2 ^ 32 then unat x + j else unat x + j - 2 ^ 32)"
    using x assms by (simp add: unat_word_ariths j le_mod_geq not_less)
  have "(bit x 31 \<and> \<not> bit (x + of_nat j) 31) \<longleftrightarrow> x + of_nat j < of_nat j"
    unfolding top_bit word_less_nat_alt j y using x assms by auto
  then show ?thesis by (auto simp: drop_bit_31 bit_and_iff bit_not_iff)
qed

lemma counters_16:
  "load_counters16 c inc =
    (map (\<lambda>j. counter_low (lane_counter c inc j)) [0..<16], map (\<lambda>j. counter_high (lane_counter c inc j)) [0..<16])"
proof -
  let ?d = "\<lambda>j. of_nat j AND (if inc then - 1 else 0) :: u32"
  have d: "?d j = (if inc then of_nat j else 0)" for j by simp
  have low: "ucast c + ?d j = counter_low (lane_counter c inc j)" for j
    unfolding d by (simp add: lane_counter_def counter_low_add) (simp add: counter_low_def)
  have high: "ucast (drop_bit 32 c) + drop_bit 31 (NOT (ucast c + ?d j) AND ucast c) = counter_high (lane_counter c inc j)"
    if "j < 16" for j
  proof -
    have "j < 2 ^ 32" using that by simp
    from counter_high_add [OF this, of c] top_bit_falls [OF that, of "ucast c"] show ?thesis
      unfolding d by (cases inc) (simp_all add: lane_counter_def counter_low_def counter_high_def)
  qed
  have "fst (load_counters16 c inc) = map (\<lambda>j. counter_low (lane_counter c inc j)) [0..<16]"
    by (intro nth_equalityI)
      (simp_all add: load_counters16_def Let_def add_epi32_def and_si_def set1_epi32_def low [symmetric])
  moreover have "snd (load_counters16 c inc) = map (\<lambda>j. counter_high (lane_counter c inc j)) [0..<16]"
    by (intro nth_equalityI)
      (simp_all add: load_counters16_def Let_def add_epi32_def and_si_def set1_epi32_def srli_epi32_def andnot_si_def
        high [symmetric])
  ultimately show ?thesis by (simp add: prod_eq_iff)
qed

section \<open>The file computes what the portable code computes\<close>

lemmas avx512_op_defs = avx512_ops4_def avx512_ops8_def avx512_ops16_def add_epi32_def xor_si_def ror_epi32_def
  rot16_128_def rot12_128_def rot8_128_def rot7_128_def rot16_256_def rot12_256_def rot8_256_def rot7_256_def
  rot16_512_def rot12_512_def rot8_512_def rot7_512_def

interpretation avx512: row_unit avx512_ops4 blend_epi16
  by unfold_locales (simp_all add: avx512_op_defs rotr32_word blend_lanes)

interpretation avx512_4: xof_vector_unit avx512_ops4 4 avx512_unit4
  by unfold_locales (simp_all add: avx512_unit4_def round_fn4_def avx512_ops4_def set1_epi32_def transpose_msg_128
      counters_epi64 store_4_lanes store_xof_lanes)

interpretation avx512_8: xof_vector_unit avx512_ops8 8 avx512_unit8
  by unfold_locales (simp_all add: avx512_op_defs rotr32_word avx512_unit8_def round_fn8_def set1_epi32_def transpose_msg_256
      counters_epi64 store_8_lanes store_xof_lanes)

interpretation avx512_16: xof_vector_unit avx512_ops16 16 avx512_unit16
  by unfold_locales (simp_all add: avx512_op_defs rotr32_word avx512_unit16_def round_fn16_def set1_epi32_def
      transpose_msg_512 counters_16 store_16_lanes store_xof_lanes)

lemma avx512_compress:
  assumes "length cv = 8"
  shows "blake3_compress_in_place_avx512 cv block len c fl = blake3_compress_in_place cv block len c fl"
    "blake3_compress_xof_avx512 cv block len c fl = blake3_compress_xof cv block len c fl"
  using assms by (simp_all add: blake3_compress_in_place_avx512_def blake3_compress_xof_avx512_def compress_pre_avx512_def
      avx512.rows_portable)

lemma hash_many_avx512:
  assumes "length key = 8" "\<forall>x \<in> set inputs. 64 * blocks \<le> length x"
  shows "blake3_hash_many_avx512 inputs blocks key counter inc fl fs fe = blake3_hash_many inputs blocks key counter inc fl fs fe"
proof -
  let ?f16 = "\<lambda>xs c. blake3_hash16_avx512 xs blocks key c inc fl fs fe"
  let ?f8 = "\<lambda>xs c. blake3_hash8_avx512 xs blocks key c inc fl fs fe"
  let ?f4 = "\<lambda>xs c. blake3_hash4_avx512 xs blocks key c inc fl fs fe"
  obtain o1 r1 c1 where b1: "hash_batches 16 ?f16 inputs counter inc = (o1, r1, c1)"
    by (cases "hash_batches 16 ?f16 inputs counter inc") auto
  obtain o2 r2 c2 where b2: "hash_batches 8 ?f8 r1 c1 inc = (o2, r2, c2)" by (cases "hash_batches 8 ?f8 r1 c1 inc") auto
  obtain o3 r3 c3 where b3: "hash_batches 4 ?f4 r2 c2 inc = (o3, r3, c3)" by (cases "hash_batches 4 ?f4 r2 c2 inc") auto
  have f: "length xs = 16 \<Longrightarrow> set xs \<subseteq> set inputs \<Longrightarrow> ?f16 xs c = blake3_hash_many xs blocks key c inc fl fs fe"
    "length xs = 8 \<Longrightarrow> set xs \<subseteq> set inputs \<Longrightarrow> ?f8 xs c = blake3_hash_many xs blocks key c inc fl fs fe"
    "length xs = 4 \<Longrightarrow> set xs \<subseteq> set inputs \<Longrightarrow> ?f4 xs c = blake3_hash_many xs blocks key c inc fl fs fe" for xs c
    unfolding blake3_hash16_avx512_def blake3_hash8_avx512_def blake3_hash4_avx512_def using assms
    by (auto intro!: avx512_16.hash_lanes_portable avx512_8.hash_lanes_portable avx512_4.hash_lanes_portable)
  note p1 = hash_batches_portable [OF f(1) b1]
  have p2: "o2 @ blake3_hash_many r2 blocks key c2 inc fl fs fe = blake3_hash_many r1 blocks key c1 inc fl fs fe \<and> set r2 \<subseteq> set r1"
    by (rule hash_batches_portable [OF _ b2]) (use p1 in \<open>auto intro!: f(2)\<close>)
  have p3: "o3 @ blake3_hash_many r3 blocks key c3 inc fl fs fe = blake3_hash_many r2 blocks key c2 inc fl fs fe \<and> set r3 \<subseteq> set r2"
    by (rule hash_batches_portable [OF _ b3]) (use p1 p2 in \<open>auto intro!: f(3)\<close>)
  have "hash_rest (\<lambda>x c. hash_one_avx512 x blocks key c fl fs fe) r3 c3 inc = blake3_hash_many r3 blocks key c3 inc fl fs fe"
    unfolding hash_one_avx512_def
    by (intro hash_rest_portable hash_one_with_portable avx512_compress assms(1))
  then show ?thesis using p1 p2 p3 by (simp add: blake3_hash_many_avx512_def b1 b2 b3)
qed

lemma xof_many_avx512:
  assumes "length cv = 8"
  shows "blake3_xof_many_avx512 cv block len counter fl n = blake3_xof_many cv block len counter fl n"
proof -
  let ?f16 = "\<lambda>c. blake3_xof16_avx512 cv block len c fl"
  let ?f8 = "\<lambda>c. blake3_xof8_avx512 cv block len c fl"
  let ?f4 = "\<lambda>c. blake3_xof4_avx512 cv block len c fl"
  let ?f1 = "\<lambda>c. blake3_compress_xof_avx512 cv block len c fl"
  obtain o1 c1 n1 where b1: "xof_batches 16 ?f16 counter n = (o1, c1, n1)" by (cases "xof_batches 16 ?f16 counter n") auto
  obtain o2 c2 n2 where b2: "xof_batches 8 ?f8 c1 n1 = (o2, c2, n2)" by (cases "xof_batches 8 ?f8 c1 n1") auto
  obtain o3 c3 n3 where b3: "xof_batches 4 ?f4 c2 n2 = (o3, c3, n3)" by (cases "xof_batches 4 ?f4 c2 n2") auto
  obtain o4 c4 n4 where b4: "xof_batches 1 ?f1 c3 n3 = (o4, c4, n4)" by (cases "xof_batches 1 ?f1 c3 n3") auto
  have f: "?f16 c = blake3_xof_many cv block len c fl 16" "?f8 c = blake3_xof_many cv block len c fl 8"
    "?f4 c = blake3_xof_many cv block len c fl 4" "?f1 c = blake3_xof_many cv block len c fl 1" for c
    using assms by (simp_all add: blake3_xof16_avx512_def blake3_xof8_avx512_def blake3_xof4_avx512_def
        avx512_16.xof_lanes_portable avx512_8.xof_lanes_portable avx512_4.xof_lanes_portable avx512_compress(2)
        blake3_xof_many_def)
  have "n4 = 0"
    using b4 by (induction "1 :: nat" ?f1 c3 n3 arbitrary: o4 rule: xof_batches.induct)
      (subst (asm) xof_batches.simps, auto split: if_splits prod.splits)
  then have "o4 = blake3_xof_many cv block len c3 fl n3"
    using xof_batches_portable [OF f(4) b4] by (simp add: blake3_xof_many_def)
  then show ?thesis
    using xof_batches_portable [OF f(1) b1] xof_batches_portable [OF f(2) b2] xof_batches_portable [OF f(3) b3]
    by (simp add: blake3_xof_many_avx512_def b1 b2 b3 b4 b4 [unfolded One_nat_def])
qed

end
