(* ===== verification/Blake3Neon.thy ===== *)
theory Blake3Neon
  imports Blake3Sse
begin

text \<open>
  \<open>libs/blake3/blake3_neon.c\<close>: registers of four lanes on 64-bit ARM. It hashes four inputs at once; a single block is
  compressed by the portable code.
\<close>

section \<open>Intrinsics and operations\<close>

text \<open>\<open>vrev32q_u16\<close> swaps the halves of every lane; \<open>vsriq_n_u32\<close> shifts its second operand to the right into the first.\<close>

fun vrev32q_u16 :: "'a list \<Rightarrow> 'a list" where
  "vrev32q_u16 (a # b # r) = b # a # vrev32q_u16 r"
| "vrev32q_u16 _ = []"

definition vsriq_n_u32 :: "vec \<Rightarrow> vec \<Rightarrow> nat \<Rightarrow> vec" where
  "vsriq_n_u32 a b n = map2 (\<lambda>x y. (x AND NOT (mask (32 - n))) OR drop_bit n y) a b"

definition rot16_neon :: "vec \<Rightarrow> vec" where
  "rot16_neon x = of_halves (vrev32q_u16 (halves x))"

definition rot12_neon :: "vec \<Rightarrow> vec" where
  "rot12_neon x = vsriq_n_u32 (slli_epi32 x (32 - 12)) x 12"

text \<open>With the shuffle of bytes both supported compilers have.\<close>

definition rot8_neon :: "vec \<Rightarrow> vec" where
  "rot8_neon x = bytes_vec (map (\<lambda>i. storeu x ! i) [1, 2, 3, 0, 5, 6, 7, 4, 9, 10, 11, 8, 13, 14, 15, 12])"

definition rot7_neon :: "vec \<Rightarrow> vec" where
  "rot7_neon x = vsriq_n_u32 (slli_epi32 x (32 - 7)) x 7"

definition neon_ops :: "vec vec_ops" where
  "neon_ops = \<lparr>v_add = add_epi32, v_xor = xor_si, v_rot16 = rot16_neon, v_rot12 = rot12_neon,
     v_rot8 = rot8_neon, v_rot7 = rot7_neon\<rparr>"

definition round_fn4_neon :: "vec list \<Rightarrow> vec list \<Rightarrow> nat \<Rightarrow> vec list" where
  "round_fn4_neon = vec_round neon_ops"

text \<open>The two results of \<open>vtrnq_u32\<close>.\<close>

definition vtrnq_u32 :: "'a list \<Rightarrow> 'a list \<Rightarrow> 'a list \<times> 'a list" where
  "vtrnq_u32 a b = ([a ! 0, b ! 0, a ! 2, b ! 2], [a ! 1, b ! 1, a ! 3, b ! 3])"

definition transpose_vecs_neon :: "'a list list \<Rightarrow> 'a list list" where
  "transpose_vecs_neon vecs =
     (let rows01 = vtrnq_u32 (vecs ! 0) (vecs ! 1);
          rows23 = vtrnq_u32 (vecs ! 2) (vecs ! 3) in
      [take 2 (fst rows01) @ take 2 (fst rows23), take 2 (snd rows01) @ take 2 (snd rows23),
       drop 2 (fst rows01) @ drop 2 (fst rows23), drop 2 (snd rows01) @ drop 2 (snd rows23)])"

definition transpose_msg_vecs4_neon :: "bytes list \<Rightarrow> nat \<Rightarrow> vec list" where
  "transpose_msg_vecs4_neon inputs block_offset =
     concat (map (\<lambda>k. transpose_vecs_neon (map (\<lambda>i. loadu 4 (drop (block_offset + k * 16) (inputs ! i))) [0..<4])) [0..<4])"

definition load_counters4_neon :: "u64 \<Rightarrow> bool \<Rightarrow> vec \<times> vec" where
  "load_counters4_neon counter increment_counter =
     (let mask_v = (if increment_counter then NOT 0 else 0) in
      ([counter_low (counter + (mask_v AND 0)), counter_low (counter + (mask_v AND 1)),
        counter_low (counter + (mask_v AND 2)), counter_low (counter + (mask_v AND 3))],
       [counter_high (counter + (mask_v AND 0)), counter_high (counter + (mask_v AND 1)),
        counter_high (counter + (mask_v AND 2)), counter_high (counter + (mask_v AND 3))]))"

definition store_neon :: "vec list \<Rightarrow> bytes" where
  "store_neon h_vecs =
     (let a = transpose_vecs_neon (take 4 h_vecs); b = transpose_vecs_neon (take 4 (drop 4 h_vecs)) in
      storeu (a ! 0) @ storeu (b ! 0) @ storeu (a ! 1) @ storeu (b ! 1) @
      storeu (a ! 2) @ storeu (b ! 2) @ storeu (a ! 3) @ storeu (b ! 3))"

definition neon_unit :: vec_unit where
  "neon_unit = \<lparr>vu_round = round_fn4_neon, vu_xor = xor_si, vu_set1 = set1_epi32 4,
     vu_transpose_msg = transpose_msg_vecs4_neon, vu_load_counters = load_counters4_neon, vu_store = store_neon\<rparr>"

section \<open>Hashing\<close>

definition blake3_hash4_neon ::
  "bytes list \<Rightarrow> nat \<Rightarrow> u32 list \<Rightarrow> u64 \<Rightarrow> bool \<Rightarrow> byte \<Rightarrow> byte \<Rightarrow> byte \<Rightarrow> bytes" where
  "blake3_hash4_neon = hash_lanes neon_unit"

definition hash_one_neon :: "bytes \<Rightarrow> nat \<Rightarrow> u32 list \<Rightarrow> u64 \<Rightarrow> byte \<Rightarrow> byte \<Rightarrow> byte \<Rightarrow> bytes" where
  "hash_one_neon = hash_one_with blake3_compress_in_place"

definition blake3_hash_many_neon ::
  "bytes list \<Rightarrow> nat \<Rightarrow> u32 list \<Rightarrow> u64 \<Rightarrow> bool \<Rightarrow> byte \<Rightarrow> byte \<Rightarrow> byte \<Rightarrow> bytes" where
  "blake3_hash_many_neon inputs blocks key counter increment_counter flags flags_start flags_end =
     (case hash_batches 4 (\<lambda>xs c. blake3_hash4_neon xs blocks key c increment_counter flags flags_start flags_end)
         inputs counter increment_counter of (out, inputs, counter) \<Rightarrow>
       out @ hash_rest (\<lambda>x c. hash_one_neon x blocks key c flags flags_start flags_end) inputs counter increment_counter)"

section \<open>The file computes what the portable code computes\<close>

lemma transpose_neon: "wide 4 vecs \<Longrightarrow> length vecs = 4 \<Longrightarrow> transpose_vecs_neon vecs = transpose_vecs_128 vecs"
  by (auto simp: length_4 transpose_vecs_neon_def transpose_vecs_128_def vtrnq_u32_def)

lemma transpose_msg_neon:
  "length inputs = 4 \<Longrightarrow> transpose_msg_vecs4_neon inputs off =
    map (\<lambda>i. map (\<lambda>x. load32 (drop (off + 4 * i) x)) inputs) [0..<16]"
  unfolding transpose_msg_128 [symmetric] transpose_msg_vecs4_neon_def transpose_msg_vecs_128_def
  by (intro arg_cong [of _ _ concat] map_cong refl transpose_neon) (auto simp: wide_def loadu_def)

lemma store_neon_lanes:
  assumes "length hs = 8" "wide 4 hs"
  shows "store_neon hs = concat (map (\<lambda>j. storeu (lane j hs)) [0..<4])"
proof -
  have "wide 4 (take 4 hs)" "wide 4 (take 4 (drop 4 hs))"
    using assms by (auto simp: wide_def dest: in_set_takeD in_set_dropD)
  then show ?thesis using assms
    by (simp add: store_neon_def store_4_lanes [symmetric] store_4_def transpose_neon)
qed

lemma counters_neon:
  "load_counters4_neon c inc =
    (map (\<lambda>j. counter_low (lane_counter c inc j)) [0..<4], map (\<lambda>j. counter_high (lane_counter c inc j)) [0..<4])"
proof -
  have "[0..<4] = [0, 1, 2, 3 :: nat]" by code_simp
  then show ?thesis by (simp add: load_counters4_neon_def lane_counter_def)
qed

lemma rot_insert:
  "map2 (\<lambda>x y. (x AND NOT (mask 20)) OR drop_bit 12 y) (slli_epi32 x 20) x = map (\<lambda>w. rotr32 w 12) x"
  "map2 (\<lambda>x y. (x AND NOT (mask 25)) OR drop_bit 7 y) (slli_epi32 x 25) x = map (\<lambda>w. rotr32 w 7) x"
proof -
  have insert: "(push_bit k w AND NOT (mask k)) OR drop_bit n w = drop_bit n w OR push_bit k w" for w :: u32 and k n
    by (rule bit_word_eqI) (auto simp: bit_simps)
  show "map2 (\<lambda>x y. (x AND NOT (mask 20)) OR drop_bit 12 y) (slli_epi32 x 20) x = map (\<lambda>w. rotr32 w 12) x"
    "map2 (\<lambda>x y. (x AND NOT (mask 25)) OR drop_bit 7 y) (slli_epi32 x 25) x = map (\<lambda>w. rotr32 w 7) x"
    by (intro nth_equalityI; simp add: slli_epi32_def insert rotr32_def)+
qed

lemma rot_neon:
  "length x = 4 \<Longrightarrow> rot16_neon x = map (\<lambda>w. rotr32 w 16) x" "length x = 4 \<Longrightarrow> rot8_neon x = map (\<lambda>w. rotr32 w 8) x"
  by (auto simp: length_4 rot16_neon_def rot8_neon_def halves_def halves_rotated bytes_of_word store32_def load_rotated)

interpretation neon_lanes: vector_unit neon_ops 4 neon_unit
  by unfold_locales (simp_all add: neon_ops_def neon_unit_def round_fn4_neon_def add_epi32_def xor_si_def rot_neon
      rot12_neon_def rot7_neon_def vsriq_n_u32_def rot_insert set1_epi32_def transpose_msg_neon counters_neon store_neon_lanes)

lemma hash_many_neon:
  assumes "length key = 8" "\<forall>x \<in> set inputs. 64 * blocks \<le> length x"
  shows "blake3_hash_many_neon inputs blocks key counter inc fl fs fe = blake3_hash_many inputs blocks key counter inc fl fs fe"
  unfolding blake3_hash_many_neon_def blake3_hash4_neon_def hash_one_neon_def
  by (rule hash_many_loops) (use assms in \<open>auto intro!: neon_lanes.hash_lanes_portable hash_one_with_portable\<close>)

end
