(* ===== verification/Blake3Dispatch.thy ===== *)
theory Blake3Dispatch
  imports Blake3Avx512 Blake3Neon Blake3Tree
begin

text \<open>
  \<open>libs/blake3/blake3_dispatch.c\<close>: which implementation a call runs. The library asks the processor once what it
  can do, remembers the answer, and each entry point picks the widest implementation that is built and
  that the processor has. The answers of the instructions \<open>cpuid\<close> and \<open>xgetbv\<close> are a parameter. Here the choice is
  shown not to matter: every branch computes what the portable functions compute. The names stand for the C files;
  a build for x86-64 can link hand-written assembly under the same names instead, which is outside the model.
\<close>

section \<open>What the processor can do\<close>

text \<open>\<open>cpuid\<close> fills \<open>eax\<close>, \<open>ebx\<close>, \<open>ecx\<close> and \<open>edx\<close>.\<close>

type_synonym cpuid_regs = "u32 \<times> u32 \<times> u32 \<times> u32"

record processor =
  cpuid :: "u32 \<Rightarrow> cpuid_regs"
  cpuidex :: "u32 \<Rightarrow> u32 \<Rightarrow> cpuid_regs"
  xgetbv :: u64

definition no_features :: cpu_features where
  "no_features = \<lparr>SSE2 = False, SSSE3 = False, SSE41 = False, AVX = False, AVX2 = False, AVX512F = False,
     AVX512VL = False\<rparr>"

text \<open>
  \<open>max_id\<close> is a signed \<open>int\<close>. The wide registers count only when the operating system saves them, which \<open>xgetbv\<close> tells.
\<close>

definition detect_features :: "bool \<Rightarrow> processor \<Rightarrow> cpu_features" where
  "detect_features is_amd64 p =
     (let (max_id, _, _, _) = cpuid p 0;
          (_, _, ecx, edx) = cpuid p 1;
          features = no_features\<lparr>SSE2 := is_amd64 \<or> edx AND push_bit 26 1 \<noteq> 0,
            SSSE3 := ecx AND push_bit 9 1 \<noteq> 0, SSE41 := ecx AND push_bit 19 1 \<noteq> 0\<rparr> in
      if ecx AND push_bit 27 1 \<noteq> 0 \<and> xgetbv p AND 6 = 6
      then
        let features = features\<lparr>AVX := ecx AND push_bit 28 1 \<noteq> 0\<rparr> in
        if sint max_id \<ge> 7
        then
          let (_, ebx, _, _) = cpuidex p 7 0;
              features = features\<lparr>AVX2 := ebx AND push_bit 5 1 \<noteq> 0\<rparr> in
          if xgetbv p AND 224 = 224
          then features\<lparr>AVX512VL := ebx AND push_bit 31 1 \<noteq> 0, AVX512F := ebx AND push_bit 16 1 \<noteq> 0\<rparr>
          else features
        else features
      else features)"

text \<open>
  \<open>g_cpu_features\<close> is \<open>None\<close> while it is \<open>UNDEFINED\<close>. The function returns its new value too. Outside x86 it
  returns no bits and stores nothing.
\<close>

definition get_cpu_features ::
  "blake3_build \<Rightarrow> processor \<Rightarrow> cpu_features option \<Rightarrow> cpu_features \<times> cpu_features option" where
  "get_cpu_features build p g_cpu_features =
     (case g_cpu_features of
        Some features \<Rightarrow> (features, g_cpu_features)
      | None \<Rightarrow>
          (case build of
             X86 is_amd64 _ \<Rightarrow> let features = detect_features is_amd64 p in (features, Some features)
           | _ \<Rightarrow> (no_features, None)))"

section \<open>The entry points\<close>

text \<open>The features are those \<open>get_cpu_features\<close> returned, on x86 only; \<open>BLAKE3_USE_NEON\<close> is the build \<open>Neon\<close>.\<close>

definition dispatch_compress_in_place :: "blake3_build \<Rightarrow> cpu_features \<Rightarrow> compression" where
  "dispatch_compress_in_place build features cv block block_len counter flags =
     (if is_X86 build \<and> AVX512VL features then blake3_compress_in_place_avx512 cv block block_len counter flags
      else if is_X86 build \<and> SSE41 features then blake3_compress_in_place_sse41 cv block block_len counter flags
      else if is_X86 build \<and> SSE2 features then blake3_compress_in_place_sse2 cv block block_len counter flags
      else blake3_compress_in_place cv block block_len counter flags)"

definition dispatch_compress_xof ::
  "blake3_build \<Rightarrow> cpu_features \<Rightarrow> u32 list \<Rightarrow> bytes \<Rightarrow> byte \<Rightarrow> u64 \<Rightarrow> byte \<Rightarrow> bytes" where
  "dispatch_compress_xof build features cv block block_len counter flags =
     (if is_X86 build \<and> AVX512VL features then blake3_compress_xof_avx512 cv block block_len counter flags
      else if is_X86 build \<and> SSE41 features then blake3_compress_xof_sse41 cv block block_len counter flags
      else if is_X86 build \<and> SSE2 features then blake3_compress_xof_sse2 cv block block_len counter flags
      else blake3_compress_xof cv block block_len counter flags)"

definition dispatch_xof_many ::
  "blake3_build \<Rightarrow> cpu_features \<Rightarrow> u32 list \<Rightarrow> bytes \<Rightarrow> byte \<Rightarrow> u64 \<Rightarrow> byte \<Rightarrow> nat \<Rightarrow> bytes" where
  "dispatch_xof_many build features cv block block_len counter flags outblocks =
     (if outblocks = 0 then []
      else if is_X86 build \<and> \<not> windows build \<and> AVX512VL features
      then blake3_xof_many_avx512 cv block block_len counter flags outblocks
      else concat (map (\<lambda>i. dispatch_compress_xof build features cv block block_len (counter + of_nat i) flags)
        [0..<outblocks]))"

definition dispatch_hash_many ::
  "blake3_build \<Rightarrow> cpu_features \<Rightarrow> bytes list \<Rightarrow> nat \<Rightarrow> u32 list \<Rightarrow> u64 \<Rightarrow> bool \<Rightarrow> byte \<Rightarrow> byte \<Rightarrow> byte \<Rightarrow> bytes" where
  "dispatch_hash_many build features inputs blocks key counter increment_counter flags flags_start flags_end =
     (if is_X86 build \<and> AVX512F features \<and> AVX512VL features
      then blake3_hash_many_avx512 inputs blocks key counter increment_counter flags flags_start flags_end
      else if is_X86 build \<and> AVX2 features
      then blake3_hash_many_avx2 inputs blocks key counter increment_counter flags flags_start flags_end
      else if is_X86 build \<and> SSE41 features
      then blake3_hash_many_sse41 inputs blocks key counter increment_counter flags flags_start flags_end
      else if is_X86 build \<and> SSE2 features
      then blake3_hash_many_sse2 inputs blocks key counter increment_counter flags flags_start flags_end
      else if build = Neon
      then blake3_hash_many_neon inputs blocks key counter increment_counter flags flags_start flags_end
      else blake3_hash_many inputs blocks key counter increment_counter flags flags_start flags_end)"

section \<open>The choice does not matter\<close>

text \<open>However often it is asked, by whichever thread first, the answer is the same.\<close>

definition detected :: "blake3_build \<Rightarrow> processor \<Rightarrow> cpu_features" where
  "detected build p = (case build of X86 is_amd64 _ \<Rightarrow> detect_features is_amd64 p | _ \<Rightarrow> no_features)"

lemma features_cached:
  assumes "g \<in> {None, Some (detected build p)}"
  shows "fst (get_cpu_features build p g) = detected build p"
    and "snd (get_cpu_features build p g) \<in> {None, Some (detected build p)}"
  using assms by (auto simp: get_cpu_features_def detected_def Let_def split: blake3_build.splits)

lemma dispatch_compress:
  assumes "length cv = 8"
  shows "dispatch_compress_in_place build features cv block len counter fl = blake3_compress_in_place cv block len counter fl"
    and "dispatch_compress_xof build features cv block len counter fl = blake3_compress_xof cv block len counter fl"
  using assms by (simp_all add: dispatch_compress_in_place_def dispatch_compress_xof_def sse_compress avx512_compress)

lemma dispatch_xof_many_portable:
  "length cv = 8 \<Longrightarrow> dispatch_xof_many build features cv block len counter fl n = blake3_xof_many cv block len counter fl n"
  by (simp add: dispatch_xof_many_def xof_many_avx512 dispatch_compress(2) blake3_xof_many_def)

lemma dispatch_hash_many_portable:
  assumes "length key = 8" "\<forall>x \<in> set inputs. 64 * blocks \<le> length x"
  shows "dispatch_hash_many build features inputs blocks key counter inc fl fs fe =
    blake3_hash_many inputs blocks key counter inc fl fs fe"
  using assms by (simp add: dispatch_hash_many_def hash_many_avx512 hash_many_avx2 hash_many_sse hash_many_neon)

text \<open>The arrays the tree code passes: whole chunks of 16 blocks, pairs of chaining values of one block.\<close>

lemma chunks_whole: "x \<in> set (chunks_array input) \<Longrightarrow> length x = 1024"
proof (induction input rule: chunks_array.induct)
  case (1 input)
  then show ?case by (subst (asm) chunks_array.simps) (auto split: if_splits)
qed

lemma parents_whole: "32 * n \<le> length cvs \<Longrightarrow> x \<in> set (parents_array cvs n) \<Longrightarrow> length x = 64"
  by (induction cvs n rule: parents_array.induct) auto

text \<open>
  C26. Every processor computes the same hash. Whatever \<open>cpuid\<close> and \<open>xgetbv\<close> report, on every build, and whether
  or not the features were asked for before, the four entry points return what the portable
  code returns: a compression of 8 words, a stream of output blocks, and batches of inputs that have the
  bytes they are hashed for. The batches of whole chunks and of parents the tree code passes are such. This is about the
  C files with intrinsics, not about the assembly that can replace them.
\<close>

theorem dispatch_is_portable:
  assumes "g \<in> {None, Some (detected build p)}" "get_cpu_features build p g = (features, g')"
    and "length cv = 8" "length key = 8" "\<forall>x \<in> set inputs. BLAKE3_BLOCK_LEN * blocks \<le> length x"
    and "BLAKE3_OUT_LEN * n \<le> length cvs"
  shows "dispatch_compress_in_place build features cv block len counter fl = blake3_compress_in_place cv block len counter fl \<and>
    dispatch_compress_xof build features cv block len counter fl = blake3_compress_xof cv block len counter fl \<and>
    dispatch_xof_many build features cv block len counter fl k = blake3_xof_many cv block len counter fl k \<and>
    dispatch_hash_many build features inputs blocks key counter inc fl fs fe =
      blake3_hash_many inputs blocks key counter inc fl fs fe \<and>
    dispatch_hash_many build features (chunks_array input) (BLAKE3_CHUNK_LEN div BLAKE3_BLOCK_LEN) key counter inc fl fs fe =
      blake3_hash_many (chunks_array input) (BLAKE3_CHUNK_LEN div BLAKE3_BLOCK_LEN) key counter inc fl fs fe \<and>
    dispatch_hash_many build features (parents_array cvs n) 1 key counter inc fl fs fe =
      blake3_hash_many (parents_array cvs n) 1 key counter inc fl fs fe \<and>
    features = detected build p \<and> g' \<in> {None, Some features}"
proof -
  have "64 * 1 \<le> length x" if "x \<in> set (parents_array cvs n)" for x
    using parents_whole [OF _ that] assms(6) by simp
  then show ?thesis
    using assms features_cached [OF assms(1)]
    by (simp add: dispatch_compress dispatch_xof_many_portable dispatch_hash_many_portable chunks_whole)
qed

text \<open>A 32-bit processor with AVX-512, and its features.\<close>

definition wide_processor :: processor where
  "wide_processor = \<lparr>cpuid = (\<lambda>i. if i = 0 then (13, 0, 0, 0) else (0, 0, 0x1C080200, 0x4000000)),
     cpuidex = (\<lambda>_ _. (0, 0x80010020, 0, 0)), xgetbv = 0xE7\<rparr>"

lemma dispatch_is_portable_witness:
  "AVX512F (detected (X86 False False) wide_processor) \<and>
   dispatch_hash_many (X86 False False) (detected (X86 False False) wide_processor) [zeros 64, zeros 100] 1 blake3_IV
     5 True 0 0 0 = blake3_hash_many [zeros 64, zeros 100] 1 blake3_IV 5 True 0 0 0"
proof -
  have d: "detected (X86 False False) wide_processor =
      \<lparr>SSE2 = True, SSSE3 = True, SSE41 = True, AVX = True, AVX2 = True, AVX512F = True, AVX512VL = True\<rparr>"
    by code_simp
  have "length blake3_IV = 8" by (simp add: blake3_IV_def)
  then show ?thesis
    using dispatch_is_portable [of None "X86 False False" wide_processor "detected (X86 False False) wide_processor"
      "Some (detected (X86 False False) wide_processor)" blake3_IV blake3_IV "[zeros 64, zeros 100]" 1 0 "[]"]
    by (simp add: d get_cpu_features_def detected_def [of "X86 False False", simplified, symmetric] Let_def)
qed

end
