(* ===== verification/Threads.thy ===== *)
theory Threads
  imports Programs
begin

text \<open>
  The two threads of each program, from where \<open>Programs\<close> ends: in \<open>client/main.cpp\<close> a worker that calls \<open>Run\<close>
  beside the console loop, \<open>Shutdown\<close> and \<open>join\<close> of \<open>main\<close>; in \<open>server/main.cpp\<close> the worker that \<open>Run\<close> started beside the
  console loop and \<open>Shutdown\<close>, which joins. A schedule says whose turn it is. One turn of the worker is one
  statement of the event loop (a test of \<open>running_\<close>, a poll, one event, a tick); one turn of the console reads
  a line, or does one statement of \<open>Shutdown\<close>. A statement is atomic and memory sequentially consistent: what
  a data race on the plain members could do beyond that is not modelled.
\<close>

section \<open>The event loop, statement by statement\<close>

text \<open>Where the loop is; it carries its array of events and, while handling, how many it has done of how many.\<close>

datatype loop_at =
    Testing "PollEvent list"
  | Polling "PollEvent list"
  | Handling "PollEvent list" nat nat
  | Ticking "PollEvent list"
  | Left

record 's loop_ops =
  lo_running :: "'s \<Rightarrow> bool"
  lo_poll :: "poll_round \<Rightarrow> PollEvent list \<Rightarrow> 's \<Rightarrow> int \<times> PollEvent list \<times> 's"
  lo_event :: "PollEvent \<times> node_env \<times> node_io \<Rightarrow> 's \<Rightarrow> 's option"
  lo_tick :: "node_env \<Rightarrow> 's \<Rightarrow> 's option"

text \<open>An event with an error leaves the loop over the events, not the event loop.\<close>

fun loop_step :: "'s loop_ops \<Rightarrow> poll_round \<Rightarrow> loop_at \<Rightarrow> 's \<Rightarrow> (loop_at \<times> 's) option" where
  "loop_step ops r (Testing events) s = Some (if lo_running ops s then Polling events else Left, s)"
| "loop_step ops r (Polling events) s =
     (let (ready, events, s) = lo_poll ops r events s in
      Some (if ready < 0 then Left else Handling events 0 (nat ready), s))"
| "loop_step ops r (Handling events i n) s =
     (if i < n
      then do {
        s \<leftarrow> lo_event ops (events ! i, pr_io r i) s;
        Some (Handling events (i + 1) (if IsError (events ! i) \<or> IsHangup (events ! i) then i + 1 else n), s)
      }
      else Some (Ticking events, s))"
| "loop_step ops r (Ticking events) s = do { s \<leftarrow> lo_tick ops (pr_tick r) s; Some (Testing events, s) }"
| "loop_step ops r Left s = None"

definition client_loop :: "'k crypto \<Rightarrow> hs_constants \<Rightarrow> Client loop_ops" where
  "client_loop lib g = \<lparr>lo_running = cl_running,
     lo_poll = (\<lambda>r events c. case Poll (cl_poller c) events 250 (pr_wait r) of (ready, events, poller) \<Rightarrow>
       (ready, events, c\<lparr>cl_poller := poller\<rparr>)),
     lo_event = (\<lambda>x c. Some (cl_events lib [x] c)),
     lo_tick = cl_TimerTick lib g\<rparr>"

definition server_loop :: "'k crypto \<Rightarrow> hs_constants \<Rightarrow> Server loop_ops" where
  "server_loop lib g = \<lparr>lo_running = sv_running,
     lo_poll = (\<lambda>r events s. case Poll (sv_poller s) events (sv_poll_timeout_ms s) (pr_wait r) of (ready, events, poller) \<Rightarrow>
       (ready, events, s\<lparr>sv_poller := poller\<rparr>)),
     lo_event = (\<lambda>x s. sv_events lib g [x] s),
     lo_tick = (\<lambda>env s. Some (sv_TimerTick lib env s))\<rparr>"

section \<open>Two threads\<close>

text \<open>
  What \<open>main\<close> does after its loop over the console's lines: statements, and waiting for the worker. The last is the
  destructor of the node, a variable of \<open>main\<close>.
\<close>

datatype 's action = Do "'s \<Rightarrow> 's" | Join

datatype 's console = Reading "string list" | Doing "'s action list"

datatype turn = Worker poll_round | Console

text \<open>A program: the worker's steps and the actions of \<open>main\<close>. \<open>None\<close> is a turn of a thread that cannot move.\<close>

record ('w, 's) program =
  pg_step :: "poll_round \<Rightarrow> 'w \<Rightarrow> 's \<Rightarrow> ('w \<times> 's) option"
  pg_left :: "'w \<Rightarrow> bool"
  pg_end :: "'s action list"

fun take_turn ::
  "('w, 's) program \<Rightarrow> turn \<Rightarrow> 's console \<times> 'w \<times> 's \<Rightarrow> ('s console \<times> 'w \<times> 's) option" where
  "take_turn pg (Worker r) (con, w, s) = do { (w, s) \<leftarrow> pg_step pg r w s; Some (con, w, s) }"
| "take_turn pg Console (Reading (line # lines), w, s) =
     Some (if line = ''q'' then Doing (pg_end pg) else Reading lines, w, s)"
| "take_turn pg Console (Reading [], w, s) = Some (Doing (pg_end pg), w, s)"
| "take_turn pg Console (Doing (Do f # as), w, s) = Some (Doing as, w, f s)"
| "take_turn pg Console (Doing (Join # as), w, s) = (if pg_left pg w then Some (Doing as, w, s) else None)"
| "take_turn pg Console (Doing [], w, s) = None"

fun take_turns ::
  "('w, 's) program \<Rightarrow> turn list \<Rightarrow> 's console \<times> 'w \<times> 's \<Rightarrow> ('s console \<times> 'w \<times> 's) option" where
  "take_turns pg [] cfg = Some cfg"
| "take_turns pg (t # ts) cfg = do { cfg \<leftarrow> take_turn pg t cfg; take_turns pg ts cfg }"

text \<open>The turns the console has left.\<close>

fun to_do :: "('w, 's) program \<Rightarrow> 's console \<Rightarrow> nat" where
  "to_do pg (Reading lines) = length lines + 1 + length (pg_end pg)"
| "to_do pg (Doing as) = length as"

section \<open>The client's program\<close>

text \<open>The statements of \<open>Run\<close> before its loop, each with at most one access to what \<open>Shutdown\<close> writes.\<close>

datatype client_at = Starting | Checking | Entering | Sending | Looping loop_at

fun client_step ::
  "'k crypto \<Rightarrow> hs_constants \<Rightarrow> poll_round \<Rightarrow> client_at \<Rightarrow> Client \<Rightarrow> (client_at \<times> Client) option" where
  "client_step lib g r Starting c = Some (if cl_initialized c then Checking else Looping Left, c)"
| "client_step lib g r Checking c = Some (if cl_stopped c then Looping Left else Entering, c)"
| "client_step lib g r Entering c = Some (Sending, c\<lparr>cl_running := True, cl_last_stats_time := ne_now (pr_tick r)\<rparr>)"
| "client_step lib g r Sending c =
     do { c \<leftarrow> SendInitiation lib g (pr_tick r) c; Some (Looping (Testing (replicate 4 PollEvent_init)), c) }"
| "client_step lib g r (Looping l) c = do { (l, c) \<leftarrow> loop_step (client_loop lib g) r l c; Some (Looping l, c) }"

definition client_end :: "Client action list" where
  "client_end =
     [Do (\<lambda>c. c\<lparr>cl_stopped := True\<rparr>), Do (\<lambda>c. c\<lparr>cl_running := False\<rparr>),
      Do (\<lambda>c. if cl_use_tun c then c\<lparr>cl_tun := fst (tun_Close (cl_tun c))\<rparr> else c),
      Do (\<lambda>c. c\<lparr>cl_poller := fst (ep_Close (cl_poller c))\<rparr>),
      Do (\<lambda>c. c\<lparr>cl_socket := fst (udp_Close (cl_socket c))\<rparr>),
      Do (\<lambda>c. c\<lparr>cl_initialized := False\<rparr>), Do (\<lambda>c. c\<lparr>cl_stopped := False\<rparr>), Do (\<lambda>c. c\<lparr>cl_use_tun := False\<rparr>),
      Join, Do cl_destroy]"

definition client_program :: "'k crypto \<Rightarrow> hs_constants \<Rightarrow> (client_at, Client) program" where
  "client_program lib g = \<lparr>pg_step = client_step lib g, pg_left = (\<lambda>w. w = Looping Left), pg_end = client_end\<rparr>"

section \<open>The server's program\<close>

definition server_end :: "Server action list" where
  "server_end =
     [Do (\<lambda>s. s\<lparr>sv_stopped := True\<rparr>), Do (\<lambda>s. s\<lparr>sv_running := False\<rparr>),
      Join, Do (\<lambda>s. s\<lparr>sv_worker := False\<rparr>),
      Do (\<lambda>s. if sv_use_tun s \<and> tun_IsOpen (sv_tun s) then s\<lparr>sv_tun := fst (tun_Close (sv_tun s))\<rparr> else s),
      Do (\<lambda>s. if ep_IsOpen (sv_poller s) then s\<lparr>sv_poller := fst (ep_Close (sv_poller s))\<rparr> else s),
      Do (\<lambda>s. if UdpSocket.IsOpen (sv_socket s) then s\<lparr>sv_socket := fst (udp_Close (sv_socket s))\<rparr> else s),
      Do (\<lambda>s. s\<lparr>sv_initialized := False\<rparr>), Do (\<lambda>s. s\<lparr>sv_stopped := False\<rparr>),
      Do sv_destroy]"

text \<open>The worker of a server begins at the loop's test; the server is joinable after \<open>Run\<close>.\<close>

definition server_program :: "'k crypto \<Rightarrow> hs_constants \<Rightarrow> (loop_at, Server) program" where
  "server_program lib g = \<lparr>pg_step = loop_step (server_loop lib g), pg_left = (\<lambda>w. w = Left), pg_end = server_end\<rparr>"

text \<open>Run without a pause the statements are \<open>Shutdown\<close> and the destructor.\<close>

fun do_all :: "'s action list \<Rightarrow> 's \<Rightarrow> 's" where
  "do_all [] s = s"
| "do_all (Do f # as) s = do_all as (f s)"
| "do_all (Join # as) s = do_all as s"

lemma shutdown_statements:
  "do_all client_end c = cl_destroy (cl_Shutdown c)" "sv_worker s \<Longrightarrow> do_all server_end s = sv_destroy (sv_Shutdown s)"
  by (simp_all add: client_end_def cl_Shutdown_def cl_Stop_def server_end_def sv_Shutdown_def sv_Stop_def
      CleanupResources_def Let_def)

section \<open>A worker that is left alone\<close>

text \<open>The loops of \<open>Client\<close> and \<open>Server\<close> are one loop over rounds; a worker that runs alone does the same.\<close>

fun loop_events :: "'s loop_ops \<Rightarrow> (PollEvent \<times> node_env \<times> node_io) list \<Rightarrow> 's \<Rightarrow> 's option" where
  "loop_events ops [] s = Some s"
| "loop_events ops (x # xs) s =
     do { s \<leftarrow> lo_event ops x s; if IsError (fst x) \<or> IsHangup (fst x) then Some s else loop_events ops xs s }"

fun loop_rounds :: "'s loop_ops \<Rightarrow> PollEvent list \<Rightarrow> poll_round list \<Rightarrow> 's \<Rightarrow> (bool \<times> 's) option" where
  "loop_rounds ops events [] s = Some (\<not> lo_running ops s, s)"
| "loop_rounds ops events (r # rs) s =
     (if \<not> lo_running ops s then Some (True, s)
      else
        let (ready, events, s) = lo_poll ops r events s in
        if ready < 0 then Some (True, s)
        else do {
          s \<leftarrow> loop_events ops (map (\<lambda>i. (events ! i, pr_io r i)) [0..<nat ready]) s;
          s \<leftarrow> lo_tick ops (pr_tick r) s;
          loop_rounds ops events rs s
        })"

lemma client_events: "loop_events (client_loop lib g) xs c = Some (cl_events lib xs c)"
proof (induction xs arbitrary: c)
  case (Cons x xs)
  then show ?case by (cases x) (auto simp: client_loop_def)
qed (simp add: client_loop_def)

lemma server_events: "loop_events (server_loop lib g) xs s = sv_events lib g xs s"
proof (induction xs arbitrary: s)
  case (Cons x xs)
  then show ?case by (cases x) (auto simp: server_loop_def)
qed (simp add: server_loop_def)

lemma loop_fields:
  "lo_running (client_loop lib g) = cl_running" "lo_tick (client_loop lib g) = cl_TimerTick lib g"
  "lo_poll (client_loop lib g) r events c =
     (case Poll (cl_poller c) events 250 (pr_wait r) of (ready, events, p) \<Rightarrow> (ready, events, c\<lparr>cl_poller := p\<rparr>))"
  "lo_running (server_loop lib g) = sv_running" "lo_tick (server_loop lib g) env s = Some (sv_TimerTick lib env s)"
  "lo_poll (server_loop lib g) r events s =
     (case Poll (sv_poller s) events (sv_poll_timeout_ms s) (pr_wait r) of (ready, events, p) \<Rightarrow> (ready, events, s\<lparr>sv_poller := p\<rparr>))"
  by (simp_all add: client_loop_def server_loop_def)

lemma client_rounds: "loop_rounds (client_loop lib g) events rs c = cl_loop lib g events rs c"
proof (induction rs arbitrary: events c)
  case (Cons r rs)
  have "loop_rounds (client_loop lib g) es rs = cl_loop lib g es rs" for es using Cons.IH by blast
  then show ?case by (simp add: client_events loop_fields Let_def split: prod.split)
qed (simp add: loop_fields)

lemma server_rounds: "loop_rounds (server_loop lib g) events rs s = sv_EventLoop lib g events rs s"
proof (induction rs arbitrary: events s)
  case (Cons r rs)
  then show ?case by (simp add: server_events loop_fields Let_def split: prod.split)
qed (simp add: loop_fields)

inductive loop_steps :: "'s loop_ops \<Rightarrow> loop_at \<times> 's \<Rightarrow> poll_round list \<Rightarrow> loop_at \<times> 's \<Rightarrow> bool" for ops where
  stay: "loop_steps ops x [] x"
| step: "loop_step ops r (fst x) (snd x) = Some y \<Longrightarrow> loop_steps ops y rs z \<Longrightarrow> loop_steps ops x (r # rs) z"

lemma one_step:
  "loop_step ops r l s = Some y \<Longrightarrow> loop_steps ops y rs z \<Longrightarrow> loop_steps ops (l, s) (r # rs) z"
  by (rule loop_steps.step) simp_all

lemmas last_step = one_step [OF _ loop_steps.stay]

lemma loop_steps_trans: "loop_steps ops x rs y \<Longrightarrow> loop_steps ops y rs' z \<Longrightarrow> loop_steps ops x (rs @ rs') z"
  by (induction rule: loop_steps.induct) (auto intro: loop_steps.intros)

lemma handling_steps:
  fixes r :: poll_round
  assumes "loop_events ops (map (\<lambda>k. (events ! k, pr_io r k)) [i..<n]) s = Some s'"
  shows "\<exists>rs. loop_steps ops (Handling events i n, s) rs (Ticking events, s')"
  using assms
proof (induction "n - i" arbitrary: i s)
  case 0
  then have "loop_step ops r (Handling events i n) s = Some (Ticking events, s')" by simp
  then show ?case by (intro exI [of _ "[r]"] last_step)
next
  case (Suc k)
  then have i: "i < n" "[i..<n] = i # [Suc i..<n]" by (simp_all add: upt_conv_Cons)
  let ?bad = "IsError (events ! i) \<or> IsHangup (events ! i)"
  from Suc.prems i obtain t where t: "lo_event ops (events ! i, pr_io r i) s = Some t"
      "(if ?bad then Some t else loop_events ops (map (\<lambda>k. (events ! k, pr_io r k)) [Suc i..<n]) t) = Some s'"
    by (auto simp: bind_eq_Some_conv)
  have first: "loop_step ops r (Handling events i n) s = Some (Handling events (i + 1) (if ?bad then i + 1 else n), t)"
    using i t(1) by simp
  have "\<exists>rs. loop_steps ops (Handling events (i + 1) (if ?bad then i + 1 else n), t) rs (Ticking events, s')"
  proof (cases ?bad)
    case True
    have "\<exists>rs. loop_steps ops (Handling events (i + 1) (i + 1), t) rs (Ticking events, s')"
      by (intro exI [of _ "[r]"] last_step) (use True t(2) in simp)
    then show ?thesis using True by simp
  next
    case False
    have "k = n - (i + 1)" using Suc.hyps(2) by simp
    then show ?thesis using Suc.hyps(1) [of "i + 1" t] t(2) False by simp
  qed
  then show ?case using one_step [OF first] by blast
qed

lemma loop_rounds_steps:
  assumes "loop_rounds ops events rs s = Some (left, s')"
  shows "\<exists>us l. loop_steps ops (Testing events, s) us (l, s') \<and> (if left then l = Left else \<exists>es. l = Testing es)"
  using assms
proof (induction rs arbitrary: events s)
  case Nil
  have "loop_steps ops (Testing events, s) [r] (Left, s)" if "\<not> lo_running ops s" for r
    using that by (intro last_step) simp
  then show ?case using Nil by (auto intro: loop_steps.stay)
next
  case (Cons r rs)
  have test: "loop_step ops r (Testing events) s = Some (if lo_running ops s then Polling events else Left, s)" by simp
  show ?case
  proof (cases "lo_running ops s")
    case True
    obtain n es t where poll: "lo_poll ops r events s = (n, es, t)" by (cases "lo_poll ops r events s") auto
    have next_at: "loop_step ops r (Polling events) s = Some (if n < 0 then Left else Handling es 0 (nat n), t)"
      by (simp add: poll)
    have start: "loop_steps ops (Testing events, s) [r, r] (if n < 0 then Left else Handling es 0 (nat n), t)"
      using one_step [OF test, of "[r]"] last_step [OF next_at] True by simp
    show ?thesis
    proof (cases "n < 0")
      case True
      then show ?thesis using start Cons.prems poll \<open>lo_running ops s\<close> by (auto intro!: exI)
    next
      case False
      then obtain a b where ab: "loop_events ops (map (\<lambda>i. (es ! i, pr_io r i)) [0..<nat n]) t = Some a"
          "lo_tick ops (pr_tick r) a = Some b" "loop_rounds ops es rs b = Some (left, s')"
        using Cons.prems poll True by (auto simp: bind_eq_Some_conv)
      obtain us where us: "loop_steps ops (Handling es 0 (nat n), t) us (Ticking es, a)"
        using handling_steps [OF ab(1)] by blast
      have tick: "loop_steps ops (Ticking es, a) [r] (Testing es, b)"
        using ab(2) by (intro last_step) simp
      obtain vs l where vs: "loop_steps ops (Testing es, b) vs (l, s')" "if left then l = Left else \<exists>es. l = Testing es"
        using Cons.IH [OF ab(3)] by blast
      have "loop_steps ops (Testing events, s) ([r, r] @ us @ [r] @ vs) (l, s')"
        using start us tick vs(1) False by (intro loop_steps_trans) auto
      then show ?thesis using vs(2) by blast
    qed
  next
    case False
    then have "loop_steps ops (Testing events, s) [r] (Left, s)"
      using test by (intro last_step) simp
    then show ?thesis using Cons.prems False by auto
  qed
qed

lemma take_turns_append: "take_turns pg (ts @ us) cfg = do { cfg \<leftarrow> take_turns pg ts cfg; take_turns pg us cfg }"
proof (induction ts arbitrary: cfg)
  case (Cons t ts)
  then show ?case by (cases "take_turn pg t cfg") simp_all
qed simp

lemma client_turns:
  "loop_steps (client_loop lib g) x rs y \<Longrightarrow>
   take_turns (client_program lib g) (map Worker rs) (con, Looping (fst x), snd x) = Some (con, Looping (fst y), snd y)"
  by (induction rule: loop_steps.induct) (simp_all add: client_program_def split_beta)

lemma server_turns:
  "loop_steps (server_loop lib g) x rs y \<Longrightarrow>
   take_turns (server_program lib g) (map Worker rs) (con, x) = Some (con, y)"
proof (induction rule: loop_steps.induct)
  case (step r x y rs z)
  then show ?case by (cases x) (simp add: server_program_def)
qed simp

text \<open>All of \<open>Run\<close>, the statements before the loop included.\<close>

lemma client_alone:
  fixes r0 :: poll_round
  assumes "cl_Run lib g (pr_tick r0) rs c = Some (left, c')"
  shows "\<exists>us w. take_turns (client_program lib g) (map Worker us) (con, Starting, c) = Some (con, w, c') \<and>
    (if left then w = Looping Left else \<exists>es. w = Looping (Testing es))"
proof -
  note turn = client_program_def bind_eq_Some_conv
  consider "\<not> cl_initialized c" | "cl_initialized c" "cl_stopped c" | "cl_initialized c" "\<not> cl_stopped c" by blast
  then show ?thesis
  proof cases
    case 1
    then have "take_turns (client_program lib g) (map Worker [r0]) (con, Starting, c) = Some (con, Looping Left, c') \<and> left"
      using assms by (simp add: turn cl_Run_def)
    then show ?thesis by (simp only: simp_thms if_True) blast
  next
    case 2
    then have "take_turns (client_program lib g) (map Worker [r0, r0]) (con, Starting, c) = Some (con, Looping Left, c') \<and> left"
      using assms by (simp add: turn cl_Run_def)
    then show ?thesis by (simp only: simp_thms if_True) blast
  next
    case 3
    let ?d = "c\<lparr>cl_running := True, cl_last_stats_time := ne_now (pr_tick r0)\<rparr>" and ?es = "replicate 4 PollEvent_init"
    obtain e where e: "SendInitiation lib g (pr_tick r0) ?d = Some e" "cl_loop lib g ?es rs e = Some (left, c')"
      using assms 3 by (auto simp: cl_Run_def Let_def bind_eq_Some_conv)
    have start: "take_turns (client_program lib g) (map Worker [r0, r0, r0, r0]) (con, Starting, c) =
        Some (con, Looping (Testing ?es), e)"
      using 3 e(1) by (simp add: turn)
    obtain us l where us: "loop_steps (client_loop lib g) (Testing ?es, e) us (l, c')" "if left then l = Left else \<exists>es. l = Testing es"
      using loop_rounds_steps e(2) client_rounds by metis
    have "take_turns (client_program lib g) (map Worker ([r0, r0, r0, r0] @ us)) (con, Starting, c) = Some (con, Looping l, c')"
      using start client_turns [OF us(1), of con] by (simp only: map_append take_turns_append) simp
    moreover have "if left then Looping l = Looping Left else \<exists>es. Looping l = Looping (Testing es)"
      using us(2) by simp
    ultimately show ?thesis by blast
  qed
qed

lemma server_alone:
  assumes "sv_EventLoop lib g events rs s = Some (left, s')"
  shows "\<exists>us w. take_turns (server_program lib g) (map Worker us) (con, Testing events, s) = Some (con, w, s') \<and>
    (if left then w = Left else \<exists>es. w = Testing es)"
proof -
  obtain us l where us: "loop_steps (server_loop lib g) (Testing events, s) us (l, s')" "if left then l = Left else \<exists>es. l = Testing es"
    using loop_rounds_steps assms server_rounds by metis
  then show ?thesis using server_turns [OF us(1), of con] by blast
qed

text \<open>
  So a worker that is never interrupted does what the sequential definitions say: every run of the client's
  \<open>Run\<close> and of the server's \<open>EventLoop\<close> over a list of rounds is a schedule of the program in which only the
  worker has turns, and it ends with the worker gone if the loop has been left and at the loop's test if not.
\<close>

lemma worker_alone:
  "(\<forall>left c' (r :: poll_round). cl_Run lib g (pr_tick r) rs c = Some (left, c') \<longrightarrow>
     (\<exists>us w. take_turns (client_program lib g) (map Worker us) (con, Starting, c) = Some (con, w, c') \<and>
       (if left then w = Looping Left else \<exists>es. w = Looping (Testing es)))) \<and>
   (\<forall>left s'. sv_EventLoop lib g events rs s = Some (left, s') \<longrightarrow>
     (\<exists>us w. take_turns (server_program lib g) (map Worker us) (con', Testing events, s) = Some (con', w, s') \<and>
       (if left then w = Left else \<exists>es. w = Testing es)))"
  using client_alone server_alone by blast

end
