(* ===== verification/ThreadEnds.thy ===== *)
theory ThreadEnds
  imports Threads
begin

text \<open>
  What holds of every schedule of the two programs of \<open>Threads\<close>. The locale \<open>two_threads\<close> says what is asked of a
  program's worker and of the actions that end its \<open>main\<close>; client and server are its interpretations. No code
  is modelled here.
\<close>

section \<open>What holds of every schedule\<close>

text \<open>
  What is asked of a program: the worker keeps an invariant and leaves alone what the end of \<open>main\<close> changes; one
  action of the end, \<open>stop\<close>, after which nothing can be going again, comes before the join; and the worker,
  once nothing is going, has only finitely many steps left and can take them.
\<close>

locale two_threads =
  fixes pg :: "('w, 's) program" and ok :: "'s \<Rightarrow> bool" and life :: "'s \<Rightarrow> 'l" and going :: "'s \<Rightarrow> bool"
    and fair :: "poll_round \<Rightarrow> bool" and remaining :: "'w \<Rightarrow> nat"
    and pre :: "'s action list" and stop :: "'s \<Rightarrow> 's" and post :: "'s action list"
  assumes end_eq: "pg_end pg = pre @ Do stop # post"
    and joins: "Join \<notin> set pre" "Join \<in> set post"
    and stop_going: "\<not> going (stop s)"
    and ok_step: "pg_step pg r w s = Some (w', s') \<Longrightarrow> ok s \<Longrightarrow> ok s'"
    and life_step: "pg_step pg r w s = Some (w', s') \<Longrightarrow> life s' = life s"
    and going_step: "pg_step pg r w s = Some (w', s') \<Longrightarrow> \<not> going s \<Longrightarrow> \<not> going s'"
    and remaining_step: "pg_step pg r w s = Some (w', s') \<Longrightarrow> \<not> going s \<Longrightarrow> fair r \<Longrightarrow> remaining w' < remaining w"
    and left_step: "pg_left pg w \<Longrightarrow> pg_step pg r w s = None"
    and ok_do: "Do f \<in> set (pg_end pg) \<Longrightarrow> ok s \<Longrightarrow> ok (f s)"
    and life_do: "Do f \<in> set (pg_end pg) \<Longrightarrow> life s = life t \<Longrightarrow> life (f s) = life (f t)"
    and going_do: "Do f \<in> set (pg_end pg) \<Longrightarrow> \<not> going s \<Longrightarrow> \<not> going (f s)"
begin

text \<open>What is true of a configuration reached from a state \<open>s0\<close>.\<close>

fun sound :: "'s \<Rightarrow> 's console \<times> 'w \<times> 's \<Rightarrow> bool" where
  "sound s0 (Reading lines, w, s) = (ok s \<and> life s = life s0)"
| "sound s0 (Doing as, w, s) =
     (ok s \<and> (\<exists>ds. pg_end pg = ds @ as \<and> life s = life (do_all ds s0) \<and>
       (length as \<le> length post \<longrightarrow> \<not> going s) \<and> (Join \<in> set ds \<longrightarrow> pg_left pg w)))"

lemma do_all_append: "do_all (as @ bs) s = do_all bs (do_all as s)"
  by (induction as s rule: do_all.induct) simp_all

lemma end_split:
  assumes "pg_end pg = ds @ a # as"
  shows "length as \<le> length post \<Longrightarrow> \<not> length (a # as) \<le> length post \<Longrightarrow> a = Do stop"
    and "a = Join \<Longrightarrow> length (a # as) \<le> length post"
proof -
  have eq: "ds @ a # as = pre @ Do stop # post" using assms end_eq by simp
  show "a = Do stop" if "length as \<le> length post" "\<not> length (a # as) \<le> length post"
  proof -
    have "length as = length post" using that by simp
    then have "length ds = length pre" using arg_cong [OF eq, of length] by simp
    then show ?thesis using eq by simp
  qed
  show "length (a # as) \<le> length post" if "a = Join"
  proof (rule ccontr)
    assume "\<not> ?thesis"
    then have "length ds \<le> length pre" using arg_cong [OF eq, of length] by simp
    moreover have "(pre @ Do stop # post) ! length ds = Join" using eq [symmetric] that by simp
    ultimately have "length ds < length pre \<and> pre ! length ds = Join" by (auto simp: nth_append nth_Cons' split: if_splits)
    then show False using joins(1) by (metis nth_mem)
  qed
qed

lemma sound_turn:
  assumes "sound s0 (con, w, s)" "take_turn pg t (con, w, s) = Some (con', w', s')"
  shows "sound s0 (con', w', s')"
proof (cases t)
  case (Worker r)
  then have step: "pg_step pg r w s = Some (w', s')" and con: "con' = con"
    using assms(2) by (auto simp: Option.bind_eq_Some_conv)
  have "\<not> pg_left pg w" using left_step [of w r s] step by auto
  then show ?thesis
    using assms(1) ok_step [OF step] life_step [OF step] going_step [OF step] con by (cases con) auto
next
  case Console
  show ?thesis
  proof (cases con)
    case (Reading lines)
    have start: "sound s0 (Doing (pg_end pg), w, s)"
      using assms(1) end_eq by (auto simp: Reading intro!: exI [of _ "[]"])
    show ?thesis using assms start by (cases lines) (auto simp: Reading Console split: if_splits)
  next
    case (Doing acts)
    then obtain a as where as: "con = Doing (a # as)" using assms(2) Console by (cases acts) auto
    then obtain ds where ds: "ok s" "pg_end pg = ds @ a # as" "life s = life (do_all ds s0)"
        "length (a # as) \<le> length post \<longrightarrow> \<not> going s" "Join \<in> set ds \<longrightarrow> pg_left pg w"
      using assms(1) by auto
    then have mem: "a \<in> set (pg_end pg)" by simp
    have next_end: "pg_end pg = (ds @ [a]) @ as" using ds(2) by simp
    show ?thesis
    proof (cases a)
      case (Do f)
      have "life (f s) = life (do_all (ds @ [a]) s0)"
        using life_do [of f s "do_all ds s0"] ds(3) mem Do by (simp add: do_all_append)
      moreover have "\<not> going (f s)" if "length as \<le> length post"
        using end_split(1) [OF ds(2) that] going_do [of f s] stop_going mem ds(4) Do by auto
      ultimately show ?thesis
        using assms(2) ok_do [of f s] mem ds(1,5) next_end Do as Console
        by (auto intro!: exI [of _ "ds @ [a]"])
    next
      case Join
      have "length (a # as) \<le> length post" using end_split(2) [OF ds(2) Join] .
      then have "\<not> going s" using ds(4) by simp
      then show ?thesis
        using assms(2) ds(1,3) next_end Join as Console
        by (auto simp: do_all_append intro!: exI [of _ "ds @ [a]"] split: if_splits)
    qed
  qed
qed

lemma sound_turns: "sound s0 cfg \<Longrightarrow> take_turns pg ts cfg = Some cfg' \<Longrightarrow> sound s0 cfg'"
proof (induction ts arbitrary: cfg)
  case (Cons t ts)
  then obtain cfg1 where "take_turn pg t cfg = Some cfg1" "take_turns pg ts cfg1 = Some cfg'"
    by (auto simp: Option.bind_eq_Some_conv)
  then show ?case using Cons.IH Cons.prems(1) sound_turn by (metis prod_cases3)
qed simp

lemma ended: "sound s0 (Doing [], w, s) \<Longrightarrow> pg_left pg w \<and> life s = life (do_all (pg_end pg) s0)"
  using joins(2) end_eq by auto

text \<open>While the worker is there, the console has done nothing that comes after the join.\<close>

lemma before_join:
  assumes "sound s0 (con, w, s)" "\<not> pg_left pg w"
  shows "\<exists>n \<le> length (takeWhile ((\<noteq>) Join) (pg_end pg)). life s = life (do_all (take n (pg_end pg)) s0)"
proof (cases con)
  case (Reading lines)
  then show ?thesis using assms(1) by (intro exI [of _ 0]) simp
next
  case (Doing as)
  then obtain ds where ds: "pg_end pg = ds @ as" "life s = life (do_all ds s0)" "Join \<notin> set ds"
    using assms by auto
  then have "length ds \<le> length (takeWhile ((\<noteq>) Join) (pg_end pg))" by (simp add: takeWhile_append)
  then show ?thesis using ds by (intro exI [of _ "length ds"]) simp
qed

text \<open>The console waits only for the worker, and only when nothing is going.\<close>

lemma console_waits:
  assumes "sound s0 (con, w, s)" "con \<noteq> Doing []" "take_turn pg Console (con, w, s) = None"
  shows "\<not> pg_left pg w \<and> \<not> going s"
proof -
  obtain as where as: "con = Doing (Join # as)" "\<not> pg_left pg w"
    using assms(2,3) by (cases "(pg, Console, con, w, s)" rule: take_turn.cases) (auto split: if_splits)
  then obtain ds where "pg_end pg = ds @ Join # as" "length (Join # as) \<le> length post \<longrightarrow> \<not> going s"
    using assms(1) by auto
  then show ?thesis using end_split(2) as(2) by simp
qed

text \<open>Once nothing is going both threads have few turns left, and the console never has more than its own.\<close>

lemma few_turns:
  assumes "sound s0 (con, w, s)" "\<not> going s" "\<forall>r. Worker r \<in> set ts \<longrightarrow> fair r"
    and "take_turns pg ts (con, w, s) = Some cfg"
  shows "length ts \<le> to_do pg con + remaining w"
  using assms
proof (induction ts arbitrary: con w s)
  case (Cons t ts)
  then obtain con1 w1 s1 where t: "take_turn pg t (con, w, s) = Some (con1, w1, s1)"
      "take_turns pg ts (con1, w1, s1) = Some cfg" by (auto simp: Option.bind_eq_Some_conv)
  have s1: "sound s0 (con1, w1, s1)" by (rule sound_turn [OF Cons.prems(1) t(1)])
  have "\<not> going s1 \<and> to_do pg con1 + remaining w1 < to_do pg con + remaining w"
  proof (cases t)
    case (Worker r)
    then have step: "pg_step pg r w s = Some (w1, s1)" "con1 = con" using t(1) by (auto simp: Option.bind_eq_Some_conv)
    then show ?thesis
      using going_step [OF step(1) Cons.prems(2)] remaining_step [OF step(1) Cons.prems(2)] Cons.prems(3) Worker by simp
  next
    case Console
    have act: "Do f \<in> set (pg_end pg)" if "con = Doing (Do f # as)" for f as using Cons.prems(1) that by auto
    show ?thesis
      using t(1) Cons.prems(2) Console going_do [OF act]
      by (cases "(pg, t, con, w, s)" rule: take_turn.cases) (auto split: if_splits)
  qed
  then show ?case using Cons.IH [OF s1 _ _ t(2)] Cons.prems(3) by fastforce
qed simp

lemma console_turns: "take_turns pg ts (con, w, s) = Some cfg \<Longrightarrow> length (filter ((=) Console) ts) \<le> to_do pg con"
proof (induction ts arbitrary: con w s)
  case (Cons t ts)
  then obtain con1 w1 s1 where t: "take_turn pg t (con, w, s) = Some (con1, w1, s1)"
      "take_turns pg ts (con1, w1, s1) = Some cfg" by (auto simp: Option.bind_eq_Some_conv)
  have "to_do pg con1 + (if t = Console then 1 else 0) \<le> to_do pg con"
    using t(1) by (cases "(pg, t, con, w, s)" rule: take_turn.cases) (auto simp: Option.bind_eq_Some_conv split: if_splits)
  then show ?case using Cons.IH [OF t(2)] by (auto split: if_splits)
qed simp

end

section \<open>The client\<close>

text \<open>What \<open>Shutdown\<close> writes and no handler does; and what a worker can still do when the poller is closed.\<close>

definition client_life where
  "client_life c = (cl_socket c, cl_tun c, cl_use_tun c, cl_initialized c, cl_stopped c, ep_IsOpen (cl_poller c))"

fun client_remaining :: "client_at \<Rightarrow> nat" where
  "client_remaining Starting = 6"
| "client_remaining Checking = 5"
| "client_remaining Entering = 4"
| "client_remaining Sending = 3"
| "client_remaining (Looping (Testing events)) = 2"
| "client_remaining (Looping (Polling events)) = 1"
| "client_remaining (Looping (Handling events i n)) = 4 + (n - i)"
| "client_remaining (Looping (Ticking events)) = 3"
| "client_remaining (Looping Left) = 0"

lemma client_life_update:
  "client_life (c\<lparr>cl_recv_buffer := b\<rparr>) = client_life c" "client_life (c\<lparr>cl_running := d\<rparr>) = client_life c"
  "client_life (c\<lparr>cl_running := d, cl_last_stats_time := e\<rparr>) = client_life c"
  by (simp_all add: client_life_def)

lemma client_life_handlers:
  "client_life (cl_HandleResponse lib env data sender c) = client_life c"
  "client_life (cl_HandleTransport lib env data c) = client_life c"
  "client_life (cl_HandleTunRead lib env io c) = client_life c"
  by (auto simp: client_life_def cl_HandleResponse_def cl_HandleTransport_def cl_HandleTunRead_def cl_SendTransport_def
      client_send_def Let_def split: option.split prod.split)

lemma client_life_events: "client_life (cl_events lib evs c) = client_life c"
proof (induction lib evs c rule: cl_events.induct)
  case (2 lib ev env io rest c)
  have "client_life (cl_receive lib env io c) = client_life c"
    by (auto simp: cl_receive_def Let_def client_life_handlers client_life_update cl_HandleInitiation_def
        cl_HandleCookie_def split: option.split)
  then show ?case using 2 by (simp add: client_life_handlers client_life_update)
qed simp

lemma client_life_SendInitiation: "SendInitiation lib g env c = Some c' \<Longrightarrow> client_life c' = client_life c"
  by (auto simp: SendInitiation_def Let_def bind_eq_Some_conv client_send_def client_life_def split: option.splits)

lemma client_life_TimerTick: "cl_TimerTick lib g env c = Some c' \<Longrightarrow> client_life c' = client_life c"
  by (auto simp: cl_TimerTick_def cl_stats_def Let_def client_life_def dest!: client_life_SendInitiation
      split: prod.splits if_splits)

lemma Poll_IsOpen: "Poll p out t wait = (n, out', p') \<Longrightarrow> ep_IsOpen p' = ep_IsOpen p"
  by (auto simp: Poll_def Let_def ep_IsOpen_def split: if_splits prod.splits)

lemma Poll_closed: "\<not> ep_IsOpen p \<Longrightarrow> Poll p out t wait = (- 1, out, p)"
  by (simp add: Poll_def)

lemma client_loop_keeps:
  assumes "loop_step (client_loop lib g) r l c = Some (l', c')"
  shows "client_life c' = client_life c \<and> (client_ok c \<longrightarrow> client_ok c') \<and>
      (\<not> ep_IsOpen (cl_poller c) \<longrightarrow> client_remaining (Looping l') < client_remaining (Looping l))"
proof (cases l)
  case (Testing events)
  then show ?thesis using assms by (auto simp: client_loop_def)
next
  case (Polling events)
  obtain n es p where poll: "Poll (cl_poller c) events 250 (pr_wait r) = (n, es, p)"
    by (cases "Poll (cl_poller c) events 250 (pr_wait r)") auto
  have l': "c' = c\<lparr>cl_poller := p\<rparr>" "l' = (if n < 0 then Left else Handling es 0 (nat n))"
    using assms Polling poll by (auto simp: client_loop_def)
  have "client_ok (c\<lparr>cl_poller := p\<rparr>)" if "client_ok c" by (rule client_ok_cong [OF that]) simp_all
  moreover have "n = - 1" if "\<not> ep_IsOpen (cl_poller c)" using poll Poll_closed [OF that] by simp
  moreover have "client_life (c\<lparr>cl_poller := p\<rparr>) = client_life c"
    using Poll_IsOpen [OF poll] by (simp add: client_life_def)
  ultimately show ?thesis unfolding l' Polling by simp
next
  case (Handling events i n)
  then show ?thesis
    using assms by (auto simp: client_loop_def client_life_events client_ok_events split: if_splits)
next
  case (Ticking events)
  then obtain d where "cl_TimerTick lib g (pr_tick r) c = Some d" "l' = Testing events" "c' = d"
    using assms by (auto simp: client_loop_def bind_eq_Some_conv)
  then show ?thesis using client_life_TimerTick client_ok_TimerTick Ticking by auto
next
  case Left
  then show ?thesis using assms by simp
qed

lemma client_step_keeps:
  assumes "client_step lib g r w c = Some (w', c')"
  shows "client_life c' = client_life c \<and> (client_ok c \<longrightarrow> client_ok c') \<and>
    (\<not> ep_IsOpen (cl_poller c) \<longrightarrow> client_remaining w' < client_remaining w)"
proof (cases w)
  case Entering
  have "client_ok (c\<lparr>cl_running := b, cl_last_stats_time := t\<rparr>)" if "client_ok c" for b t
    by (rule client_ok_cong [OF that]) simp_all
  then show ?thesis using assms Entering by (auto simp: client_life_update)
next
  case Sending
  then obtain d where "SendInitiation lib g (pr_tick r) c = Some d" "c' = d"
      "w' = Looping (Testing (replicate 4 PollEvent_init))" using assms by (auto simp: bind_eq_Some_conv)
  then show ?thesis using client_life_SendInitiation client_ok_SendInitiation Sending by auto
next
  case (Looping l)
  then obtain l' where "loop_step (client_loop lib g) r l c = Some (l', c')" "w' = Looping l'"
    using assms by (auto simp: bind_eq_Some_conv)
  then show ?thesis using client_loop_keeps Looping by blast
qed (use assms in \<open>auto split: if_splits\<close>)

lemma ep_Close_closed [simp]: "\<not> ep_IsOpen (fst (ep_Close p))"
  by (simp add: ep_Close_def ep_IsOpen_def kInvalidHandle_def)

lemmas client_destroy_defs = cl_destroy_def cl_Shutdown_def cl_Stop_def Let_def

lemma client_end_keeps:
  assumes "Do f \<in> set client_end"
  shows "client_ok c \<Longrightarrow> client_ok (f c)"
    and "client_life c = client_life d \<Longrightarrow> client_life (f c) = client_life (f d)"
    and "\<not> ep_IsOpen (cl_poller c) \<Longrightarrow> \<not> ep_IsOpen (cl_poller (f c))"
proof -
  show "client_ok (f c)" if "client_ok c"
    by (rule client_ok_cong [OF that]) (use assms in \<open>auto simp: client_end_def client_destroy_defs split: if_splits\<close>)
  show "client_life (f c) = client_life (f d)" if "client_life c = client_life d"
    using assms that unfolding client_end_def
    by (simp, elim disjE) (simp_all add: client_life_def client_destroy_defs)
  show "\<not> ep_IsOpen (cl_poller (f c))" if "\<not> ep_IsOpen (cl_poller c)"
    using assms that by (auto simp: client_end_def client_destroy_defs split: if_splits)
qed

interpretation client: two_threads "client_program lib g" client_ok client_life "\<lambda>c. ep_IsOpen (cl_poller c)" "\<lambda>r. True"
  client_remaining "take 3 client_end" "\<lambda>c. c\<lparr>cl_poller := fst (ep_Close (cl_poller c))\<rparr>" "drop 4 client_end"
  for lib g
proof
  fix r w c w' c'
  assume "pg_step (client_program lib g) r w c = Some (w', c')"
  then have s: "client_step lib g r w c = Some (w', c')" by (simp add: client_program_def)
  show "client_life c' = client_life c" "client_ok c \<Longrightarrow> client_ok c'"
    "\<not> ep_IsOpen (cl_poller c) \<Longrightarrow> client_remaining w' < client_remaining w"
    using client_step_keeps [OF s] by blast+
  then show "\<not> ep_IsOpen (cl_poller c')" if "\<not> ep_IsOpen (cl_poller c)"
    using that by (simp add: client_life_def)
next
  fix f :: "Client \<Rightarrow> Client" and c d
  assume "Do f \<in> set (pg_end (client_program lib g))"
  then have f: "Do f \<in> set client_end" by (simp add: client_program_def)
  show "client_ok c \<Longrightarrow> client_ok (f c)" "client_life c = client_life d \<Longrightarrow> client_life (f c) = client_life (f d)"
    "\<not> ep_IsOpen (cl_poller c) \<Longrightarrow> \<not> ep_IsOpen (cl_poller (f c))"
    using client_end_keeps [OF f] by blast+
qed (simp_all add: client_program_def client_end_def)

section \<open>The server\<close>

definition server_life where
  "server_life s = ((sv_socket s, sv_tun s, sv_use_tun s), (sv_initialized s, sv_stopped s, sv_worker s),
     ep_IsOpen (sv_poller s))"

fun server_remaining :: "loop_at \<Rightarrow> nat" where
  "server_remaining Left = 0"
| "server_remaining (Testing events) = 1"
| "server_remaining (Ticking events) = 2"
| "server_remaining (Handling events i n) = 3 + (n - i)"
| "server_remaining (Polling events) = 4 + length events"

definition server_frozen where "server_frozen s = (server_life s, sv_running s)"

lemma server_frozen_fixed: "sv_fixed s' = sv_fixed s \<Longrightarrow> server_frozen s' = server_frozen s"
  by (simp add: server_frozen_def server_life_def sv_fixed_def)

lemmas server_frozen_handlers = sv_fixed_handlers [THEN server_frozen_fixed]
lemmas server_frozen_TunRead = sv_fixed_TunRead [THEN server_frozen_fixed]
lemmas server_frozen_receive = sv_fixed_receive [THEN server_frozen_fixed]

lemma server_event_keeps:
  assumes "sv_events lib g [(ev, env, io)] s = Some s'"
  shows "server_life s' = server_life s \<and> (\<not> sv_running s \<longrightarrow> \<not> sv_running s')"
proof -
  have "server_life (s\<lparr>sv_running := False\<rparr>) = server_life s" by (simp add: server_life_def)
  moreover have "s' = s\<lparr>sv_running := False\<rparr> \<or> server_frozen s' = server_frozen s"
    using assms by (auto simp: bind_eq_Some_conv server_frozen_TunRead dest: server_frozen_receive split: if_splits)
  ultimately show ?thesis by (auto simp: server_frozen_def)
qed

lemma server_loop_keeps:
  assumes "loop_step (server_loop lib g) r l s = Some (l', s')"
  shows "server_life s' = server_life s \<and> (server_ok s \<longrightarrow> server_ok s') \<and> (\<not> sv_running s \<longrightarrow> \<not> sv_running s') \<and>
      (\<not> sv_running s \<longrightarrow> kernel_bound r \<longrightarrow> server_remaining l' < server_remaining l)"
proof (cases l)
  case (Testing events)
  then show ?thesis using assms by (auto simp: server_loop_def)
next
  case (Polling events)
  obtain n es p where poll: "Poll (sv_poller s) events (sv_poll_timeout_ms s) (pr_wait r) = (n, es, p)"
    by (cases "Poll (sv_poller s) events (sv_poll_timeout_ms s) (pr_wait r)") auto
  have l': "s' = s\<lparr>sv_poller := p\<rparr>" "l' = (if n < 0 then Left else Handling es 0 (nat n))"
    using assms Polling poll by (auto simp: server_loop_def)
  have "server_ok (s\<lparr>sv_poller := p\<rparr>)" if "server_ok s" by (rule server_ok_cong [OF that]) simp_all
  moreover have "server_life (s\<lparr>sv_poller := p\<rparr>) = server_life s"
    using Poll_IsOpen [OF poll] by (simp add: server_life_def)
  moreover have "nat n \<le> length events" if "kernel_bound r" using Poll_bound [OF that poll] by simp
  ultimately show ?thesis unfolding l' Polling by auto
next
  case (Handling events i n)
  then show ?thesis
  proof (cases "i < n")
    case True
    then have ev: "sv_events lib g [(events ! i, pr_io r i)] s = Some s'"
      and l': "l' = Handling events (i + 1) (if IsError (events ! i) \<or> IsHangup (events ! i) then i + 1 else n)"
      using assms Handling by (auto simp: server_loop_def bind_eq_Some_conv)
    have "server_life s' = server_life s \<and> (\<not> sv_running s \<longrightarrow> \<not> sv_running s')"
      using server_event_keeps [of lib g "events ! i" "fst (pr_io r i)" "snd (pr_io r i)" s s'] ev by simp
    moreover have "server_ok s'" if "server_ok s" by (rule server_ok_events [OF that ev])
    ultimately show ?thesis using True by (auto simp: l' Handling)
  qed (use assms Handling in \<open>auto simp: server_loop_def\<close>)
next
  case (Ticking events)
  then have "s' = sv_TimerTick lib (pr_tick r) s" "l' = Testing events" using assms by (auto simp: server_loop_def)
  then show ?thesis
    using server_frozen_handlers(3) [of lib "pr_tick r" s] server_ok_TimerTick Ticking by (auto simp: server_frozen_def)
qed (use assms in simp)

lemmas server_destroy_defs = sv_destroy_def sv_Shutdown_def sv_Stop_def CleanupResources_def Let_def

lemma server_end_keeps:
  assumes "Do f \<in> set server_end"
  shows "server_ok s \<Longrightarrow> server_ok (f s)"
    and "server_life s = server_life t \<Longrightarrow> server_life (f s) = server_life (f t)"
    and "\<not> sv_running s \<Longrightarrow> \<not> sv_running (f s)"
proof -
  show "server_ok (f s)" if "server_ok s"
    by (rule server_ok_cong [OF that]) (use assms in \<open>auto simp: server_end_def server_destroy_defs split: if_splits\<close>)
  show "server_life (f s) = server_life (f t)" if "server_life s = server_life t"
    using assms that unfolding server_end_def
    by (simp, elim disjE) (simp_all add: server_life_def server_destroy_defs)
  show "\<not> sv_running (f s)" if "\<not> sv_running s"
    using assms that by (auto simp: server_end_def server_destroy_defs split: if_splits)
qed

interpretation server: two_threads "server_program lib g" server_ok server_life sv_running kernel_bound
  server_remaining "take 1 server_end" "\<lambda>s. s\<lparr>sv_running := False\<rparr>" "drop 2 server_end"
  for lib g
proof
  fix r w s w' s'
  assume "pg_step (server_program lib g) r w s = Some (w', s')"
  then have s: "loop_step (server_loop lib g) r w s = Some (w', s')" by (simp add: server_program_def)
  show "server_life s' = server_life s" "server_ok s \<Longrightarrow> server_ok s'" "\<not> sv_running s \<Longrightarrow> \<not> sv_running s'"
    "\<not> sv_running s \<Longrightarrow> kernel_bound r \<Longrightarrow> server_remaining w' < server_remaining w"
    using server_loop_keeps [OF s] by blast+
next
  fix f :: "Server \<Rightarrow> Server" and s t
  assume "Do f \<in> set (pg_end (server_program lib g))"
  then have f: "Do f \<in> set server_end" by (simp add: server_program_def)
  show "server_ok s \<Longrightarrow> server_ok (f s)" "server_life s = server_life t \<Longrightarrow> server_life (f s) = server_life (f t)"
    "\<not> sv_running s \<Longrightarrow> \<not> sv_running (f s)"
    using server_end_keeps [OF f] by blast+
qed (simp_all add: server_program_def server_end_def)

section \<open>Neither thread gets stuck\<close>

lemma client_step_total:
  assumes "w \<noteq> Looping Left" and "card (used_indices (cl_index_table c)) < card (offered (pr_tick r))"
  shows "client_step lib g r w c \<noteq> None"
proof -
  have send: "\<exists>d. SendInitiation lib g (pr_tick r) c = Some d"
    using offered_free [OF assms(2)] SendInitiation_total by metis
  show ?thesis
  proof (cases w)
    case (Looping l)
    then show ?thesis
      using assms(1) TimerTick_total [OF assms(2), of lib g]
      by (cases l) (auto simp: client_loop_def split: prod.split)
  qed (use send in auto)
qed

lemma server_step_total:
  assumes "l \<noteq> Left" and "\<forall>i. used s < card (offered (fst (pr_io r i)))"
  shows "loop_step (server_loop lib g) r l s \<noteq> None"
proof (cases l)
  case (Handling events i n)
  obtain s' where "sv_events lib g [(events ! i, pr_io r i)] s = Some s'"
    using events_total [of "[(events ! i, pr_io r i)]" s lib g] assms(2) by (auto simp: Suc_le_eq)
  then show ?thesis using Handling by (auto simp: server_loop_def)
qed (use assms(1) in \<open>auto simp: server_loop_def split: prod.split\<close>)

text \<open>A console that cannot move leaves a worker that can.\<close>

lemma client_moves:
  assumes "client.sound TYPE('k) lib g c0 (con, w, c)" "con \<noteq> Doing []"
    and "card (used_indices (cl_index_table c)) < card (offered (pr_tick r))"
  shows "\<exists>t \<in> {Console, Worker r}. take_turn (client_program lib g) t (con, w, c) \<noteq> None"
proof (cases "take_turn (client_program lib g) Console (con, w, c)")
  case None
  then have "w \<noteq> Looping Left" using client.console_waits [OF assms(1,2)] by (simp add: client_program_def)
  then obtain w' c' where "client_step lib g r w c = Some (w', c')" using client_step_total [OF _ assms(3)] by fastforce
  then show ?thesis by (simp add: client_program_def)
qed blast

lemma server_moves:
  assumes "server.sound TYPE('k) lib g s0 (con, w, s)" "con \<noteq> Doing []" and "\<forall>i. used s < card (offered (fst (pr_io r i)))"
  shows "\<exists>t \<in> {Console, Worker r}. take_turn (server_program lib g) t (con, w, s) \<noteq> None"
proof (cases "take_turn (server_program lib g) Console (con, w, s)")
  case None
  then have "w \<noteq> Left" using server.console_waits [OF assms(1,2)] by (simp add: server_program_def)
  then obtain w' s' where "loop_step (server_loop lib g) r w s = Some (w', s')"
    using server_step_total [OF _ assms(3)] by fastforce
  then show ?thesis by (simp add: server_program_def)
qed blast

section \<open>Closed at the end\<close>

lemma client_closed_at_end:
  assumes "client_started c" and "client_life d = client_life (do_all client_end c)" shows "client_closed d"
proof -
  have "client_closed (cl_destroy (cl_Shutdown c))"
    using assms(1) by (auto simp: client_destroy_defs client_started_def client_closed_def open_defs)
  then show ?thesis using assms(2) by (simp add: shutdown_statements client_life_def client_closed_def)
qed

lemma server_closed_at_end:
  assumes "server_started s" "sv_worker s" and "server_life t = server_life (do_all server_end s)" shows "server_closed t"
proof -
  have "server_closed (sv_Shutdown s)"
    using assms(1) by (auto simp: sv_Shutdown_def sv_Stop_def CleanupResources_def Let_def server_started_def
        server_closed_def open_defs)
  then show ?thesis
    using assms(2,3) by (simp add: shutdown_statements destroy_shutdown server_life_def server_closed_def)
qed

text \<open>Until the join the server's descriptors are as \<open>Init\<close> left them.\<close>

lemma server_before_join:
  assumes "server.sound TYPE('k) lib g s (con, w, t)" "w \<noteq> Left"
  shows "sv_socket t = sv_socket s \<and> sv_tun t = sv_tun s \<and> sv_use_tun t = sv_use_tun s \<and>
    ep_IsOpen (sv_poller t) = ep_IsOpen (sv_poller s)"
proof -
  obtain n where n: "n \<le> length (takeWhile ((\<noteq>) Join) server_end)" "server_life t = server_life (do_all (take n server_end) s)"
    using server.before_join [OF assms(1)] assms(2) by (auto simp: server_program_def)
  have "length (takeWhile ((\<noteq>) Join) server_end) = 2" by (simp add: server_end_def)
  then have "n = 0 \<or> n = 1 \<or> n = 2" using n(1) by linarith
  then show ?thesis using n(2) by (auto simp: server_end_def server_life_def)
qed

section \<open>A stop that is overwritten\<close>

text \<open>
  \<open>Shutdown\<close> of the client may run whole between \<open>Run\<close>'s tests and its store to \<open>running_\<close>: then a first message is
  made with everything closed, \<open>running_\<close> stays true, and the loop ends only because the closed poller fails.
\<close>

lemma client_running_SendInitiation: "SendInitiation lib g env c = Some c' \<Longrightarrow> cl_running c' = cl_running c"
  by (auto simp: SendInitiation_def Let_def bind_eq_Some_conv client_send_def split: option.splits)

lemma client_stop_lost:
  assumes "cl_initialized c" and "\<not> cl_stopped c"
    and "card (used_indices (cl_index_table c)) < card (offered (pr_tick r))"
  shows "\<exists>d. take_turns (client_program lib g)
      ([Worker r, Worker r] @ replicate 9 Console @ replicate 4 (Worker r) @ [Console]) (Reading [], Starting, c) =
        Some (Doing [Do cl_destroy], Looping Left, d) \<and> cl_running d"
proof -
  let ?e = "cl_Shutdown c"
  let ?f = "?e\<lparr>cl_running := True, cl_last_stats_time := ne_now (pr_tick r)\<rparr>"
  have same: "cl_index_table ?f = cl_index_table c" by (simp add: cl_Shutdown_def cl_Stop_def Let_def)
  obtain d where d: "SendInitiation lib g (pr_tick r) ?f = Some d"
    using offered_free [OF assms(3)] SendInitiation_total same by metis
  have "\<not> ep_IsOpen (cl_poller ?f)" by (simp add: cl_Shutdown_def Let_def)
  then have closed: "\<not> ep_IsOpen (cl_poller d)" using client_life_SendInitiation [OF d] by (simp add: client_life_def)
  have "cl_running d" using client_running_SendInitiation [OF d] by simp
  have first: "take_turns (client_program lib g) [Worker r, Worker r] (Reading [], Starting, c) = Some (Reading [], Entering, c)"
    using assms(1,2) by (simp add: client_program_def)
  have second: "take_turns (client_program lib g) (replicate 9 Console) (Reading [], Entering, c) = Some (Doing [Join, Do cl_destroy], Entering, ?e)"
    by (simp add: client_program_def client_end_def numeral_eq_Suc cl_Shutdown_def cl_Stop_def Let_def)
  have third: "take_turns (client_program lib g) (replicate 4 (Worker r) @ [Console]) (Doing [Join, Do cl_destroy], Entering, ?e) =
      Some (Doing [Do cl_destroy], Looping Left, d\<lparr>cl_poller := cl_poller d\<rparr>)"
    using d closed \<open>cl_running d\<close> by (simp add: client_program_def numeral_eq_Suc loop_fields Poll_closed)
  have "take_turns (client_program lib g)
      ([Worker r, Worker r] @ replicate 9 Console @ replicate 4 (Worker r) @ [Console]) (Reading [], Starting, c) =
      Some (Doing [Do cl_destroy], Looping Left, d\<lparr>cl_poller := cl_poller d\<rparr>)"
    by (simp only: take_turns_append [of _ "[Worker r, Worker r]"] take_turns_append [of _ "replicate 9 Console"]
        first second third bind.bind_lunit)
  then show ?thesis using \<open>cl_running d\<close> by (intro exI conjI) simp_all
qed

section \<open>Properties\<close>

text \<open>
  C10. However the two threads of the client take turns, its end is orderly: the invariant holds all the
  while; when \<open>main\<close> returns the worker has left its loop and everything is closed; until then one of
  the two threads can always move (given a free index from the random source); and once \<open>Shutdown\<close> has closed the poller only a bounded
  number of turns is left, so the join comes back. This holds although \<open>Shutdown\<close> closes what the worker may be
  using, and although \<open>Run\<close> may set \<open>running_\<close> again after \<open>Stop\<close>.
\<close>

theorem client_program_ends:
  assumes "client_started c" and "client_ok c"
    and "take_turns (client_program lib g) ts (Reading lines, Starting, c) = Some (con, w, d)"
  shows "client_ok d \<and> (con = Doing [] \<longrightarrow> w = Looping Left \<and> client_closed d) \<and>
    (\<forall>r. con \<noteq> Doing [] \<and> card (used_indices (cl_index_table d)) < card (offered (pr_tick r)) \<longrightarrow>
      (\<exists>t \<in> {Console, Worker r}. take_turn (client_program lib g) t (con, w, d) \<noteq> None)) \<and>
    length (filter ((=) Console) ts) \<le> length lines + 11 \<and>
    (\<forall>us cfg. \<not> ep_IsOpen (cl_poller d) \<and> take_turns (client_program lib g) us (con, w, d) = Some cfg \<longrightarrow>
      length us \<le> to_do (client_program lib g) con + client_remaining w)"
proof -
  have s: "client.sound TYPE('a) lib g c (con, w, d)"
    by (rule client.sound_turns [OF _ assms(3)]) (simp add: assms(2))
  have "client_ok d" using s by (cases con) simp_all
  moreover have "w = Looping Left \<and> client_closed d" if "con = Doing []"
    using client.ended [of lib g c w d] s client_closed_at_end [OF assms(1)] that by (simp add: client_program_def)
  moreover have "length (filter ((=) Console) ts) \<le> length lines + 11"
    using client.console_turns [OF assms(3)] by (simp add: client_program_def client_end_def)
  moreover have "length us \<le> to_do (client_program lib g) con + client_remaining w"
    if "\<not> ep_IsOpen (cl_poller d)" "take_turns (client_program lib g) us (con, w, d) = Some cfg" for us cfg
    using client.few_turns [OF s that(1) _ that(2)] by simp
  ultimately show ?thesis using client_moves [OF s] by blast
qed

lemma example_client_ok: "client_ok example_client"
  by (simp add: client_ok_def example_client_def Client_init_def table_ok_init)

text \<open>The worker is between its two tests of the client's flags when \<open>Shutdown\<close> begins.\<close>

definition example_schedule :: "turn list" where
  "example_schedule = [Worker example_round, Console, Console, Worker example_round] @ replicate 9 Console"

theorem client_program_ends_witness:
  "\<exists>d. take_turns (client_program toy hs_constants_start) example_schedule (Reading [''q''], Starting, example_client) =
      Some (Doing [], Looping Left, d) \<and> client_ok d \<and> client_closed d"
proof -
  have "\<exists>d. take_turns (client_program toy hs_constants_start) example_schedule (Reading [''q''], Starting, example_client) =
      Some (Doing [], Looping Left, d)"
    by (simp add: example_schedule_def client_program_def client_end_def example_client_def Client_init_def numeral_eq_Suc)
  then show ?thesis using client_program_ends [OF example_client_started example_client_ok] by fastforce
qed

text \<open>
  C11. The server joins first: however the two threads take turns, as long as its worker is in the loop the
  socket, the device and the poller are those of \<open>Init\<close>, and open, so no event is handled on anything closed. When
  \<open>main\<close> returns the worker has left and everything is closed; until then a thread can move; and once \<open>running_\<close> is
  false, with a kernel that reports no more events than it has room for, only a bounded number of turns is left.
\<close>

theorem server_uses_nothing_closed:
  assumes "server_started s" and "server_ok s" and "sv_worker s"
    and "take_turns (server_program lib g) ts (Reading lines, Testing (replicate 8 PollEvent_init), s) = Some (con, w, t)"
  shows "(w \<noteq> Left \<longrightarrow> sv_socket t = sv_socket s \<and> UdpSocket.IsOpen (sv_socket t) \<and> ep_IsOpen (sv_poller t) \<and>
      sv_tun t = sv_tun s \<and> sv_use_tun t = tun_IsOpen (sv_tun t)) \<and>
    server_ok t \<and> (con = Doing [] \<longrightarrow> w = Left \<and> server_closed t) \<and>
    (\<forall>r. con \<noteq> Doing [] \<and> (\<forall>i. used t < card (offered (fst (pr_io r i)))) \<longrightarrow>
      (\<exists>a \<in> {Console, Worker r}. take_turn (server_program lib g) a (con, w, t) \<noteq> None)) \<and>
    length (filter ((=) Console) ts) \<le> length lines + 11 \<and>
    (\<forall>us cfg. \<not> sv_running t \<and> (\<forall>r. Worker r \<in> set us \<longrightarrow> kernel_bound r) \<and>
      take_turns (server_program lib g) us (con, w, t) = Some cfg \<longrightarrow>
      length us \<le> to_do (server_program lib g) con + server_remaining w)"
proof -
  have s: "server.sound TYPE('a) lib g s (con, w, t)"
    by (rule server.sound_turns [OF _ assms(4)]) (simp add: assms(2))
  have "server_ok t" using s by (cases con) simp_all
  moreover have "w = Left \<and> server_closed t" if "con = Doing []"
    using server.ended [of lib g s w t] s server_closed_at_end [OF assms(1,3)] that by (simp add: server_program_def)
  moreover have "length (filter ((=) Console) ts) \<le> length lines + 11"
    using server.console_turns [OF assms(4)] by (simp add: server_program_def server_end_def)
  moreover have "length us \<le> to_do (server_program lib g) con + server_remaining w"
    if "\<not> sv_running t" "\<forall>r. Worker r \<in> set us \<longrightarrow> kernel_bound r"
      "take_turns (server_program lib g) us (con, w, t) = Some cfg" for us cfg
    using server.few_turns [OF s that(1) that(2) that(3)] .
  moreover have "sv_socket t = sv_socket s \<and> UdpSocket.IsOpen (sv_socket t) \<and> ep_IsOpen (sv_poller t) \<and>
      sv_tun t = sv_tun s \<and> sv_use_tun t = tun_IsOpen (sv_tun t)" if "w \<noteq> Left"
    using server_before_join [OF s that] assms(1) by (simp add: server_started_def)
  ultimately show ?thesis using server_moves [OF s] by blast
qed

lemma example_running: "server_started (snd (sv_Run example_server)) \<and> server_ok (snd (sv_Run example_server)) \<and>
    sv_worker (snd (sv_Run example_server))"
  by (simp add: server_started_def server_ok_def example_server_def Server_init_def sv_Run_def table_ok_init
      sm.keys_of_ops open_defs)

theorem server_uses_nothing_closed_witness:
  "(\<exists>con w t. take_turns (server_program toy hs_constants_start) [Console, Console, Worker example_round]
      (Reading [''q''], Testing (replicate 8 PollEvent_init), snd (sv_Run example_server)) = Some (con, w, t) \<and>
      w \<noteq> Left \<and> UdpSocket.IsOpen (sv_socket t) \<and> ep_IsOpen (sv_poller t)) \<and>
   (\<exists>t. take_turns (server_program toy hs_constants_start) ([Console, Console, Console, Worker example_round] @ replicate 8 Console)
      (Reading [''q''], Testing (replicate 8 PollEvent_init), snd (sv_Run example_server)) = Some (Doing [], Left, t) \<and>
      server_ok t \<and> server_closed t)"
proof -
  have eight: "replicate 8 Console = [Console, Console, Console, Console, Console, Console, Console, Console]"
    by (simp add: numeral_eq_Suc)
  note program = server_program_def server_end_def server_loop_def example_server_def Server_init_def sv_Run_def
  have "\<exists>con w t. take_turns (server_program toy hs_constants_start) [Console, Console, Worker example_round]
      (Reading [''q''], Testing (replicate 8 PollEvent_init), snd (sv_Run example_server)) = Some (con, w, t) \<and> w \<noteq> Left"
    by (simp add: program)
  moreover have "\<exists>t. take_turns (server_program toy hs_constants_start) ([Console, Console, Console, Worker example_round] @ replicate 8 Console)
      (Reading [''q''], Testing (replicate 8 PollEvent_init), snd (sv_Run example_server)) = Some (Doing [], Left, t)"
    by (simp add: program eight)
  ultimately show ?thesis using server_uses_nothing_closed [of "snd (sv_Run example_server)"] example_running by metis
qed

end
