(* ===== verification/Timer.thy ===== *)
theory Timer
  imports IPv4 "HOL-Library.Log_Nat"
begin

text \<open>
  \<open>core/utils/timer.hpp\<close>: a stopwatch that counts nanoseconds (what \<open>duration_cast\<close>
  leaves of the clock's time points) and prints them in a unit of their size. The quotients
  it prints are numbers of type \<open>double\<close>: a significand of 53 bits over a power of two, each operation rounded to
  nearest and ties to even. Only positive quotients of at least one occur, so neither underflow nor the sign
  is modelled; a double is a pair of the significand \<open>m\<close> and the exponent \<open>s\<close>, for \<open>m / 2\<^sup>s\<close>.
\<close>

record Timer =
  tm_start :: int
  tm_end :: int

definition Timer_init :: Timer where "Timer_init = \<lparr>tm_start = 0, tm_end = 0\<rparr>"

definition tm_Start :: "int \<Rightarrow> Timer \<Rightarrow> Timer" where "tm_Start now t = t\<lparr>tm_start := now\<rparr>"
definition tm_Stop :: "int \<Rightarrow> Timer \<Rightarrow> Timer" where "tm_Stop now t = t\<lparr>tm_end := now\<rparr>"
definition Elapsed :: "Timer \<Rightarrow> int" where "Elapsed t = tm_end t - tm_start t"

section \<open>Doubles\<close>

definition div_even :: "nat \<Rightarrow> nat \<Rightarrow> nat" where
  "div_even a b =
     (let q = a div b; r = a mod b in
      if 2 * r < b then q else if 2 * r > b then q + 1 else if even q then q else q + 1)"

definition double_of :: "nat \<Rightarrow> nat" where
  "double_of n = (let k = floorlog 2 n - 53 in div_even n (2 ^ k) * 2 ^ k)"

definition double_div :: "nat \<Rightarrow> nat \<Rightarrow> nat \<times> nat" where
  "double_div a b = (let s = 53 - floorlog 2 (a div b) in (div_even (a * 2 ^ s) b, s))"

text \<open>\<open>std::to_string\<close> of a double prints six decimals of its exact value, rounded.\<close>

definition six_digits :: "nat \<Rightarrow> string" where
  "six_digits n = map (\<lambda>k. char_of (48 + n div 10 ^ k mod 10)) [5, 4, 3, 2, 1, 0]"

definition micros_text :: "nat \<Rightarrow> string" where
  "micros_text n = decimal (n div 1000000) @ ''.'' @ six_digits (n mod 1000000)"

definition to_string_double :: "nat \<times> nat \<Rightarrow> string" where
  "to_string_double d = (case d of (m, s) \<Rightarrow> micros_text (div_even (m * 1000000) (2 ^ s)))"

definition to_string_int :: "int \<Rightarrow> string" where
  "to_string_int n = (if n < 0 then ''-'' else []) @ decimal (nat \<bar>n\<bar>)"

definition ElapsedStr :: "Timer \<Rightarrow> string" where
  "ElapsedStr t =
     (let ns = Elapsed t in
      if ns < 1000 then to_string_int ns @ '' ns''
      else if ns < 1000000 then to_string_double (double_div (double_of (nat ns)) 1000) @ '' us''
      else if ns < 1000000000 then to_string_double (double_div (double_of (nat ns)) 1000000) @ '' ms''
      else to_string_double (double_div (double_of (nat ns)) 1000000000) @ '' s'')"

section \<open>Rounding\<close>

lemma div_even_error:
  assumes "b > 0"
  shows "2 * a \<le> 2 * (div_even a b * b) + b" and "2 * (div_even a b * b) \<le> 2 * a + b"
proof -
  define q r where "q = a div b" and "r = a mod b"
  have a: "a = q * b + r" "r < b" and up: "(q + 1) * b = q * b + b"
    using assms by (simp_all add: q_def r_def)
  have "div_even a b = q \<and> 2 * r \<le> b \<or> div_even a b = q + 1 \<and> b \<le> 2 * r"
    unfolding div_even_def Let_def q_def [symmetric] r_def [symmetric] by auto
  then show "2 * a \<le> 2 * (div_even a b * b) + b" "2 * (div_even a b * b) \<le> 2 * a + b"
    using a up by (elim disjE conjE; simp)+
qed

lemma div_even_eqI:
  assumes "2 * (n * b) < 2 * a + b" and "2 * a < 2 * (n * b) + b"
  shows "div_even a b = n"
proof -
  have b: "b > 0" using assms by (cases b) auto
  note e = div_even_error [OF b, of a]
  have "div_even a b * b < (n + 1) * b" "n * b < (div_even a b + 1) * b"
    using e assms unfolding add_mult_distrib by simp_all
  then have "div_even a b < n + 1" "n < div_even a b + 1" using mult_less_cancel2 by blast+
  then show ?thesis by simp
qed

lemma double_of_small: "n < 2 ^ 53 \<Longrightarrow> double_of n = n"
proof -
  assume "n < 2 ^ 53"
  then have "floorlog 2 n \<le> 53" by (simp add: floorlog_leI)
  then show ?thesis by (auto simp: double_of_def intro!: div_even_eqI)
qed

lemma double_div_error:
  assumes "b > 0" and "a < 2 ^ k * b" and "double_div a b = (m, s)"
  shows "2 * (a * 2 ^ s) \<le> 2 * (m * b) + b" and "2 * (m * b) \<le> 2 * (a * 2 ^ s) + b" and "53 - k \<le> s"
proof -
  have m: "m = div_even (a * 2 ^ s) b" and s: "s = 53 - floorlog 2 (a div b)"
    using assms(3) by (auto simp: double_div_def Let_def)
  show "2 * (a * 2 ^ s) \<le> 2 * (m * b) + b" "2 * (m * b) \<le> 2 * (a * 2 ^ s) + b"
    unfolding m by (rule div_even_error [OF assms(1)])+
  have "a div b < 2 ^ k" using assms(1,2) by (simp add: less_mult_imp_div_less)
  then have "floorlog 2 (a div b) \<le> k" by (simp add: floorlog_leI)
  then show "53 - k \<le> s" unfolding s by simp
qed

section \<open>What is printed\<close>

text \<open>Below a second the printed decimals are the elapsed time exactly.\<close>

lemma print_exact:
  assumes "b > 0" and "a < 2 ^ 10 * b" and "b * c = 1000000"
  shows "to_string_double (double_div a b) = micros_text (a * c)"
proof -
  obtain m s where d: "double_div a b = (m, s)" by fastforce
  note e = double_div_error [OF assms(1,2) d]
  have "(2 :: nat) ^ 43 \<le> 2 ^ s" using e(3) by (intro power_increasing) simp_all
  then have big: "b * c < 2 ^ s" using assms(3) by simp
  have "2 * (a * 2 ^ s) * c \<le> (2 * (m * b) + b) * c" "2 * (m * b) * c \<le> (2 * (a * 2 ^ s) + b) * c"
    using e(1,2) by (intro mult_right_mono; simp)+
  then have "2 * (a * c * 2 ^ s) \<le> 2 * (m * (b * c)) + b * c" "2 * (m * (b * c)) \<le> 2 * (a * c * 2 ^ s) + b * c"
    by (simp_all add: algebra_simps)
  then have "div_even (m * (b * c)) (2 ^ s) = a * c" using big by (intro div_even_eqI) linarith+
  then show ?thesis by (simp add: d to_string_double_def assms(3))
qed

text \<open>From a second on it is the nearest microsecond.\<close>

lemma print_nearest:
  assumes "a < 2 ^ 23 * 1000000000"
  shows "\<exists>n. to_string_double (double_div a 1000000000) = micros_text n \<and> \<bar>1000 * int n - int a\<bar> \<le> 500"
proof -
  obtain m s where d: "double_div a 1000000000 = (m, s)" by fastforce
  note e = double_div_error [OF _ assms d]
  let ?n = "div_even (m * 1000000) (2 ^ s)" and ?p = "2 ^ s :: nat"
  have big: "1000000000 < ?p"
    using power_increasing [of 30 s "2 :: nat"] e(3) by simp
  note f = div_even_error [of ?p "m * 1000000"]
  have "2 * (1000 * ?n * ?p) \<le> 2 * (a * ?p) + 1000000000 + 1000 * ?p" using e(2) f(2) by (simp add: algebra_simps)
  also have "\<dots> < (2 * a + 1001) * ?p" using big by (simp add: algebra_simps)
  finally have upper: "2 * (1000 * ?n) < 2 * a + 1001" by (simp add: mult.assoc [symmetric] del: mult.assoc)
  have "2 * (a * ?p) \<le> 2 * (1000 * ?n * ?p) + 1000000000 + 1000 * ?p" using e(1) f(1) by (simp add: algebra_simps)
  also have "\<dots> < (2 * (1000 * ?n) + 1001) * ?p" using big by (simp add: algebra_simps)
  finally have lower: "2 * a < 2 * (1000 * ?n) + 1001" by (simp add: mult.assoc [symmetric] del: mult.assoc)
  have "\<bar>1000 * int ?n - int a\<bar> \<le> 500" using upper lower by linarith
  then show ?thesis by (intro exI [of _ ?n]) (simp add: d to_string_double_def)
qed

text \<open>
  The text is the elapsed time: in nanoseconds exactly, in microseconds and milliseconds exactly, with an
  integer part below 1000, and from one second up to 97 days rounded to the nearest microsecond.
\<close>

lemma ElapsedStr_correct:
  fixes a :: nat
  assumes "Elapsed t = int a" and "a < 2 ^ 23 * 1000000000"
  shows "if a < 1000 then ElapsedStr t = decimal a @ '' ns''
    else if a < 1000000 then ElapsedStr t = micros_text (a * 1000) @ '' us''
    else if a < 1000000000 then ElapsedStr t = micros_text a @ '' ms''
    else \<exists>n. ElapsedStr t = micros_text n @ '' s'' \<and> \<bar>1000 * int n - int a\<bar> \<le> 500"
proof -
  have d: "double_of a = a" using assms(2) by (intro double_of_small) simp
  show ?thesis
    using print_exact [of 1000 a 1000] print_exact [of 1000000 a 1] print_nearest [OF assms(2)]
    by (auto simp: ElapsedStr_def Let_def assms(1) d to_string_int_def)
qed

end
