(* ===== verification/Routes.thy ===== *)
theory Routes
  imports Tunnel
begin

text \<open>
  The server between several clients: what its routes are after any history of transport datagrams, from whatever
  sessions and addresses, and whom a packet from its device therefore reaches. No code is modelled here.
\<close>

section \<open>A history of transport datagrams\<close>

type_synonym arrival = "node_env \<times> bytes \<times> Endpoint"

definition sv_transports :: "'k crypto \<Rightarrow> arrival list \<Rightarrow> Server \<Rightarrow> Server" where
  "sv_transports lib xs s = foldl (\<lambda>s (env, data, sender). sv_HandleTransport lib env data sender s) s xs"

text \<open>What of it is accepted: for each accepted packet the session and the plaintext.\<close>

fun accepted_run :: "'k crypto \<Rightarrow> arrival list \<Rightarrow> SessionTable \<Rightarrow> (u32 \<times> bytes) list" where
  "accepted_run lib [] t = []"
| "accepted_run lib ((env, data, sender) # xs) t =
     (case accepted_packet lib t data of
        None \<Rightarrow> accepted_run lib xs t
      | Some (i, n, p) \<Rightarrow> (i, p) # accepted_run lib xs (after_packet (ne_now env) t i n))"

definition source_is :: "u32 \<Rightarrow> bytes \<Rightarrow> bool" where
  "source_is ip p = (case ParseSrcIP p of None \<Rightarrow> False | Some a \<Rightarrow> ToHostOrder a = ip)"

text \<open>The session of the last accepted packet with the source address \<open>ip\<close>.\<close>

fun last_from :: "u32 \<Rightarrow> (u32 \<times> bytes) list \<Rightarrow> u32 option" where
  "last_from ip [] = None"
| "last_from ip ((i, p) # acc) =
     (case last_from ip acc of Some j \<Rightarrow> Some j | None \<Rightarrow> if source_is ip p then Some i else None)"

lemma learned_source: "learned routes i p ip = (if source_is ip p then Some i else routes ip)"
  by (auto simp: learned_def source_is_def split: option.split)

lemma source_is_nonempty: "source_is ip p \<Longrightarrow> p \<noteq> []"
  by (auto simp: source_is_def ParseSrcIP_def split: if_splits)

text \<open>One datagram, field by field.\<close>

lemma transport_fields:
  assumes "s' = sv_HandleTransport lib env data sender s"
  shows "sv_sent s' = sv_sent s" "sv_tun s' = sv_tun s" "sv_use_tun s' = sv_use_tun s"
    "sv_tun_buffer s' = sv_tun_buffer s" "sv_socket s' = sv_socket s"
    "sv_sessions s' = (case accepted_packet lib (sv_sessions s) data of None \<Rightarrow> sv_sessions s
      | Some (i, n, p) \<Rightarrow> after_packet (ne_now env) (sv_sessions s) i n)"
    "sv_ip_to_session s' ip = (case accepted_packet lib (sv_sessions s) data of None \<Rightarrow> sv_ip_to_session s ip
      | Some (i, n, p) \<Rightarrow> if source_is ip p then Some i else sv_ip_to_session s ip)"
    "sv_use_tun s \<and> tun_IsOpen (sv_tun s) \<Longrightarrow> sv_tun_out s' = sv_tun_out s @
      (case accepted_packet lib (sv_sessions s) data of None \<Rightarrow> [] | Some (i, n, p) \<Rightarrow> if p = [] then [] else [p])"
  unfolding assms sv_HandleTransport_eq
  by (auto simp: Let_def learn_route_eq learned_source source_is_nonempty split: option.split)

definition server_static where
  "server_static s = (sv_sent s, sv_tun s, sv_use_tun s, sv_tun_buffer s, sv_socket s)"

lemma transports_static: "server_static (sv_transports lib xs s) = server_static s"
proof (induction xs arbitrary: s)
  case (Cons x xs)
  obtain env data sender where x: "x = (env, data, sender)" by (cases x)
  have "server_static (sv_HandleTransport lib env data sender s) = server_static s"
    by (simp add: server_static_def transport_fields(1-5) [OF refl])
  then show ?case using Cons.IH by (simp add: sv_transports_def x)
qed (simp add: sv_transports_def)

lemma transports_routes:
  "sv_ip_to_session (sv_transports lib xs s) ip =
     (case last_from ip (accepted_run lib xs (sv_sessions s)) of None \<Rightarrow> sv_ip_to_session s ip | Some i \<Rightarrow> Some i)"
proof (induction xs arbitrary: s)
  case (Cons x xs)
  obtain env data sender where x: "x = (env, data, sender)" by (cases x)
  let ?s = "sv_HandleTransport lib env data sender s"
  have "sv_transports lib (x # xs) s = sv_transports lib xs ?s" by (simp add: sv_transports_def x)
  then show ?case
    using Cons.IH [of ?s] transport_fields(6) [OF refl, of lib env data sender s]
      transport_fields(7) [OF refl, of lib env data sender s ip]
    by (auto simp: x split: option.split)
qed (simp add: sv_transports_def)

lemma transports_out:
  assumes "sv_use_tun s \<and> tun_IsOpen (sv_tun s)"
  shows "sv_tun_out (sv_transports lib xs s) =
     sv_tun_out s @ filter (\<lambda>p. p \<noteq> []) (map snd (accepted_run lib xs (sv_sessions s)))"
  using assms
proof (induction xs arbitrary: s)
  case (Cons x xs)
  obtain env data sender where x: "x = (env, data, sender)" by (cases x)
  let ?s = "sv_HandleTransport lib env data sender s"
  have "sv_transports lib (x # xs) s = sv_transports lib xs ?s" by (simp add: sv_transports_def x)
  moreover have "sv_use_tun ?s \<and> tun_IsOpen (sv_tun ?s)"
    using Cons.prems transport_fields(2,3) [OF refl, of lib env data sender s] by simp
  ultimately show ?case
    using Cons.IH [of ?s] Cons.prems transport_fields(6,8) [where s = s and lib = lib and env = env and data = data and sender = sender, OF refl]
    by (auto simp: x split: option.split)
qed (simp add: sv_transports_def)

section \<open>Property\<close>

text \<open>
  C9. An inner address belongs to whoever used it last. After any history of transport datagrams, the server has
  written out the accepted plaintexts in order, and has routed each address to the session of the last accepted packet
  that gave it as its source, whichever client held it before; the next packet from the device for that address
  leaves sealed for that session, to its peer and to no other. Nothing ties a session to the addresses it may use.
\<close>

theorem address_follows_last_sender:
  assumes "crypto_laws lib" and "sv_use_tun s \<and> tun_IsOpen (sv_tun s)" and "UdpSocket.IsOpen (sv_socket s)"
    and "last_from (ToHostOrder a) (accepted_run lib xs (sv_sessions s)) = Some j"
    and "sm_Lookup (sv_sessions (sv_transports lib xs s)) j = Some y"
    and "unat (ss_send_nonce y) < unat kRejectAfterMessages"
    and "length (sv_tun_buffer s) = 4096" and "length p \<le> 4096" and "ParseDstIP p = Some a"
  shows "let acc = accepted_run lib xs (sv_sessions s); s' = sv_transports lib xs s in
    sv_tun_out s' = sv_tun_out s @ filter (\<lambda>p. p \<noteq> []) (map snd acc) \<and>
    (\<forall>ip. sv_ip_to_session s' ip = (case last_from ip acc of None \<Rightarrow> sv_ip_to_session s ip | Some i \<Rightarrow> Some i)) \<and>
    sv_sent (sv_HandleTunRead lib env (tun_io p) s') = sv_sent s @ [(endpoint_sockaddr (ss_peer y), packet lib y p)]"
proof -
  let ?s = "sv_transports lib xs s"
  have f: "sv_sent ?s = sv_sent s" "sv_tun ?s = sv_tun s" "sv_tun_buffer ?s = sv_tun_buffer s" "sv_socket ?s = sv_socket s"
    using transports_static [of lib xs s] by (simp_all add: server_static_def)
  have route: "sv_ip_to_session ?s (ToHostOrder a) = Some j" by (simp add: transports_routes assms(4))
  have "sv_sent (sv_HandleTunRead lib env (tun_io p) ?s) = sv_sent ?s @ [(endpoint_sockaddr (ss_peer y), packet lib y p)]"
    using assms f by (subst server_reads [OF assms(1,5) _ _ _ assms(8) _ assms(9) route, of 0]) simp_all
  then show ?thesis using f(1) transports_out [OF assms(2), of lib xs] transports_routes [of lib xs s] by (simp add: Let_def)
qed

text \<open>Two clients with one inner address: the second takes it from the first.\<close>

definition two_clients :: Server where
  "two_clients = example_server\<lparr>sv_sessions :=
     sm_store (sm_store SessionManager_init 9 (linked_session [2] [1] 9 4)) 8 (linked_session [3] [5] 8 6)\<rparr>"

definition two_arrivals :: "arrival list" where
  "two_arrivals = map (\<lambda>x. (example_env [], packet toy x ping, endpoint_of \<lparr>sin_addr = [10, 0, 0, 9], sin_port = [0, 1]\<rparr>))
     [linked_session [1] [2] 4 9, linked_session [5] [3] 6 8]"

lemma two_accepted:
  shows "accepted_packet toy (sv_sessions two_clients) (packet toy (linked_session [1] [2] 4 9) ping) = Some (9, 0, ping)"
    and "accepted_packet toy (after_packet now (sv_sessions two_clients) 9 0) (packet toy (linked_session [5] [3] 6 8) ping) =
      Some (8, 0, ping)"
proof -
  let ?t = "sv_sessions two_clients" and ?x = "linked_session [1] [2] 4 9" and ?z = "linked_session [5] [3] 6 8"
  note session = linked_session_def send_link_def Session_init_def kReject_value word_less_nat_alt
  show "accepted_packet toy ?t (packet toy ?x ping) = Some (9, 0, ping)"
    using packet_accepted [OF toy_crypto_laws, of ?x "linked_session [2] [1] 9 4" ?t ping]
    by (simp add: two_clients_def sm_Lookup_store session)
  have "sm_Lookup (after_packet now ?t 9 0) 8 = Some (linked_session [3] [5] 8 6)"
    by (simp add: after_packet_def two_clients_def sm_Lookup_store)
  then show "accepted_packet toy (after_packet now ?t 9 0) (packet toy ?z ping) = Some (8, 0, ping)"
    using packet_accepted [OF toy_crypto_laws, of ?z "linked_session [3] [5] 8 6" "after_packet now ?t 9 0" ping]
    by (simp add: session)
qed

lemma two_run: "accepted_run toy two_arrivals (sv_sessions two_clients) = [(9, ping), (8, ping)]"
  by (simp add: two_arrivals_def two_accepted)

lemma two_session:
  "sm_Lookup (sv_sessions (sv_transports toy two_arrivals two_clients)) 8 = Some (opened_one 1 0 (linked_session [3] [5] 8 6))"
  by (simp add: two_arrivals_def sv_transports_def transport_fields(6) [OF refl] two_accepted)
    (simp add: after_packet_def two_clients_def sm_Lookup_store opened_one_def example_env_def)

theorem address_follows_last_sender_witness:
  "let y = opened_one 1 0 (linked_session [3] [5] 8 6) in
   sv_sent (sv_HandleTunRead toy (example_env []) (tun_io pong) (sv_transports toy two_arrivals two_clients)) =
     [(endpoint_sockaddr (ss_peer y), packet toy y pong)]"
proof -
  have a: "ParseDstIP pong = Some (IPv4_octets 10 0 0 2)" and ping: "source_is (ToHostOrder (IPv4_octets 10 0 0 2)) ping"
    by (simp_all add: ping_def pong_def source_is_def ParseSrcIP_def ParseDstIP_def nth_append numeral_eq_Suc)
  have s: "sv_use_tun two_clients \<and> tun_IsOpen (sv_tun two_clients)" "UdpSocket.IsOpen (sv_socket two_clients)"
    "length (sv_tun_buffer two_clients) = 4096" "sv_sent two_clients = []"
    by (simp_all add: two_clients_def example_server_def Server_init_def open_defs)
  show ?thesis
    using address_follows_last_sender [OF toy_crypto_laws s(1,2) _ two_session _ s(3) _ a] ping s(4)
    by (simp add: two_run Let_def opened_one_def linked_session_def Session_init_def kReject_value) (simp add: pong_def)
qed

end
