(* ===== verification/Spec2Isabelle.thy ===== *)
theory Spec2Isabelle
  imports HandshakeTypes SessionManager SipHash HandshakeTimer TunDevice EventPoller Platforms Programs Logger RandomBytes Blake3Link
    Blake3Dispatch ThreadEnds Timer Routes
begin

text \<open>
  Verification of PostQuantumVPN ("Quantum Edge"), a point-to-point VPN whose handshake is
  the Noise IK pattern of WireGuard with ML-KEM-768 added to every X25519 exchange, BLAKE3 in
  place of BLAKE2s and ChaCha20-Poly1305 for records. The C++ sources are under \<open>src/\<close>.

  The program. A client (\<open>client/client.cpp\<close>) and a server (\<open>server/server.cpp\<close>) each run one event
  loop: \<open>EventPoller\<close> waits on a UDP socket and a tunnel device, the first byte of a datagram
  selects a handler, and a tick after every round sends keepalives and drops expired sessions.
  The handlers call the handshake processor (\<open>core/handshake/\<close>), which works on a \<open>Peer\<close> and an
  index table and ends in a keypair; the keypair becomes a session (\<open>core/session/\<close>), which
  seals and opens packets and filters replays. The two programs read their configuration and
  keys from text files (\<open>core/config/\<close>) before that.

  Theories, from the bottom up. \<open>Prelude\<close>: byte strings, buffers addressed by offset, the
  association-store interface, and the collections of rewrite rules. \<open>BitUtils\<close>, \<open>Tai64n\<close>, \<open>SipHash\<close>,
  \<open>RandomBytes\<close>, \<open>Logger\<close>, \<open>Timer\<close>: \<open>core/utils/\<close> and the hasher. \<open>ReplayWindow\<close>, \<open>Session\<close>, \<open>SessionManager\<close>:
  \<open>core/session/\<close>. \<open>CryptoLib\<close>: the wrappers of \<open>core/cryptography/\<close>. \<open>HandshakeMessages\<close>,
  \<open>HandshakeHelpers\<close>, \<open>Keypair\<close>, \<open>IndexTable\<close>, \<open>Peer\<close>, \<open>HandshakeTimer\<close>, \<open>HandshakeProcessor\<close>:
  the files of \<open>core/handshake/\<close> of those names. \<open>IPv4\<close>, \<open>UdpSocket\<close>, \<open>TunDevice\<close>, \<open>EventPoller\<close>:
  \<open>core/network/\<close> with the back ends of \<open>core/os/linux/\<close>, those the other theories build on; \<open>MacOS\<close>
  and \<open>Windows\<close>: the other two back ends. \<open>Blake3Compress\<close>, \<open>Blake3Bits\<close>,
  \<open>Blake3Chunk\<close>, \<open>Blake3Tree\<close>, \<open>Blake3Hasher\<close>: the hash library in \<open>libs/blake3/\<close>, from the compression
  function to the incremental hasher; \<open>Blake3Vector\<close>, \<open>Blake3Lanes\<close>, \<open>Blake3Rows\<close>: what its vectorised files share
  (the intrinsics, several inputs at once, one block in rows); \<open>Blake3Sse\<close>, \<open>Blake3Avx2\<close>, \<open>Blake3Avx512\<close>,
  \<open>Blake3Neon\<close>: those files; \<open>Blake3Dispatch\<close>: the choice among them. \<open>TextFile\<close>, \<open>KeyConfig\<close>, \<open>NodeConfig\<close>:
  the files the programs read. \<open>VpnNode\<close>, \<open>Client\<close>, \<open>Server\<close>: the two nodes. \<open>Programs\<close>: the two
  \<open>main\<close> functions up to their event loops; \<open>Threads\<close>: from there on, the thread in the event loop beside the one at
  the console. Each class is a record with the fields of the
  source, each enum a datatype, each member function a definition of the same name (with a
  prefix \<open>cl_\<close>, \<open>sv_\<close>, \<open>ep_\<close>, \<open>wpo_\<close>, \<open>tun_\<close>, \<open>sm_\<close>, \<open>lg_\<close>, \<open>mac_\<close>, \<open>win_\<close>, \<open>tm_\<close> where two classes share one) that takes the
  state and returns it updated. Integers keep their width as words; optional results and early
  returns are options or pairs with a Boolean.

  The theories \<open>KeySchedule\<close>, \<open>HandshakeAgreement\<close>, \<open>HandshakeTraces\<close>, \<open>HandshakeTypes\<close>, \<open>Platforms\<close>, \<open>Blake3Correct\<close>,
  \<open>Blake3Link\<close>, \<open>Tunnel\<close>, \<open>Establish\<close>, \<open>Routes\<close> and \<open>ThreadEnds\<close> model no code (\<open>Blake3Link\<close> but one definition): they hold
  specifications and what components achieve together.
\<close>

text \<open>
  What is outside. OpenSSL and, for the handshake, BLAKE3 are a record of functions, \<open>'k crypto\<close>, passed to
  every definition that calls them. What the proofs need of them is the predicate \<open>crypto_laws\<close>:
  lengths of digests, decryption inverts encryption under the same key, nonce and data, both
  ends of a Diffie-Hellman exchange agree, decapsulation inverts encapsulation. Nothing is
  assumed about secrecy or about forged ciphertexts. \<open>ToyCrypto\<close> is a concrete library that
  satisfies these laws; the witnesses of the theorems compute with it. \<open>Blake3Link\<close> puts the
  repository's own BLAKE3 library in the place of that part of the record and discharges its laws. Clocks, random
  sources, seeds, system calls and the outcomes of file writes are arguments: a handler takes a
  \<open>node_env\<close> or \<open>hs_env\<close>, an initialisation an \<open>init_sys\<close>, a program a \<open>program_env\<close>. What the
  nodes hand to the kernel is appended to two logs in their state.

  Loops. The index search draws from a list of the random source's answers and is \<open>None\<close> when they
  are used up; theorems that say a handler returns assume that a free index is among them. The
  event loops run on a list of rounds, and their result says whether the loop has been left or only the list has ended:
  for the server it is proved when exactly the loop is left, and that every round comes to an end. As threads they run
  on a schedule, and a measure bounds what is left of them once they are to stop. A round begins with a wait, which
  gets the time limit of the code (250 ms for the client, the configured one for the server) and whose outcome
  is an argument; a wait that blocked for ever, which no limit but a negative one allows, would be a round that never comes.
  All other loops are structural recursions, or recursions with a proved measure.

  What the lemmas show. Cryptographic layer: the wire formats are exact and disjoint, the key
  derivation is one chain, the sealing and opening steps of the transcript invert each other,
  cookies verify exactly when current. Handshake: both sides of the processor implement one key
  schedule; an undisturbed run leaves both ends with crossed keys; over every history of calls,
  whatever the messages, the handlers follow the state machine, accept no initiation twice and keep
  every array at its declared size.
  Sessions: no nonce is used twice, no counter delivered twice, what is delivered was sent; the
  table of sessions is well formed under all operations. Nodes: Init brings up everything or
  nothing; the loops keep the invariants \<open>client_ok\<close> and \<open>server_ok\<close>, their rounds end and they are left when they
  should be; first messages only ever add sessions, though the server accepts replays of them. Composition: the transport
  handlers refine one specification; an established tunnel delivers in order and both ways every packet that
  fits a datagram and has somewhere to go, and nothing else; between several clients an inner address belongs to whoever
  used it last; two first starts, with the public file copied across, lead to an established tunnel. The one
  way a handshake between matching nodes fails is that the key derived from its own messages gives a transport key of
  zeros (\<open>good_key\<close>); the theorems name that key (\<open>answer_key\<close>) and say what happens then.
  The handshake timer, whose thread waits on a condition variable, is woken by every notification it needs.
  Threads: whatever turns the two threads take, \<open>Shutdown\<close> comes to an end with everything closed; the server
  closes nothing its worker still uses, the client does, and may overwrite its own stop.
  Back ends: the sockets agree but for one operation and the width of a Windows handle; the pollers report one
  event per handle. The hashes: SipHash and the compression function of BLAKE3 are the published ones, written down
  apart with their own constants and rounds; the chunk state, the subtree hashing with its batches of up to 16 lanes
  and the lazily merged stack compute the published tree for every way of cutting the input, and stay inside
  arrays whose sizes depend on the build (16, 4 or 1 lanes) and not on the processor; so the wrappers are the published
  hash. Each file of vector code computes what the portable code computes, so the processor makes no difference.

  Interfaces. Locales state what clients rely on, and each is interpreted where its provider is
  modelled: \<open>keyed_store\<close>, the laws of a table (the index table and the session table),
  \<open>wire_format\<close>, a serializer with its parser (the four messages), \<open>replay_filter\<close>, a window of
  counters (the bitmap), \<open>descriptor\<close>, an owner of a system handle (socket, poller, device, on each system),
  \<open>absorber\<close>, a state that takes its input in pieces (the chunk state and the hasher of BLAKE3), and \<open>two_threads\<close>,
  a program of a worker and a closing \<open>main\<close> (the client and the server). For the vectorised
  files: \<open>lane_ops\<close>, operations that work lane by lane, and over it \<open>vector_unit\<close>, what hashing several
  inputs needs of a file (transposition, counters, stores), \<open>xof_vector_unit\<close>, the same for several blocks of
  output, and \<open>row_unit\<close>, a blend for one block in rows; every instruction set is an interpretation.
\<close>

text \<open>
  Not modelled. Races finer than a statement: in \<open>Threads\<close> one statement of the loop or of \<open>Shutdown\<close> is atomic
  and memory sequentially consistent, and a wait for events does not see a close that happens meanwhile. The
  mutexes, which otherwise guard data one thread touches; the handshake timer's own thread is modelled, as a step
  relation over its critical sections and the notifications of its condition variable, with the time between a
  deadline and the thread's return from its wait left open. Log messages of the handlers, and the counters printed each second, beyond their effect on the state. The
  start-up of Winsock, the assembly that a build of BLAKE3 for x86-64 links in
  place of the C files with intrinsics, its optional parallel recursion, the prototypes under
  \<open>core/os/linux/tun_test/\<close>, scripts and tests.
\<close>

end
